(* ===== verification/Prelude.thy ===== *)
theory Prelude
  imports Main "HOL-Library.Word"
begin

text \<open>
  Shared vocabulary of the development: machine integers at the widths the Go sources use, the
  outcome of a Go call (a value, an error value, or a panic), the error variables of the
  repository, byte buffers with the big-endian encoding of \<^verbatim>\<open>encoding/binary\<close>, and the
  generic lemmas on lists, words and buffers that the components use.  The locale
  \<^verbatim>\<open>codec\<close> states what every encoder/decoder pair of the repository promises; it is
  interpreted here for the fixed-width integers and later for strings, identifiers, schemas and
  commands.
\<close>

section \<open>Machine integers\<close>

type_synonym u8 = "8 word"
type_synonym u16 = "16 word"
type_synonym u32 = "32 word"
type_synonym u64 = "64 word"
type_synonym bytes = "8 word list"

named_theorems wf_intros \<open>introduction rules for well-formedness invariants\<close>
named_theorems op_simps \<open>behaviour of the operations, branch by branch\<close>
named_theorems codec_simps \<open>evaluation of encoders and decoders\<close>

section \<open>Outcomes of a Go call\<close>

text \<open>
  The error variables of the sources (\<^verbatim>\<open>pkg/catalog/errors.go\<close>,
  \<^verbatim>\<open>pkg/iface/txnif/errors.go\<close>, \<^verbatim>\<open>pkg/iface/data/errors.go\<close>,
  \<^verbatim>\<open>pkg/txn/txnbase/errors.go\<close>, \<^verbatim>\<open>pkg/common\<close>) and the errors of
  the standard library that the code passes on.
\<close>

datatype go_error =
    ErrNotFound | ErrDuplicate | ErrValidation
  | TxnRollbacked | TxnRWConflictErr | TxnWWConflictErr
  | ErrTxnAlreadyCommitted | ErrTxnNotCommitting | ErrTxnNotRollbacking | ErrTxnNotActive
  | ErrTxnCannotRollback | ErrTxnNotFound | ErrTxnDifferentDatabase | ErrDuplicated | ErrTransferTransactionState
  | ErrAppendableSegmentNotFound | ErrAppendableBlockNotFound | ErrNotAppendable
  | ErrDuplicateNode | ErrNoEnoughSpace | VecTypeNotSupportErr
  | RangeNotContinousErr | RangeInvalidErr
  | ErrParseBlockFileName | ErrParseTBlockFileName | ErrParseSegmentFileName | ErrParseUint
  | ErrEOF | ErrUnexpectedEOF | ErrOther nat

text \<open>\<open>Ok\<close>: the call returned; \<open>Err\<close>: it returned a non-nil error; \<open>Panic\<close>: it panicked.\<close>

datatype 'a res = Ok 'a | Err go_error | Panic

fun res_bind :: "'a res \<Rightarrow> ('a \<Rightarrow> 'b res) \<Rightarrow> 'b res" where
  "res_bind (Ok x) f = f x"
| "res_bind (Err e) f = Err e"
| "res_bind Panic f = Panic"

lemma res_bind_eq_Ok [simp]: "res_bind r f = Ok y \<longleftrightarrow> (\<exists>x. r = Ok x \<and> f x = Ok y)"
  by (cases r) auto

lemma res_bind_assoc: "res_bind (res_bind r f) g = res_bind r (\<lambda>x. res_bind (f x) g)"
  by (cases r) auto

lemma res_bind_cong [fundef_cong]:
  "r = r' \<Longrightarrow> (\<And>x. r' = Ok x \<Longrightarrow> f x = f' x) \<Longrightarrow> res_bind r f = res_bind r' f'"
  by (cases r') auto

section \<open>Buffers and big-endian integers\<close>

text \<open>
  \<open>binary.Write(w, BigEndian, x)\<close> appends the bytes of \<open>x\<close>, most significant first;
  \<open>binary.Read(r, BigEndian, &x)\<close> consumes exactly the width of \<open>x\<close> and fails with
  \<open>io.EOF\<close> on an empty buffer and \<open>io.ErrUnexpectedEOF\<close> on a short one.
\<close>

fun be_bytes :: "nat \<Rightarrow> nat \<Rightarrow> bytes" where
  "be_bytes 0 x = []"
| "be_bytes (Suc k) x = word_of_nat (x div 256 ^ k) # be_bytes k x"

fun be_val :: "bytes \<Rightarrow> nat" where
  "be_val [] = 0"
| "be_val (b # bs) = unat b * 256 ^ length bs + be_val bs"

definition read_be :: "nat \<Rightarrow> bytes \<Rightarrow> (nat \<times> bytes) res" where
  "read_be k bs =
     (if k \<le> length bs then Ok (be_val (take k bs), drop k bs)
      else if bs = [] then Err ErrEOF else Err ErrUnexpectedEOF)"

text \<open>
  \<open>(*bytes.Buffer).Read(buf)\<close> with \<open>len(buf) = k\<close>: no error on a short buffer, the
  missing bytes keep the zero value of the freshly made slice.
\<close>

definition buf_read :: "nat \<Rightarrow> bytes \<Rightarrow> (bytes \<times> bytes) res" where
  "buf_read k bs =
     (if bs = [] \<and> k \<noteq> 0 then Err ErrEOF
      else Ok (take k bs @ replicate (k - length bs) 0, drop k bs))"

definition put_u8 :: "u8 \<Rightarrow> bytes" where "put_u8 x = be_bytes 1 (unat x)"
definition put_u16 :: "u16 \<Rightarrow> bytes" where "put_u16 x = be_bytes 2 (unat x)"
definition put_u32 :: "u32 \<Rightarrow> bytes" where "put_u32 x = be_bytes 4 (unat x)"
definition put_u64 :: "u64 \<Rightarrow> bytes" where "put_u64 x = be_bytes 8 (unat x)"

definition get_u8 :: "bytes \<Rightarrow> (u8 \<times> bytes) res" where
  "get_u8 bs = res_bind (read_be 1 bs) (\<lambda>(n, r). Ok (word_of_nat n, r))"
definition get_u16 :: "bytes \<Rightarrow> (u16 \<times> bytes) res" where
  "get_u16 bs = res_bind (read_be 2 bs) (\<lambda>(n, r). Ok (word_of_nat n, r))"
definition get_u32 :: "bytes \<Rightarrow> (u32 \<times> bytes) res" where
  "get_u32 bs = res_bind (read_be 4 bs) (\<lambda>(n, r). Ok (word_of_nat n, r))"
definition get_u64 :: "bytes \<Rightarrow> (u64 \<times> bytes) res" where
  "get_u64 bs = res_bind (read_be 8 bs) (\<lambda>(n, r). Ok (word_of_nat n, r))"

lemma length_be_bytes [simp]: "length (be_bytes k x) = k"
  by (induction k) auto

lemma be_val_be_bytes: "be_val (be_bytes k x) = x mod 256 ^ k"
proof (induction k)
  case 0
  show ?case by simp
next
  case (Suc k)
  have "be_val (be_bytes (Suc k) x) = (x div 256 ^ k) mod 256 * 256 ^ k + x mod 256 ^ k"
    by (simp add: Suc unat_of_nat)
  also have "\<dots> = x mod (256 ^ k * 256)"
    by (simp add: mod_mult2_eq)
  finally show ?case by (simp add: mult.commute)
qed

lemma read_be_bytes: "read_be k (be_bytes k x @ bs) = Ok (x mod 256 ^ k, bs)"
  by (simp add: read_be_def be_val_be_bytes)

lemma unat_less_width: "unat (a :: 'a::len word) < 2 ^ LENGTH('a)"
  by (rule unsigned_less)

lemma unat_mod_width:
  "unat (a :: u8) mod 256 ^ 1 = unat a"
  "unat (b :: u16) mod 256 ^ 2 = unat b"
  "unat (c :: u32) mod 256 ^ 4 = unat c"
  "unat (d :: u64) mod 256 ^ 8 = unat d"
  using unat_less_width [of a] unat_less_width [of b] unat_less_width [of c] unat_less_width [of d]
  by simp_all

lemma length_put [simp]:
  "length (put_u8 a) = 1" "length (put_u16 b) = 2" "length (put_u32 c) = 4" "length (put_u64 d) = 8"
  by (simp_all add: put_u8_def put_u16_def put_u32_def put_u64_def)

lemma get_put [simp, codec_simps]:
  "get_u8 (put_u8 a @ bs) = Ok (a, bs)"
  "get_u16 (put_u16 b @ bs) = Ok (b, bs)"
  "get_u32 (put_u32 c @ bs) = Ok (c, bs)"
  "get_u64 (put_u64 d @ bs) = Ok (d, bs)"
  unfolding get_u8_def put_u8_def get_u16_def put_u16_def get_u32_def put_u32_def get_u64_def put_u64_def
    read_be_bytes unat_mod_width
  by simp_all

lemma get_put_nil [simp, codec_simps]:
  "get_u8 (put_u8 a) = Ok (a, [])"
  "get_u16 (put_u16 b) = Ok (b, [])"
  "get_u32 (put_u32 c) = Ok (c, [])"
  "get_u64 (put_u64 d) = Ok (d, [])"
  using get_put [where bs = "[]"] by simp_all

lemma buf_read_append [simp, codec_simps]:
  "length xs = k \<Longrightarrow> buf_read k (xs @ bs) = Ok (xs, bs)"
  by (auto simp: buf_read_def)

lemma buf_read_exact [simp, codec_simps]: "length xs = k \<Longrightarrow> buf_read k xs = Ok (xs, [])"
  using buf_read_append [of xs k "[]"] by simp

section \<open>The contract of an encoder and its decoder\<close>

text \<open>
  A component that writes a value and reads it back promises the round trip on the values it
  calls valid, whatever follows in the buffer.  From that alone the encoding is injective and
  prefix-free, and a sequence of encodings decodes to the sequence of values.
\<close>

fun read_many :: "(bytes \<Rightarrow> ('a \<times> bytes) res) \<Rightarrow> nat \<Rightarrow> bytes \<Rightarrow> ('a list \<times> bytes) res" where
  "read_many d 0 bs = Ok ([], bs)"
| "read_many d (Suc n) bs =
     res_bind (d bs) (\<lambda>(x, r). res_bind (read_many d n r) (\<lambda>(xs, r'). Ok (x # xs, r')))"

locale codec =
  fixes enc :: "'a \<Rightarrow> bytes"
    and dec :: "bytes \<Rightarrow> ('a \<times> bytes) res"
    and valid :: "'a \<Rightarrow> bool"
  assumes dec_enc: "valid x \<Longrightarrow> dec (enc x @ bs) = Ok (x, bs)"
begin

lemma dec_enc_nil: "valid x \<Longrightarrow> dec (enc x) = Ok (x, [])"
  using dec_enc [of x "[]"] by simp

lemma enc_prefix_free:
  assumes "valid x" and "valid y" and "enc x @ a = enc y @ b"
  shows "x = y \<and> a = b"
proof -
  have "Ok (x, a) = dec (enc y @ b)"
    using dec_enc [OF assms(1), of a] by (simp only: assms(3))
  then show ?thesis using dec_enc [OF assms(2), of b] by simp
qed

lemma enc_inj: "valid x \<Longrightarrow> valid y \<Longrightarrow> enc x = enc y \<Longrightarrow> x = y"
  using enc_prefix_free [of x y "[]" "[]"] by simp

lemma read_many_concat:
  "\<forall>x \<in> set xs. valid x \<Longrightarrow> read_many dec (length xs) (concat (map enc xs) @ bs) = Ok (xs, bs)"
  by (induction xs) (auto simp: dec_enc)

end

interpretation c_u8: codec put_u8 get_u8 "\<lambda>_. True"
  by unfold_locales simp

interpretation c_u16: codec put_u16 get_u16 "\<lambda>_. True"
  by unfold_locales simp

interpretation c_u32: codec put_u32 get_u32 "\<lambda>_. True"
  by unfold_locales simp

interpretation c_u64: codec put_u64 get_u64 "\<lambda>_. True"
  by unfold_locales simp

section \<open>Words\<close>

lemma unat_plus_no_wrap:
  fixes a b :: "'a::len word"
  assumes "unat a + unat b < 2 ^ LENGTH('a)"
  shows "unat (a + b) = unat a + unat b"
  using assms by (simp add: unat_word_ariths)

text \<open>Adding \<open>^uint64(x-1)\<close> is the subtraction idiom of \<open>sync/atomic\<close>.\<close>

lemma add_not_minus_one:
  fixes a x :: "'a::len word"
  shows "a + not (x - 1) = a - x"
  by (simp add: not_eq_complement)

lemma unat_minus_le:
  fixes a b :: "'a::len word"
  assumes "unat b \<le> unat a"
  shows "unat (a - b) = unat a - unat b"
  using assms by (simp add: unat_sub word_le_nat_alt)

section \<open>Lists\<close>

lemma distinct_nth_inj:
  "distinct xs \<Longrightarrow> i < length xs \<Longrightarrow> j < length xs \<Longrightarrow> xs ! i = xs ! j \<longleftrightarrow> i = j"
  by (simp add: nth_eq_iff_index_eq)

lemma sum_list_remove1:
  fixes f :: "'a \<Rightarrow> nat"
  shows "x \<in> set xs \<Longrightarrow> sum_list (map f xs) = f x + sum_list (map f (remove1 x xs))"
  by (induction xs) auto

end
