(* ===== verification/Common_Base.thy ===== *)
theory Common_Base
  imports Prelude
begin

text \<open>
  The small shared objects of \<^verbatim>\<open>pkg/common\<close>: the reference counter
  (\<^verbatim>\<open>refs.go\<close>), the sequence number and identifier allocators
  (\<^verbatim>\<open>seqnum.go\<close>), closed ranges of log positions (\<^verbatim>\<open>range.go\<close>) and the
  in-place row deletion of \<^verbatim>\<open>hack.go\<close>.  The locale \<^verbatim>\<open>id_source\<close> is the
  contract of an identifier allocator; catalog and transaction manager rely on it.
\<close>

section \<open>Reference counts\<close>

text \<open>
  \<open>Refs\<close> is an \<open>int64\<close>.  The callback is a Go closure; the model keeps whether it is
  set, and an operation reports whether it ran the callback.
\<close>

record RefHelper =
  Refs :: u64
  OnZeroCB :: bool

definition RefCount :: "RefHelper \<Rightarrow> int" where
  "RefCount h = sint (Refs h)"

definition Ref :: "RefHelper \<Rightarrow> RefHelper" where
  "Ref h = h\<lparr>Refs := Refs h + 1\<rparr>"

definition Unref :: "RefHelper \<Rightarrow> (RefHelper \<times> bool) res" where
  "Unref h =
     (let v = Refs h + (- 1); h' = h\<lparr>Refs := v\<rparr>
      in if v = 0 then Ok (h', OnZeroCB h)
         else if sint v < 0 then Panic
         else Ok (h', False))"

text \<open>A client's use of a counter: \<open>True\<close> takes a reference, \<open>False\<close> gives one back.\<close>

fun ref_run :: "RefHelper \<Rightarrow> bool list \<Rightarrow> (RefHelper \<times> nat) res" where
  "ref_run h [] = Ok (h, 0)"
| "ref_run h (True # ops) = ref_run (Ref h) ops"
| "ref_run h (False # ops) =
     res_bind (Unref h) (\<lambda>(h', fired).
       res_bind (ref_run h' ops) (\<lambda>(h'', n). Ok (h'', n + (if fired then 1 else 0))))"

text \<open>The counter an ideal client sees: never below zero, and how often it returns to zero.\<close>

fun ref_balance :: "nat \<Rightarrow> bool list \<Rightarrow> (nat \<times> nat) option" where
  "ref_balance k [] = Some (k, 0)"
| "ref_balance k (True # ops) = ref_balance (Suc k) ops"
| "ref_balance 0 (False # ops) = None"
| "ref_balance (Suc k) (False # ops) =
     map_option (\<lambda>(m, z). (m, z + (if k = 0 then 1 else 0))) (ref_balance k ops)"

section \<open>Identifier allocators\<close>

definition NextGlobalSeqNum :: "u64 \<Rightarrow> u64 \<times> u64" where
  "NextGlobalSeqNum g = (g + 1, g + 1)"

record IdAlloctor =
  alloc_id :: u64

definition NewIdAlloctor :: "u64 \<Rightarrow> IdAlloctor res" where
  "NewIdAlloctor from = (if from = 0 then Panic else Ok \<lparr>alloc_id = from - 1\<rparr>)"

definition Alloc :: "IdAlloctor \<Rightarrow> u64 \<times> IdAlloctor" where
  "Alloc a = (alloc_id a + 1, a\<lparr>alloc_id := alloc_id a + 1\<rparr>)"

definition Get :: "IdAlloctor \<Rightarrow> u64" where
  "Get a = alloc_id a"

definition SetStart :: "IdAlloctor \<Rightarrow> u64 \<Rightarrow> IdAlloctor" where
  "SetStart a start = a\<lparr>alloc_id := start\<rparr>"

text \<open>\<open>n\<close> allocations in a row, in the order they are handed out.\<close>

fun alloc_many :: "('s \<Rightarrow> u64 \<times> 's) \<Rightarrow> nat \<Rightarrow> 's \<Rightarrow> u64 list \<times> 's" where
  "alloc_many al 0 s = ([], s)"
| "alloc_many al (Suc n) s =
     (let (i, s') = al s; (is, s'') = alloc_many al n s' in (i # is, s''))"

text \<open>The contract: the next identifier is one more than the last one handed out.\<close>

locale id_source =
  fixes alloc :: "'s \<Rightarrow> u64 \<times> 's"
    and current :: "'s \<Rightarrow> u64"
  assumes alloc_id: "fst (alloc s) = current s + 1"
    and alloc_current: "current (snd (alloc s)) = current s + 1"
begin

lemma alloc_many_current: "current (snd (alloc_many alloc n s)) = current s + of_nat n"
proof (induction n arbitrary: s)
  case (Suc n)
  show ?case
    using Suc [of "snd (alloc s)"] by (simp add: case_prod_unfold alloc_current Let_def add.assoc)
qed simp

lemma alloc_many_ids:
  "fst (alloc_many alloc n s) = map (\<lambda>k. current s + of_nat k) [1..<Suc n]"
proof (induction n arbitrary: s)
  case (Suc n)
  have "map (\<lambda>k. current s + (of_nat k :: u64)) [1..<Suc (Suc n)]
      = (current s + 1) # map (\<lambda>k. (current s + 1) + of_nat k) [1..<Suc n]"
    by (simp add: upt_conv_Cons map_Suc_upt [symmetric] add.assoc comp_def del: upt_Suc)
  then show ?case
    using Suc [of "snd (alloc s)"]
    by (simp add: case_prod_unfold alloc_current alloc_id Let_def del: upt_Suc)
qed simp

lemma alloc_increases:
  assumes "unat (current s) < 2 ^ 64 - 1"
  shows "current s < fst (alloc s)"
proof -
  have "unat (current s + 1) = unat (current s) + 1"
    using assms by (subst unat_plus_no_wrap) auto
  then show ?thesis by (simp add: alloc_id word_less_nat_alt)
qed

text \<open>Without wrap-around the identifiers handed out in a run are strictly increasing.\<close>

lemma alloc_many_strict:
  assumes "unat (current s) + n < 2 ^ 64"
  shows "sorted_wrt (<) (fst (alloc_many alloc n s))"
    and "\<forall>i \<in> set (fst (alloc_many alloc n s)). current s < i"
proof -
  have val: "unat (current s + (of_nat k :: u64)) = unat (current s) + k" if "k \<le> n" for k
    using assms that by (subst unat_plus_no_wrap) (auto simp: unat_of_nat)
  show "sorted_wrt (<) (fst (alloc_many alloc n s))"
    unfolding alloc_many_ids sorted_wrt_map
    by (rule sorted_wrt_mono_rel [of _ "(<)", OF _ sorted_wrt_upt]) (auto simp: word_less_nat_alt val)
  show "\<forall>i \<in> set (fst (alloc_many alloc n s)). current s < i"
    unfolding alloc_many_ids by (auto simp: word_less_nat_alt val)
qed

end

interpretation ida: id_source Alloc Get
  by unfold_locales (simp_all add: Alloc_def Get_def)

interpretation gseq: id_source NextGlobalSeqNum "\<lambda>g. g"
  by unfold_locales (simp_all add: NextGlobalSeqNum_def)

section \<open>Ranges\<close>

record Range =
  Left :: u64
  Right :: u64

definition Range_Valid :: "Range \<Rightarrow> bool" where
  "Range_Valid r \<longleftrightarrow> Left r \<le> Right r"

definition LT :: "Range \<Rightarrow> u64 \<Rightarrow> bool" where
  "LT r i \<longleftrightarrow> Right r < i"

definition GT :: "Range \<Rightarrow> u64 \<Rightarrow> bool" where
  "GT r i \<longleftrightarrow> Left r > i"

definition ClosedIn :: "Range \<Rightarrow> u64 \<Rightarrow> bool" where
  "ClosedIn r i \<longleftrightarrow> Left r \<le> i \<and> Right r \<ge> i"

text \<open>Both arguments are pointers that may be nil.\<close>

fun CanCover :: "Range option \<Rightarrow> Range option \<Rightarrow> bool" where
  "CanCover None _ = False"
| "CanCover (Some r) None = True"
| "CanCover (Some r) (Some q) = (Left r \<le> Left q \<and> Right r \<ge> Right q)"

definition CommitLeft :: "Range \<Rightarrow> u64 \<Rightarrow> bool \<times> Range" where
  "CommitLeft r left =
     (if left > Right r then (False, r)
      else if left < Left r then (True, r\<lparr>Left := left\<rparr>)
      else (True, r))"

definition Range_Union :: "Range \<Rightarrow> Range \<Rightarrow> Range res" where
  "Range_Union r q =
     (if Left q > Right r + 1 \<or> Left r > Right q + 1 then Err RangeNotContinousErr
      else let r1 = (if Left r > Left q then r\<lparr>Left := Left q\<rparr> else r)
           in Ok (if Right r1 < Right q then r1\<lparr>Right := Right q\<rparr> else r1))"

definition Range_Append :: "Range \<Rightarrow> u64 \<Rightarrow> Range res" where
  "Range_Append r right =
     (if Left r = Right r \<and> Right r = 0 then Ok (r\<lparr>Right := right, Left := right\<rparr>)
      else if right \<le> Right r then Err RangeInvalidErr
      else Ok (r\<lparr>Right := right\<rparr>))"

text \<open>The set of positions a range stands for.\<close>

definition range_set :: "Range \<Rightarrow> nat set" where
  "range_set r = {unat (Left r) .. unat (Right r)}"

section \<open>In-place deletion of rows\<close>

text \<open>
  \<open>InplaceDeleteRows\<close> on a slice whose capacity is its length:
  \<open>copy(arr[currPos:], arr[prevRow+1:currRow])\<close> moves the rows between two deleted ones
  towards the front.  \<open>copy\<close> handles overlap, so it reads the source before it writes; a
  slice expression whose bounds are out of order panics.  \<open>next\<close> is \<open>prevRow + 1\<close>.  The
  type switch knows \<open>[]int32\<close> only; \<open>is_int32\<close> says which case \<open>orig\<close> is.
\<close>

definition go_copy :: "'a list \<Rightarrow> nat \<Rightarrow> 'a list \<Rightarrow> 'a list" where
  "go_copy dst at src =
     (let n = min (length dst - at) (length src)
      in take at dst @ take n src @ drop (at + n) dst)"

fun inplace_loop :: "'a list \<Rightarrow> nat \<Rightarrow> nat \<Rightarrow> nat list \<Rightarrow> ('a list \<times> nat \<times> nat) res" where
  "inplace_loop arr currPos next [] = Ok (arr, currPos, next)"
| "inplace_loop arr currPos next (row # rows) =
     (if next \<le> row \<and> row \<le> length arr \<and> currPos \<le> length arr then
        inplace_loop (go_copy arr currPos (drop next (take row arr)))
          (currPos + (row - next)) (row + 1) rows
      else Panic)"

definition InplaceDeleteRows :: "bool \<Rightarrow> 'a list \<Rightarrow> nat list \<Rightarrow> 'a list res" where
  "InplaceDeleteRows is_int32 orig rows =
     (if rows = [] then Ok orig
      else if \<not> is_int32 then Panic
      else res_bind (inplace_loop orig 0 0 rows) (\<lambda>(arr, currPos, next).
        if next \<le> length arr then
          Ok (take (currPos + (length arr - next)) (go_copy arr currPos (drop next arr)))
        else Panic))"

section \<open>Lemmas: reference counts\<close>

lemma sint_small: "unat (w :: u64) < 2 ^ 63 \<Longrightarrow> sint w = int (unat w)"
  by (simp add: sint_uint signed_take_bit_int_eq_self uint_nat del: of_nat_unat)

lemma Unref_zero: "Refs h = 0 \<Longrightarrow> Unref h = Panic"
  by (simp add: Unref_def)

lemma Unref_pos:
  assumes "unat (Refs h) = Suc k" and "Suc k < 2 ^ 63"
  shows "Unref h = Ok (h\<lparr>Refs := of_nat k\<rparr>, k = 0 \<and> OnZeroCB h)"
proof -
  have v: "Refs h + (- 1) = (of_nat k :: u64)"
  proof -
    have "Refs h = of_nat (unat (Refs h))" by simp
    then have "Refs h = of_nat (Suc k)" by (simp only: assms(1))
    then show ?thesis by simp
  qed
  have u: "unat (of_nat k :: u64) = k"
    using assms by (simp add: unat_of_nat)
  have "sint (of_nat k :: u64) = int k"
    using assms u by (simp add: sint_small)
  moreover have "(of_nat k :: u64) = 0 \<longleftrightarrow> k = 0"
    using u by (metis unat_eq_zero)
  ultimately show ?thesis unfolding Unref_def v Let_def by auto
qed

text \<open>
  Whatever the order in which clients take and give back references, the counter behaves as an
  ideal one: the run panics exactly when some prefix gives back more than was taken, otherwise
  the final count is the balance and the callback ran once for every return to zero.
\<close>

lemma ref_run_correct:
  assumes "unat (Refs h) + length ops < 2 ^ 63"
  shows "ref_run h ops =
    (case ref_balance (unat (Refs h)) ops of
       None \<Rightarrow> Panic
     | Some (m, z) \<Rightarrow> Ok (h\<lparr>Refs := of_nat m\<rparr>, if OnZeroCB h then z else 0))"
  using assms
proof (induction h ops rule: ref_run.induct)
  case (1 h)
  then show ?case by simp
next
  case (2 h ops)
  have "unat (Refs (Ref h)) = Suc (unat (Refs h))"
    using 2 by (simp add: Ref_def unat_plus_no_wrap)
  then show ?case
    using 2 by (simp add: Ref_def split: option.splits)
next
  case (3 h ops)
  show ?case
  proof (cases "unat (Refs h)")
    case 0
    then show ?thesis by (simp add: Unref_zero unat_eq_zero)
  next
    case (Suc k)
    let ?h = "h\<lparr>Refs := of_nat k\<rparr>"
    have un: "Unref h = Ok (?h, k = 0 \<and> OnZeroCB h)"
      using 3 Suc by (intro Unref_pos) auto
    have k: "unat (Refs ?h) = k"
      using 3 Suc by (simp add: unat_of_nat)
    have "ref_run ?h ops =
      (case ref_balance (unat (Refs ?h)) ops of
         None \<Rightarrow> Panic
       | Some (m, z) \<Rightarrow> Ok (?h\<lparr>Refs := of_nat m\<rparr>, if OnZeroCB ?h then z else 0))"
      using 3(1) [OF un] 3(2) Suc k by simp
    then show ?thesis
      unfolding k by (auto simp: un Suc split: option.splits)
  qed
qed

lemma ref_run_correct_example:
  "ref_run \<lparr>Refs = 0, OnZeroCB = True\<rparr> [True, True, False, False, True, False]
     = Ok (\<lparr>Refs = 0, OnZeroCB = True\<rparr>, 2)"
  by (rule trans [OF ref_run_correct]) simp_all

section \<open>Lemmas: ranges\<close>

lemma range_set_mem: "unat i \<in> range_set r \<longleftrightarrow> ClosedIn r i"
  by (auto simp: range_set_def ClosedIn_def word_le_nat_alt)

lemma CanCover_subset:
  "Range_Valid q \<Longrightarrow> CanCover (Some r) (Some q) \<longleftrightarrow> range_set q \<subseteq> range_set r"
  by (auto simp: range_set_def Range_Valid_def word_le_nat_alt)

lemma unat_succ: "w \<noteq> (- 1 :: u64) \<Longrightarrow> unat (w + 1) = Suc (unat w)"
proof -
  assume "w \<noteq> - 1"
  then have "unat w \<noteq> unat (- 1 :: u64)" by (simp add: word_unat_eq_iff)
  then have "unat w + unat (1 :: u64) < 2 ^ 64"
    using unat_less_width [of w] by (simp add: unsigned_minus_1_eq_mask mask_eq_exp_minus_1)
  then show "unat (w + 1) = Suc (unat w)" by (subst unat_plus_no_wrap) simp_all
qed

text \<open>
  Away from the top of the 64-bit space, the union of two valid ranges is refused exactly when
  the two leave a gap, and otherwise is the range of the union of the positions.
\<close>

lemma Range_Union_correct:
  assumes "Range_Valid r" and "Range_Valid q" and "Right r \<noteq> - 1" and "Right q \<noteq> - 1"
  shows "(Range_Union r q = Err RangeNotContinousErr
            \<and> (unat (Right r) + 1 < unat (Left q) \<or> unat (Right q) + 1 < unat (Left r)))
         \<or> (\<exists>u. Range_Union r q = Ok u \<and> Range_Valid u \<and> range_set u = range_set r \<union> range_set q)"
proof -
  have r: "unat (Right r + 1) = Suc (unat (Right r))" and q: "unat (Right q + 1) = Suc (unat (Right q))"
    using assms by (simp_all add: unat_succ)
  show ?thesis
  proof (cases "Left q > Right r + 1 \<or> Left r > Right q + 1")
    case True
    then show ?thesis by (auto simp: Range_Union_def word_less_nat_alt r q)
  next
    case False
    then have "unat (Left q) \<le> Suc (unat (Right r))" "unat (Left r) \<le> Suc (unat (Right q))"
      by (auto simp: word_less_nat_alt r q)
    moreover obtain u where "Range_Union r q = Ok u"
      using False by (auto simp: Range_Union_def Let_def)
    ultimately show ?thesis
      using False assms
      by (auto simp: Range_Union_def range_set_def Range_Valid_def word_less_nat_alt
          word_le_nat_alt Let_def split: if_splits)
  qed
qed

lemma Range_Union_correct_example:
  "Range_Union \<lparr>Left = 1, Right = 4\<rparr> \<lparr>Left = 5, Right = 9\<rparr> = Ok \<lparr>Left = 1, Right = 9\<rparr>
   \<and> range_set \<lparr>Left = 1, Right = 9\<rparr>
     = range_set \<lparr>Left = 1, Right = 4\<rparr> \<union> range_set \<lparr>Left = 5, Right = 9\<rparr>"
  using Range_Union_correct [of "\<lparr>Left = 1, Right = 4\<rparr>" "\<lparr>Left = 5, Right = 9\<rparr>"]
  by (simp add: Range_Union_def Range_Valid_def)

text \<open>
  At the top of the 64-bit space \<open>Right + 1\<close> wraps to zero: a range that ends there is refused
  against every range that does not start at zero, even one that it contains.
\<close>

lemma Range_Union_wraps:
  assumes "Right r = - 1" and "Left q \<noteq> 0"
  shows "Range_Union r q = Err RangeNotContinousErr"
  using assms by (simp add: Range_Union_def word_neq_0_conv)

lemma Range_Union_wraps_example:
  "CanCover (Some \<lparr>Left = 1, Right = - 1\<rparr>) (Some \<lparr>Left = 2, Right = 3\<rparr>)
   \<and> Range_Union \<lparr>Left = 1, Right = - 1\<rparr> \<lparr>Left = 2, Right = 3\<rparr> = Err RangeNotContinousErr"
  using Range_Union_wraps [of "\<lparr>Left = 1, Right = - 1\<rparr>" "\<lparr>Left = 2, Right = 3\<rparr>"] by simp

section \<open>Lemmas: in-place deletion\<close>

lemma go_copy_fits:
  assumes "at + length src \<le> length dst"
  shows "go_copy dst at src = take at dst @ src @ drop (at + length src) dst"
  using assms by (simp add: go_copy_def min_def)

lemma length_go_copy [simp]: "at \<le> length dst \<Longrightarrow> length (go_copy dst at src) = length dst"
  by (auto simp: go_copy_def Let_def min_def)

lemma nths_skip:
  assumes "next \<le> row" and "row < length arr" and "\<forall>r \<in> set rows. row < r"
  shows "nths (drop next arr) {i. next + i \<notin> set (row # rows)}
       = drop next (take row arr) @ nths (drop (row + 1) arr) {i. row + 1 + i \<notin> set rows}"
proof -
  have split: "drop next arr = drop next (take row arr) @ arr ! row # drop (row + 1) arr"
    using assms by (metis add.commute append_assoc append_take_drop_id drop_append drop_eq_Nil2
        Cons_nth_drop_Suc length_take linorder_not_less min.absorb4 nat_less_le
        diff_is_0_eq' drop0 plus_1_eq_Suc)
  have len: "length (drop next (take row arr)) = row - next"
    using assms by simp
  have pre: "nths (drop next (take row arr)) {i. next + i \<notin> set (row # rows)} = drop next (take row arr)"
    using assms by (intro nths_all) (force simp: len)
  have "{j. j + (row - next) \<in> {i. next + i \<notin> set (row # rows)}} = {j. row + j \<notin> set (row # rows)}"
    using assms by (auto simp: add.commute)
  then show ?thesis
    unfolding split nths_append len pre by (simp add: nths_Cons)
qed

lemma inplace_loop_spec:
  assumes "sorted_wrt (<) rows" and "\<forall>r \<in> set rows. next \<le> r \<and> r < length arr"
    and "c \<le> next" and "next \<le> length arr"
  shows "\<exists>arr' c' n'. inplace_loop arr c next rows = Ok (arr', c', n') \<and> length arr' = length arr
    \<and> c' \<le> n' \<and> n' \<le> length arr
    \<and> take c' arr' @ drop n' arr' = take c arr @ nths (drop next arr) {i. next + i \<notin> set rows}"
  using assms
proof (induction rows arbitrary: arr c "next")
  case Nil
  then show ?case by (auto simp: nths_all)
next
  case (Cons row rows)
  let ?src = "drop next (take row arr)"
  let ?arr = "go_copy arr c ?src" and ?c = "c + (row - next)"
  have row: "next \<le> row" "row < length arr" "\<forall>r \<in> set rows. row < r"
    using Cons.prems by auto
  have copy: "?arr = take c arr @ ?src @ drop ?c arr"
    using Cons.prems row by (subst go_copy_fits) auto
  have len: "length ?arr = length arr"
    using Cons.prems by simp
  have "?c = length (take c arr @ ?src)"
    using Cons.prems row by simp
  then have pre: "take ?c ?arr = take c arr @ ?src"
    unfolding copy by (metis append.assoc append_eq_conv_conj)
  have post: "drop (row + 1) ?arr = drop (row + 1) arr"
    using Cons.prems row unfolding copy by simp
  have "\<exists>arr' c' n'. inplace_loop ?arr ?c (row + 1) rows = Ok (arr', c', n') \<and> length arr' = length ?arr
    \<and> c' \<le> n' \<and> n' \<le> length ?arr
    \<and> take c' arr' @ drop n' arr'
      = take ?c ?arr @ nths (drop (row + 1) ?arr) {i. row + 1 + i \<notin> set rows}"
    using Cons.prems row by (intro Cons.IH) (auto simp: Suc_le_eq)
  then have "\<exists>arr' c' n'. inplace_loop ?arr ?c (row + 1) rows = Ok (arr', c', n') \<and> length arr' = length arr
    \<and> c' \<le> n' \<and> n' \<le> length arr
    \<and> take c' arr' @ drop n' arr' = take c arr @ nths (drop next arr) {i. next + i \<notin> set (row # rows)}"
    unfolding len pre post nths_skip [OF row] append.assoc .
  then show ?case
    using Cons.prems row by simp
qed

text \<open>
  Deleting an increasing list of row numbers in place returns exactly the other rows, in their
  order; the copies inside the slice never overwrite a row that is still needed.
\<close>

lemma InplaceDeleteRows_nths:
  assumes "sorted_wrt (<) rows" and "\<forall>r \<in> set rows. r < length arr"
  shows "InplaceDeleteRows True arr rows = Ok (nths arr {i. i \<notin> set rows})"
proof (cases "rows = []")
  case True
  then show ?thesis by (simp add: InplaceDeleteRows_def nths_all)
next
  case False
  obtain arr' c n where loop: "inplace_loop arr 0 0 rows = Ok (arr', c, n)"
    and len: "length arr' = length arr" and cn: "c \<le> n" "n \<le> length arr"
    and eq: "take c arr' @ drop n arr' = nths arr {i. i \<notin> set rows}"
    using inplace_loop_spec [of rows 0 arr 0] assms by auto
  have "go_copy arr' c (drop n arr') = take c arr' @ drop n arr' @ drop (c + (length arr' - n)) arr'"
    using cn len by (subst go_copy_fits) auto
  then have "take (c + (length arr' - n)) (go_copy arr' c (drop n arr')) = take c arr' @ drop n arr'"
    using cn len by simp
  then show ?thesis
    using False cn len eq by (simp add: InplaceDeleteRows_def loop)
qed

end
