(* ===== verification/Mempool.thy ===== *)
theory Mempool
  imports Common_Base
begin

text \<open>
  The page pool of \<^verbatim>\<open>pkg/common/mempool.go\<close>: the binary search for a page size, the
  per-size pools, and the accounting of pages, oversized nodes and quotas against a capacity.  The
  locale \<^verbatim>\<open>budget\<close> is the contract of an account with a limit; it is interpreted here on the
  quota side of the pool and in the buffer theory on the size limiter.
\<close>

section \<open>An account with a limit\<close>

text \<open>A client takes and gives back amounts; \<open>outstanding\<close> is what it holds.\<close>

datatype budget_op = Take nat | Give nat

locale budget =
  fixes good :: "'s \<Rightarrow> bool"
    and used :: "'s \<Rightarrow> nat"
    and cap :: "'s \<Rightarrow> nat"
    and small :: "'s \<Rightarrow> nat \<Rightarrow> bool"
    and take_q :: "nat \<Rightarrow> 's \<Rightarrow> 's option"
    and give_q :: "nat \<Rightarrow> 's \<Rightarrow> 's"
  assumes take_None: "good s \<Longrightarrow> small s n \<Longrightarrow> take_q n s = None \<longleftrightarrow> cap s < used s + n"
    and take_Some: "good s \<Longrightarrow> small s n \<Longrightarrow> take_q n s = Some s'
      \<Longrightarrow> good s' \<and> used s' = used s + n \<and> cap s' = cap s \<and> (\<forall>m. small s' m = small s m)"
    and give_back: "good s \<Longrightarrow> small s n \<Longrightarrow> n \<le> used s
      \<Longrightarrow> good (give_q n s) \<and> used (give_q n s) = used s - n \<and> cap (give_q n s) = cap s
        \<and> (\<forall>m. small (give_q n s) m = small s m)"
begin

fun client :: "budget_op list \<Rightarrow> nat list \<times> 's \<Rightarrow> nat list \<times> 's" where
  "client [] st = st"
| "client (Take n # ops) (out, s) =
     (case take_q n s of None \<Rightarrow> client ops (out, s) | Some s' \<Rightarrow> client ops (n # out, s'))"
| "client (Give n # ops) (out, s) =
     (if n \<in> set out then client ops (remove1 n out, give_q n s) else client ops (out, s))"

lemma take_within: "good s \<Longrightarrow> small s n \<Longrightarrow> take_q n s = Some s' \<Longrightarrow> used s' \<le> cap s'"
  using take_None [of s n] take_Some [of s n s'] by auto

lemma client_balance:
  assumes "good s" and "used s = base + sum_list out" and "used s \<le> cap s"
    and "\<forall>n. Take n \<in> set ops \<longrightarrow> small s n" and "\<forall>n \<in> set out. small s n"
  shows "case client ops (out, s) of (out', s') \<Rightarrow>
     good s' \<and> used s' = base + sum_list out' \<and> used s' \<le> cap s' \<and> cap s' = cap s"
  using assms
proof (induction ops "(out, s)" arbitrary: out s rule: client.induct)
  case 1
  then show ?case by simp
next
  case (2 n ops out s)
  show ?case
  proof (cases "take_q n s")
    case None
    then show ?thesis using 2 by simp
  next
    case (Some s')
    then have "good s' \<and> used s' = used s + n \<and> cap s' = cap s \<and> (\<forall>m. small s' m = small s m)"
      "used s' \<le> cap s'"
      using take_Some [of s n s'] take_within [of s n s'] 2 by auto
    then show ?thesis using 2 Some by simp
  qed
next
  case (3 n ops out s)
  show ?case
  proof (cases "n \<in> set out")
    case False
    then show ?thesis using 3 by simp
  next
    case True
    have out: "sum_list out = n + sum_list (remove1 n out)"
      using sum_list_remove1 [OF True, of "\<lambda>x. x"] by simp
    then have "good (give_q n s) \<and> used (give_q n s) = used s - n \<and> cap (give_q n s) = cap s
        \<and> (\<forall>m. small (give_q n s) m = small s m)"
      using give_back [of s n] 3 True by auto
    moreover have "\<forall>m \<in> set (remove1 n out). small s m"
      using 3 set_remove1_subset [of n out] by blast
    ultimately show ?thesis
      using 3 True out by simp
  qed
qed

end

section \<open>Page sizes\<close>

definition PageSizes :: "u64 list" where
  "PageSizes = [64, 128, 256, 512, 1024, 4 * 1024, 8 * 1024, 16 * 1024, 32 * 1024, 64 * 1024,
     128 * 1024, 256 * 1024, 512 * 1024, 1024 * 1024]"

text \<open>The loop of \<open>findPageIdx\<close> over a table \<open>ps\<close>; \<open>h\<close> can become \<open>-1\<close>.\<close>

function find_loop :: "u64 list \<Rightarrow> u64 \<Rightarrow> int \<Rightarrow> int \<Rightarrow> int" where
  "find_loop ps sz l h =
     (if l > h then l
      else let m = (l + h) div 2 in
        if ps ! nat m < sz then find_loop ps sz (m + 1) h
        else if ps ! nat m > sz then find_loop ps sz l (m - 1)
        else m)"
  by auto
termination
  by (relation "measure (\<lambda>(ps, sz, l, h). nat (h - l + 1))") auto

declare find_loop.simps [simp del]

definition findPageIdx :: "u64 \<Rightarrow> nat \<times> bool" where
  "findPageIdx sz =
     (if sz > PageSizes ! (length PageSizes - 1) then (0, False)
      else (nat (find_loop PageSizes sz 0 (int (length PageSizes) - 1)), True))"

section \<open>Nodes and pools\<close>

text \<open>\<open>mn_buf\<close> is the capacity of \<open>Buf\<close>, \<open>None\<close> for a nil slice.\<close>

record MemNode =
  mn_size :: u32
  mn_idx :: u8
  mn_buf :: "nat option"

definition MemNode_Size :: "MemNode \<Rightarrow> nat" where
  "MemNode_Size n = (case mn_buf n of Some c \<Rightarrow> c | None \<Rightarrow> unat (mn_size n))"

definition IsQuota :: "MemNode \<Rightarrow> bool" where
  "IsQuota n \<longleftrightarrow> mn_buf n = None"

definition page_New :: "nat \<Rightarrow> MemNode" where
  "page_New i = \<lparr>mn_size = 0, mn_idx = word_of_nat i, mn_buf = Some (unat (PageSizes ! i))\<rparr>"

record poolWrapper =
  pw_pool :: "MemNode list"
  pw_count :: u64
  pw_idx :: nat

text \<open>
  \<open>sync.Pool.Get\<close> hands out any pooled object, or a new one: \<open>ch\<close> is that choice.
\<close>

definition pool_Get :: "nat \<Rightarrow> nat option \<Rightarrow> MemNode list \<Rightarrow> MemNode \<times> MemNode list" where
  "pool_Get i ch pool =
     (case ch of
        None \<Rightarrow> (page_New i, pool)
      | Some k \<Rightarrow> if k < length pool then (pool ! k, List.take k pool @ drop (Suc k) pool)
                  else (page_New i, pool))"

definition pw_Get :: "nat option \<Rightarrow> poolWrapper \<Rightarrow> MemNode \<times> poolWrapper" where
  "pw_Get ch p =
     (case pool_Get (pw_idx p) ch (pw_pool p) of
        (n, pool) \<Rightarrow> (n, p\<lparr>pw_count := pw_count p + 1, pw_pool := pool\<rparr>))"

definition pw_Put :: "MemNode \<Rightarrow> poolWrapper \<Rightarrow> poolWrapper" where
  "pw_Put x p = p\<lparr>pw_count := pw_count p + not 0, pw_pool := x # pw_pool p\<rparr>"

record Mempool =
  mp_pools :: "poolWrapper list"
  mp_capacity :: u64
  mp_usage :: u64
  mp_quotausage :: u64
  mp_other :: u64
  mp_peakusage :: u64

definition NewMempool :: "u64 \<Rightarrow> Mempool" where
  "NewMempool capacity =
     \<lparr>mp_pools = map (\<lambda>i. \<lparr>pw_pool = [page_New i], pw_count = 0, pw_idx = i\<rparr>) [0..<length PageSizes],
      mp_capacity = capacity, mp_usage = 0, mp_quotausage = 0, mp_other = 0, mp_peakusage = 0\<rparr>"

text \<open>
  Each operation is one atomic step, so the compare-and-swap loops succeed at their first attempt.
  \<open>make([]byte, size)\<close> panics when \<open>size\<close> is not an \<open>int\<close>.
\<close>

definition Mempool_Alloc :: "u64 \<Rightarrow> nat option \<Rightarrow> Mempool \<Rightarrow> (MemNode option \<times> Mempool) res" where
  "Mempool_Alloc sz ch mp =
     (let (pageIdx, ok) = findPageIdx sz;
          sz1 = (if ok then PageSizes ! pageIdx else sz);
          postsize = mp_usage mp + sz1
      in if postsize > mp_capacity mp then Ok (None, mp)
         else
           let mp1 = mp\<lparr>mp_usage := postsize,
                        mp_peakusage := (if postsize > mp_peakusage mp then postsize else mp_peakusage mp)\<rparr>
           in if \<not> ok then
                (if unat sz1 \<ge> 2 ^ 63 then Panic
                 else Ok (Some \<lparr>mn_size = 0, mn_idx = word_of_nat (length PageSizes), mn_buf = Some (unat sz1)\<rparr>,
                          mp1\<lparr>mp_other := mp_other mp + 1\<rparr>))
              else
                let (n, p) = pw_Get ch (mp_pools mp ! pageIdx)
                in Ok (Some n, mp1\<lparr>mp_pools := (mp_pools mp)[pageIdx := p]\<rparr>))"

definition Mempool_ApplyQuota :: "u64 \<Rightarrow> Mempool \<Rightarrow> MemNode option \<times> Mempool" where
  "Mempool_ApplyQuota sz mp =
     (let postsize = mp_usage mp + sz
      in if postsize > mp_capacity mp then (None, mp)
         else (Some \<lparr>mn_size = ucast sz, mn_idx = 0, mn_buf = None\<rparr>,
               mp\<lparr>mp_usage := postsize, mp_quotausage := mp_quotausage mp + sz\<rparr>))"

definition Mempool_Free :: "MemNode option \<Rightarrow> Mempool \<Rightarrow> Mempool res" where
  "Mempool_Free nd mp =
     (case nd of
        None \<Rightarrow> Ok mp
      | Some n \<Rightarrow>
          let sz = word_of_nat (MemNode_Size n) :: u64;
              mp1 = (if IsQuota n then mp\<lparr>mp_quotausage := mp_quotausage mp + not (sz - 1)\<rparr>
                     else if mn_idx n < word_of_nat (length PageSizes) then
                       mp\<lparr>mp_pools := (mp_pools mp)
                            [unat (mn_idx n) := pw_Put n (mp_pools mp ! unat (mn_idx n))]\<rparr>
                     else mp\<lparr>mp_other := mp_other mp + not 0\<rparr>);
              usage = mp_usage mp1 + not (sz - 1)
          in if usage > mp_capacity mp then Panic else Ok (mp1\<lparr>mp_usage := usage\<rparr>))"

section \<open>The page search\<close>

lemma find_loop_correct:
  assumes "sorted_wrt (<) ps" and "0 \<le> l" and "l \<le> h + 1" and "h < int (length ps)"
    and "\<forall>i. int i < l \<longrightarrow> ps ! i < sz" and "\<forall>i. h < int i \<and> i < length ps \<longrightarrow> sz < ps ! i"
  shows "let r = find_loop ps sz l h in 0 \<le> r \<and> r \<le> h + 1
    \<and> (\<forall>i. int i < r \<longrightarrow> ps ! i < sz) \<and> (\<forall>i. r \<le> int i \<and> i < length ps \<longrightarrow> sz \<le> ps ! i)"
  using assms
proof (induction ps sz l h rule: find_loop.induct)
  case (1 ps sz l h)
  let ?m = "(l + h) div 2"
  have mono: "ps ! i < ps ! j" if "i < j" "j < length ps" for i j
    using "1.prems"(1) that by (simp add: sorted_wrt_iff_nth_less)
  show ?case
  proof (cases "l > h")
    case True
    then have "find_loop ps sz l h = l" by (simp add: find_loop.simps)
    then show ?thesis using True "1.prems" by (auto simp: Let_def less_imp_le)
  next
    case False
    then have m: "l \<le> ?m" "?m \<le> h" by auto
    consider "ps ! nat ?m < sz" | "ps ! nat ?m > sz" | "ps ! nat ?m = sz" by force
    then show ?thesis
    proof cases
      case 1
      have "\<forall>i. int i < ?m + 1 \<longrightarrow> ps ! i < sz"
      proof (intro allI impI)
        fix i assume "int i < ?m + 1"
        then have "i = nat ?m \<or> i < nat ?m" using m by linarith
        moreover have "nat ?m < length ps" using m "1.prems" by linarith
        ultimately show "ps ! i < sz"
          using 1 mono [of i "nat ?m"] by auto
      qed
      moreover have "find_loop ps sz l h = find_loop ps sz (?m + 1) h"
        using False 1 by (subst find_loop.simps) (simp add: Let_def)
      ultimately show ?thesis
        using "1.IH"(1) [OF False refl 1] "1.prems" m by (simp add: Let_def)
    next
      case 2
      have "\<forall>i. ?m - 1 < int i \<and> i < length ps \<longrightarrow> sz < ps ! i"
      proof (intro allI impI)
        fix i assume i: "?m - 1 < int i \<and> i < length ps"
        then have "i = nat ?m \<or> nat ?m < i" using m "1.prems" by linarith
        then show "sz < ps ! i"
          using i 2 mono [of "nat ?m" i] by auto
      qed
      moreover have "find_loop ps sz l h = find_loop ps sz l (?m - 1)"
        using False 2 by (subst find_loop.simps) (auto simp: Let_def)
      moreover have "\<not> ps ! nat ?m < sz" using 2 by simp
      ultimately show ?thesis
        using "1.IH"(2) [OF False refl _ 2] "1.prems" m by (simp add: Let_def)
    next
      case 3
      have "find_loop ps sz l h = ?m" using False 3 by (subst find_loop.simps) (simp add: Let_def)
      moreover have "ps ! i < sz" if "int i < ?m" for i
        using mono [of i "nat ?m"] that m "1.prems" 3 by auto
      moreover have "sz \<le> ps ! i" if "?m \<le> int i" "i < length ps" for i
      proof (cases "i = nat ?m")
        case False
        then have "nat ?m < i" using that m by linarith
        then show ?thesis using mono [of "nat ?m" i] that 3 by (simp add: less_imp_le)
      qed (simp add: 3)
      ultimately show ?thesis using m "1.prems" by (auto simp: Let_def)
    qed
  qed
qed

lemma PageSizes_strict: "sorted_wrt (<) PageSizes"
  by (simp add: PageSizes_def)

lemma findPageIdx_aux:
  "case findPageIdx sz of (i, ok) \<Rightarrow>
     (ok \<longleftrightarrow> unat sz \<le> 1048576)
     \<and> (if ok then i < length PageSizes \<and> sz \<le> PageSizes ! i \<and> (\<forall>j < i. PageSizes ! j < sz) else i = 0)"
proof -
  have len: "length PageSizes = 14" and last: "PageSizes ! 13 = 1048576"
    by (simp_all add: PageSizes_def)
  let ?r = "find_loop PageSizes sz 0 13"
  have r: "0 \<le> ?r" "?r \<le> 14" "\<And>i. int i < ?r \<Longrightarrow> PageSizes ! i < sz"
    "\<And>i. ?r \<le> int i \<Longrightarrow> i < 14 \<Longrightarrow> sz \<le> PageSizes ! i"
  proof -
    have "\<forall>i. 13 < int i \<and> i < length PageSizes \<longrightarrow> sz < PageSizes ! i"
      unfolding len by auto
    then show "0 \<le> ?r" "?r \<le> 14" "\<And>i. int i < ?r \<Longrightarrow> PageSizes ! i < sz"
      "\<And>i. ?r \<le> int i \<Longrightarrow> i < 14 \<Longrightarrow> sz \<le> PageSizes ! i"
      using find_loop_correct [OF PageSizes_strict, of 0 13 sz] len by (simp_all add: Let_def)
  qed
  have "?r \<le> 13" if "\<not> 1048576 < sz"
    using r(3) [of 13] last that by (rule_tac ccontr) auto
  then show ?thesis
    using r len last r(4) [of "nat ?r"]
    by (auto simp: findPageIdx_def word_le_nat_alt word_less_nat_alt)
qed

text \<open>
  \<open>findPageIdx\<close> terminates and returns the smallest page that holds the request, for every
  request up to the largest page; larger requests are refused.
\<close>

lemma findPageIdx_correct:
  "case findPageIdx sz of (i, ok) \<Rightarrow>
     (ok \<longleftrightarrow> unat sz \<le> 1048576)
     \<and> (if ok then i < length PageSizes \<and> sz \<le> PageSizes ! i \<and> (\<forall>j < i. PageSizes ! j < sz) else i = 0)"
  by (rule findPageIdx_aux)

lemma findPageIdx_correct_example:
  "snd (findPageIdx 100) \<and> 100 \<le> PageSizes ! fst (findPageIdx 100) \<and> fst (findPageIdx 100) < length PageSizes"
  using findPageIdx_correct [of 100] by (auto split: prod.splits)

section \<open>Accounting\<close>

text \<open>
  A node in use is a page of its size class, an oversized buffer, or a quota; \<open>held i\<close> counts
  the buffers in use of class \<open>i\<close> (\<open>14\<close>: oversized).
\<close>

definition node_ok :: "MemNode \<Rightarrow> bool" where
  "node_ok n \<longleftrightarrow> (case mn_buf n of
       None \<Rightarrow> True
     | Some c \<Rightarrow> (unat (mn_idx n) < 14 \<and> n = page_New (unat (mn_idx n))) \<or> (mn_idx n = 14 \<and> c < 2 ^ 63))"

definition held :: "nat \<Rightarrow> MemNode list \<Rightarrow> nat" where
  "held i live = length (filter (\<lambda>n. \<not> IsQuota n \<and> unat (mn_idx n) = i) live)"

definition size_sum :: "MemNode list \<Rightarrow> nat" where
  "size_sum live = sum_list (map MemNode_Size live)"

definition quota_sum :: "MemNode list \<Rightarrow> nat" where
  "quota_sum live = sum_list (map MemNode_Size (filter IsQuota live))"

definition mp_ok :: "Mempool \<Rightarrow> MemNode list \<Rightarrow> bool" where
  "mp_ok mp live \<longleftrightarrow>
     length (mp_pools mp) = 14
     \<and> (\<forall>i < 14. pw_idx (mp_pools mp ! i) = i \<and> pw_count (mp_pools mp ! i) = of_nat (held i live)
          \<and> set (pw_pool (mp_pools mp ! i)) \<subseteq> {page_New i})
     \<and> mp_other mp = of_nat (held 14 live)
     \<and> (\<forall>n \<in> set live. node_ok n)
     \<and> unat (mp_usage mp) = size_sum live \<and> unat (mp_quotausage mp) = quota_sum live
     \<and> mp_usage mp \<le> mp_capacity mp"

text \<open>A client of the pool and the nodes it holds; it frees a node it holds, once.\<close>

datatype mp_op = AllocOp u64 "nat option" | QuotaOp u64 | FreeOp nat

fun mp_step :: "mp_op \<Rightarrow> Mempool \<times> MemNode list \<Rightarrow> (Mempool \<times> MemNode list) res" where
  "mp_step (AllocOp sz ch) (mp, live) =
     res_bind (Mempool_Alloc sz ch mp)
       (\<lambda>(n, mp'). Ok (mp', case n of None \<Rightarrow> live | Some x \<Rightarrow> x # live))"
| "mp_step (QuotaOp sz) (mp, live) =
     (case Mempool_ApplyQuota sz mp of
        (n, mp') \<Rightarrow> Ok (mp', case n of None \<Rightarrow> live | Some x \<Rightarrow> x # live))"
| "mp_step (FreeOp k) (mp, live) =
     (if k < length live then
        res_bind (Mempool_Free (Some (live ! k)) mp)
          (\<lambda>mp'. Ok (mp', List.take k live @ drop (Suc k) live))
      else res_bind (Mempool_Free None mp) (\<lambda>mp'. Ok (mp', live)))"

fun mp_run :: "mp_op list \<Rightarrow> Mempool \<times> MemNode list \<Rightarrow> (Mempool \<times> MemNode list) res" where
  "mp_run [] st = Ok st"
| "mp_run (x # ops) st = res_bind (mp_step x st) (mp_run ops)"

fun mp_fits :: "mp_op \<Rightarrow> bool" where
  "mp_fits (AllocOp sz ch) \<longleftrightarrow> unat sz < 2 ^ 63"
| "mp_fits (QuotaOp sz) \<longleftrightarrow> unat sz < 2 ^ 32"
| "mp_fits (FreeOp k) \<longleftrightarrow> True"

lemma held_Cons [simp]:
  "held i (n # live) = held i live + (if \<not> IsQuota n \<and> unat (mn_idx n) = i then 1 else 0)"
  by (simp add: held_def)

lemma size_sum_Cons [simp]: "size_sum (n # live) = MemNode_Size n + size_sum live"
  by (simp add: size_sum_def)

lemma quota_sum_Cons [simp]:
  "quota_sum (n # live) = (if IsQuota n then MemNode_Size n else 0) + quota_sum live"
  by (simp add: quota_sum_def)

lemma live_split:
  assumes "k < length live"
  defines "rest \<equiv> List.take k live @ drop (Suc k) live"
  shows "held i live = held i (live ! k # rest)" "size_sum live = size_sum (live ! k # rest)"
    "quota_sum live = quota_sum (live ! k # rest)" "set live = set (live ! k # rest)"
proof -
  have "live = List.take k live @ live ! k # drop (Suc k) live"
    using assms(1) by (rule id_take_nth_drop)
  then obtain xs y ys where *: "live = xs @ y # ys" "xs = List.take k live" "y = live ! k" "ys = drop (Suc k) live"
    by blast
  have "held i (xs @ y # ys) = held i (y # xs @ ys)" "size_sum (xs @ y # ys) = size_sum (y # xs @ ys)"
    "quota_sum (xs @ y # ys) = quota_sum (y # xs @ ys)" "set (xs @ y # ys) = set (y # xs @ ys)"
    by (simp_all add: held_def size_sum_def quota_sum_def)
  then show "held i live = held i (live ! k # rest)" "size_sum live = size_sum (live ! k # rest)"
    "quota_sum live = quota_sum (live ! k # rest)" "set live = set (live ! k # rest)"
    unfolding rest_def using *(2-4) *(1) by metis+
qed

lemma page_New_simps [simp]:
  "MemNode_Size (page_New i) = unat (PageSizes ! i)" "\<not> IsQuota (page_New i)"
  "i < 256 \<Longrightarrow> unat (mn_idx (page_New i)) = i"
  by (simp_all add: page_New_def MemNode_Size_def IsQuota_def unat_of_nat)

lemma pool_Get_page:
  "set pool \<subseteq> {page_New i} \<Longrightarrow> pool_Get i ch pool = (n, pool') \<Longrightarrow> n = page_New i \<and> set pool' \<subseteq> {page_New i}"
  using nth_mem [of "the ch" pool] set_take_subset [of "the ch" pool] set_drop_subset [of "Suc (the ch)" pool]
  by (fastforce simp: pool_Get_def split: option.splits if_splits)

lemma quota_le_size: "quota_sum live \<le> size_sum live"
  by (induction live) (auto simp: quota_sum_def size_sum_def)

lemma length_PageSizes [simp]: "length PageSizes = 14"
  by (simp add: PageSizes_def)

lemma NewMempool_ok: "mp_ok (NewMempool c) []"
  by (simp add: mp_ok_def NewMempool_def held_def size_sum_def quota_sum_def del: upt_Suc)

lemma charge:
  assumes "unat (mp_usage mp) \<le> unat (mp_capacity mp)" and "unat (mp_capacity mp) \<le> 2 ^ 63" and "unat sz < 2 ^ 63"
  shows "unat (mp_usage mp + sz) = unat (mp_usage mp) + unat sz"
  using assms by (intro unat_plus_no_wrap) simp

lemma PageSizes_nth_small: "i < 14 \<Longrightarrow> unat (PageSizes ! i) < 2 ^ 63"
proof -
  assume "i < 14"
  then have "PageSizes ! i \<in> set PageSizes" by simp
  moreover have "\<forall>s \<in> set PageSizes. unat s < 2 ^ 63" by (simp add: PageSizes_def)
  ultimately show ?thesis by blast
qed

lemma Mempool_Alloc_ok:
  assumes ok: "mp_ok mp live" and cap: "unat (mp_capacity mp) \<le> 2 ^ 63" and sz: "unat sz < 2 ^ 63"
  shows "\<exists>n mp'. Mempool_Alloc sz ch mp = Ok (n, mp')
    \<and> mp_ok mp' (case n of None \<Rightarrow> live | Some x \<Rightarrow> x # live) \<and> mp_capacity mp' = mp_capacity mp"
proof -
  obtain i b where f: "findPageIdx sz = (i, b)" by (cases "findPageIdx sz")
  have i: "b \<Longrightarrow> i < 14" using findPageIdx_aux [of sz] f by simp
  define s where "s = (if b then PageSizes ! i else sz)"
  have s: "unat s < 2 ^ 63" using sz i PageSizes_nth_small by (simp add: s_def)
  have u: "unat (mp_usage mp + s) = unat (mp_usage mp) + unat s"
    using ok cap s by (intro charge) (auto simp: mp_ok_def word_le_nat_alt)
  show ?thesis
  proof (cases "mp_usage mp + s > mp_capacity mp")
    case True
    then show ?thesis using ok f by (simp add: Mempool_Alloc_def s_def Let_def)
  next
    case False
    show ?thesis
    proof (cases b)
      case True
      obtain n p where g: "pw_Get ch (mp_pools mp ! i) = (n, p)" by (cases "pw_Get ch (mp_pools mp ! i)")
      have n: "n = page_New i" and p: "pw_idx p = i" "pw_count p = of_nat (held i live) + 1" "set (pw_pool p) \<subseteq> {page_New i}"
        using ok i True g pool_Get_page [of "pw_pool (mp_pools mp ! i)" i ch]
        by (auto simp: pw_Get_def mp_ok_def split: prod.splits)
      show ?thesis
        using ok i True False f g n p u
        by (auto simp: Mempool_Alloc_def Let_def s_def mp_ok_def nth_list_update node_ok_def page_New_def
            IsQuota_def MemNode_Size_def unat_of_nat not_less)
    next
      case b: False
      then show ?thesis
        using ok False f u s sz
        by (auto simp: Mempool_Alloc_def Let_def s_def mp_ok_def node_ok_def IsQuota_def MemNode_Size_def not_less)
    qed
  qed
qed

lemma Mempool_ApplyQuota_ok:
  assumes ok: "mp_ok mp live" and cap: "unat (mp_capacity mp) \<le> 2 ^ 63" and sz: "unat sz < 2 ^ 32"
  shows "case Mempool_ApplyQuota sz mp of (n, mp') \<Rightarrow>
    mp_ok mp' (case n of None \<Rightarrow> live | Some x \<Rightarrow> x # live) \<and> mp_capacity mp' = mp_capacity mp"
proof -
  have u: "unat (mp_usage mp + sz) = unat (mp_usage mp) + unat sz"
    using ok cap sz by (intro charge) (auto simp: mp_ok_def word_le_nat_alt)
  have "unat (mp_quotausage mp) \<le> unat (mp_usage mp)"
    using ok quota_le_size [of live] by (simp add: mp_ok_def)
  then have q: "unat (mp_quotausage mp + sz) = unat (mp_quotausage mp) + unat sz"
    using ok cap sz by (intro unat_plus_no_wrap) (auto simp: mp_ok_def word_le_nat_alt)
  have "unat (ucast sz :: u32) = unat sz"
    using sz by (simp add: unsigned_ucast_eq take_bit_nat_eq_self)
  then show ?thesis
    using ok u q by (auto simp: Mempool_ApplyQuota_def Let_def mp_ok_def node_ok_def IsQuota_def MemNode_Size_def not_less)
qed

lemma Mempool_Free_ok:
  assumes ok: "mp_ok mp live" and k: "k < length live"
  shows "\<exists>mp'. Mempool_Free (Some (live ! k)) mp = Ok mp'
    \<and> mp_ok mp' (List.take k live @ drop (Suc k) live) \<and> mp_capacity mp' = mp_capacity mp"
proof -
  define n rest where "n = live ! k" and "rest = List.take k live @ drop (Suc k) live"
  note sp = live_split [OF k, folded n_def rest_def]
  have okn: "node_ok n" and okr: "\<forall>m \<in> set rest. node_ok m"
    using ok sp(4) by (auto simp: mp_ok_def)
  have sum: "unat (mp_usage mp) = MemNode_Size n + size_sum rest"
    using ok sp(2) by (simp add: mp_ok_def)
  then have "MemNode_Size n < 2 ^ 64"
    using unat_less_width [of "mp_usage mp"] by simp
  then have sz: "unat (word_of_nat (MemNode_Size n) :: u64) = MemNode_Size n"
    by (simp add: unat_of_nat)
  have u: "unat (mp_usage mp - word_of_nat (MemNode_Size n)) = size_sum rest"
    using sum sz by (subst unat_minus_le) auto
  have le: "mp_usage mp - word_of_nat (MemNode_Size n) \<le> mp_capacity mp"
    using ok sum u by (auto simp: mp_ok_def word_le_nat_alt)
  consider (quota) "IsQuota n" | (page) "\<not> IsQuota n" "unat (mn_idx n) < 14" "n = page_New (unat (mn_idx n))"
    | (other) "\<not> IsQuota n" "mn_idx n = 14"
    using okn by (auto simp: node_ok_def IsQuota_def split: option.splits)
  then show ?thesis
  proof cases
    case quota
    have "unat (mp_quotausage mp) = MemNode_Size n + quota_sum rest"
      using ok sp(3) quota by (simp add: mp_ok_def)
    then have "unat (mp_quotausage mp - word_of_nat (MemNode_Size n)) = quota_sum rest"
      using sz by (subst unat_minus_le) auto
    then show ?thesis
      using ok quota okr u le sp(1)
      by (auto simp: Mempool_Free_def mp_ok_def Let_def add_not_minus_one n_def [symmetric] rest_def [symmetric])
  next
    case page
    then have "mn_idx n < 14" by (simp add: word_less_nat_alt)
    moreover have "quota_sum live = quota_sum rest" using sp(3) page by simp
    ultimately show ?thesis
      using ok page(1,2) page(3) [symmetric] okr u le sp(1)
      by (auto simp: Mempool_Free_def mp_ok_def Let_def add_not_minus_one n_def [symmetric] rest_def [symmetric]
          nth_list_update pw_Put_def)
  next
    case other
    moreover have "quota_sum live = quota_sum rest" using sp(3) other by simp
    ultimately show ?thesis
      using ok okr u le sp(1)
      by (auto simp: Mempool_Free_def mp_ok_def Let_def add_not_minus_one n_def [symmetric] rest_def [symmetric])
  qed
qed

lemma mp_step_ok:
  assumes "mp_ok mp live" and "unat (mp_capacity mp) \<le> 2 ^ 63" and "mp_fits x"
  shows "\<exists>mp' live'. mp_step x (mp, live) = Ok (mp', live') \<and> mp_ok mp' live' \<and> mp_capacity mp' = mp_capacity mp"
proof (cases x)
  case (AllocOp sz ch)
  then show ?thesis using Mempool_Alloc_ok [OF assms(1,2), of sz ch] assms(3) by auto
next
  case (QuotaOp sz)
  then show ?thesis using Mempool_ApplyQuota_ok [OF assms(1,2), of sz] assms(3) by (auto split: prod.splits)
next
  case (FreeOp k)
  then show ?thesis using Mempool_Free_ok [OF assms(1), of k] assms(1) by (auto simp: Mempool_Free_def)
qed

lemma mp_run_ok:
  "mp_ok mp live \<Longrightarrow> unat (mp_capacity mp) \<le> 2 ^ 63 \<Longrightarrow> \<forall>x \<in> set ops. mp_fits x
   \<Longrightarrow> \<exists>mp' live'. mp_run ops (mp, live) = Ok (mp', live') \<and> mp_ok mp' live' \<and> mp_capacity mp' = mp_capacity mp"
proof (induction ops arbitrary: mp live)
  case (Cons x ops)
  then obtain mp1 live1 where "mp_step x (mp, live) = Ok (mp1, live1)" "mp_ok mp1 live1" "mp_capacity mp1 = mp_capacity mp"
    using mp_step_ok [of mp live x] by auto
  then show ?case using Cons.IH [of mp1 live1] Cons.prems by auto
qed simp

text \<open>
  C24. For a capacity up to \<open>2^63\<close>, requests below \<open>2^63\<close> and quotas below \<open>2^32\<close>, no
  sequence of allocations, quotas and frees reaches the "logic error" panic of \<open>Free\<close>, whatever
  pages the underlying pools hand out; after it the usage is the exact sum of the sizes in use and
  within the capacity, the quota usage is the sum of the quotas, and every pool counter is the number
  of pages of that class in use.
\<close>

theorem Mempool_accounting:
  assumes "unat c \<le> 2 ^ 63" and "\<forall>x \<in> set ops. mp_fits x"
  shows "\<exists>mp live. mp_run ops (NewMempool c, []) = Ok (mp, live) \<and> mp_ok mp live \<and> mp_capacity mp = c"
  using mp_run_ok [OF NewMempool_ok, of c ops] assms by (simp add: NewMempool_def)

theorem Mempool_accounting_witness:
  "\<exists>mp live. mp_run [AllocOp 100 (Some 0), QuotaOp 50, FreeOp 1, AllocOp 2000000 None] (NewMempool 1000000, [])
     = Ok (mp, live) \<and> mp_ok mp live \<and> mp_capacity mp = 1000000"
  by (rule Mempool_accounting) simp_all

text \<open>
  A quota keeps only the low 32 bits of its size: freeing a quota of a size that does not fit
  gives back less than was charged, so the pool's usage never returns to what it was.
\<close>

lemma quota_truncation_leaks:
  assumes "unat (mp_usage mp) + unat sz \<le> unat (mp_capacity mp)" and "2 ^ 32 \<le> unat sz"
  shows "\<exists>n mp1 mp2. Mempool_ApplyQuota sz mp = (Some n, mp1) \<and> Mempool_Free (Some n) mp1 = Ok mp2
    \<and> unat (mp_usage mp2) = unat (mp_usage mp) + 2 ^ 32 * (unat sz div 2 ^ 32)"
proof -
  have u: "unat (mp_usage mp + sz) = unat (mp_usage mp) + unat sz"
    using assms unat_less_width [of "mp_capacity mp"] by (intro unat_plus_no_wrap) simp
  have t: "unat (ucast sz :: u32) = unat sz mod 2 ^ 32"
    by (simp add: unsigned_ucast_eq take_bit_eq_mod)
  have m: "unat sz = 2 ^ 32 * (unat sz div 2 ^ 32) + unat sz mod 2 ^ 32" by simp
  have w: "unat (word_of_nat (unat sz mod 2 ^ 32) :: u64) = unat sz mod 2 ^ 32"
    by (simp add: unat_of_nat)
  have s: "unat (mp_usage mp + sz - word_of_nat (unat sz mod 2 ^ 32)) = unat (mp_usage mp) + 2 ^ 32 * (unat sz div 2 ^ 32)"
    unfolding unat_minus_le [of "word_of_nat (unat sz mod 2 ^ 32)" "mp_usage mp + sz", unfolded w u, OF trans_le_add2 [OF mod_less_eq_dividend]]
    using m by linarith
  moreover have "\<not> mp_usage mp + sz > mp_capacity mp"
    using u assms(1) by (simp add: word_less_nat_alt)
  moreover have "\<not> mp_usage mp + sz - word_of_nat (unat sz mod 2 ^ 32) > mp_capacity mp"
    using s assms(1) m by (simp add: word_less_nat_alt not_less)
  ultimately show ?thesis
    by (simp add: Mempool_ApplyQuota_def Mempool_Free_def Let_def IsQuota_def MemNode_Size_def t add_not_minus_one)
qed

lemma quota_truncation_leaks_example:
  "\<exists>n mp1 mp2. Mempool_ApplyQuota 4294967296 (NewMempool 8589934592) = (Some n, mp1)
     \<and> Mempool_Free (Some n) mp1 = Ok mp2 \<and> unat (mp_usage mp2) = 4294967296"
  using quota_truncation_leaks [of "NewMempool 8589934592" 4294967296] by (simp add: NewMempool_def)

section \<open>The quota side of the pool as a budget\<close>

definition quota_take :: "nat \<Rightarrow> Mempool \<Rightarrow> Mempool option" where
  "quota_take n mp =
     (case Mempool_ApplyQuota (word_of_nat n) mp of (None, _) \<Rightarrow> None | (Some _, mp') \<Rightarrow> Some mp')"

definition quota_give :: "nat \<Rightarrow> Mempool \<Rightarrow> Mempool" where
  "quota_give n mp =
     (case Mempool_Free (Some \<lparr>mn_size = word_of_nat n, mn_idx = 0, mn_buf = None\<rparr>) mp of
        Ok mp' \<Rightarrow> mp' | _ \<Rightarrow> mp)"

interpretation mpq: budget
  "\<lambda>mp. unat (mp_usage mp) \<le> unat (mp_capacity mp)" "\<lambda>mp. unat (mp_usage mp)" "\<lambda>mp. unat (mp_capacity mp)"
  "\<lambda>mp n. n < 2 ^ 32 \<and> unat (mp_capacity mp) \<le> 2 ^ 63" quota_take quota_give
proof (unfold_locales, goal_cases)
  case (1 mp n)
  have n: "unat (word_of_nat n :: u64) = n" using 1 by (simp add: unat_of_nat)
  then have "unat (mp_usage mp + word_of_nat n) = unat (mp_usage mp) + n"
    using 1 charge [of mp "word_of_nat n"] by simp
  then show ?case
    by (simp add: quota_take_def Mempool_ApplyQuota_def Let_def word_less_nat_alt)
next
  case (2 mp n mp')
  have n: "unat (word_of_nat n :: u64) = n" using 2 by (simp add: unat_of_nat)
  then have "unat (mp_usage mp + word_of_nat n) = unat (mp_usage mp) + n"
    using 2 charge [of mp "word_of_nat n"] by simp
  then show ?case
    using 2 by (auto simp: quota_take_def Mempool_ApplyQuota_def Let_def word_less_nat_alt split: if_splits)
next
  case (3 mp n)
  have n: "unat (word_of_nat n :: u64) = n" "unat (word_of_nat n :: u32) = n"
    using 3 by (simp_all add: unat_of_nat)
  then have "unat (mp_usage mp - word_of_nat n) = unat (mp_usage mp) - n"
    using 3 by (subst unat_minus_le) auto
  then show ?case
    using 3 n by (auto simp: quota_give_def Mempool_Free_def Let_def IsQuota_def MemNode_Size_def
        add_not_minus_one word_less_nat_alt)
qed

end
