(* ===== verification/Buffer.thy ===== *)
theory Buffer
  imports Mempool
begin

text \<open>
  The buffer manager of \<^verbatim>\<open>pkg/buffer\<close>: the size limiter, the buffer nodes with their
  load state, pins and eviction iteration, and the node manager that pins nodes, evicts unpinned
  ones to make room and keeps the number of loaded bytes within the limit.  The eviction queue is a
  third-party ring buffer; its two operations are arguments of the definitions.  Nodes live in a
  heap, since a node, the manager's map and the queue entries all refer to the same object.
\<close>

section \<open>The size limiter\<close>

record sizeLimiter =
  maxactivesize :: u64
  activesize :: u64

definition newSizeLimiter :: "u64 \<Rightarrow> sizeLimiter" where
  "newSizeLimiter mx = \<lparr>maxactivesize = mx, activesize = 0\<rparr>"

definition RetuernQuota :: "u64 \<Rightarrow> sizeLimiter \<Rightarrow> sizeLimiter" where
  "RetuernQuota sz l = l\<lparr>activesize := activesize l + not (sz - 1)\<rparr>"

definition ApplyQuota :: "u64 \<Rightarrow> sizeLimiter \<Rightarrow> bool \<times> sizeLimiter" where
  "ApplyQuota sz l =
     (let post = activesize l + sz
      in if post > maxactivesize l then (False, l) else (True, l\<lparr>activesize := post\<rparr>))"

section \<open>Nodes\<close>

datatype NodeState = NODE_UNLOAD | NODE_LOADING | NODE_ROOLBACK | NODE_COMMIT | NODE_UNLOADING | NODE_LOADED

text \<open>
  \<open>nd_unloadable\<close> is what \<open>UnloadableFunc\<close> answers (true without one).  Calls of the other
  callbacks are recorded in the manager's \<open>calls\<close>.
\<close>

record Node =
  nd_ref :: RefHelper
  nd_id :: u64
  nd_state :: NodeState
  nd_size :: u64
  nd_iter :: u64
  nd_closed :: bool
  nd_unloadable :: bool

definition NewNode :: "u64 \<Rightarrow> u64 \<Rightarrow> Node" where
  "NewNode i sz = \<lparr>nd_ref = \<lparr>Refs = 0, OnZeroCB = False\<rparr>, nd_id = i, nd_state = NODE_UNLOAD, nd_size = sz,
     nd_iter = 0, nd_closed = False, nd_unloadable = True\<rparr>"

definition Unloadable :: "Node \<Rightarrow> bool" where
  "Unloadable n =
     (if nd_state n = NODE_UNLOAD then False
      else if RefCount (nd_ref n) > 0 then False
      else nd_unloadable n)"

definition IsLoaded :: "Node \<Rightarrow> bool" where
  "IsLoaded n \<longleftrightarrow> nd_state n = NODE_LOADED"

type_synonym naddr = nat

record EvictNode =
  en_handle :: naddr
  en_iter :: u64

text \<open>\<open>EvictNode.Unloadable\<close> is always called with the entry's own handle.\<close>

definition EvictNode_Unloadable :: "EvictNode \<Rightarrow> Node \<Rightarrow> bool" where
  "EvictNode_Unloadable e n \<longleftrightarrow> nd_iter n = en_iter e"

datatype callback = LoadFunc naddr | UnloadFunc naddr | DestroyFunc naddr

record 'q nodeManager =
  limiter :: sizeLimiter
  nodes :: "u64 \<rightharpoonup> naddr"
  evicter :: 'q
  unregistertimes :: u64
  loadtimes :: u64
  evicttimes :: u64
  nheap :: "naddr \<rightharpoonup> Node"
  calls :: "callback list"

definition NewNodeManager :: "u64 \<Rightarrow> 'q \<Rightarrow> 'q nodeManager" where
  "NewNodeManager maxsize ev = \<lparr>limiter = newSizeLimiter maxsize, nodes = Map.empty, evicter = ev,
     unregistertimes = 0, loadtimes = 0, evicttimes = 0, nheap = Map.empty, calls = []\<rparr>"

definition node_at :: "'q nodeManager \<Rightarrow> naddr \<Rightarrow> Node" where
  "node_at m a = the (nheap m a)"

definition put_node :: "naddr \<Rightarrow> Node \<Rightarrow> 'q nodeManager \<Rightarrow> 'q nodeManager" where
  "put_node a n m = m\<lparr>nheap := (nheap m)(a \<mapsto> n)\<rparr>"

definition Load :: "naddr \<Rightarrow> 'q nodeManager \<Rightarrow> 'q nodeManager" where
  "Load a m =
     (let n = node_at m a in
      if nd_state n = NODE_LOADED then m
      else (put_node a (n\<lparr>nd_state := NODE_LOADED\<rparr>) m)\<lparr>calls := LoadFunc a # calls m\<rparr>)"

definition Unload :: "naddr \<Rightarrow> 'q nodeManager \<Rightarrow> 'q nodeManager" where
  "Unload a m =
     (let n = node_at m a in
      if nd_state n = NODE_UNLOAD then m
      else (put_node a (n\<lparr>nd_state := NODE_UNLOAD\<rparr>) m)
             \<lparr>limiter := RetuernQuota (nd_size n) (limiter m), calls := UnloadFunc a # calls m\<rparr>)"

section \<open>The manager\<close>

definition RegisterNode :: "naddr \<Rightarrow> 'q nodeManager \<Rightarrow> 'q nodeManager res" where
  "RegisterNode a m =
     (let i = nd_id (node_at m a) in
      case nodes m i of Some _ \<Rightarrow> Panic | None \<Rightarrow> Ok (m\<lparr>nodes := (nodes m)(i \<mapsto> a)\<rparr>))"

definition UnregisterNode :: "naddr \<Rightarrow> 'q nodeManager \<Rightarrow> 'q nodeManager" where
  "UnregisterNode a m = m\<lparr>unregistertimes := unregistertimes m + 1,
     nodes := (nodes m)(nd_id (node_at m a) := None), calls := DestroyFunc a # calls m\<rparr>"

definition Node_Close :: "naddr \<Rightarrow> 'q nodeManager \<Rightarrow> 'q nodeManager" where
  "Node_Close a m =
     (if nd_closed (node_at m a) then m
      else let m1 = put_node a ((node_at m a)\<lparr>nd_closed := True\<rparr>) m;
               m2 = (if nd_state (node_at m1 a) = NODE_LOADED then Unload a m1 else m1)
           in UnregisterNode a m2)"

text \<open>An eviction entry that \<open>MakeRoom\<close> passes over.\<close>

definition evict_skip :: "EvictNode \<Rightarrow> Node \<Rightarrow> bool" where
  "evict_skip e n \<longleftrightarrow> nd_closed n \<or> \<not> EvictNode_Unloadable e n \<or> \<not> Unloadable n"

text \<open>The loop of \<open>MakeRoom\<close>; \<open>qget\<close> is the queue's \<open>Get\<close>.\<close>

partial_function (option) evict_loop ::
  "('q \<Rightarrow> EvictNode option \<times> 'q) \<Rightarrow> u64 \<Rightarrow> 'q nodeManager \<Rightarrow> (bool \<times> 'q nodeManager) option" where
  "evict_loop qget sz m =
     (case qget (evicter m) of
        (None, q) \<Rightarrow> Some (False, m\<lparr>evicter := q\<rparr>)
      | (Some e, q) \<Rightarrow>
          let m1 = m\<lparr>evicter := q\<rparr> in
          if evict_skip e (node_at m1 (en_handle e)) then evict_loop qget sz m1
          else
            let m2 = Unload (en_handle e) m1 in
            (case ApplyQuota sz (limiter m2) of
               (ok, l) \<Rightarrow> if ok then Some (True, m2\<lparr>limiter := l\<rparr>) else evict_loop qget sz m2))"

definition MakeRoom ::
  "('q \<Rightarrow> EvictNode option \<times> 'q) \<Rightarrow> u64 \<Rightarrow> 'q nodeManager \<Rightarrow> (bool \<times> 'q nodeManager) option" where
  "MakeRoom qget sz m =
     (case ApplyQuota sz (limiter m) of
        (ok, l) \<Rightarrow> if ok then Some (True, m\<lparr>limiter := l\<rparr>) else evict_loop qget sz m)"

definition Node_Ref :: "naddr \<Rightarrow> 'q nodeManager \<Rightarrow> 'q nodeManager" where
  "Node_Ref a m = put_node a ((node_at m a)\<lparr>nd_ref := Ref (nd_ref (node_at m a))\<rparr>) m"

text \<open>\<open>Pin\<close> answers whether it returned a handle.\<close>

definition Pin ::
  "('q \<Rightarrow> EvictNode option \<times> 'q) \<Rightarrow> naddr \<Rightarrow> 'q nodeManager \<Rightarrow> (bool \<times> 'q nodeManager) option" where
  "Pin qget a m =
     (if IsLoaded (node_at m a) then Some (True, Node_Ref a m)
      else
        (case MakeRoom qget (nd_size (node_at m a)) m of
           None \<Rightarrow> None
         | Some (ok, m1) \<Rightarrow>
             if \<not> ok then Some (False, m1)
             else let m2 = Load a m1 in
               Some (True, Node_Ref a (m2\<lparr>loadtimes := loadtimes m2 + 1\<rparr>))))"

definition Unpin :: "(EvictNode \<Rightarrow> 'q \<Rightarrow> 'q) \<Rightarrow> naddr \<Rightarrow> 'q nodeManager \<Rightarrow> 'q nodeManager res" where
  "Unpin qput a m =
     res_bind (Unref (nd_ref (node_at m a))) (\<lambda>(r, _).
       let n = (node_at m a)\<lparr>nd_ref := r\<rparr> in
       if RefCount r = 0 then
         let it = nd_iter n + 1 in
         Ok ((put_node a (n\<lparr>nd_iter := it\<rparr>) m)
               \<lparr>evicter := qput \<lparr>en_handle = a, en_iter = it\<rparr> (evicter m), evicttimes := evicttimes m + 1\<rparr>)
       else Ok (put_node a n m))"

text \<open>\<open>Expand\<close>: \<open>fn\<close> is the error of the caller's function, if any.\<close>

definition Expand ::
  "('q \<Rightarrow> EvictNode option \<times> 'q) \<Rightarrow> naddr \<Rightarrow> u64 \<Rightarrow> go_error option \<Rightarrow> 'q nodeManager
   \<Rightarrow> (go_error option \<times> 'q nodeManager) option" where
  "Expand qget a delta fn m =
     (case MakeRoom qget delta m of
        None \<Rightarrow> None
      | Some (ok, m1) \<Rightarrow>
          if \<not> ok then Some (Some ErrNoEnoughSpace, m1)
          else
            (case fn of
               Some e \<Rightarrow> Some (Some e, m1\<lparr>limiter := RetuernQuota delta (limiter m1)\<rparr>)
             | None \<Rightarrow> Some (None, put_node a ((node_at m1 a)\<lparr>nd_size := nd_size (node_at m1 a) + delta\<rparr>) m1)))"

section \<open>The eviction queue\<close>

text \<open>
  What the manager relies on from the queue: it holds a list of entries, \<open>Get\<close> removes the
  oldest one and answers nothing exactly when it is empty, \<open>Put\<close> appends or, when the ring is full,
  drops the entry.
\<close>

definition queue_laws ::
  "('q \<Rightarrow> EvictNode option \<times> 'q) \<Rightarrow> (EvictNode \<Rightarrow> 'q \<Rightarrow> 'q) \<Rightarrow> ('q \<Rightarrow> EvictNode list) \<Rightarrow> bool" where
  "queue_laws qget qput ql \<longleftrightarrow>
     (\<forall>q. case qget q of
            (None, q') \<Rightarrow> ql q = [] \<and> ql q' = []
          | (Some e, q') \<Rightarrow> ql q = e # ql q')
     \<and> (\<forall>e q. ql (qput e q) = ql q @ [e] \<or> ql (qput e q) = ql q)"

section \<open>Accounting\<close>

definition charge_of :: "Node \<Rightarrow> nat" where
  "charge_of n = (if nd_state n = NODE_LOADED then unat (nd_size n) else 0)"

definition loaded_sum :: "'q nodeManager \<Rightarrow> nat" where
  "loaded_sum m = (\<Sum>a \<in> dom (nheap m). charge_of (the (nheap m a)))"

definition two_state :: "Node \<Rightarrow> bool" where
  "two_state n \<longleftrightarrow> nd_state n \<in> {NODE_UNLOAD, NODE_LOADED}"

text \<open>
  The invariant of the manager, when \<open>extra\<close> bytes have been granted to a caller and are not yet
  part of a node: what is active is what is loaded, within a limit that the arithmetic can hold, and
  a pinned open node is loaded.
\<close>

definition node_inv :: "Node \<Rightarrow> bool" where
  "node_inv n \<longleftrightarrow> two_state n \<and> unat (nd_size n) < 2 ^ 63 \<and> 0 \<le> RefCount (nd_ref n)
     \<and> (0 < RefCount (nd_ref n) \<and> \<not> nd_closed n \<longrightarrow> nd_state n = NODE_LOADED)"

definition mgr_ok :: "('q \<Rightarrow> EvictNode list) \<Rightarrow> u64 \<Rightarrow> nat \<Rightarrow> 'q nodeManager \<Rightarrow> bool" where
  "mgr_ok ql mx extra m \<longleftrightarrow>
     finite (dom (nheap m))
     \<and> unat (activesize (limiter m)) = loaded_sum m + extra
     \<and> loaded_sum m + extra \<le> unat mx
     \<and> maxactivesize (limiter m) = mx \<and> unat mx < 2 ^ 63
     \<and> (\<forall>a n. nheap m a = Some n \<longrightarrow> node_inv n)
     \<and> (\<forall>e \<in> set (ql (evicter m)). nheap m (en_handle e) \<noteq> None)"

lemma loaded_sum_put:
  assumes "finite (dom (nheap m))" and "nheap m a = Some n"
  shows "loaded_sum (put_node a n' m) + charge_of n = loaded_sum m + charge_of n'"
proof -
  let ?r = "\<Sum>x \<in> dom (nheap m) - {a}. charge_of (the (nheap m x))"
  have "loaded_sum m = charge_of n + ?r"
    using assms by (simp add: loaded_sum_def sum.remove [of "dom (nheap m)" a] domI)
  moreover have "loaded_sum (put_node a n' m) = charge_of n' + ?r"
    using assms by (simp add: loaded_sum_def put_node_def insert_absorb domI sum.remove [of "dom (nheap m)" a])
  ultimately show ?thesis by simp
qed

lemma loaded_sum_new:
  assumes "finite (dom (nheap m))" and "nheap m a = None"
  shows "loaded_sum (put_node a n' m) = loaded_sum m + charge_of n'"
proof -
  have "a \<notin> dom (nheap m)" using assms by auto
  then have "(\<Sum>x \<in> dom (nheap m). charge_of (the (((nheap m)(a \<mapsto> n')) x))) = loaded_sum m"
    by (auto simp: loaded_sum_def intro!: sum.cong)
  then show ?thesis
    using assms \<open>a \<notin> dom (nheap m)\<close> by (simp add: loaded_sum_def put_node_def)
qed

lemma charge_le: "finite (dom (nheap m)) \<Longrightarrow> nheap m a = Some n \<Longrightarrow> charge_of n \<le> loaded_sum m"
  using loaded_sum_put [of m a n "n\<lparr>nd_state := NODE_UNLOAD\<rparr>"] by (simp add: charge_of_def)

text \<open>The limiter is a budget; \<open>ApplyQuota\<close> is its take and \<open>RetuernQuota\<close> its give.\<close>

interpretation lim: budget
  "\<lambda>l. unat (activesize l) \<le> unat (maxactivesize l)" "\<lambda>l. unat (activesize l)" "\<lambda>l. unat (maxactivesize l)"
  "\<lambda>l n. n < 2 ^ 63 \<and> unat (maxactivesize l) < 2 ^ 63"
  "\<lambda>n l. case ApplyQuota (word_of_nat n) l of (ok, l') \<Rightarrow> if ok then Some l' else None"
  "\<lambda>n l. RetuernQuota (word_of_nat n) l"
proof (unfold_locales, goal_cases)
  case (1 l n)
  then have "unat (activesize l + word_of_nat n) = unat (activesize l) + n"
    by (subst unat_plus_no_wrap) (simp_all add: unat_of_nat)
  then show ?case by (simp add: ApplyQuota_def Let_def word_less_nat_alt)
next
  case (2 l n l')
  then have "unat (activesize l + word_of_nat n) = unat (activesize l) + n"
    by (subst unat_plus_no_wrap) (simp_all add: unat_of_nat)
  then show ?case using 2 by (auto simp: ApplyQuota_def Let_def word_less_nat_alt split: if_splits)
next
  case (3 l n)
  then have "unat (activesize l - word_of_nat n) = unat (activesize l) - n"
    by (subst unat_minus_le) (simp_all add: unat_of_nat)
  then show ?case using 3 by (auto simp: RetuernQuota_def add_not_minus_one)
qed

lemma sint_nonneg_unat:
  assumes "0 \<le> sint (w :: u64)"
  shows "sint w = int (unat w)" and "unat w < 2 ^ 63"
proof -
  have "\<not> bit (uint w) 63"
    using assms bit_last_iff [of w] by (simp add: bit_uint_iff)
  then have "even (uint w div 2 ^ 63)"
    by (simp add: bit_iff_odd_drop_bit drop_bit_eq_div)
  moreover have "uint w div 2 ^ 63 < 2" "0 \<le> uint w div 2 ^ 63"
    using uint_lt2p [of w] by (simp_all add: pos_imp_zdiv_nonneg_iff)
  moreover have "even x \<Longrightarrow> x < 2 \<Longrightarrow> 0 \<le> x \<Longrightarrow> x = 0" for x :: int by presburger
  ultimately have "uint w div 2 ^ 63 = 0" by blast
  then have "uint w < 2 ^ 63" using uint_lt2p [of w] by (auto simp: zdiv_eq_0_iff)
  then have "unat w < 2 ^ 63" by (simp add: uint_nat del: of_nat_unat)
  then have s: "sint w = uint w"
    using sint_small [of w] by simp
  then show "sint w = int (unat w)" by (simp add: uint_nat del: of_nat_unat)
  show "unat w < 2 ^ 63" by fact
qed

lemma ApplyQuota_cases:
  assumes "unat (activesize l) \<le> unat (maxactivesize l)" and "unat (maxactivesize l) < 2 ^ 63" and "unat sz < 2 ^ 63"
  shows "(\<exists>l'. ApplyQuota sz l = (True, l') \<and> unat (activesize l') = unat (activesize l) + unat sz
      \<and> unat (activesize l') \<le> unat (maxactivesize l) \<and> maxactivesize l' = maxactivesize l)
    \<or> (ApplyQuota sz l = (False, l) \<and> unat (maxactivesize l) < unat (activesize l) + unat sz)"
proof (cases "ApplyQuota sz l")
  case (Pair ok l')
  note laws = lim.take_None [of l "unat sz"] lim.take_Some [of l "unat sz" l'] lim.take_within [of l "unat sz" l']
  show ?thesis
  proof (cases ok)
    case True
    moreover have "maxactivesize l' = maxactivesize l"
      using Pair by (auto simp: ApplyQuota_def Let_def split: if_splits)
    ultimately show ?thesis using laws(2,3) Pair assms by simp
  next
    case False
    then have "l' = l" using Pair by (auto simp: ApplyQuota_def Let_def split: if_splits)
    then show ?thesis using laws(1) Pair False assms by simp
  qed
qed

lemma RetuernQuota_simps:
  "unat sz \<le> unat (activesize l) \<Longrightarrow> unat (activesize (RetuernQuota sz l)) = unat (activesize l) - unat sz"
  "maxactivesize (RetuernQuota sz l) = maxactivesize l"
  by (simp_all add: RetuernQuota_def add_not_minus_one unat_minus_le)

lemma put_node_simps [simp]:
  "nheap (put_node a n m) = (nheap m)(a \<mapsto> n)" "limiter (put_node a n m) = limiter m"
  "evicter (put_node a n m) = evicter m" "nodes (put_node a n m) = nodes m" "calls (put_node a n m) = calls m"
  "node_at (put_node a n m) a = n"
  by (simp_all add: put_node_def node_at_def)

lemma node_at_Some [simp]: "nheap m a = Some n \<Longrightarrow> node_at m a = n"
  by (simp add: node_at_def)

lemma loaded_sum_cong: "nheap m = nheap m' \<Longrightarrow> loaded_sum m = loaded_sum m'"
  by (simp add: loaded_sum_def)

text \<open>Replacing one node and adjusting the limiter by the difference keeps the invariant.\<close>

lemma mgr_ok_put:
  assumes "mgr_ok ql mx extra m" and "nheap m a = Some n" and "node_inv n'"
    and "nheap m' = (nheap m)(a \<mapsto> n')" and "set (ql (evicter m')) \<subseteq> set (ql (evicter m)) \<union> {e. en_handle e = a}"
    and "maxactivesize (limiter m') = maxactivesize (limiter m)"
    and "unat (activesize (limiter m')) + charge_of n = loaded_sum m + charge_of n' + extra'"
    and "loaded_sum m + charge_of n' + extra' \<le> unat (maxactivesize (limiter m)) + charge_of n"
  shows "mgr_ok ql mx extra' m'"
proof -
  have "finite (dom (nheap m))" using assms(1) by (simp add: mgr_ok_def)
  then have "loaded_sum (put_node a n' m) + charge_of n = loaded_sum m + charge_of n'"
    using assms(2) by (rule loaded_sum_put)
  moreover have "loaded_sum m' = loaded_sum (put_node a n' m)"
    by (rule loaded_sum_cong) (simp add: assms(4))
  ultimately show ?thesis
    using assms by (auto simp: mgr_ok_def)
qed

lemma Unload_simps:
  assumes "nheap m a = Some n" and "nd_state n \<noteq> NODE_UNLOAD"
  shows "nheap (Unload a m) = (nheap m)(a \<mapsto> n\<lparr>nd_state := NODE_UNLOAD\<rparr>)"
    "limiter (Unload a m) = RetuernQuota (nd_size n) (limiter m)" "evicter (Unload a m) = evicter m"
    "nodes (Unload a m) = nodes m"
  using assms by (simp_all add: Unload_def Let_def)

lemma Unload_ok:
  assumes ok: "mgr_ok ql mx extra m" and n: "nheap m a = Some n" "nd_state n = NODE_LOADED"
    and unpinned: "RefCount (nd_ref n) = 0 \<or> nd_closed n"
  shows "mgr_ok ql mx extra (Unload a m)"
proof -
  have c: "charge_of n = unat (nd_size n)" "charge_of n \<le> loaded_sum m"
    using charge_le [of m a n] ok n by (simp_all add: charge_of_def mgr_ok_def)
  have inv: "node_inv n" using ok n by (auto simp: mgr_ok_def)
  show ?thesis
  proof (rule mgr_ok_put [OF ok n(1), where n' = "n\<lparr>nd_state := NODE_UNLOAD\<rparr>"])
    show "node_inv (n\<lparr>nd_state := NODE_UNLOAD\<rparr>)"
      using inv unpinned by (auto simp: node_inv_def two_state_def)
    show "unat (activesize (limiter (Unload a m))) + charge_of n
        = loaded_sum m + charge_of (n\<lparr>nd_state := NODE_UNLOAD\<rparr>) + extra"
      using ok c n by (simp add: Unload_simps [OF n(1)] RetuernQuota_simps mgr_ok_def charge_of_def)
  qed (use ok c n in \<open>auto simp: Unload_simps RetuernQuota_simps mgr_ok_def charge_of_def\<close>)
qed

section \<open>Making room\<close>

text \<open>How eviction may change the heap: idle open nodes become unloaded, nothing else changes.\<close>

definition evicted_only :: "'q nodeManager \<Rightarrow> 'q nodeManager \<Rightarrow> bool" where
  "evicted_only m m' \<longleftrightarrow> nodes m' = nodes m \<and> maxactivesize (limiter m') = maxactivesize (limiter m)
     \<and> dom (nheap m') = dom (nheap m)
     \<and> (\<forall>a n. nheap m a = Some n \<longrightarrow> nheap m' a = Some n
          \<or> (nd_state n = NODE_LOADED \<and> RefCount (nd_ref n) = 0 \<and> \<not> nd_closed n
             \<and> nheap m' a = Some (n\<lparr>nd_state := NODE_UNLOAD\<rparr>)))"

lemma evicted_only_refl [simp]: "evicted_only m m"
  by (simp add: evicted_only_def)

lemma evicted_only_trans:
  assumes "evicted_only m1 m2" and "evicted_only m2 m3"
  shows "evicted_only m1 m3"
proof -
  have "nheap m3 a = Some n \<or> (nd_state n = NODE_LOADED \<and> RefCount (nd_ref n) = 0 \<and> \<not> nd_closed n
             \<and> nheap m3 a = Some (n\<lparr>nd_state := NODE_UNLOAD\<rparr>))" if "nheap m1 a = Some n" for a n
  proof -
    from assms(1) that consider "nheap m2 a = Some n"
      | "nd_state n = NODE_LOADED" "RefCount (nd_ref n) = 0" "\<not> nd_closed n" "nheap m2 a = Some (n\<lparr>nd_state := NODE_UNLOAD\<rparr>)"
      by (auto simp: evicted_only_def)
    then show ?thesis
      using assms(2) unfolding evicted_only_def by cases fastforce+
  qed
  then show ?thesis using assms by (simp add: evicted_only_def)
qed

lemma mgr_ok_queue:
  "mgr_ok ql mx extra m \<Longrightarrow> set (ql q) \<subseteq> set (ql (evicter m)) \<Longrightarrow> mgr_ok ql mx extra (m\<lparr>evicter := q\<rparr>)"
  by (auto simp: mgr_ok_def loaded_sum_def)

lemma mgr_ok_grant:
  assumes "mgr_ok ql mx extra m" and "unat sz < 2 ^ 63" and "ApplyQuota sz (limiter m) = (ok, l)"
  shows "if ok then mgr_ok ql mx (extra + unat sz) (m\<lparr>limiter := l\<rparr>) \<and> maxactivesize l = maxactivesize (limiter m)
    else unat (maxactivesize (limiter m)) < loaded_sum m + extra + unat sz"
  using ApplyQuota_cases [of "limiter m" sz] assms
  by (auto simp: mgr_ok_def loaded_sum_def)

definition room_ok ::
  "('q \<Rightarrow> EvictNode list) \<Rightarrow> u64 \<Rightarrow> nat \<Rightarrow> u64 \<Rightarrow> 'q nodeManager \<Rightarrow> bool \<Rightarrow> 'q nodeManager \<Rightarrow> bool" where
  "room_ok ql mx extra sz m ok m' \<longleftrightarrow> mgr_ok ql mx (if ok then extra + unat sz else extra) m'
     \<and> (\<not> ok \<longrightarrow> ql (evicter m') = [] \<and> unat (maxactivesize (limiter m)) < loaded_sum m' + extra + unat sz)
     \<and> evicted_only m m'"

lemma room_ok_trans: "evicted_only m m1 \<Longrightarrow> room_ok ql mx extra sz m1 ok m' \<Longrightarrow> room_ok ql mx extra sz m ok m'"
  unfolding room_ok_def using evicted_only_trans [of m m1 m'] by (simp add: evicted_only_def)

lemma evict_loop_correct:
  assumes "queue_laws qget qput ql" and "mgr_ok ql mx extra m" and "unat sz < 2 ^ 63"
    and "unat (maxactivesize (limiter m)) < loaded_sum m + extra + unat sz"
  shows "\<exists>ok m'. evict_loop qget sz m = Some (ok, m')
    \<and> room_ok ql mx extra sz m ok m'"
  using assms(2-)
proof (induction "ql (evicter m)" arbitrary: m)
  case Nil
  obtain q where q: "qget (evicter m) = (None, q)" "ql q = []"
    using assms(1) Nil.hyps unfolding queue_laws_def
    by (cases "qget (evicter m)"; cases "fst (qget (evicter m))") (force split: prod.splits option.splits)+
  then show ?case
    using Nil by (subst evict_loop.simps) (auto simp: room_ok_def mgr_ok_def loaded_sum_def evicted_only_def)
next
  case (Cons e es)
  obtain q where q: "qget (evicter m) = (Some e, q)" "ql q = es"
    using assms(1) Cons.hyps(2) unfolding queue_laws_def
    by (cases "qget (evicter m)"; cases "fst (qget (evicter m))") (force split: prod.splits option.splits)+
  let ?m1 = "m\<lparr>evicter := q\<rparr>"
  have ok1: "mgr_ok ql mx extra ?m1"
    using Cons.prems(1) q Cons.hyps(2) set_subset_Cons [of es e] by (intro mgr_ok_queue) simp_all
  obtain n where n: "nheap m (en_handle e) = Some n"
    using Cons.prems(1) Cons.hyps(2) [symmetric] by (cases "nheap m (en_handle e)") (auto simp: mgr_ok_def)
  have inv: "node_inv n" using Cons.prems(1) n by (auto simp: mgr_ok_def)
  have e1: "evicted_only m ?m1" by (simp add: evicted_only_def)
  show ?case
  proof (cases "evict_skip e n")
    case True
    then have "evict_loop qget sz m = evict_loop qget sz ?m1"
      using q n by (subst evict_loop.simps) (simp add: Let_def)
    moreover have "loaded_sum ?m1 = loaded_sum m" by (simp add: loaded_sum_def)
    ultimately show ?thesis
      using Cons.hyps(1) [of ?m1] q(2) ok1 Cons.prems room_ok_trans [OF e1] by simp metis
  next
    case False
    let ?m2 = "Unload (en_handle e) ?m1"
    have st: "nd_state n = NODE_LOADED" "RefCount (nd_ref n) = 0" "\<not> nd_closed n"
      using False inv by (auto simp: evict_skip_def Unloadable_def node_inv_def two_state_def split: if_splits)
    have n1: "nheap ?m1 (en_handle e) = Some n" using n by simp
    have ok2: "mgr_ok ql mx extra ?m2"
      using Unload_ok [OF ok1 n1 st(1)] st by simp
    have e2: "evicted_only m ?m2"
      using n st by (auto simp: evicted_only_def Unload_simps [OF n1] RetuernQuota_simps)
    obtain ok l where a: "ApplyQuota sz (limiter ?m2) = (ok, l)" by force
    note g = mgr_ok_grant [OF ok2 Cons.prems(2) a]
    have lim: "maxactivesize (limiter ?m2) = maxactivesize (limiter m)" "evicter ?m2 = q"
      using e2 st by (simp_all add: evicted_only_def Unload_simps [OF n1])
    show ?thesis
    proof (cases ok)
      case True
      then have "evict_loop qget sz m = Some (True, ?m2\<lparr>limiter := l\<rparr>)"
        using q n False a by (subst evict_loop.simps) (simp add: Let_def)
      moreover have "evicted_only m (?m2\<lparr>limiter := l\<rparr>)"
        using e2 g True by (simp add: evicted_only_def)
      ultimately show ?thesis using g True by (auto simp: room_ok_def)
    next
      case ok: False
      then have "evict_loop qget sz m = evict_loop qget sz ?m2"
        using q n False a by (subst evict_loop.simps) (simp add: Let_def)
      then show ?thesis
        using Cons.hyps(1) [of ?m2] q(2) ok2 Cons.prems(2) g ok lim room_ok_trans [OF e2] by simp metis
    qed
  qed
qed

lemma MakeRoom_ok:
  assumes "queue_laws qget qput ql" and "mgr_ok ql mx extra m" and "unat sz < 2 ^ 63"
  shows "\<exists>ok m'. MakeRoom qget sz m = Some (ok, m')
    \<and> room_ok ql mx extra sz m ok m'"
proof -
  obtain ok l where a: "ApplyQuota sz (limiter m) = (ok, l)" by force
  note g = mgr_ok_grant [OF assms(2,3) a]
  show ?thesis
  proof (cases ok)
    case True
    then show ?thesis using a g by (auto simp: MakeRoom_def room_ok_def evicted_only_def)
  next
    case False
    then show ?thesis using a g evict_loop_correct [OF assms] by (simp add: MakeRoom_def)
  qed
qed

text \<open>
  C17. With an eviction queue that hands out what was put into it, \<open>MakeRoom\<close> terminates.  On
  success the bytes asked for are granted on top of what is loaded and the total is within the limit;
  on failure the queue is empty and the bytes do not fit.  In both cases the only nodes that changed
  are loaded, open and unpinned ones, which are now unloaded.
\<close>

theorem MakeRoom_correct:
  assumes "queue_laws qget qput ql" and "mgr_ok ql mx 0 m" and "unat sz < 2 ^ 63"
  shows "\<exists>ok m'. MakeRoom qget sz m = Some (ok, m') \<and> evicted_only m m'
    \<and> mgr_ok ql mx (if ok then unat sz else 0) m'
    \<and> (\<not> ok \<longrightarrow> ql (evicter m') = [] \<and> unat (maxactivesize (limiter m)) < loaded_sum m' + unat sz)"
proof -
  obtain ok m' where "MakeRoom qget sz m = Some (ok, m')" "room_ok ql mx 0 sz m ok m'"
    using MakeRoom_ok [OF assms] by blast
  then show ?thesis
    by (intro exI [of _ ok] exI [of _ m']) (simp add: room_ok_def split: if_splits)
qed

definition list_get :: "EvictNode list \<Rightarrow> EvictNode option \<times> EvictNode list" where
  "list_get q = (case q of [] \<Rightarrow> (None, []) | e # es \<Rightarrow> (Some e, es))"

definition list_put :: "EvictNode \<Rightarrow> EvictNode list \<Rightarrow> EvictNode list" where
  "list_put e q = q @ [e]"

lemma list_queue_laws: "queue_laws list_get list_put (\<lambda>q. q)"
  by (auto simp: queue_laws_def list_get_def list_put_def split: list.splits)

lemma NewNodeManager_ok: "unat mx < 2 ^ 63 \<Longrightarrow> ql ev = [] \<Longrightarrow> mgr_ok ql mx 0 (NewNodeManager mx ev)"
  by (simp add: mgr_ok_def NewNodeManager_def newSizeLimiter_def loaded_sum_def)

theorem MakeRoom_correct_witness:
  "\<exists>ok m'. MakeRoom list_get 70 (NewNodeManager 100 []) = Some (ok, m') \<and> evicted_only (NewNodeManager 100 []) m'
    \<and> mgr_ok (\<lambda>q. q) 100 (if ok then 70 else 0) m'"
proof -
  have "mgr_ok (\<lambda>q. q) 100 0 (NewNodeManager 100 [])" by (rule NewNodeManager_ok) simp_all
  then obtain ok m' where "MakeRoom list_get 70 (NewNodeManager 100 []) = Some (ok, m')"
    "evicted_only (NewNodeManager 100 []) m'" "mgr_ok (\<lambda>q. q) 100 (if ok then unat (70 :: u64) else 0) m'"
    using MakeRoom_correct [OF list_queue_laws, of 100 "NewNodeManager 100 []" 70] by auto
  then show ?thesis by (intro exI [of _ ok] exI [of _ m']) (simp split: if_splits)
qed

section \<open>Every reachable manager\<close>

text \<open>
  The operations a client can perform, in any order and with any nodes: create and register a node
  at a fresh address, pin, unpin, close, and expand a node it has pinned.
\<close>

inductive buf_step ::
  "('q \<Rightarrow> EvictNode option \<times> 'q) \<Rightarrow> (EvictNode \<Rightarrow> 'q \<Rightarrow> 'q) \<Rightarrow> 'q nodeManager \<Rightarrow> 'q nodeManager \<Rightarrow> bool"
  for qget qput where
  register: "nheap m a = None \<Longrightarrow> unat sz < 2 ^ 63
     \<Longrightarrow> RegisterNode a (put_node a (NewNode i sz) m) = Ok m' \<Longrightarrow> buf_step qget qput m m'"
| pin: "nheap m a = Some n \<Longrightarrow> RefCount (nd_ref n) < 2 ^ 63 - 1 \<Longrightarrow> Pin qget a m = Some (ok, m')
     \<Longrightarrow> buf_step qget qput m m'"
| unpin: "nheap m a = Some n \<Longrightarrow> Unpin qput a m = Ok m' \<Longrightarrow> buf_step qget qput m m'"
| close: "nheap m a = Some n \<Longrightarrow> buf_step qget qput m (Node_Close a m)"
| expand: "nheap m a = Some n \<Longrightarrow> 0 < RefCount (nd_ref n) \<Longrightarrow> nd_state n = NODE_LOADED \<Longrightarrow> unat delta < 2 ^ 63
     \<Longrightarrow> Expand qget a delta fn m = Some (e, m') \<Longrightarrow> buf_step qget qput m m'"

text \<open>Every open node is registered under its identifier, and only open nodes are.\<close>

definition reg_ok :: "'q nodeManager \<Rightarrow> bool" where
  "reg_ok m \<longleftrightarrow> (\<forall>i a. nodes m i = Some a \<longleftrightarrow> (\<exists>n. nheap m a = Some n \<and> nd_id n = i \<and> \<not> nd_closed n))"

lemma Ref_count:
  assumes "0 \<le> RefCount r" and "RefCount r < 2 ^ 63 - 1"
  shows "RefCount (Ref r) = RefCount r + 1"
proof -
  note r = sint_nonneg_unat [OF assms(1) [unfolded RefCount_def]]
  have lt: "unat (Refs r) < 2 ^ 63 - 1"
    using assms(2) unfolding RefCount_def r(1) by (simp add: uint_nat del: of_nat_unat)
  have "unat (Refs r + 1) = unat (Refs r) + 1"
    using lt by (subst unat_plus_no_wrap) auto
  with lt show ?thesis
    using sint_small [of "Refs r + 1"] r(1) by (simp add: RefCount_def Ref_def uint_nat del: of_nat_unat)
qed

lemma Unref_count:
  assumes "0 \<le> RefCount r" and "Unref r = Ok (r', b)"
  shows "RefCount r' = RefCount r - 1" and "0 \<le> RefCount r'"
proof -
  note r = sint_nonneg_unat [OF assms(1) [unfolded RefCount_def]]
  obtain k where k: "unat (Refs r) = Suc k"
    using assms(2) Unref_zero [of r] by (cases "unat (Refs r)") (auto simp: unat_eq_zero)
  have "r' = r\<lparr>Refs := of_nat k\<rparr>"
    using Unref_pos [OF k] r k assms(2) by auto
  then show "RefCount r' = RefCount r - 1" "0 \<le> RefCount r'"
    using r k sint_small [of "of_nat k"] by (simp_all add: RefCount_def unat_of_nat uint_nat del: of_nat_unat)
qed

lemma same_state: "nd_state n = st \<Longrightarrow> n\<lparr>nd_state := st\<rparr> = n"
  by (cases n) simp

lemma Pin_ok:
  assumes q: "queue_laws qget qput ql" and ok: "mgr_ok ql mx 0 m" and n: "nheap m a = Some n"
    and r: "RefCount (nd_ref n) < 2 ^ 63 - 1"
  shows "\<exists>b m'. Pin qget a m = Some (b, m') \<and> mgr_ok ql mx 0 m'
    \<and> (if b then \<exists>m1. evicted_only m m1 \<and> nodes m' = nodes m1 \<and> nheap m1 a = Some n
           \<and> nheap m' = (nheap m1)(a \<mapsto> n\<lparr>nd_state := NODE_LOADED, nd_ref := Ref (nd_ref n)\<rparr>)
       else evicted_only m m')"
proof -
  let ?n = "n\<lparr>nd_state := NODE_LOADED, nd_ref := Ref (nd_ref n)\<rparr>"
  have inv: "node_inv n" using ok n by (auto simp: mgr_ok_def)
  then have inv': "node_inv ?n"
    using Ref_count [of "nd_ref n"] r by (simp add: node_inv_def two_state_def)
  show ?thesis
  proof (cases "IsLoaded n")
    case True
    then have p: "Pin qget a m = Some (True, put_node a ?n m)"
      using n by (simp add: Pin_def Node_Ref_def IsLoaded_def same_state)
    have "mgr_ok ql mx 0 (put_node a ?n m)"
      by (rule mgr_ok_put [OF ok n inv']) (use ok True in \<open>auto simp: mgr_ok_def charge_of_def IsLoaded_def\<close>)
    then show ?thesis
      using p n by (intro exI [of _ True] exI [of _ "put_node a ?n m"]) (simp, intro exI [of _ m], simp)
  next
    case False
    then have st: "nd_state n = NODE_UNLOAD" using inv by (simp add: IsLoaded_def node_inv_def two_state_def)
    obtain b m1 where mr: "MakeRoom qget (nd_size n) m = Some (b, m1)" "room_ok ql mx 0 (nd_size n) m b m1"
      using MakeRoom_ok [OF q ok, of "nd_size n"] inv by (auto simp: node_inv_def)
    have n1: "nheap m1 a = Some n"
      using mr(2) n st by (force simp: room_ok_def evicted_only_def)
    show ?thesis
    proof (cases b)
      case b: False
      then show ?thesis using mr n False by (intro exI [of _ False] exI [of _ m1]) (simp add: Pin_def room_ok_def)
    next
      case True
      let ?m = "Node_Ref a ((Load a m1)\<lparr>loadtimes := loadtimes (Load a m1) + 1\<rparr>)"
      have p: "Pin qget a m = Some (True, ?m)"
        using mr n False True by (simp add: Pin_def Let_def)
      have h: "nheap ?m = (nheap m1)(a \<mapsto> ?n)" "limiter ?m = limiter m1" "evicter ?m = evicter m1" "nodes ?m = nodes m1"
        using n1 st by (simp_all add: Node_Ref_def Load_def Let_def node_at_def)
      have ok1: "mgr_ok ql mx (unat (nd_size n)) m1" using mr True by (simp add: room_ok_def)
      have "mgr_ok ql mx 0 ?m"
        by (rule mgr_ok_put [OF ok1 n1 inv' h(1)]) (use ok1 st h in \<open>auto simp: mgr_ok_def charge_of_def\<close>)
      then show ?thesis
        using p h n1 mr(2) by (intro exI [of _ True] exI [of _ ?m]) (simp add: room_ok_def, intro exI [of _ m1], simp)
    qed
  qed
qed

lemma Unpin_ok:
  assumes q: "queue_laws qget qput ql" and ok: "mgr_ok ql mx 0 m" and n: "nheap m a = Some n" and u: "Unpin qput a m = Ok m'"
  shows "mgr_ok ql mx 0 m' \<and> (\<exists>r k. nheap m' = (nheap m)(a \<mapsto> n\<lparr>nd_ref := r, nd_iter := k\<rparr>) \<and> nodes m' = nodes m)"
proof -
  obtain r b where r: "Unref (nd_ref n) = Ok (r, b)"
    using u n by (auto simp: Unpin_def split: prod.splits)
  have inv: "node_inv n" using ok n by (auto simp: mgr_ok_def)
  note c = Unref_count [OF _ r]
  have qp: "set (ql (qput e (evicter m))) \<subseteq> set (ql (evicter m)) \<union> {e}" for e
    using q unfolding queue_laws_def by (metis Un_upper1 order_refl set_append list.set(1,2))
  have m': "m' = (if RefCount r = 0 then
      (put_node a (n\<lparr>nd_ref := r, nd_iter := nd_iter n + 1\<rparr>) m)
        \<lparr>evicter := qput \<lparr>en_handle = a, en_iter = nd_iter n + 1\<rparr> (evicter m), evicttimes := evicttimes m + 1\<rparr>
      else put_node a (n\<lparr>nd_ref := r, nd_iter := nd_iter n\<rparr>) m)"
    using u n r by (simp add: Unpin_def Let_def split: if_splits)
  obtain k where h: "nheap m' = (nheap m)(a \<mapsto> n\<lparr>nd_ref := r, nd_iter := k\<rparr>)" "limiter m' = limiter m" "nodes m' = nodes m"
    "evicter m' = evicter m \<or> (\<exists>e. evicter m' = qput e (evicter m) \<and> en_handle e = a)"
    by (rule that [of "if RefCount r = 0 then nd_iter n + 1 else nd_iter n"]) (auto simp: m')
  have "mgr_ok ql mx 0 m'"
  proof (rule mgr_ok_put [OF ok n _ h(1)])
    show "node_inv (n\<lparr>nd_ref := r, nd_iter := k\<rparr>)"
      using inv c by (auto simp: node_inv_def two_state_def)
    show "set (ql (evicter m')) \<subseteq> set (ql (evicter m)) \<union> {e. en_handle e = a}"
      using h(4) qp by fastforce
  qed (use ok h in \<open>auto simp: mgr_ok_def charge_of_def\<close>)
  then show ?thesis using h by blast
qed

lemma Close_ok:
  assumes ok: "mgr_ok ql mx 0 m" and n: "nheap m a = Some n"
  shows "mgr_ok ql mx 0 (Node_Close a m) \<and> (if nd_closed n then Node_Close a m = m else
     (\<exists>st. nheap (Node_Close a m) = (nheap m)(a \<mapsto> n\<lparr>nd_closed := True, nd_state := st\<rparr>))
     \<and> nodes (Node_Close a m) = (nodes m)(nd_id n := None))"
proof (cases "nd_closed n")
  case True
  then show ?thesis using ok n by (simp add: Node_Close_def)
next
  case False
  let ?n = "n\<lparr>nd_closed := True\<rparr>"
  let ?m1 = "put_node a ?n m"
  have inv: "node_inv ?n" using ok n by (auto simp: mgr_ok_def node_inv_def two_state_def)
  have ok1: "mgr_ok ql mx 0 ?m1"
    by (rule mgr_ok_put [OF ok n inv]) (use ok in \<open>auto simp: mgr_ok_def charge_of_def\<close>)
  have n1: "nheap ?m1 a = Some ?n" by simp
  have fr: "mgr_ok ql mx 0 (UnregisterNode a k) = mgr_ok ql mx 0 k" for k :: "'a nodeManager"
    by (simp add: UnregisterNode_def mgr_ok_def loaded_sum_def)
  show ?thesis
  proof (cases "nd_state n = NODE_LOADED")
    case True
    then have "mgr_ok ql mx 0 (Unload a ?m1)" using Unload_ok [OF ok1 n1] by simp
    moreover have "Node_Close a m = UnregisterNode a (Unload a ?m1)"
      using n False True by (simp add: Node_Close_def Let_def)
    moreover have "nodes (UnregisterNode a (Unload a ?m1)) = (nodes m)(nd_id n := None)"
      "nheap (UnregisterNode a (Unload a ?m1)) = (nheap m)(a \<mapsto> ?n\<lparr>nd_state := NODE_UNLOAD\<rparr>)"
      using Unload_simps [OF n1] True by (simp_all add: UnregisterNode_def node_at_def)
    ultimately show ?thesis
      using False fr by auto
  next
    case st: False
    then have "Node_Close a m = UnregisterNode a ?m1"
      using n False by (simp add: Node_Close_def Let_def)
    moreover have "nodes (UnregisterNode a ?m1) = (nodes m)(nd_id n := None)"
      "nheap (UnregisterNode a ?m1) = (nheap m)(a \<mapsto> ?n\<lparr>nd_state := nd_state n\<rparr>)"
      by (simp_all add: UnregisterNode_def node_at_def same_state)
    ultimately show ?thesis
      using False fr ok1 by (simp del: fun_upd_apply) (metis same_state)
  qed
qed

lemma Expand_ok:
  assumes q: "queue_laws qget qput ql" and ok: "mgr_ok ql mx 0 m" and n: "nheap m a = Some n"
    and pinned: "0 < RefCount (nd_ref n)" "nd_state n = NODE_LOADED" and d: "unat delta < 2 ^ 63"
  shows "\<exists>e m'. Expand qget a delta fn m = Some (e, m') \<and> mgr_ok ql mx 0 m'
    \<and> (\<exists>m1. evicted_only m m1 \<and> nheap m1 a = Some n \<and> nodes m' = nodes m1
        \<and> nheap m' = (nheap m1)(a \<mapsto> n\<lparr>nd_size := if e = None then nd_size n + delta else nd_size n\<rparr>))"
proof -
  obtain b m1 where mr: "MakeRoom qget delta m = Some (b, m1)" "room_ok ql mx 0 delta m b m1"
    using MakeRoom_ok [OF q ok d] by blast
  have n1: "nheap m1 a = Some n" and ev: "evicted_only m m1"
    using mr(2) n pinned by (force simp: room_ok_def evicted_only_def)+
  have same: "(nheap m1)(a \<mapsto> n) = nheap m1" using n1 by (simp add: fun_upd_idem)
  show ?thesis
  proof (cases b)
    case False
    then show ?thesis
      using mr ev n1 same
      by (intro exI [of _ "Some ErrNoEnoughSpace"] exI [of _ m1]) (simp add: Expand_def room_ok_def, intro exI [of _ m1], simp)
  next
    case True
    then have ok1: "mgr_ok ql mx (unat delta) m1" using mr by (simp add: room_ok_def)
    have fin: "charge_of n \<le> loaded_sum m1" using charge_le [of m1 a n] ok1 n1 by (simp add: mgr_ok_def)
    show ?thesis
    proof (cases fn)
      case (Some e)
      let ?m = "m1\<lparr>limiter := RetuernQuota delta (limiter m1)\<rparr>"
      have "Expand qget a delta fn m = Some (Some e, ?m)" using mr True Some by (simp add: Expand_def)
      moreover have "mgr_ok ql mx 0 ?m"
        using ok1 by (auto simp: mgr_ok_def loaded_sum_def RetuernQuota_simps)
      ultimately show ?thesis
        using ev n1 same by (intro exI [of _ "Some e"] exI [of _ ?m]) (simp, intro exI [of _ m1], simp)
    next
      case None
      let ?n = "n\<lparr>nd_size := nd_size n + delta\<rparr>"
      have c: "charge_of n = unat (nd_size n)" using pinned by (simp add: charge_of_def)
      have sz: "unat (nd_size n + delta) = unat (nd_size n) + unat delta"
        using ok1 fin c d by (subst unat_plus_no_wrap) (auto simp: mgr_ok_def)
      have "node_inv ?n"
        using ok1 n1 sz fin c by (auto simp: mgr_ok_def node_inv_def two_state_def)
      moreover have "charge_of ?n = unat (nd_size n) + unat delta"
        using pinned sz by (simp add: charge_of_def)
      ultimately have "mgr_ok ql mx 0 (put_node a ?n m1)"
        using ok1 c by (intro mgr_ok_put [OF ok1 n1, of ?n]) (auto simp: mgr_ok_def)
      moreover have "Expand qget a delta fn m = Some (None, put_node a ?n m1)"
        using mr True None n1 by (simp add: Expand_def)
      ultimately show ?thesis
        using ev n1 by (intro exI [of _ None] exI [of _ "put_node a ?n m1"]) (simp, intro exI [of _ m1], simp)
    qed
  qed
qed

text \<open>
  Changes that keep the registry right: eviction, and replacing a node by one with the same
  identifier and the same closed flag.
\<close>

lemma reg_ok_evicted:
  assumes "evicted_only m m1" and "reg_ok m"
  shows "reg_ok m1"
proof -
  have "(\<exists>n. nheap m1 a = Some n \<and> nd_id n = i \<and> \<not> nd_closed n)
      \<longleftrightarrow> (\<exists>n. nheap m a = Some n \<and> nd_id n = i \<and> \<not> nd_closed n)" for a i
  proof (cases "nheap m a")
    case None
    then have "nheap m1 a = None" using assms(1) by (auto simp: evicted_only_def)
    then show ?thesis using None by simp
  next
    case (Some n)
    then have "nheap m1 a = Some n \<or> nheap m1 a = Some (n\<lparr>nd_state := NODE_UNLOAD\<rparr>)"
      using assms(1) by (auto simp: evicted_only_def)
    then show ?thesis using Some by auto
  qed
  then show ?thesis using assms by (simp add: reg_ok_def evicted_only_def)
qed

lemma reg_ok_put:
  "reg_ok m \<Longrightarrow> nheap m a = Some n \<Longrightarrow> nheap m' = (nheap m)(a \<mapsto> n') \<Longrightarrow> nodes m' = nodes m
   \<Longrightarrow> nd_id n' = nd_id n \<Longrightarrow> nd_closed n' = nd_closed n \<Longrightarrow> reg_ok m'"
  by (auto simp: reg_ok_def split: if_splits)

lemma reg_ok_register:
  assumes "reg_ok m" and "nheap m a = None" and "RegisterNode a (put_node a (NewNode i sz) m) = Ok m'"
  shows "reg_ok m'"
proof -
  have m': "nheap m' = (nheap m)(a \<mapsto> NewNode i sz)" "nodes m' = (nodes m)(i \<mapsto> a)" "nodes m i = None"
    using assms(3) by (auto simp: RegisterNode_def NewNode_def split: option.splits)
  have old: "nodes m j = Some b \<longleftrightarrow> (\<exists>n. nheap m b = Some n \<and> nd_id n = j \<and> \<not> nd_closed n)" for j b
    using assms(1) by (simp add: reg_ok_def)
  have new: "nd_id (NewNode i sz) = i" "\<not> nd_closed (NewNode i sz)" by (simp_all add: NewNode_def)
  have "nodes m' j = Some b \<longleftrightarrow> (\<exists>n. nheap m' b = Some n \<and> nd_id n = j \<and> \<not> nd_closed n)" for j b
    using old [of j b] old [of i b] m' new assms(2) by (cases "b = a") (auto split: if_splits)
  then show ?thesis
    by (simp add: reg_ok_def)
qed

lemma buf_step_ok:
  assumes "buf_step qget qput m m'" and q: "queue_laws qget qput ql" and "mgr_ok ql mx 0 m" and "reg_ok m"
  shows "mgr_ok ql mx 0 m' \<and> reg_ok m'"
  using assms(1)
proof cases
  case (register a sz i)
  let ?m = "put_node a (NewNode i sz) m"
  have m': "nheap m' = nheap ?m" "limiter m' = limiter m" "evicter m' = evicter m"
    using register(3) by (auto simp: RegisterNode_def Let_def split: option.splits)
  have "loaded_sum m' = loaded_sum m"
    using loaded_sum_new [of m a "NewNode i sz"] assms(3) register(1) loaded_sum_cong [OF m'(1)]
    by (simp add: mgr_ok_def charge_of_def NewNode_def)
  moreover have "node_inv (NewNode i sz)"
    using register(2) by (simp add: node_inv_def two_state_def NewNode_def RefCount_def)
  ultimately have "mgr_ok ql mx 0 m'"
    using assms(3) m' by (auto simp: mgr_ok_def)
  then show ?thesis using reg_ok_register [OF assms(4) register(1,3)] by blast
next
  case (pin a n ok)
  then have "mgr_ok ql mx 0 m'" and r: "if ok then \<exists>m1. evicted_only m m1 \<and> nodes m' = nodes m1 \<and> nheap m1 a = Some n
           \<and> nheap m' = (nheap m1)(a \<mapsto> n\<lparr>nd_state := NODE_LOADED, nd_ref := Ref (nd_ref n)\<rparr>)
       else evicted_only m m'"
    using Pin_ok [OF q assms(3), of a n] by auto
  moreover have "reg_ok m'"
  proof (cases ok)
    case True
    then obtain m1 where "evicted_only m m1" "nodes m' = nodes m1" "nheap m1 a = Some n"
      "nheap m' = (nheap m1)(a \<mapsto> n\<lparr>nd_state := NODE_LOADED, nd_ref := Ref (nd_ref n)\<rparr>)"
      using r by auto
    then show ?thesis using reg_ok_evicted [OF _ assms(4), of m1] reg_ok_put [of m1 a n m'] by simp
  next
    case False
    then show ?thesis using r reg_ok_evicted [OF _ assms(4)] by simp
  qed
  ultimately show ?thesis by blast
next
  case (unpin a n)
  then show ?thesis
    using Unpin_ok [OF q assms(3), of a n m'] reg_ok_put [OF assms(4), of a n m'] by auto
next
  case (close a n)
  show ?thesis
  proof (cases "nd_closed n")
    case True
    then show ?thesis using assms(3,4) close by (simp add: Node_Close_def)
  next
    case False
    then obtain st where "nheap m' = (nheap m)(a \<mapsto> n\<lparr>nd_closed := True, nd_state := st\<rparr>)"
      "nodes m' = (nodes m)(nd_id n := None)"
      using Close_ok [OF assms(3) close(2)] close(1) by auto
    moreover have old: "nodes m j = Some b \<longleftrightarrow> (\<exists>n. nheap m b = Some n \<and> nd_id n = j \<and> \<not> nd_closed n)" for j b
      using assms(4) by (simp add: reg_ok_def)
    moreover have "nd_closed k" if "b \<noteq> a" "nheap m b = Some k" "nd_id k = nd_id n" for b k
      using old [of "nd_id n" b] old [of "nd_id n" a] close(2) False that by (metis option.inject)
    ultimately have "nodes m' j = Some b \<longleftrightarrow> (\<exists>n. nheap m' b = Some n \<and> nd_id n = j \<and> \<not> nd_closed n)" for j b
      using old [of j b] close(2) False
      by (cases "b = a") (auto split: if_splits)
    then have "reg_ok m'" by (simp add: reg_ok_def)
    then show ?thesis using Close_ok [OF assms(3) close(2)] close(1) by simp
  qed
next
  case (expand a n delta fn e)
  obtain m1 where "mgr_ok ql mx 0 m'" "evicted_only m m1" "nheap m1 a = Some n" "nodes m' = nodes m1"
    "nheap m' = (nheap m1)(a \<mapsto> n\<lparr>nd_size := if e = None then nd_size n + delta else nd_size n\<rparr>)"
    using Expand_ok [OF q assms(3) expand(1-4), of fn] expand(5) by auto
  then show ?thesis
    using reg_ok_evicted [OF _ assms(4), of m1] reg_ok_put [of m1 a n m'] by simp
qed

text \<open>
  C16. In every state the buffer manager can reach from an empty one, by registering, pinning,
  unpinning, closing and expanding nodes in any order: the active size is exactly the sum of the sizes
  of the loaded nodes and within the limit, every open node that is pinned is loaded, and the map from
  identifiers to nodes holds exactly the open nodes.
\<close>

theorem buffer_invariant:
  assumes "queue_laws qget qput ql" and "(buf_step qget qput)\<^sup>*\<^sup>* (NewNodeManager mx ev) m"
    and "unat mx < 2 ^ 63" and "ql ev = []"
  shows "unat (activesize (limiter m)) = loaded_sum m \<and> loaded_sum m \<le> unat mx
    \<and> (\<forall>a n. nheap m a = Some n \<and> 0 < RefCount (nd_ref n) \<and> \<not> nd_closed n \<longrightarrow> nd_state n = NODE_LOADED)
    \<and> (\<forall>i a. nodes m i = Some a \<longleftrightarrow> (\<exists>n. nheap m a = Some n \<and> nd_id n = i \<and> \<not> nd_closed n))"
proof -
  have "mgr_ok ql mx 0 m \<and> reg_ok m"
    using assms(2)
  proof (induction rule: rtranclp_induct)
    case base
    have "reg_ok (NewNodeManager mx ev)" by (simp add: reg_ok_def NewNodeManager_def)
    then show ?case
      using NewNodeManager_ok [of mx ql ev] assms by simp
  next
    case (step m1 m2)
    then show ?case using buf_step_ok [OF step(2) assms(1)] by blast
  qed
  then show ?thesis by (auto simp: mgr_ok_def reg_ok_def node_inv_def)
qed

theorem buffer_invariant_witness:
  "\<exists>m. (buf_step list_get list_put)\<^sup>*\<^sup>* (NewNodeManager 100 []) m \<and> nodes m 7 = Some 0
     \<and> unat (activesize (limiter m)) = loaded_sum m \<and> loaded_sum m \<le> 100"
proof -
  let ?m = "(put_node 0 (NewNode 7 30) (NewNodeManager 100 []))\<lparr>nodes := [7 \<mapsto> 0]\<rparr>"
  have "buf_step list_get list_put (NewNodeManager 100 []) ?m"
    by (rule buf_step.register [where a = 0 and i = 7 and sz = 30])
      (simp_all add: NewNodeManager_def RegisterNode_def NewNode_def)
  then have r: "(buf_step list_get list_put)\<^sup>*\<^sup>* (NewNodeManager 100 []) ?m" by blast
  then show ?thesis
    using buffer_invariant [OF list_queue_laws r] by (intro exI [of _ ?m]) simp
qed

text \<open>
  \<open>Expand\<close> charges the limiter at once, whether or not the node is loaded.  On a node that is
  not loaded the charge belongs to no loaded node: after a successful expansion the active size
  exceeds the loaded bytes by the expansion, and pinning the node then charges its full new size again.
\<close>

lemma Expand_unloaded_overcharges:
  assumes "queue_laws qget qput ql" and "mgr_ok ql mx 0 m" and "nheap m a = Some n"
    and "nd_state n = NODE_UNLOAD" and "unat delta < 2 ^ 63"
    and "Expand qget a delta None m = Some (None, m')"
  shows "unat (activesize (limiter m')) = loaded_sum m' + unat delta"
proof -
  obtain b m1 where mr: "MakeRoom qget delta m = Some (b, m1)" "room_ok ql mx 0 delta m b m1"
    using MakeRoom_ok [OF assms(1,2,5)] by blast
  then have b: "b" "m' = put_node a ((node_at m1 a)\<lparr>nd_size := nd_size (node_at m1 a) + delta\<rparr>) m1"
    using assms(6) by (auto simp: Expand_def split: if_splits)
  have ok1: "mgr_ok ql mx (unat delta) m1" and n1: "nheap m1 a = Some n"
    using mr(2) assms(3,4) b(1) by (force simp: room_ok_def evicted_only_def)+
  have "loaded_sum m' = loaded_sum m1"
    using loaded_sum_put [of m1 a n "n\<lparr>nd_size := nd_size n + delta\<rparr>"] ok1 n1 b(2) assms(4)
    by (simp add: mgr_ok_def charge_of_def)
  then show ?thesis using ok1 b(2) by (simp add: mgr_ok_def)
qed

lemma Expand_unloaded_overcharges_example:
  "\<exists>m'. Expand list_get 0 10 None (put_node 0 (NewNode 7 30) (NewNodeManager 100 [])) = Some (None, m')
     \<and> unat (activesize (limiter m')) = loaded_sum m' + 10"
proof -
  let ?m = "put_node 0 (NewNode 7 30) (NewNodeManager 100 [])"
  have ok: "mgr_ok (\<lambda>q. q) 100 0 ?m"
    by (simp add: mgr_ok_def NewNodeManager_def newSizeLimiter_def loaded_sum_def put_node_def NewNode_def
        charge_of_def node_inv_def two_state_def RefCount_def)
  have "\<exists>m'. Expand list_get 0 10 None ?m = Some (None, m')"
    by (simp add: Expand_def MakeRoom_def ApplyQuota_def NewNodeManager_def newSizeLimiter_def)
  then show ?thesis
    using Expand_unloaded_overcharges [OF list_queue_laws ok, of 0 "NewNode 7 30" 10]
    by (auto simp: NewNode_def)
qed

end
