(* ===== verification/InsertInfo.thy ===== *)
theory InsertInfo
  imports Prelude
begin

text \<open>
  Which rows of an appendable block a snapshot sees (\<^verbatim>\<open>pkg/tables/insert.go\<close>): every
  committed append records its last row offset and its commit timestamp, and a binary search finds the
  offset for a read timestamp.  The vectors that hold offsets and timestamps are containers of another
  repository; they are the argument \<open>ivec\<close> with the laws \<open>ivec_laws\<close>.
\<close>

section \<open>Vectors of another repository\<close>

text \<open>\<open>iv_list\<close> is the content of a vector; the code itself uses the other four operations.\<close>

record ('i, 'x) ivec =
  iv_New :: "u64 \<Rightarrow> 'i"
  iv_Append :: "'i \<Rightarrow> 'x \<Rightarrow> 'i"
  iv_Length :: "'i \<Rightarrow> int"
  iv_GetValue :: "'i \<Rightarrow> int \<Rightarrow> 'x res"
  iv_list :: "'i \<Rightarrow> 'x list"

text \<open>A vector made for \<open>cap\<close> values keeps what is appended to it up to its capacity, in order.\<close>

definition ivec_laws :: "('i, 'x) ivec \<Rightarrow> nat \<Rightarrow> bool" where
  "ivec_laws V cap \<longleftrightarrow>
     iv_list V (iv_New V (word_of_nat cap)) = []
     \<and> (\<forall>v x. length (iv_list V v) < cap \<longrightarrow> iv_list V (iv_Append V v x) = iv_list V v @ [x])
     \<and> (\<forall>v. iv_Length V v = int (length (iv_list V v)))
     \<and> (\<forall>v i. 0 \<le> i \<and> i < int (length (iv_list V v)) \<longrightarrow> iv_GetValue V v i = Ok (iv_list V v ! nat i))"

definition list_ivec :: "('x list, 'x) ivec" where
  "list_ivec = \<lparr>iv_New = (\<lambda>_. []), iv_Append = (\<lambda>v x. v @ [x]), iv_Length = (\<lambda>v. int (length v)),
     iv_GetValue = (\<lambda>v i. if 0 \<le> i \<and> i < int (length v) then Ok (v ! nat i) else Panic), iv_list = (\<lambda>v. v)\<rparr>"

lemma list_ivec_laws: "ivec_laws list_ivec cap"
  by (simp add: ivec_laws_def list_ivec_def)

section \<open>Insert information\<close>

text \<open>A transaction is its identifier and its commit timestamp; the log index is not interpreted.\<close>

record ('o, 't) insertInfo =
  ii_offsets :: 'o
  ii_ts :: 't
  offsetTxns :: "u32 \<rightharpoonup> u64 \<times> u64"
  txnMap :: "u64 \<rightharpoonup> u32"
  maxLogIndex :: "nat option"
  maxTs :: u64
  minTs :: u64
  maxOffset :: u32

definition newInsertInfo :: "('o, u32) ivec \<Rightarrow> ('t, u64) ivec \<Rightarrow> u64 \<Rightarrow> u32 \<Rightarrow> ('o, 't) insertInfo" where
  "newInsertInfo VO VT ts capacity =
     \<lparr>ii_offsets = iv_New VO (ucast capacity), ii_ts = iv_New VT (ucast capacity), offsetTxns = Map.empty, txnMap = Map.empty,
      maxLogIndex = None, maxTs = ts, minTs = ts, maxOffset = 0\<rparr>"

definition RecordTxnLocked ::
  "('o, u32) ivec \<Rightarrow> ('t, u64) ivec \<Rightarrow> u32 \<Rightarrow> u64 \<times> u64 \<Rightarrow> nat option \<Rightarrow> ('o, 't) insertInfo \<Rightarrow> ('o, 't) insertInfo" where
  "RecordTxnLocked VO VT offset txn index info =
     (let (tid, commitTS) = txn;
          pos = (word_of_int (iv_Length VO (ii_offsets info)) :: u32)
      in info\<lparr>ii_offsets := iv_Append VO (ii_offsets info) offset,
              ii_ts := iv_Append VT (ii_ts info) commitTS,
              txnMap := (txnMap info)(tid \<mapsto> pos),
              offsetTxns := (offsetTxns info)(pos \<mapsto> txn),
              maxLogIndex := index, maxTs := commitTS, maxOffset := offset\<rparr>)"

text \<open>Reading a missing key of the Go map gives zero.\<close>

definition ApplyCommitLocked :: "u64 \<Rightarrow> ('o, 't) insertInfo \<Rightarrow> ('o, 't) insertInfo" where
  "ApplyCommitLocked tid info =
     (let pos = (case txnMap info tid of None \<Rightarrow> 0 | Some p \<Rightarrow> p)
      in info\<lparr>txnMap := (txnMap info)(tid := None), offsetTxns := (offsetTxns info)(pos := None)\<rparr>)"

function search :: "('t, u64) ivec \<Rightarrow> 't \<Rightarrow> u64 \<Rightarrow> int \<Rightarrow> int \<Rightarrow> int \<Rightarrow> int res" where
  "search VT v ts l h pos =
     (if l > h then Ok pos
      else let m = (l + h) div 2 in
        case iv_GetValue VT v m of
          Ok vv \<Rightarrow>
            if vv < ts then search VT v ts (m + 1) h m
            else if vv > ts then search VT v ts l (m - 1) pos
            else Ok m
        | _ \<Rightarrow> Panic)"
  by pat_completeness auto

termination
  by (relation "measure (\<lambda>(VT, v, ts, l, h, pos). nat (h - l + 1))") auto

declare search.simps [simp del]

definition GetVisibleOffsetLocked :: "('o, u32) ivec \<Rightarrow> ('t, u64) ivec \<Rightarrow> u64 \<Rightarrow> ('o, 't) insertInfo \<Rightarrow> int res" where
  "GetVisibleOffsetLocked VO VT ts info =
     (if ts \<ge> maxTs info then Ok (uint (maxOffset info))
      else res_bind (search VT (ii_ts info) ts 0 (iv_Length VT (ii_ts info) - 1) (- 1)) (\<lambda>pos.
        if pos \<ge> 0 then
          (case iv_GetValue VO (ii_offsets info) pos of Ok o' \<Rightarrow> Ok (uint o') | _ \<Rightarrow> Panic)
        else Ok (- 1)))"

section \<open>The search and its reference\<close>

text \<open>The offset of the last record whose timestamp is not after \<open>ts\<close>, by a scan of all records.\<close>

definition last_visible :: "(u32 \<times> u64) list \<Rightarrow> u64 \<Rightarrow> int" where
  "last_visible recs ts = (case filter (\<lambda>(o', t). t \<le> ts) recs of [] \<Rightarrow> - 1 | rs \<Rightarrow> uint (fst (last rs)))"

text \<open>
  On strictly increasing timestamps the loop returns the number of timestamps up to \<open>ts\<close>, minus
  one; the invariant is that everything before \<open>l\<close> is at most \<open>ts\<close>, everything after \<open>h\<close> is
  greater, and \<open>pos\<close> is \<open>l - 1\<close>.
\<close>

lemma search_correct:
  assumes laws: "ivec_laws VT cap" and srt: "sorted_wrt (<) (iv_list VT v)"
    and "0 \<le> l" "l \<le> h + 1" "h < int (length (iv_list VT v))" "pos = l - 1"
    and "\<And>i. i < nat l \<Longrightarrow> iv_list VT v ! i \<le> ts" and "\<And>i. h < int i \<Longrightarrow> i < length (iv_list VT v) \<Longrightarrow> ts < iv_list VT v ! i"
  shows "\<exists>p. search VT v ts l h pos = Ok p \<and> - 1 \<le> p \<and> p < int (length (iv_list VT v))
    \<and> (\<forall>i < length (iv_list VT v). iv_list VT v ! i \<le> ts \<longleftrightarrow> int i \<le> p)"
  using assms(3-)
proof (induction "nat (h - l + 1)" arbitrary: l h pos rule: less_induct)
  case less
  let ?xs = "iv_list VT v"
  show ?case
  proof (cases "l > h")
    case True
    have "?xs ! i \<le> ts \<longleftrightarrow> int i \<le> pos" if "i < length ?xs" for i
      using True less.prems(1-4) less.prems(5) [of i] less.prems(6) [of i] that
      by (cases "int i \<le> pos") (auto simp: not_le)
    then show ?thesis using True less.prems by (subst search.simps) auto
  next
    case False
    define m where "m = (l + h) div 2"
    have m: "l \<le> m" "m \<le> h" "0 \<le> m" "m < int (length ?xs)" using False less.prems by (auto simp: m_def)
    have get: "iv_GetValue VT v m = Ok (?xs ! nat m)" using laws m by (simp add: ivec_laws_def)
    have mono: "?xs ! i < ?xs ! j" if "i < j" "j < length ?xs" for i j
      using srt that by (simp add: sorted_wrt_iff_nth_less)
    have step: "search VT v ts l h pos =
      (if ?xs ! nat m < ts then search VT v ts (m + 1) h m else if ?xs ! nat m > ts then search VT v ts l (m - 1) pos else Ok m)"
      using False get by (subst search.simps) (simp add: m_def [symmetric] Let_def)
    consider "?xs ! nat m < ts" | "?xs ! nat m > ts" | "?xs ! nat m = ts" by force
    then show ?thesis
    proof cases
      case 1
      have "?xs ! i \<le> ts" if "i < nat (m + 1)" for i
      proof (cases "i = nat m")
        case False
        then have "?xs ! i < ?xs ! nat m" using m that by (intro mono) auto
        then show ?thesis using 1 by simp
      qed (use 1 in simp)
      moreover have "search VT v ts l h pos = search VT v ts (m + 1) h m" using step 1 by simp
      ultimately show ?thesis using less.hyps [of h "m + 1" m] less.prems m by auto
    next
      case 2
      have "ts < ?xs ! i" if "m - 1 < int i" "i < length ?xs" for i
      proof (cases "i = nat m")
        case False
        then have "?xs ! nat m < ?xs ! i" using m that by (intro mono) auto
        then show ?thesis using 2 by simp
      qed (use 2 in simp)
      moreover have "search VT v ts l h pos = search VT v ts l (m - 1) pos"
        using step 2 by (auto dest: less_asym)
      ultimately show ?thesis using less.hyps [of "m - 1" l pos] less.prems m by auto
    next
      case 3
      have "?xs ! i \<le> ts \<longleftrightarrow> int i \<le> m" if "i < length ?xs" for i
      proof (cases i "nat m" rule: linorder_cases)
        case less
        then have "?xs ! i < ?xs ! nat m" using m by (intro mono) auto
        then show ?thesis using 3 less m by auto
      next
        case greater
        then have "?xs ! nat m < ?xs ! i" using that by (intro mono) auto
        then show ?thesis using 3 greater m by (auto simp: not_le)
      qed (use 3 m in auto)
      then show ?thesis using 3 step m by auto
    qed
  qed
qed

lemma last_visible_prefix:
  assumes "\<And>i. i < length recs \<Longrightarrow> snd (recs ! i) \<le> ts \<longleftrightarrow> int i \<le> p" and "- 1 \<le> p" and "p < int (length recs)"
  shows "last_visible recs ts = (if p < 0 then - 1 else uint (fst (recs ! nat p)))"
proof -
  have "filter (\<lambda>(o', t). t \<le> ts) recs = take (nat (p + 1)) recs"
  proof -
    have "recs = take (nat (p + 1)) recs @ drop (nat (p + 1)) recs" by simp
    moreover have "snd x \<le> ts" if "x \<in> set (take (nat (p + 1)) recs)" for x
    proof -
      obtain i where "i < nat (p + 1)" "i < length recs" "x = recs ! i" using \<open>x \<in> _\<close> by (auto simp: in_set_conv_nth)
      then show ?thesis using assms(1) [of i] by simp
    qed
    moreover have "\<not> snd x \<le> ts" if "x \<in> set (drop (nat (p + 1)) recs)" for x
    proof -
      obtain i where "nat (p + 1) + i < length recs" "x = recs ! (nat (p + 1) + i)"
        using \<open>x \<in> _\<close> by (auto simp: in_set_conv_nth less_diff_conv add.commute)
      then show ?thesis using assms(1) [of "nat (p + 1) + i"] assms(2) by simp
    qed
    ultimately show ?thesis
      by (metis (mono_tags, lifting) append.right_neutral case_prod_beta filter_False filter_True filter_append)
  qed
  moreover have "last (take (nat (p + 1)) recs) = recs ! nat p" if "0 \<le> p"
    using that assms(3) by (subst last_conv_nth) (auto simp: nat_add_distrib)
  ultimately show ?thesis using assms(2,3)
    by (cases "p < 0") (auto simp: last_visible_def split: list.splits dest: arg_cong [where f = fst])
qed

section \<open>Recording transactions\<close>

text \<open>
  \<open>info_ok recs info\<close>: the vectors hold \<open>recs\<close>, whose timestamps increase, and the maxima
  are those of the last record.
\<close>

definition info_ok ::
  "('o, u32) ivec \<Rightarrow> ('t, u64) ivec \<Rightarrow> (u32 \<times> u64) list \<Rightarrow> ('o, 't) insertInfo \<Rightarrow> bool" where
  "info_ok VO VT recs info \<longleftrightarrow>
     iv_list VO (ii_offsets info) = map fst recs \<and> iv_list VT (ii_ts info) = map snd recs
     \<and> sorted_wrt (<) (map snd recs)
     \<and> (recs \<noteq> [] \<longrightarrow> maxTs info = snd (last recs) \<and> maxOffset info = fst (last recs))"

lemma GetVisibleOffset_ok:
  assumes "ivec_laws VO cap" and "ivec_laws VT cap" and "info_ok VO VT recs info" and "recs \<noteq> []"
  shows "GetVisibleOffsetLocked VO VT ts info = Ok (last_visible recs ts)"
proof (cases "ts \<ge> maxTs info")
  case True
  have "snd (recs ! i) \<le> ts" if "i < length recs" for i
  proof -
    have "snd (recs ! i) \<le> snd (last recs)"
      using assms(3,4) that
      by (cases "i = length recs - 1") (auto simp: info_ok_def last_conv_nth sorted_wrt_iff_nth_less intro: order.strict_implies_order)
    then show ?thesis using True assms(3,4) by (auto simp: info_ok_def)
  qed
  then have "last_visible recs ts = uint (fst (recs ! nat (int (length recs) - 1)))"
    using last_visible_prefix [of recs ts "int (length recs) - 1"] assms(4) by auto
  then show ?thesis using True assms(3,4)
    by (simp add: GetVisibleOffsetLocked_def info_ok_def last_conv_nth nat_minus_as_int)
next
  case False
  have v: "iv_list VT (ii_ts info) = map snd recs" "iv_list VO (ii_offsets info) = map fst recs" "sorted_wrt (<) (map snd recs)"
    using assms(3) by (simp_all add: info_ok_def)
  have len: "iv_Length VT (ii_ts info) = int (length recs)" using assms(2) v by (simp add: ivec_laws_def)
  obtain p where p: "search VT (ii_ts info) ts 0 (int (length recs) - 1) (- 1) = Ok p" "- 1 \<le> p" "p < int (length recs)"
      "\<forall>i < length recs. snd (recs ! i) \<le> ts \<longleftrightarrow> int i \<le> p"
  proof -
    have "\<exists>p. search VT (ii_ts info) ts 0 (int (length recs) - 1) (- 1) = Ok p \<and> - 1 \<le> p \<and> p < int (length (iv_list VT (ii_ts info)))
      \<and> (\<forall>i < length (iv_list VT (ii_ts info)). iv_list VT (ii_ts info) ! i \<le> ts \<longleftrightarrow> int i \<le> p)"
      by (rule search_correct [OF assms(2)]) (use v in simp_all)
    then show thesis using that v(1) by auto
  qed
  have "last_visible recs ts = (if p < 0 then - 1 else uint (fst (recs ! nat p)))"
    using p by (intro last_visible_prefix) auto
  moreover have "iv_GetValue VO (ii_offsets info) p = Ok (fst (recs ! nat p))" if "0 \<le> p"
    using that assms(1) p v by (auto simp: ivec_laws_def nat_less_iff)
  ultimately show ?thesis using False p len by (auto simp: GetVisibleOffsetLocked_def)
qed

lemma RecordTxn_ok:
  assumes "ivec_laws VO cap" and "ivec_laws VT cap" and "info_ok VO VT recs info" and "length recs < cap"
    and "\<forall>r \<in> set recs. snd r < snd txn"
  shows "info_ok VO VT (recs @ [(off, snd txn)]) (RecordTxnLocked VO VT off txn index info)"
  using assms by (auto simp: info_ok_def RecordTxnLocked_def ivec_laws_def sorted_wrt_append Let_def split: prod.splits)

definition record_all ::
  "('o, u32) ivec \<Rightarrow> ('t, u64) ivec \<Rightarrow> (u32 \<times> u64 \<times> u64) list \<Rightarrow> ('o, 't) insertInfo \<Rightarrow> ('o, 't) insertInfo" where
  "record_all VO VT apps info = foldl (\<lambda>i (off, tid, ts). RecordTxnLocked VO VT off (tid, ts) None i) info apps"

lemma record_all_ok:
  assumes "ivec_laws VO cap" and "ivec_laws VT cap"
  shows "info_ok VO VT recs info \<Longrightarrow> length recs + length apps \<le> cap \<Longrightarrow>
    sorted_wrt (<) (map snd recs @ map (snd \<circ> snd) apps) \<Longrightarrow>
    info_ok VO VT (recs @ map (\<lambda>(off, tid, ts). (off, ts)) apps) (record_all VO VT apps info)"
proof (induction apps arbitrary: recs info)
  case Nil
  then show ?case by (simp add: record_all_def)
next
  case (Cons a apps)
  obtain off tid ts where a: "a = (off, tid, ts)" by (cases a)
  have "info_ok VO VT (recs @ [(off, ts)]) (RecordTxnLocked VO VT off (tid, ts) None info)"
    using RecordTxn_ok [OF assms Cons.prems(1), of "(tid, ts)" off None] Cons.prems(2,3) by (auto simp: a sorted_wrt_append)
  from Cons.IH [OF this] Cons.prems show ?case by (simp add: a record_all_def)
qed



text \<open>Before anything is recorded a reader that starts late sees row 0, which does not exist.\<close>

lemma visible_offset_empty:
  "ts \<ge> t0 \<Longrightarrow> GetVisibleOffsetLocked VO VT ts (newInsertInfo VO VT t0 cap) = Ok 0"
  by (simp add: GetVisibleOffsetLocked_def newInsertInfo_def)

text \<open>
  Committing a recorded transaction forgets exactly its position; a transaction that was never
  recorded makes the code forget whoever is at position 0.
\<close>

lemma ApplyCommit_forgets:
  assumes "length (iv_list VO (ii_offsets info)) < 2 ^ 32" and "ivec_laws VO cap"
  shows "offsetTxns (ApplyCommitLocked (fst txn) (RecordTxnLocked VO VT off txn index info))
      = (offsetTxns info)(word_of_nat (length (iv_list VO (ii_offsets info))) := None)"
    "txnMap info tid = None \<Longrightarrow> offsetTxns (ApplyCommitLocked tid info) 0 = None"
  using assms by (auto simp: ApplyCommitLocked_def RecordTxnLocked_def ivec_laws_def Let_def split: prod.splits)

end
