(* ===== verification/ColBlock.thy ===== *)
theory ColBlock
  imports Prelude
begin

text \<open>
  The parts of a column block (\<^verbatim>\<open>pkg/layout/table/col/block.go\<close>): a block of rows in parts of
  4096 rows, some of which have a version node, and the iterator that walks over single version nodes and runs of
  unchanged parts.  The number of rows comes from the file, which is an argument.
\<close>

section \<open>Blocks\<close>

definition NodeRows :: u64 where "NodeRows = 4096"

record PartNode =
  Pos :: int

definition PartNode_NextPos :: "PartNode \<Rightarrow> int" where
  "PartNode_NextPos pn = Pos pn + 1"

text \<open>The Go map of parts is an association list; the file is represented by its row count.\<close>

record Block =
  Nodes :: "(int \<times> PartNode) list"
  File_Rows :: u64

definition NewBlock :: "u64 \<Rightarrow> Block" where
  "NewBlock rows = \<lparr>Nodes = [], File_Rows = rows\<rparr>"

definition Block_AddNode :: "int \<Rightarrow> Block \<Rightarrow> bool \<times> Block" where
  "Block_AddNode pos b =
     (case map_of (Nodes b) pos of
        Some _ \<Rightarrow> (False, b)
      | None \<Rightarrow> (True, b\<lparr>Nodes := (pos, \<lparr>Pos = pos\<rparr>) # Nodes b\<rparr>))"

definition MaxPos :: "Block \<Rightarrow> int" where
  "MaxPos b = (if File_Rows b \<le> NodeRows then 0 else uint ((File_Rows b - 1) div NodeRows))"

definition HasChangeLocked :: "Block \<Rightarrow> bool" where
  "HasChangeLocked b \<longleftrightarrow> length (Nodes b) \<noteq> 0"

section \<open>The iterator\<close>

record BaseNode =
  Start :: int
  Count :: int

definition BaseNode_NextPos :: "BaseNode \<Rightarrow> int" where
  "BaseNode_NextPos bn = Start bn + Count bn"

record BlockIt =
  Host :: Block
  it_VersionNode :: "PartNode option"
  it_BaseNode :: "BaseNode option"

text \<open>The first position from \<open>pos\<close> on that has a node, or the one behind the last part.\<close>

function scan_pos :: "Block \<Rightarrow> int \<Rightarrow> int" where
  "scan_pos b pos = (if pos \<le> MaxPos b \<and> map_of (Nodes b) pos = None then scan_pos b (pos + 1) else pos)"
  by pat_completeness auto

termination
  by (relation "measure (\<lambda>(b, pos). nat (MaxPos b + 1 - pos))") auto

declare scan_pos.simps [simp del]

definition NewBlockIt :: "Block \<Rightarrow> BlockIt" where
  "NewBlockIt b =
     (let it = \<lparr>Host = b, it_VersionNode = None, it_BaseNode = None\<rparr> in
      if \<not> HasChangeLocked b then it\<lparr>it_BaseNode := Some \<lparr>Start = 0, Count = MaxPos b + 1\<rparr>\<rparr>
      else case map_of (Nodes b) 0 of
             Some node \<Rightarrow> it\<lparr>it_VersionNode := Some node\<rparr>
           | None \<Rightarrow> it\<lparr>it_BaseNode := Some \<lparr>Start = 0, Count = scan_pos b 1\<rparr>\<rparr>)"

definition BlockIt_Valid :: "BlockIt \<Rightarrow> bool" where
  "BlockIt_Valid it \<longleftrightarrow> it_BaseNode it \<noteq> None \<or> it_VersionNode it \<noteq> None"

text \<open>
  The loop of \<open>Next\<close> stops at once when the first position has a node, which becomes the
  version node; otherwise it counts the parts without one.  Calling \<open>Next\<close> on an iterator that is not
  valid follows a nil pointer.
\<close>

definition BlockIt_Next :: "BlockIt \<Rightarrow> BlockIt res" where
  "BlockIt_Next it =
     (let b = Host it;
          go = (\<lambda>nextPos it1.
            if nextPos > MaxPos b then it1
            else let it2 = (case map_of (Nodes b) nextPos of Some node \<Rightarrow> it1\<lparr>it_VersionNode := Some node\<rparr> | None \<Rightarrow> it1)
                 in if it_VersionNode it2 \<noteq> None then it2
                    else it2\<lparr>it_BaseNode := Some \<lparr>Start = nextPos, Count = scan_pos b nextPos - nextPos\<rparr>\<rparr>)
      in case it_BaseNode it of
           Some bn \<Rightarrow> Ok (go (BaseNode_NextPos bn) (it\<lparr>it_BaseNode := None\<rparr>))
         | None \<Rightarrow>
             (case it_VersionNode it of
                Some pn \<Rightarrow> Ok (go (PartNode_NextPos pn) (it\<lparr>it_VersionNode := None\<rparr>))
              | None \<Rightarrow> Panic))"

section \<open>What an iteration visits\<close>

text \<open>
  The node an iterator is at, and the loop \<open>for it.Valid() { ...; it.Next() }\<close> for at most \<open>n\<close>
  nodes; \<open>None\<close> says that more than \<open>n\<close> nodes were visited.
\<close>

datatype part = Version int | Base int int

definition it_part :: "BlockIt \<Rightarrow> part" where
  "it_part it = (case it_VersionNode it of Some pn \<Rightarrow> Version (Pos pn)
     | None \<Rightarrow> (case it_BaseNode it of Some bn \<Rightarrow> Base (Start bn) (Count bn) | None \<Rightarrow> Base 0 0))"

fun drain :: "nat \<Rightarrow> BlockIt \<Rightarrow> part list res option" where
  "drain n it =
     (if \<not> BlockIt_Valid it then Some (Ok [])
      else case n of
             0 \<Rightarrow> None
           | Suc k \<Rightarrow>
               (case BlockIt_Next it of
                  Ok it' \<Rightarrow> map_option (\<lambda>r. res_bind r (\<lambda>ps. Ok (it_part it # ps))) (drain k it')
                | Err e \<Rightarrow> Some (Err e)
                | Panic \<Rightarrow> Some Panic))"

declare drain.simps [simp del]

text \<open>The positions of a part, and what it must be to agree with the block.\<close>

fun part_pos :: "part \<Rightarrow> int list" where
  "part_pos (Version p) = [p]"
| "part_pos (Base s c) = [s..s + c - 1]"

fun part_ok :: "Block \<Rightarrow> part \<Rightarrow> bool" where
  "part_ok b (Version p) \<longleftrightarrow> map_of (Nodes b) p \<noteq> None"
| "part_ok b (Base s c) \<longleftrightarrow> 0 < c \<and> (\<forall>p. s \<le> p \<and> p < s + c \<longrightarrow> map_of (Nodes b) p = None)"

definition block_ok :: "Block \<Rightarrow> bool" where
  "block_ok b \<longleftrightarrow> (\<forall>p pn. map_of (Nodes b) p = Some pn \<longrightarrow> Pos pn = p)"

lemma MaxPos_nonneg: "0 \<le> MaxPos b"
  by (simp add: MaxPos_def)

lemma scan_pos_spec:
  "pos \<le> MaxPos b + 1 \<Longrightarrow> pos \<le> scan_pos b pos \<and> scan_pos b pos \<le> MaxPos b + 1
    \<and> (\<forall>p. pos \<le> p \<and> p < scan_pos b pos \<longrightarrow> map_of (Nodes b) p = None)
    \<and> (scan_pos b pos \<le> MaxPos b \<longrightarrow> map_of (Nodes b) (scan_pos b pos) \<noteq> None)"
proof (induction b pos rule: scan_pos.induct)
  case (1 b pos)
  show ?case
  proof (cases "pos \<le> MaxPos b \<and> map_of (Nodes b) pos = None")
    case True
    then have "scan_pos b pos = scan_pos b (pos + 1)" by (subst scan_pos.simps) simp
    moreover have "map_of (Nodes b) p = None" if "pos \<le> p" "p < scan_pos b (pos + 1)" for p
      using 1 True that by (cases "p = pos") auto
    ultimately show ?thesis using 1 True by auto
  next
    case False
    then have "scan_pos b pos = pos" by (subst scan_pos.simps) auto
    then show ?thesis using False 1 by auto
  qed
qed

text \<open>The iterator at position \<open>s\<close>: at a version node there, at the run that starts there, or at the end.\<close>

definition it_at :: "Block \<Rightarrow> int \<Rightarrow> BlockIt \<Rightarrow> bool" where
  "it_at b s it \<longleftrightarrow> Host it = b \<and>
     (if s > MaxPos b then it_VersionNode it = None \<and> it_BaseNode it = None
      else case map_of (Nodes b) s of
             Some pn \<Rightarrow> it_VersionNode it = Some pn \<and> it_BaseNode it = None
           | None \<Rightarrow> it_VersionNode it = None \<and> it_BaseNode it = Some \<lparr>Start = s, Count = scan_pos b s - s\<rparr>)"

lemma NewBlockIt_at: "it_at b 0 (NewBlockIt b)"
proof (cases "HasChangeLocked b")
  case True
  have "scan_pos b 0 = scan_pos b 1" if "map_of (Nodes b) 0 = None"
    using that MaxPos_nonneg [of b] by (subst scan_pos.simps) simp
  then show ?thesis using True MaxPos_nonneg [of b] by (auto simp: it_at_def NewBlockIt_def Let_def split: option.splits)
next
  case False
  then have n: "Nodes b = []" by (simp add: HasChangeLocked_def)
  have "scan_pos b 0 = MaxPos b + 1"
    using scan_pos_spec [of 0 b] MaxPos_nonneg [of b] by (auto simp: n)
  then show ?thesis using False n MaxPos_nonneg [of b] by (simp add: it_at_def NewBlockIt_def Let_def)
qed

lemma scan_pos_Suc: "map_of (Nodes b) s = None \<Longrightarrow> s \<le> MaxPos b \<Longrightarrow> s + 1 \<le> scan_pos b s"
  using scan_pos_spec [of "s + 1" b] by (subst scan_pos.simps) auto

lemma BlockIt_Next_at:
  assumes "it_at b s it" and "block_ok b" and "s \<le> MaxPos b"
  shows "\<exists>it'. BlockIt_Next it = Ok it' \<and> BlockIt_Valid it
    \<and> (case it_part it of Version p \<Rightarrow> p = s \<and> it_at b (s + 1) it' | Base s' c \<Rightarrow> s' = s \<and> it_at b (s + c) it')
    \<and> part_ok b (it_part it)"
proof (cases "map_of (Nodes b) s")
  case (Some pn)
  then have "it_VersionNode it = Some pn" "it_BaseNode it = None" "Host it = b" "Pos pn = s"
    using assms by (auto simp: it_at_def block_ok_def)
  then show ?thesis using Some
    by (auto simp: BlockIt_Next_def BlockIt_Valid_def it_part_def PartNode_NextPos_def it_at_def Let_def split: option.splits)
next
  case None
  then have "it_VersionNode it = None" "it_BaseNode it = Some \<lparr>Start = s, Count = scan_pos b s - s\<rparr>" "Host it = b"
    using assms by (auto simp: it_at_def)
  moreover have "s + 1 \<le> scan_pos b s" using None assms(3) by (rule scan_pos_Suc)
  ultimately show ?thesis using scan_pos_spec [of s b] assms(3)
    by (auto simp: BlockIt_Next_def BlockIt_Valid_def it_part_def BaseNode_NextPos_def it_at_def Let_def split: option.splits)
qed

lemma upto_append: "(a :: int) \<le> b \<Longrightarrow> b \<le> c + 1 \<Longrightarrow> [a..b - 1] @ [b..c] = [a..c]"
  by (cases "a \<le> b - 1") (use upto_split2 [of a "b - 1" c] in auto)

lemma drain_at:
  assumes "block_ok b" and "it_at b s it" and "0 \<le> s" and "s \<le> MaxPos b + 1" and "MaxPos b + 1 - s \<le> int n"
  shows "\<exists>ps. drain n it = Some (Ok ps) \<and> concat (map part_pos ps) = [s..MaxPos b] \<and> list_all (part_ok b) ps"
  using assms(2-)
proof (induction n arbitrary: s it)
  case 0
  then have "s = MaxPos b + 1" by simp
  then show ?case using 0 by (simp add: drain.simps it_at_def BlockIt_Valid_def)
next
  case (Suc n)
  show ?case
  proof (cases "s > MaxPos b")
    case True
    then show ?thesis using Suc.prems by (simp add: drain.simps it_at_def BlockIt_Valid_def)
  next
    case False
    then obtain it' where it': "BlockIt_Next it = Ok it'" "BlockIt_Valid it" "part_ok b (it_part it)"
        "case it_part it of Version p \<Rightarrow> p = s \<and> it_at b (s + 1) it' | Base s' c \<Rightarrow> s' = s \<and> it_at b (s + c) it'"
      using BlockIt_Next_at [OF Suc.prems(1) assms(1)] by auto
    show ?thesis
    proof (cases "it_part it")
      case (Version p)
      then obtain ps where "drain n it' = Some (Ok ps)" "concat (map part_pos ps) = [s + 1..MaxPos b]" "list_all (part_ok b) ps"
        using Suc.IH [of "s + 1" it'] it' Suc.prems False by auto
      then show ?thesis using it' Version False by (auto simp: drain.simps [of "Suc n"] upto_rec1)
    next
      case (Base s' c)
      have c: "s + c \<le> MaxPos b + 1" "0 < c"
        using Base it' Suc.prems(1) False scan_pos_spec [of s b] by (auto simp: it_at_def it_part_def split: option.splits)
      then obtain ps where "drain n it' = Some (Ok ps)" "concat (map part_pos ps) = [s + c..MaxPos b]" "list_all (part_ok b) ps"
        using Suc.IH [of "s + c" it'] it' Base Suc.prems False by auto
      then show ?thesis using it' Base c upto_append [of s "s + c" "MaxPos b"] by (auto simp: drain.simps [of "Suc n"])
    qed
  qed
qed

lemma Block_AddNode_ok: "block_ok b \<Longrightarrow> block_ok (snd (Block_AddNode pos b))"
  by (auto simp: block_ok_def Block_AddNode_def split: option.splits)

lemma fold_AddNode:
  "block_ok b \<Longrightarrow> block_ok (fold (\<lambda>p b. snd (Block_AddNode p b)) ps b)
     \<and> File_Rows (fold (\<lambda>p b. snd (Block_AddNode p b)) ps b) = File_Rows b
     \<and> dom (map_of (Nodes (fold (\<lambda>p b. snd (Block_AddNode p b)) ps b))) = set ps \<union> dom (map_of (Nodes b))"
proof (induction ps arbitrary: b)
  case (Cons p ps)
  have "dom (map_of (Nodes (snd (Block_AddNode p b)))) = insert p (dom (map_of (Nodes b)))"
    "File_Rows (snd (Block_AddNode p b)) = File_Rows b"
    by (auto simp: Block_AddNode_def split: option.splits)
  then show ?case using Cons.IH [OF Block_AddNode_ok [OF Cons.prems], of p] by auto
qed auto

text \<open>
  C35. Iterating over a column block visits every part exactly once and in order.  For a block of any
  number of rows to which nodes were added at any positions, the iteration ends after at most as many steps as
  the block has parts, never panics, covers the positions from 0 to the last part without gap or overlap, stops at a
  version node exactly at the positions that have one, and never returns an empty run.
\<close>

theorem block_iteration_partitions:
  "\<exists>ps. drain (nat (MaxPos (NewBlock rows)) + 1) (NewBlockIt (fold (\<lambda>p b. snd (Block_AddNode p b)) changed (NewBlock rows))) = Some (Ok ps)
     \<and> concat (map part_pos ps) = [0..MaxPos (NewBlock rows)]
     \<and> list_all (\<lambda>x. case x of Version p \<Rightarrow> p \<in> set changed | Base s c \<Rightarrow> 0 < c \<and> {s..<s + c} \<inter> set changed = {}) ps"
proof -
  let ?b = "fold (\<lambda>p b. snd (Block_AddNode p b)) changed (NewBlock rows)"
  have b: "block_ok ?b" "File_Rows ?b = rows" "dom (map_of (Nodes ?b)) = set changed"
    using fold_AddNode [of "NewBlock rows" changed] by (auto simp: block_ok_def NewBlock_def)
  have m: "MaxPos ?b = MaxPos (NewBlock rows)" using b(2) by (simp add: MaxPos_def NewBlock_def)
  obtain ps where ps: "drain (nat (MaxPos (NewBlock rows)) + 1) (NewBlockIt ?b) = Some (Ok ps)"
      "concat (map part_pos ps) = [0..MaxPos (NewBlock rows)]" "list_all (part_ok ?b) ps"
    using drain_at [OF b(1) NewBlockIt_at, of "nat (MaxPos (NewBlock rows)) + 1"] MaxPos_nonneg [of ?b] m by auto
  have iff: "p \<in> set changed \<longleftrightarrow> map_of (Nodes ?b) p \<noteq> None" for p using b(3) by (metis domIff)
  have "case x of Version p \<Rightarrow> p \<in> set changed | Base s c \<Rightarrow> 0 < c \<and> {s..<s + c} \<inter> set changed = {}" if "part_ok ?b x" for x
    using that by (cases x) (auto simp del: not_None_eq simp: iff)
  then show ?thesis using ps by (auto simp: list_all_iff)
qed

end
