(* ===== verification/DLink.thy ===== *)
theory DLink
  imports Prelude "HOL-Library.Multiset"
begin

text \<open>
  The doubly linked list of \<^verbatim>\<open>pkg/common/dlnode.go\<close>, which keeps the entries of the catalog
  and the update chain of a block.  Nodes live in an explicit heap, so that the pointer updates of
  \<open>Sort\<close>, \<open>InsertDLNode\<close>, \<open>Delete\<close> and the iterators are translated as they are
  written; the predicate \<open>link_rep\<close> relates a heap and a \<open>Link\<close> to the list of node
  addresses they stand for, and every operation is shown to implement a function on that list.
\<close>

section \<open>Heap and nodes\<close>

type_synonym addr = nat

record 'p DLNode =
  dl_prev :: "addr option"
  dl_next :: "addr option"
  dl_payload :: 'p

type_synonym 'p dlheap = "addr \<rightharpoonup> 'p DLNode"

record Link =
  link_head :: "addr option"
  link_tail :: "addr option"

definition next_of :: "'p dlheap \<Rightarrow> addr \<Rightarrow> addr option" where
  "next_of h a = (case h a of None \<Rightarrow> None | Some n \<Rightarrow> dl_next n)"

definition prev_of :: "'p dlheap \<Rightarrow> addr \<Rightarrow> addr option" where
  "prev_of h a = (case h a of None \<Rightarrow> None | Some n \<Rightarrow> dl_prev n)"

definition payload_of :: "'p dlheap \<Rightarrow> addr \<Rightarrow> 'p option" where
  "payload_of h a = map_option dl_payload (h a)"

definition set_next :: "addr \<Rightarrow> addr option \<Rightarrow> 'p dlheap \<Rightarrow> 'p dlheap" where
  "set_next a v h = (case h a of None \<Rightarrow> h | Some n \<Rightarrow> h(a \<mapsto> n\<lparr>dl_next := v\<rparr>))"

definition set_prev :: "addr \<Rightarrow> addr option \<Rightarrow> 'p dlheap \<Rightarrow> 'p dlheap" where
  "set_prev a v h = (case h a of None \<Rightarrow> h | Some n \<Rightarrow> h(a \<mapsto> n\<lparr>dl_prev := v\<rparr>))"

text \<open>An assignment guarded by a nil test, as in \<open>if prev != nil { prev.next = next }\<close>.\<close>

definition when_some :: "addr option \<Rightarrow> (addr \<Rightarrow> 'p dlheap \<Rightarrow> 'p dlheap) \<Rightarrow> 'p dlheap \<Rightarrow> 'p dlheap" where
  "when_some p f h = (case p of None \<Rightarrow> h | Some a \<Rightarrow> f a h)"

section \<open>Operations\<close>

text \<open>
  One iteration of the loop of \<open>DLNode.Sort\<close>: \<open>cur\<close> and its successor \<open>next\<close>
  change places.  The result is the new \<open>next\<close> and the heap.
\<close>

definition sort_swap :: "addr \<Rightarrow> addr option \<Rightarrow> addr \<Rightarrow> 'p dlheap \<Rightarrow> addr option \<times> 'p dlheap" where
  "sort_swap cur prev next h =
     (let h1 = when_some prev (\<lambda>p. set_next p (Some next)) h;
          h2 = set_prev next prev h1;
          next' = next_of h2 next;
          h3 = set_next next (Some cur) h2;
          h4 = set_prev cur (Some next) h3;
          h5 = set_next cur next' h4;
          h6 = when_some next' (\<lambda>n. set_prev n (Some cur)) h5
      in (next', h6))"

text \<open>
  The loop itself.  \<open>cmp\<close> is \<open>Compare\<close> of the payloads; the tail is reported only when the
  loop ran off the end.  The recursion is over pointers, so a list that is not well formed may
  keep it running: not returning is \<open>None\<close>.
\<close>

partial_function (option) sort_loop ::
  "('p \<Rightarrow> 'p \<Rightarrow> int) \<Rightarrow> addr \<Rightarrow> addr option \<Rightarrow> addr option \<Rightarrow> addr \<Rightarrow> 'p dlheap
   \<Rightarrow> (addr \<times> addr option \<times> 'p dlheap) option" where
  "sort_loop cmp cur prev nxt head h =
     (case nxt of
        None \<Rightarrow> Some (head, Some cur, h)
      | Some next \<Rightarrow>
          (case payload_of h cur of None \<Rightarrow> None
           | Some pc \<Rightarrow>
             (case payload_of h next of None \<Rightarrow> None
              | Some pn \<Rightarrow>
                  if cmp pc pn < 0 then
                    (case sort_swap cur prev next h of (next', h') \<Rightarrow>
                       sort_loop cmp cur (Some next) next' (if head = cur then next else head) h')
                  else Some (head, None, h))))"

definition Sort :: "('p \<Rightarrow> 'p \<Rightarrow> int) \<Rightarrow> addr \<Rightarrow> 'p dlheap \<Rightarrow> (addr \<times> addr option \<times> 'p dlheap) option" where
  "Sort cmp l h = sort_loop cmp l (prev_of h l) (next_of h l) l h"

text \<open>\<open>a\<close> is the address of the freshly allocated node.\<close>

definition InsertDLNode ::
  "('p \<Rightarrow> 'p \<Rightarrow> int) \<Rightarrow> addr \<Rightarrow> 'p \<Rightarrow> addr option \<Rightarrow> 'p dlheap
   \<Rightarrow> (addr \<times> addr option \<times> 'p dlheap) option" where
  "InsertDLNode cmp a p head h =
     (case head of
        None \<Rightarrow> Some (a, Some a, h(a \<mapsto> \<lparr>dl_prev = None, dl_next = None, dl_payload = p\<rparr>))
      | Some hn \<Rightarrow>
          Sort cmp a (set_prev hn (Some a)
            (h(a \<mapsto> \<lparr>dl_prev = None, dl_next = Some hn, dl_payload = p\<rparr>))))"

definition Link_Update :: "('p \<Rightarrow> 'p \<Rightarrow> int) \<Rightarrow> addr \<Rightarrow> Link \<Rightarrow> 'p dlheap \<Rightarrow> (Link \<times> 'p dlheap) option" where
  "Link_Update cmp n l h =
     (case Sort cmp n h of
        None \<Rightarrow> None
      | Some (nhead, ntail, h') \<Rightarrow>
          let l1 = l\<lparr>link_head := Some nhead\<rparr>
          in Some (case ntail of None \<Rightarrow> l1 | Some t \<Rightarrow> l1\<lparr>link_tail := Some t\<rparr>, h'))"

definition Link_Insert :: "('p \<Rightarrow> 'p \<Rightarrow> int) \<Rightarrow> addr \<Rightarrow> 'p \<Rightarrow> Link \<Rightarrow> 'p dlheap \<Rightarrow> (Link \<times> 'p dlheap) option" where
  "Link_Insert cmp a p l h =
     (case InsertDLNode cmp a p (link_head l) h of
        None \<Rightarrow> None
      | Some (nhead, ntail, h') \<Rightarrow>
          let l1 = l\<lparr>link_head := Some nhead\<rparr>
          in Some (case ntail of None \<Rightarrow> l1 | Some t \<Rightarrow> l1\<lparr>link_tail := Some t\<rparr>, h'))"

definition Link_Delete :: "addr \<Rightarrow> Link \<Rightarrow> 'p dlheap \<Rightarrow> Link \<times> 'p dlheap" where
  "Link_Delete n l h =
     (case (prev_of h n, next_of h n) of
        (Some p, Some x) \<Rightarrow> (l, set_prev x (Some p) (set_next p (Some x) h))
      | (None, Some x) \<Rightarrow> (l\<lparr>link_head := Some x\<rparr>, set_prev x None h)
      | (Some p, None) \<Rightarrow> (l\<lparr>link_tail := Some p\<rparr>, set_next p None h)
      | (None, None) \<Rightarrow> (l\<lparr>link_head := None, link_tail := None\<rparr>, h))"

partial_function (option) FindHead :: "'p dlheap \<Rightarrow> addr \<Rightarrow> addr option" where
  "FindHead h n = (case prev_of h n of None \<Rightarrow> Some n | Some p \<Rightarrow> FindHead h p)"

text \<open>The callback threads the state \<open>'s\<close> of the closure and says whether to go on.\<close>

partial_function (option) LoopDLink ::
  "'p dlheap \<Rightarrow> addr option \<Rightarrow> (addr \<Rightarrow> 's \<Rightarrow> bool \<times> 's) \<Rightarrow> bool \<Rightarrow> 's \<Rightarrow> 's option" where
  "LoopDLink h cur fn reverse s =
     (case cur of
        None \<Rightarrow> Some s
      | Some a \<Rightarrow>
          (case fn a s of (goNext, s') \<Rightarrow>
             if \<not> goNext then Some s'
             else LoopDLink h (if reverse then prev_of h a else next_of h a) fn reverse s'))"

definition Link_Loop :: "'p dlheap \<Rightarrow> Link \<Rightarrow> (addr \<Rightarrow> 's \<Rightarrow> bool \<times> 's) \<Rightarrow> bool \<Rightarrow> 's \<Rightarrow> 's option" where
  "Link_Loop h l fn reverse s =
     (if reverse then LoopDLink h (link_tail l) fn reverse s
      else LoopDLink h (link_head l) fn reverse s)"

record LinkIt =
  it_curr :: "addr option"
  it_reverse :: bool

definition NewLinkIt :: "Link \<Rightarrow> bool \<Rightarrow> LinkIt" where
  "NewLinkIt l reverse =
     \<lparr>it_curr = (if reverse then link_tail l else link_head l), it_reverse = reverse\<rparr>"

definition LinkIt_Valid :: "LinkIt \<Rightarrow> bool" where
  "LinkIt_Valid it \<longleftrightarrow> it_curr it \<noteq> None"

definition LinkIt_Next :: "'p dlheap \<Rightarrow> LinkIt \<Rightarrow> LinkIt res" where
  "LinkIt_Next h it =
     (case it_curr it of
        None \<Rightarrow> Panic
      | Some a \<Rightarrow> Ok (it\<lparr>it_curr := if it_reverse it then prev_of h a else next_of h a\<rparr>))"

text \<open>What a client collects with \<open>for it.Valid() { ... it.Next() }\<close>.\<close>

partial_function (option) it_collect :: "'p dlheap \<Rightarrow> LinkIt \<Rightarrow> addr list \<Rightarrow> addr list option" where
  "it_collect h it acc =
     (case it_curr it of
        None \<Rightarrow> Some (rev acc)
      | Some a \<Rightarrow>
          it_collect h (it\<lparr>it_curr := if it_reverse it then prev_of h a else next_of h a\<rparr>) (a # acc))"

section \<open>The list a heap stands for\<close>

definition allocd :: "'p dlheap \<Rightarrow> addr \<Rightarrow> bool" where
  "allocd h a \<longleftrightarrow> h a \<noteq> None"

fun seg :: "'p dlheap \<Rightarrow> addr option \<Rightarrow> addr list \<Rightarrow> addr option \<Rightarrow> bool" where
  "seg h p [] q = True"
| "seg h p (x # xs) q =
     (allocd h x \<and> prev_of h x = p \<and> next_of h x = (if xs = [] then q else Some (hd xs))
      \<and> seg h (Some x) xs q)"

definition dll :: "'p dlheap \<Rightarrow> addr list \<Rightarrow> bool" where
  "dll h xs \<longleftrightarrow> distinct xs \<and> seg h None xs None"

definition hd_opt :: "'a list \<Rightarrow> 'a option" where
  "hd_opt xs = (if xs = [] then None else Some (hd xs))"

definition last_opt :: "'a list \<Rightarrow> 'a option" where
  "last_opt xs = (if xs = [] then None else Some (last xs))"

definition link_rep :: "'p dlheap \<Rightarrow> Link \<Rightarrow> addr list \<Rightarrow> bool" where
  "link_rep h l xs \<longleftrightarrow> dll h xs \<and> link_head l = hd_opt xs \<and> link_tail l = last_opt xs"

text \<open>The specification: a node sinks past the successors it compares below.\<close>

definition sink :: "('p \<Rightarrow> 'p \<Rightarrow> int) \<Rightarrow> ('a \<Rightarrow> 'p) \<Rightarrow> 'a \<Rightarrow> 'a list \<Rightarrow> 'a list" where
  "sink cmp pay x ys =
     takeWhile (\<lambda>y. cmp (pay x) (pay y) < 0) ys @ x # dropWhile (\<lambda>y. cmp (pay x) (pay y) < 0) ys"

section \<open>Heap lemmas\<close>

lemma next_of_set_next: "next_of (set_next a v h) b = (if a = b \<and> allocd h a then v else next_of h b)"
  by (auto simp: allocd_def next_of_def set_next_def split: option.splits)

lemma next_of_set_prev: "next_of (set_prev a v h) b = next_of h b"
  by (auto simp: next_of_def set_prev_def split: option.splits)

lemma prev_of_set_prev: "prev_of (set_prev a v h) b = (if a = b \<and> allocd h a then v else prev_of h b)"
  by (auto simp: allocd_def prev_of_def set_prev_def split: option.splits)

lemma prev_of_set_next: "prev_of (set_next a v h) b = prev_of h b"
  by (auto simp: prev_of_def set_next_def split: option.splits)

lemma alloc_set: "allocd (set_next a v h) b = allocd h b" "allocd (set_prev a v h) b = allocd h b"
  by (auto simp: allocd_def set_next_def set_prev_def split: option.splits)

lemma payload_set: "payload_of (set_next a v h) = payload_of h" "payload_of (set_prev a v h) = payload_of h"
  by (auto simp: payload_of_def set_next_def set_prev_def fun_eq_iff split: option.splits)

lemma when_some_simps [simp]: "when_some None f h = h" "when_some (Some a) f h = f a h"
  by (simp_all add: when_some_def)

lemmas heap_simps = next_of_set_next next_of_set_prev prev_of_set_prev prev_of_set_next alloc_set payload_set

lemma seg_append:
  "seg h p (xs @ ys) q \<longleftrightarrow>
     seg h p xs (if ys = [] then q else Some (hd ys)) \<and>
     seg h (if xs = [] then p else Some (last xs)) ys q"
  by (induction xs arbitrary: p) auto

lemma seg_alloc: "seg h p xs q \<Longrightarrow> x \<in> set xs \<Longrightarrow> allocd h x"
  by (induction xs arbitrary: p) auto

lemma seg_cong:
  "(\<And>x. x \<in> set xs \<Longrightarrow> allocd h' x = allocd h x \<and> next_of h' x = next_of h x \<and> prev_of h' x = prev_of h x)
   \<Longrightarrow> seg h' p xs q = seg h p xs q"
  by (induction xs arbitrary: p) auto

lemma seg_frame [simp]:
  "a \<notin> set xs \<Longrightarrow> seg (set_next a v h) p xs q = seg h p xs q"
  "a \<notin> set xs \<Longrightarrow> seg (set_prev a v h) p xs q = seg h p xs q"
  by (rule seg_cong; auto simp: heap_simps)+

lemma hd_opt_simps [simp]: "hd_opt [] = None" "hd_opt (x # xs) = Some x"
  by (simp_all add: hd_opt_def)

lemma last_opt_simps [simp]: "last_opt [] = None" "last_opt (xs @ [x]) = Some x"
  by (simp_all add: last_opt_def)

section \<open>Sorting one node into place\<close>

lemma sort_swap_payload: "payload_of (snd (sort_swap cur prev next h)) = payload_of h"
  by (simp add: sort_swap_def Let_def when_some_def payload_set split: option.splits)

lemma sort_swap_correct:
  assumes "dll h (pre @ c # n # post)"
  shows "sort_swap c (last_opt pre) n h = (hd_opt post, snd (sort_swap c (last_opt pre) n h))"
    and "dll (snd (sort_swap c (last_opt pre) n h)) (pre @ n # c # post)"
proof -
  consider "pre = []" | pre' p where "pre = pre' @ [p]"
    by (metis append_butlast_last_id)
  note pre = this
  have n: "next_of (set_prev n (last_opt pre) (when_some (last_opt pre) (\<lambda>p. set_next p (Some n)) h)) n
      = hd_opt post"
    using assms by (cases rule: pre) (auto simp: dll_def seg_append heap_simps hd_opt_def)
  then show "sort_swap c (last_opt pre) n h = (hd_opt post, snd (sort_swap c (last_opt pre) n h))"
    by (simp add: sort_swap_def Let_def)
  have eq: "snd (sort_swap c (last_opt pre) n h) =
    when_some (hd_opt post) (\<lambda>x. set_prev x (Some c))
      (set_next c (hd_opt post) (set_prev c (Some n) (set_next n (Some c)
        (set_prev n (last_opt pre) (when_some (last_opt pre) (\<lambda>p. set_next p (Some n)) h)))))"
    by (simp add: sort_swap_def Let_def n)
  show "dll (snd (sort_swap c (last_opt pre) n h)) (pre @ n # c # post)"
    using assms unfolding eq
    by (cases rule: pre; cases post) (simp_all add: dll_def seg_append heap_simps)
qed


lemma dll_alloc: "dll h xs \<Longrightarrow> x \<in> set xs \<Longrightarrow> \<exists>p. payload_of h x = Some p"
  by (auto simp: dll_def payload_of_def allocd_def dest: seg_alloc)

lemma sort_loop_correct:
  assumes "dll h (pre @ c # post)" and "\<And>x. x \<in> set (c # post) \<Longrightarrow> payload_of h x = Some (pay x)"
  shows "\<exists>h'. sort_loop cmp c (last_opt pre) (hd_opt post) hx h =
      Some (if hx = c then hd (sink cmp pay c post) else hx,
            if \<forall>y \<in> set post. cmp (pay c) (pay y) < 0 then Some c else None, h')
    \<and> dll h' (pre @ sink cmp pay c post) \<and> payload_of h' = payload_of h"
  using assms
proof (induction post arbitrary: pre h hx)
  case Nil
  then show ?case
    by (subst sort_loop.simps) (auto simp: sink_def)
next
  case (Cons n post)
  define h1 where "h1 = snd (sort_swap c (last_opt pre) n h)"
  have pays: "payload_of h c = Some (pay c)" "payload_of h n = Some (pay n)"
    using Cons.prems by auto
  show ?case
  proof (cases "cmp (pay c) (pay n) < 0")
    case False
    then show ?thesis
      using Cons.prems by (subst sort_loop.simps) (auto simp: pays sink_def)
  next
    case True
    have sw: "sort_swap c (last_opt pre) n h = (hd_opt post, h1)"
      and d: "dll h1 ((pre @ [n]) @ c # post)"
      using sort_swap_correct [OF Cons.prems(1)] unfolding h1_def by (blast, simp)
    have nc: "n \<noteq> c" using Cons.prems(1) by (auto simp: dll_def)
    define hy where "hy = (if hx = c then n else hx)"
    have "\<exists>h'. sort_loop cmp c (last_opt (pre @ [n])) (hd_opt post) hy h1 =
        Some (if hy = c then hd (sink cmp pay c post) else hy,
              if \<forall>y \<in> set post. cmp (pay c) (pay y) < 0 then Some c else None, h')
      \<and> dll h' ((pre @ [n]) @ sink cmp pay c post) \<and> payload_of h' = payload_of h1"
      by (rule Cons.IH [OF d]) (use Cons.prems(2) in \<open>auto simp: h1_def sort_swap_payload\<close>)
    then obtain h' where "sort_loop cmp c (last_opt (pre @ [n])) (hd_opt post) hy h1 =
        Some (if hy = c then hd (sink cmp pay c post) else hy,
              if \<forall>y \<in> set post. cmp (pay c) (pay y) < 0 then Some c else None, h')"
      and "dll h' ((pre @ [n]) @ sink cmp pay c post)" and "payload_of h' = payload_of h"
      unfolding h1_def sort_swap_payload by blast
    moreover have "sort_loop cmp c (last_opt pre) (hd_opt (n # post)) hx h
        = sort_loop cmp c (last_opt (pre @ [n])) (hd_opt post) hy h1"
      by (subst sort_loop.simps) (simp add: pays True sw hy_def)
    moreover have "(if hy = c then hd (sink cmp pay c post) else hy)
        = (if hx = c then hd (sink cmp pay c (n # post)) else hx)"
      using nc True by (simp add: hy_def sink_def)
    moreover have "(pre @ [n]) @ sink cmp pay c post = pre @ sink cmp pay c (n # post)"
      using True by (simp add: sink_def)
    moreover have "(\<forall>y \<in> set (n # post). cmp (pay c) (pay y) < 0) = (\<forall>y \<in> set post. cmp (pay c) (pay y) < 0)"
      using True by simp
    ultimately show ?thesis
      by (intro exI [of _ h'] conjI) simp_all
  qed
qed

lemma dll_prev_next:
  assumes "dll h (pre @ c # post)"
  shows "prev_of h c = last_opt pre" "next_of h c = hd_opt post"
  using assms by (auto simp: dll_def seg_append last_opt_def hd_opt_def)

lemma Sort_correct:
  assumes "dll h (pre @ c # post)" and "\<And>x. x \<in> set (c # post) \<Longrightarrow> payload_of h x = Some (pay x)"
  shows "\<exists>h'. Sort cmp c h =
      Some (hd (sink cmp pay c post),
            if \<forall>y \<in> set post. cmp (pay c) (pay y) < 0 then Some c else None, h')
    \<and> dll h' (pre @ sink cmp pay c post) \<and> payload_of h' = payload_of h"
  using sort_loop_correct [OF assms, where hx = c and cmp = cmp] assms
  by (simp add: Sort_def dll_prev_next)

section \<open>The operations on a link implement operations on its list\<close>

lemma sink_nonempty: "sink cmp pay x ys \<noteq> []"
  by (simp add: sink_def)

lemma sink_last:
  "last (sink cmp pay x ys) = (if \<forall>y \<in> set ys. cmp (pay x) (pay y) < 0 then x else last ys)"
proof (cases "\<forall>y \<in> set ys. cmp (pay x) (pay y) < 0")
  case True
  then show ?thesis by (simp add: sink_def)
next
  case False
  let ?P = "\<lambda>y. cmp (pay x) (pay y) < 0"
  have "dropWhile ?P ys \<noteq> []" using False by auto
  moreover from this have "last ys = last (dropWhile ?P ys)"
    using last_appendR [of "dropWhile ?P ys" "takeWhile ?P ys"] by simp
  ultimately show ?thesis
    unfolding sink_def using False by auto
qed

lemma mset_sink [simp]: "mset (sink cmp pay x ys) = add_mset x (mset ys)"
  by (simp add: sink_def) (metis mset_append takeWhile_dropWhile_id)

lemma set_sink [simp]: "set (sink cmp pay x ys) = insert x (set ys)"
  by (metis mset_sink set_mset_add_mset_insert set_mset_mset)

lemma sink_cong:
  "pay x = pay' x \<Longrightarrow> (\<And>y. y \<in> set ys \<Longrightarrow> pay y = pay' y) \<Longrightarrow> sink cmp pay x ys = sink cmp pay' x ys"
  unfolding sink_def by (auto cong: takeWhile_cong dropWhile_cong)

lemma seg_alloc_new:
  "a \<notin> set xs \<Longrightarrow> seg (h(a \<mapsto> n)) p xs q = seg h p xs q"
  by (rule seg_cong) (auto simp: allocd_def next_of_def prev_of_def)

lemma dll_push:
  assumes "dll h (x # xs)" and "h a = None"
  shows "dll (set_prev x (Some a) (h(a \<mapsto> \<lparr>dl_prev = None, dl_next = Some x, dl_payload = p\<rparr>))) (a # x # xs)"
    and "payload_of (set_prev x (Some a) (h(a \<mapsto> \<lparr>dl_prev = None, dl_next = Some x, dl_payload = p\<rparr>)))
       = (payload_of h)(a \<mapsto> p)"
proof -
  have a: "a \<notin> set (x # xs)"
    using assms by (auto simp: dll_def allocd_def dest: seg_alloc)
  then show "dll (set_prev x (Some a) (h(a \<mapsto> \<lparr>dl_prev = None, dl_next = Some x, dl_payload = p\<rparr>))) (a # x # xs)"
    using assms by (simp add: dll_def heap_simps seg_alloc_new)
      (auto simp: allocd_def next_of_def prev_of_def)
  show "payload_of (set_prev x (Some a) (h(a \<mapsto> \<lparr>dl_prev = None, dl_next = Some x, dl_payload = p\<rparr>)))
       = (payload_of h)(a \<mapsto> p)"
    by (auto simp: payload_set payload_of_def fun_eq_iff)
qed

lemma Link_Insert_rep:
  assumes "link_rep h l xs" and "h a = None"
    and "\<And>x. x \<in> set xs \<Longrightarrow> payload_of h x = Some (pay x)"
  shows "\<exists>l' h'. Link_Insert cmp a p l h = Some (l', h')
    \<and> link_rep h' l' (sink cmp (pay(a := p)) a xs)
    \<and> payload_of h' = (payload_of h)(a \<mapsto> p)"
proof (cases xs)
  case Nil
  let ?h = "h(a \<mapsto> \<lparr>dl_prev = None, dl_next = None, dl_payload = p\<rparr>)"
  have "Link_Insert cmp a p l h = Some (l\<lparr>link_head := Some a, link_tail := Some a\<rparr>, ?h)"
    using assms Nil by (simp add: Link_Insert_def InsertDLNode_def link_rep_def)
  moreover have "dll ?h [a]" "payload_of ?h = (payload_of h)(a \<mapsto> p)"
    by (auto simp: dll_def allocd_def next_of_def prev_of_def payload_of_def fun_eq_iff)
  ultimately show ?thesis
    using Nil by (simp add: link_rep_def sink_def last_opt_def)
next
  case (Cons x ys)
  let ?h = "set_prev x (Some a) (h(a \<mapsto> \<lparr>dl_prev = None, dl_next = Some x, dl_payload = p\<rparr>))"
  have d: "dll h (x # ys)" and hd: "link_head l = Some x" and tl: "link_tail l = last_opt (x # ys)"
    using assms Cons by (auto simp: link_rep_def)
  have d': "dll ?h ([] @ a # x # ys)" and p': "payload_of ?h = (payload_of h)(a \<mapsto> p)"
    using dll_push [OF d assms(2)] by simp_all
  have a: "a \<notin> set xs"
    using d assms(2) Cons by (auto simp: dll_def allocd_def dest: seg_alloc)
  have "\<exists>h'. Sort cmp a ?h =
      Some (hd (sink cmp (pay(a := p)) a (x # ys)),
            if \<forall>y \<in> set (x # ys). cmp ((pay(a := p)) a) ((pay(a := p)) y) < 0 then Some a else None, h')
    \<and> dll h' ([] @ sink cmp (pay(a := p)) a (x # ys)) \<and> payload_of h' = payload_of ?h"
    by (rule Sort_correct [OF d']) (use assms(3) a Cons in \<open>auto simp: p'\<close>)
  moreover have "(\<forall>y \<in> set (x # ys). cmp ((pay(a := p)) a) ((pay(a := p)) y) < 0)
      = (\<forall>y \<in> set xs. cmp p (pay y) < 0)"
    using a Cons by auto
  ultimately obtain h' where s: "Sort cmp a ?h =
      Some (hd (sink cmp (pay(a := p)) a xs),
            if \<forall>y \<in> set xs. cmp p (pay y) < 0 then Some a else None, h')"
    and dh: "dll h' (sink cmp (pay(a := p)) a xs)" and ph: "payload_of h' = payload_of ?h"
    unfolding Cons append_Nil by auto
  have "Link_Insert cmp a p l h = Some (l\<lparr>link_head := Some (hd (sink cmp (pay(a := p)) a xs)),
      link_tail := (if \<forall>y \<in> set xs. cmp p (pay y) < 0 then Some a else link_tail l)\<rparr>, h')"
    by (simp add: Link_Insert_def InsertDLNode_def hd s)
  moreover have "last (sink cmp (pay(a := p)) a xs) = (if \<forall>y \<in> set xs. cmp p (pay y) < 0 then a else last xs)"
    using a by (auto simp: sink_last)
  ultimately show ?thesis
    using dh Cons tl sink_nonempty [of cmp "pay(a := p)" a xs]
    by (auto simp: link_rep_def ph p' hd_opt_def last_opt_def)
qed

text \<open>
  C25. Inserting a payload at a fresh address terminates and leaves a well-formed doubly linked list
  with correct head and tail, in which the new node has sunk past exactly the leading nodes it
  compares below; every other payload is untouched.
\<close>

theorem Link_Insert_refines:
  assumes "link_rep h l xs" and "h a = None"
    and "\<And>x. x \<in> set xs \<Longrightarrow> payload_of h x = Some (pay x)"
  shows "\<exists>l' h'. Link_Insert cmp a p l h = Some (l', h')
    \<and> link_rep h' l' (sink cmp (pay(a := p)) a xs)
    \<and> payload_of h' = (payload_of h)(a \<mapsto> p)"
  by (rule Link_Insert_rep [OF assms])

theorem Link_Insert_refines_witness:
  "\<exists>l' h'. Link_Insert (\<lambda>x y. x - y) 0 7 \<lparr>link_head = Some 5, link_tail = Some 5\<rparr>
     [5 \<mapsto> \<lparr>dl_prev = None, dl_next = None, dl_payload = 9 :: int\<rparr>] = Some (l', h')
    \<and> link_rep h' l' [5, 0]"
  using Link_Insert_refines [of "[5 \<mapsto> \<lparr>dl_prev = None, dl_next = None, dl_payload = 9 :: int\<rparr>]"
      "\<lparr>link_head = Some 5, link_tail = Some 5\<rparr>" "[5]" 0 "\<lambda>_. 9" "\<lambda>x y. x - y" 7]
  by (fastforce simp: link_rep_def dll_def allocd_def next_of_def prev_of_def payload_of_def sink_def
      last_opt_def)

section \<open>Deletion and traversal\<close>

text \<open>The traversal of a list with a callback that may stop it.\<close>

fun loop_list :: "(addr \<Rightarrow> 's \<Rightarrow> bool \<times> 's) \<Rightarrow> addr list \<Rightarrow> 's \<Rightarrow> 's" where
  "loop_list fn [] s = s"
| "loop_list fn (x # xs) s = (case fn x s of (goNext, s') \<Rightarrow> if goNext then loop_list fn xs s' else s')"

lemma loop_forward:
  "seg h p xs None \<Longrightarrow> LoopDLink h (hd_opt xs) fn False s = Some (loop_list fn xs s)"
proof (induction xs arbitrary: p s)
  case Nil
  then show ?case by (subst LoopDLink.simps) simp
next
  case (Cons x xs)
  have "next_of h x = hd_opt xs"
    using Cons.prems by (simp add: hd_opt_def split: if_splits)
  then show ?case
    using Cons.IH [of "Some x"] Cons.prems
    by (subst LoopDLink.simps) (simp split: prod.splits)
qed

lemma loop_backward:
  "seg h None xs q \<Longrightarrow> LoopDLink h (last_opt xs) fn True s = Some (loop_list fn (rev xs) s)"
proof (induction xs arbitrary: q s rule: rev_induct)
  case Nil
  then show ?case by (subst LoopDLink.simps) simp
next
  case (snoc x xs)
  have "prev_of h x = last_opt xs" and "seg h None xs (Some x)"
    using snoc.prems by (auto simp: last_opt_def seg_append)
  then show ?case
    using snoc.IH by (subst LoopDLink.simps) (simp split: prod.splits)
qed

lemma collect_forward:
  "seg h p xs None \<Longrightarrow> it_collect h \<lparr>it_curr = hd_opt xs, it_reverse = False\<rparr> acc = Some (rev acc @ xs)"
proof (induction xs arbitrary: p acc)
  case Nil
  then show ?case by (subst it_collect.simps) simp
next
  case (Cons x xs)
  have "next_of h x = hd_opt xs"
    using Cons.prems by (simp add: hd_opt_def split: if_splits)
  then show ?case
    using Cons.IH [of "Some x"] Cons.prems by (subst it_collect.simps) simp
qed

lemma collect_backward:
  "seg h None xs q \<Longrightarrow> it_collect h \<lparr>it_curr = last_opt xs, it_reverse = True\<rparr> acc = Some (rev acc @ rev xs)"
proof (induction xs arbitrary: q acc rule: rev_induct)
  case Nil
  then show ?case by (subst it_collect.simps) simp
next
  case (snoc x xs)
  have "prev_of h x = last_opt xs" and "seg h None xs (Some x)"
    using snoc.prems by (auto simp: last_opt_def seg_append)
  then show ?case
    using snoc.IH by (subst it_collect.simps) simp
qed

text \<open>
  On a well-formed link, \<open>Loop\<close> and the iterator \<open>LinkIt\<close> terminate and visit every node
  exactly once, forwards in list order and backwards in reverse order, stopping where the
  callback says so.
\<close>

lemma Link_traversals:
  assumes "link_rep h l xs"
  shows "Link_Loop h l fn reverse s = Some (loop_list fn (if reverse then rev xs else xs) s)
    \<and> it_collect h (NewLinkIt l reverse) [] = Some (if reverse then rev xs else xs)"
  using assms loop_forward [of h None xs fn s] loop_backward [of h xs None fn s]
    collect_forward [of h None xs "[]"] collect_backward [of h xs None "[]"]
  by (auto simp: Link_Loop_def NewLinkIt_def link_rep_def dll_def)

lemma Link_traversals_example:
  "it_collect [3 \<mapsto> \<lparr>dl_prev = None, dl_next = Some 8, dl_payload = ()\<rparr>,
               8 \<mapsto> \<lparr>dl_prev = Some 3, dl_next = None, dl_payload = ()\<rparr>]
     (NewLinkIt \<lparr>link_head = Some 3, link_tail = Some 8\<rparr> True) [] = Some [8, 3]"
  using Link_traversals [of "[3 \<mapsto> \<lparr>dl_prev = None, dl_next = Some 8, dl_payload = ()\<rparr>,
      8 \<mapsto> \<lparr>dl_prev = Some 3, dl_next = None, dl_payload = ()\<rparr>]"
      "\<lparr>link_head = Some 3, link_tail = Some 8\<rparr>" "[3, 8]" "\<lambda>_ s. (True, s)" True "()"]
  by (simp add: link_rep_def dll_def allocd_def next_of_def prev_of_def last_opt_def)

text \<open>
  C26. Deleting a node of a link unlinks exactly that node: the rest keeps its order, its payloads
  and the head and tail, in each of the four positions a node can have.
\<close>

theorem Link_Delete_refines:
  assumes "link_rep h l (pre @ n # post)"
  shows "link_rep (snd (Link_Delete n l h)) (fst (Link_Delete n l h)) (pre @ post)
    \<and> payload_of (snd (Link_Delete n l h)) = payload_of h"
proof -
  have d: "dll h (pre @ n # post)" using assms by (simp add: link_rep_def)
  consider "pre = []" | pre' p where "pre = pre' @ [p]"
    by (metis append_butlast_last_id)
  note pre = this
  show ?thesis
    using assms d dll_prev_next [OF d]
    by (cases rule: pre; cases post)
      (auto simp: Link_Delete_def link_rep_def dll_def seg_append heap_simps last_opt_def hd_opt_def hd_append)
qed

theorem Link_Delete_refines_witness:
  "link_rep (snd (Link_Delete 3 \<lparr>link_head = Some 3, link_tail = Some 3\<rparr>
       [3 \<mapsto> \<lparr>dl_prev = None, dl_next = None, dl_payload = ()\<rparr>]))
     (fst (Link_Delete 3 \<lparr>link_head = Some 3, link_tail = Some 3\<rparr>
       [3 \<mapsto> \<lparr>dl_prev = None, dl_next = None, dl_payload = ()\<rparr>])) []"
  using Link_Delete_refines [of "[3 \<mapsto> \<lparr>dl_prev = None, dl_next = None, dl_payload = ()\<rparr>]"
      "\<lparr>link_head = Some 3, link_tail = Some 3\<rparr>" "[]" 3 "[]"]
  by (simp add: link_rep_def dll_def allocd_def next_of_def prev_of_def last_opt_def)

section \<open>Update\<close>

lemma Link_Update_eq:
  assumes "link_rep h l (pre @ n # post)"
    and "\<And>x. x \<in> set (n # post) \<Longrightarrow> payload_of h x = Some (pay x)"
  shows "\<exists>h'. Link_Update cmp n l h =
      Some (l\<lparr>link_head := Some (hd (sink cmp pay n post)), link_tail := last_opt (pre @ sink cmp pay n post)\<rparr>, h')
    \<and> dll h' (pre @ sink cmp pay n post) \<and> payload_of h' = payload_of h"
proof -
  have d: "dll h (pre @ n # post)" and tl: "link_tail l = last_opt (pre @ n # post)"
    using assms(1) by (auto simp: link_rep_def)
  obtain h' where s: "Sort cmp n h =
      Some (hd (sink cmp pay n post),
            if \<forall>y \<in> set post. cmp (pay n) (pay y) < 0 then Some n else None, h')"
    and h': "dll h' (pre @ sink cmp pay n post)" "payload_of h' = payload_of h"
    using Sort_correct [OF d assms(2), of cmp] by blast
  have "post \<noteq> []" if "\<not> (\<forall>y \<in> set post. cmp (pay n) (pay y) < 0)"
    using that by auto
  then have "Link_Update cmp n l h =
      Some (l\<lparr>link_head := Some (hd (sink cmp pay n post)), link_tail := last_opt (pre @ sink cmp pay n post)\<rparr>, h')"
    by (auto simp: Link_Update_def s tl last_opt_def sink_nonempty sink_last)
  with h' show ?thesis by blast
qed

text \<open>
  Re-sorting the head node of a link after its payload changed (\<open>Link.Update\<close>) restores a
  well-formed link in which that node has sunk to its place.
\<close>

lemma Link_Update_head:
  assumes "link_rep h l (n # post)"
    and "\<And>x. x \<in> set (n # post) \<Longrightarrow> payload_of h x = Some (pay x)"
  shows "\<exists>l' h'. Link_Update cmp n l h = Some (l', h') \<and> link_rep h' l' (sink cmp pay n post)
    \<and> payload_of h' = payload_of h"
  using Link_Update_eq [where pre = "[]" and cmp = cmp, simplified, OF assms]
  by (auto simp: link_rep_def hd_opt_def sink_nonempty)

lemma Link_Update_head_example:
  "\<exists>l' h'. Link_Update (\<lambda>x y. x - y) 3 \<lparr>link_head = Some 3, link_tail = Some 8\<rparr>
      [3 \<mapsto> \<lparr>dl_prev = None, dl_next = Some 8, dl_payload = 1 :: int\<rparr>,
       8 \<mapsto> \<lparr>dl_prev = Some 3, dl_next = None, dl_payload = 2\<rparr>] = Some (l', h')
     \<and> link_rep h' l' [8, 3]"
  using Link_Update_head [of "[3 \<mapsto> \<lparr>dl_prev = None, dl_next = Some 8, dl_payload = 1 :: int\<rparr>,
       8 \<mapsto> \<lparr>dl_prev = Some 3, dl_next = None, dl_payload = 2\<rparr>]"
       "\<lparr>link_head = Some 3, link_tail = Some 8\<rparr>" 3 "[8]" "\<lambda>a. if a = 3 then 1 else 2" "\<lambda>x y. x - y"]
  by (fastforce simp: link_rep_def dll_def allocd_def next_of_def prev_of_def payload_of_def sink_def
      last_opt_def)

text \<open>
  \<open>Link.Update\<close> sets the head of the link to the node that \<open>Sort\<close> returns even when the
  updated node was not the head: afterwards a forward traversal no longer reaches any of the
  nodes in front of it, although they are still linked and a backward traversal finds them.
\<close>

lemma Link_Update_loses_prefix:
  assumes "link_rep h l (pre @ n # post)"
    and "\<And>x. x \<in> set (n # post) \<Longrightarrow> payload_of h x = Some (pay x)"
  shows "\<exists>l' h'. Link_Update cmp n l h = Some (l', h')
    \<and> it_collect h' (NewLinkIt l' False) [] = Some (sink cmp pay n post)
    \<and> it_collect h' (NewLinkIt l' True) [] = Some (rev (pre @ sink cmp pay n post))"
proof -
  obtain h' where u: "Link_Update cmp n l h =
      Some (l\<lparr>link_head := Some (hd (sink cmp pay n post)), link_tail := last_opt (pre @ sink cmp pay n post)\<rparr>, h')"
    and d: "dll h' (pre @ sink cmp pay n post)"
    using Link_Update_eq [OF assms, of cmp] by blast
  have "it_collect h' \<lparr>it_curr = hd_opt (sink cmp pay n post), it_reverse = False\<rparr> []
      = Some (sink cmp pay n post)"
    using collect_forward [of h' _ "sink cmp pay n post" "[]"] d by (auto simp: dll_def seg_append)
  moreover have "it_collect h' \<lparr>it_curr = last_opt (pre @ sink cmp pay n post), it_reverse = True\<rparr> []
      = Some (rev (pre @ sink cmp pay n post))"
    using collect_backward [of h' _ None "[]"] d by (auto simp: dll_def)
  ultimately show ?thesis
    using u by (simp add: NewLinkIt_def hd_opt_def sink_nonempty)
qed

lemma Link_Update_loses_prefix_example:
  "\<exists>l' h'. Link_Update (\<lambda>x y. x - y) 8 \<lparr>link_head = Some 3, link_tail = Some 8\<rparr>
      [3 \<mapsto> \<lparr>dl_prev = None, dl_next = Some 8, dl_payload = 9 :: int\<rparr>,
       8 \<mapsto> \<lparr>dl_prev = Some 3, dl_next = None, dl_payload = 2\<rparr>] = Some (l', h')
     \<and> it_collect h' (NewLinkIt l' False) [] = Some [8]
     \<and> it_collect h' (NewLinkIt l' True) [] = Some [8, 3]"
  using Link_Update_loses_prefix [of "[3 \<mapsto> \<lparr>dl_prev = None, dl_next = Some 8, dl_payload = 9 :: int\<rparr>,
       8 \<mapsto> \<lparr>dl_prev = Some 3, dl_next = None, dl_payload = 2\<rparr>]"
       "\<lparr>link_head = Some 3, link_tail = Some 8\<rparr>" "[3]" 8 "[]" "\<lambda>_. 2" "\<lambda>x y. x - y"]
  by (fastforce simp: link_rep_def dll_def allocd_def next_of_def prev_of_def payload_of_def sink_def
      last_opt_def)

section \<open>What the link asks of its payloads\<close>

text \<open>
  \<open>NodePayload.Compare\<close> has to order the payloads in use: it never says "below" in both
  directions, and "not below" is transitive.  Then the list is kept in descending order.
\<close>

locale payload_order =
  fixes cmp :: "'p \<Rightarrow> 'p \<Rightarrow> int"
    and good :: "'p \<Rightarrow> bool"
  assumes below_asym: "good a \<Longrightarrow> good b \<Longrightarrow> cmp a b < 0 \<Longrightarrow> \<not> cmp b a < 0"
    and not_below_trans:
      "good a \<Longrightarrow> good b \<Longrightarrow> good c \<Longrightarrow> \<not> cmp a b < 0 \<Longrightarrow> \<not> cmp b c < 0 \<Longrightarrow> \<not> cmp a c < 0"
begin

definition descending :: "'p list \<Rightarrow> bool" where
  "descending ps \<longleftrightarrow> sorted_wrt (\<lambda>a b. \<not> cmp a b < 0) ps"

lemma descending_sink:
  assumes "\<forall>y \<in> set (x # ys). good (pay y)" and "descending (map pay ys)"
  shows "descending (map pay (sink cmp pay x ys))"
  using assms
proof (induction ys)
  case Nil
  then show ?case by (simp add: descending_def sink_def)
next
  case (Cons y ys)
  show ?case
  proof (cases "cmp (pay x) (pay y) < 0")
    case True
    have "\<not> cmp (pay y) (pay x) < 0"
      using True Cons.prems by (intro below_asym) auto
    moreover have "descending (map pay (sink cmp pay x ys))"
      using Cons by (auto simp: descending_def)
    ultimately have "descending (pay y # map pay (sink cmp pay x ys))"
      using Cons.prems(2) by (simp add: descending_def)
    then show ?thesis
      using True by (simp add: sink_def)
  next
    case False
    have "\<forall>z \<in> set ys. \<not> cmp (pay x) (pay z) < 0"
    proof
      fix z assume z: "z \<in> set ys"
      then have "\<not> cmp (pay y) (pay z) < 0" using Cons.prems(2) by (simp add: descending_def)
      with z False Cons.prems(1) show "\<not> cmp (pay x) (pay z) < 0"
        by (intro not_below_trans [of "pay x" "pay y" "pay z"]) auto
    qed
    then show ?thesis
      using False Cons.prems by (simp add: sink_def descending_def)
  qed
qed

end

end
