(* ===== verification/Txn.thy ===== *)
theory Txn
  imports Common_Base
begin

text \<open>
  Transactions: the context and its state machine (\<^verbatim>\<open>pkg/txn/txnbase/txnctx.go\<close>,
  \<^verbatim>\<open>state.go\<close>, \<^verbatim>\<open>pkg/iface/txnif/consts.go\<close>), the transaction
  (\<^verbatim>\<open>txn.go\<close>) and the manager that starts transactions and drives them through preparing
  and committing (\<^verbatim>\<open>txnmgr.go\<close>).  The store of a transaction is an interface: a record of
  operations \<open>TxnStoreOps\<close> that the manager's definitions take as an argument.  The identifier and
  timestamp allocators and the two work queues come from other modules: the allocator is an argument
  with the contract \<open>id_source\<close>, and a queue delivers pending work in any order.
\<close>

section \<open>States\<close>

datatype TxnStates = TxnStateActive | TxnStateCommitting | TxnStateRollbacking | TxnStateCommitted | TxnStateRollbacked

definition UncommitTS :: u64 where
  "UncommitTS = not 0"

record TxnCtx =
  txn_ID :: u64
  StartTS :: u64
  CommitTS :: u64
  txn_Info :: bytes
  State :: TxnStates

definition NewTxnCtx :: "u64 \<Rightarrow> u64 \<Rightarrow> bytes \<Rightarrow> TxnCtx" where
  "NewTxnCtx i start info =
     \<lparr>txn_ID = i, StartTS = start, CommitTS = UncommitTS, txn_Info = info, State = TxnStateActive\<rparr>"

definition IsVisible :: "TxnCtx \<Rightarrow> TxnCtx \<Rightarrow> bool" where
  "IsVisible c q \<longleftrightarrow> StartTS q \<le> StartTS c"

definition IsActiveLocked :: "TxnCtx \<Rightarrow> bool" where
  "IsActiveLocked c \<longleftrightarrow> CommitTS c = UncommitTS"

text \<open>A transition returns the error, if any, and the context after it.\<close>

definition ToCommittingLocked :: "u64 \<Rightarrow> TxnCtx \<Rightarrow> (go_error option \<times> TxnCtx) res" where
  "ToCommittingLocked ts c =
     (if ts \<le> StartTS c then Panic
      else if CommitTS c \<noteq> UncommitTS then Ok (Some ErrTxnNotActive, c)
      else Ok (None, c\<lparr>CommitTS := ts, State := TxnStateCommitting\<rparr>))"

definition ToCommittedLocked :: "TxnCtx \<Rightarrow> go_error option \<times> TxnCtx" where
  "ToCommittedLocked c =
     (if State c \<noteq> TxnStateCommitting then (Some ErrTxnNotCommitting, c)
      else (None, c\<lparr>State := TxnStateCommitted\<rparr>))"

definition ToRollbackingLocked :: "u64 \<Rightarrow> TxnCtx \<Rightarrow> (go_error option \<times> TxnCtx) res" where
  "ToRollbackingLocked ts c =
     (if ts \<le> StartTS c then Panic
      else if State c \<noteq> TxnStateActive \<and> State c \<noteq> TxnStateCommitting then Ok (Some ErrTxnCannotRollback, c)
      else Ok (None, c\<lparr>CommitTS := ts, State := TxnStateRollbacking\<rparr>))"

definition ToRollbackedLocked :: "TxnCtx \<Rightarrow> go_error option \<times> TxnCtx" where
  "ToRollbackedLocked c =
     (if State c \<noteq> TxnStateRollbacking then (Some ErrTxnNotRollbacking, c)
      else (None, c\<lparr>State := TxnStateRollbacked\<rparr>))"

section \<open>The atomic state of \<open>state.go\<close>\<close>

datatype TSState = TSUncommitted | TSCommitting | TSCommitted | TSRollbacking | TSRollbacked

definition cas_state :: "TSState \<Rightarrow> TSState \<Rightarrow> TSState \<Rightarrow> go_error option \<times> TSState" where
  "cas_state old new s = (if s = old then (None, new) else (Some ErrTransferTransactionState, s))"

definition ToCommitting :: "TSState \<Rightarrow> go_error option \<times> TSState" where
  "ToCommitting = cas_state TSUncommitted TSCommitting"
definition ToCommitted :: "TSState \<Rightarrow> go_error option \<times> TSState" where
  "ToCommitted = cas_state TSCommitting TSCommitted"
definition ToRollbacking :: "TSState \<Rightarrow> go_error option \<times> TSState" where
  "ToRollbacking = cas_state TSUncommitted TSRollbacking"
definition ToRollbacked :: "TSState \<Rightarrow> go_error option \<times> TSState" where
  "ToRollbacked = cas_state TSRollbacking TSRollbacked"

section \<open>Transactions and their store\<close>

record 's TxnStoreOps =
  so_new :: 's
  so_BindTxn :: "TxnCtx \<Rightarrow> 's \<Rightarrow> 's"
  so_PreCommit :: "TxnCtx \<Rightarrow> 's \<Rightarrow> go_error option \<times> 's"
  so_PrepareCommit :: "TxnCtx \<Rightarrow> 's \<Rightarrow> go_error option \<times> 's"
  so_PrepareRollback :: "TxnCtx \<Rightarrow> 's \<Rightarrow> go_error option \<times> 's"
  so_ApplyCommit :: "TxnCtx \<Rightarrow> 's \<Rightarrow> go_error option \<times> 's"
  so_ApplyRollback :: "TxnCtx \<Rightarrow> 's \<Rightarrow> go_error option \<times> 's"
  so_Close :: "'s \<Rightarrow> go_error option \<times> 's"

datatype OpType = OpCommit | OpRollback

record OpTxn =
  op_Txn :: u64
  op_Op :: OpType

text \<open>
  \<open>tx_Wait\<close> is the counter of the \<open>WaitGroup\<close>, \<open>tx_PrepareCommitFn\<close> what the optional hook
  answers, and \<open>tx_Asked\<close> which of \<open>Commit\<close> and \<open>Rollback\<close> the client has called.
\<close>

record 's Txn =
  tx_Ctx :: TxnCtx
  tx_Store :: 's
  tx_Err :: "go_error option"
  tx_Wait :: nat
  tx_PrepareCommitFn :: "go_error option"
  tx_Asked :: "OpType option"

definition NewTxn :: "'s \<Rightarrow> u64 \<Rightarrow> u64 \<Rightarrow> bytes \<Rightarrow> 's Txn" where
  "NewTxn st i start info = \<lparr>tx_Ctx = NewTxnCtx i start info, tx_Store = st, tx_Err = None, tx_Wait = 0,
     tx_PrepareCommitFn = None, tx_Asked = None\<rparr>"

definition Txn_PrepareCommit :: "'s TxnStoreOps \<Rightarrow> 's Txn \<Rightarrow> go_error option \<times> 's Txn" where
  "Txn_PrepareCommit so t =
     (case tx_PrepareCommitFn t of
        Some e \<Rightarrow> (Some e, t)
      | None \<Rightarrow> (case so_PrepareCommit so (tx_Ctx t) (tx_Store t) of (e, s) \<Rightarrow> (e, t\<lparr>tx_Store := s\<rparr>)))"

definition Txn_close :: "'s TxnStoreOps \<Rightarrow> 's Txn \<Rightarrow> go_error option \<times> 's Txn" where
  "Txn_close so t = (case so_Close so (tx_Store t) of (e, s) \<Rightarrow> (e, t\<lparr>tx_Store := s\<rparr>))"

definition Txn_ApplyCommit :: "'s TxnStoreOps \<Rightarrow> 's Txn \<Rightarrow> (go_error option \<times> 's Txn) res" where
  "Txn_ApplyCommit so t =
     (case so_ApplyCommit so (tx_Ctx t) (tx_Store t) of (e, s) \<Rightarrow>
        if e \<noteq> None \<and> e \<noteq> Some TxnRollbacked then Panic else Ok (Txn_close so (t\<lparr>tx_Store := s\<rparr>)))"

definition Txn_ApplyRollback :: "'s TxnStoreOps \<Rightarrow> 's Txn \<Rightarrow> (go_error option \<times> 's Txn) res" where
  "Txn_ApplyRollback so t =
     (case so_ApplyRollback so (tx_Ctx t) (tx_Store t) of (e, s) \<Rightarrow>
        if e \<noteq> None then Panic else Ok (Txn_close so (t\<lparr>tx_Store := s\<rparr>)))"

definition Txn_PreCommit :: "'s TxnStoreOps \<Rightarrow> 's Txn \<Rightarrow> go_error option \<times> 's Txn" where
  "Txn_PreCommit so t = (case so_PreCommit so (tx_Ctx t) (tx_Store t) of (e, s) \<Rightarrow> (e, t\<lparr>tx_Store := s\<rparr>))"

definition Txn_PrepareRollback :: "'s TxnStoreOps \<Rightarrow> 's Txn \<Rightarrow> go_error option \<times> 's Txn" where
  "Txn_PrepareRollback so t =
     (case so_PrepareRollback so (tx_Ctx t) (tx_Store t) of (e, s) \<Rightarrow> (e, t\<lparr>tx_Store := s\<rparr>))"

text \<open>\<open>Done\<close>: the error of the transition is dropped; a \<open>WaitGroup\<close> below zero panics.\<close>

definition Txn_Done :: "'s Txn \<Rightarrow> 's Txn res" where
  "Txn_Done t =
     (let c = (if State (tx_Ctx t) = TxnStateCommitting then snd (ToCommittedLocked (tx_Ctx t))
               else snd (ToRollbackedLocked (tx_Ctx t)))
      in if tx_Wait t = 0 then Panic else Ok (t\<lparr>tx_Ctx := c, tx_Wait := tx_Wait t - 1\<rparr>))"

text \<open>
  \<open>GetTxnState\<close>: \<open>s0\<close> is the state under the read lock, \<open>s1\<close> the state under the lock of the
  condition.  When \<open>s1\<close> is still committing the call waits for the broadcast of \<open>Done\<close> and
  returns the value it read before waiting.
\<close>

definition GetTxnState :: "bool \<Rightarrow> TxnStates \<Rightarrow> TxnStates \<Rightarrow> TxnStates" where
  "GetTxnState waitIfcommitting s0 s1 =
     (if \<not> waitIfcommitting then s0
      else if s0 \<noteq> TxnStateCommitting then s0
      else if s1 \<noteq> TxnStateCommitting then s1
      else s1)"

definition IsTerminated :: "bool \<Rightarrow> TxnStates \<Rightarrow> TxnStates \<Rightarrow> bool" where
  "IsTerminated waitIfcommitting s0 s1 \<longleftrightarrow>
     GetTxnState waitIfcommitting s0 s1 \<in> {TxnStateCommitted, TxnStateRollbacked}"

section \<open>The manager\<close>

text \<open>
  \<open>tm_txns\<close> holds every transaction object by identifier, \<open>Active\<close> the keys of the map of that
  name, \<open>received\<close> and \<open>checkpoint\<close> the work enqueued for the two handlers.
\<close>

record ('s, 'a) TxnManager =
  tm_txns :: "u64 \<rightharpoonup> 's Txn"
  Active :: "u64 set"
  IdAlloc :: 'a
  TsAlloc :: 'a
  received :: "OpTxn list"
  checkpoint :: "OpTxn list"

definition NewTxnManager :: "'a \<Rightarrow> ('s, 'a) TxnManager" where
  "NewTxnManager al0 = \<lparr>tm_txns = Map.empty, Active = {}, IdAlloc = al0, TsAlloc = al0, received = [], checkpoint = []\<rparr>"

definition StartTxn ::
  "'s TxnStoreOps \<Rightarrow> ('a \<Rightarrow> u64 \<times> 'a) \<Rightarrow> bytes \<Rightarrow> ('s, 'a) TxnManager \<Rightarrow> u64 \<times> ('s, 'a) TxnManager" where
  "StartTxn so al info m =
     (let (txnId, ia) = al (IdAlloc m); (startTs, ta) = al (TsAlloc m);
          t = NewTxn (so_new so) txnId startTs info;
          t' = t\<lparr>tx_Store := so_BindTxn so (tx_Ctx t) (tx_Store t)\<rparr>
      in (txnId, m\<lparr>IdAlloc := ia, TsAlloc := ta, tm_txns := (tm_txns m)(txnId \<mapsto> t'),
                   Active := insert txnId (Active m)\<rparr>))"

definition DeleteTxn :: "u64 \<Rightarrow> ('s, 'a) TxnManager \<Rightarrow> ('s, 'a) TxnManager" where
  "DeleteTxn i m = m\<lparr>Active := Active m - {i}\<rparr>"

text \<open>The first half of \<open>Commit\<close> and \<open>Rollback\<close>: \<open>Add(1)\<close> and the enqueueing.\<close>

definition OnOpTxn :: "OpTxn \<Rightarrow> ('s, 'a) TxnManager \<Rightarrow> ('s, 'a) TxnManager" where
  "OnOpTxn opx m =
     (case tm_txns m (op_Txn opx) of
        None \<Rightarrow> m
      | Some t \<Rightarrow> m\<lparr>tm_txns := (tm_txns m)(op_Txn opx \<mapsto> t\<lparr>tx_Wait := tx_Wait t + 1, tx_Asked := Some (op_Op opx)\<rparr>),
                    received := received m @ [opx]\<rparr>)"

definition onPreCommit :: "'s TxnStoreOps \<Rightarrow> 's Txn \<Rightarrow> 's Txn" where
  "onPreCommit so t = (case Txn_PreCommit so t of (e, t') \<Rightarrow> t'\<lparr>tx_Err := e\<rparr>)"

definition onPreparCommit :: "'s TxnStoreOps \<Rightarrow> 's Txn \<Rightarrow> 's Txn" where
  "onPreparCommit so t = (case Txn_PrepareCommit so t of (e, t') \<Rightarrow> t'\<lparr>tx_Err := e\<rparr>)"

definition onPreparRollback :: "'s TxnStoreOps \<Rightarrow> 's Txn \<Rightarrow> 's Txn" where
  "onPreparRollback so t = (case Txn_PrepareRollback so t of (e, t') \<Rightarrow> t'\<lparr>tx_Err := e\<rparr>)"

text \<open>One item of \<open>onPreparing\<close>, on the transaction itself and a fresh timestamp.\<close>

definition prepare_txn :: "'s TxnStoreOps \<Rightarrow> OpType \<Rightarrow> u64 \<Rightarrow> 's Txn \<Rightarrow> (OpType \<times> 's Txn) res" where
  "prepare_txn so opt ts t =
     (let t1 = (if opt = OpCommit then onPreCommit so t else t) in
      res_bind (if opt = OpCommit then ToCommittingLocked ts (tx_Ctx t1) else ToRollbackingLocked ts (tx_Ctx t1))
        (\<lambda>(_, c). let t2 = t1\<lparr>tx_Ctx := c\<rparr> in
           if opt = OpCommit then
             let t3 = onPreparCommit so t2 in
             if tx_Err t3 \<noteq> None then
               res_bind (ToRollbackingLocked ts (tx_Ctx t3)) (\<lambda>(_, c').
                 Ok (OpRollback, onPreparRollback so (t3\<lparr>tx_Err := Some TxnRollbacked, tx_Ctx := c'\<rparr>)))
             else Ok (OpCommit, t3)
           else Ok (OpRollback, onPreparRollback so t2)))"

definition onPreparing ::
  "'s TxnStoreOps \<Rightarrow> ('a \<Rightarrow> u64 \<times> 'a) \<Rightarrow> OpTxn \<Rightarrow> ('s, 'a) TxnManager \<Rightarrow> ('s, 'a) TxnManager res" where
  "onPreparing so al opx m =
     (case tm_txns m (op_Txn opx) of
        None \<Rightarrow> Panic
      | Some t \<Rightarrow>
          (case al (TsAlloc m) of (ts, ta) \<Rightarrow>
             res_bind (prepare_txn so (op_Op opx) ts t) (\<lambda>(opt, t').
               Ok (m\<lparr>TsAlloc := ta, tm_txns := (tm_txns m)(op_Txn opx \<mapsto> t'),
                     checkpoint := checkpoint m @ [opx\<lparr>op_Op := opt\<rparr>]\<rparr>))))"

text \<open>One item of \<open>onCommit\<close>.\<close>

definition commit_txn :: "'s TxnStoreOps \<Rightarrow> OpType \<Rightarrow> 's Txn \<Rightarrow> 's Txn res" where
  "commit_txn so opt t =
     res_bind (if opt = OpCommit then Txn_ApplyCommit so t else Txn_ApplyRollback so t)
       (\<lambda>(e, t'). if e \<noteq> None then Panic else Txn_Done t')"

definition onCommit :: "'s TxnStoreOps \<Rightarrow> OpTxn \<Rightarrow> ('s, 'a) TxnManager \<Rightarrow> ('s, 'a) TxnManager res" where
  "onCommit so opx m =
     (case tm_txns m (op_Txn opx) of
        None \<Rightarrow> Panic
      | Some t \<Rightarrow> res_bind (commit_txn so (op_Op opx) t)
          (\<lambda>t'. Ok (m\<lparr>tm_txns := (tm_txns m)(op_Txn opx \<mapsto> t')\<rparr>)))"

section \<open>Runs of the manager\<close>

text \<open>
  The guard on the timestamp counter keeps a run short of exhausting the \<open>uint64\<close> timestamps: the
  largest value stands for "not committed".
\<close>

inductive txn_step ::
  "'s TxnStoreOps \<Rightarrow> ('a \<Rightarrow> u64 \<times> 'a) \<Rightarrow> ('a \<Rightarrow> u64) \<Rightarrow> ('s, 'a) TxnManager \<Rightarrow> ('s, 'a) TxnManager \<Rightarrow> bool"
  for so al cur where
  start: "unat (cur (TsAlloc m)) < 2 ^ 64 - 2 \<Longrightarrow> unat (cur (IdAlloc m)) < 2 ^ 64 - 1
     \<Longrightarrow> txn_step so al cur m (snd (StartTxn so al info m))"
| hook: "tm_txns m i = Some t \<Longrightarrow> tx_Asked t = None
     \<Longrightarrow> txn_step so al cur m (m\<lparr>tm_txns := (tm_txns m)(i \<mapsto> t\<lparr>tx_PrepareCommitFn := e, tx_Store := s\<rparr>)\<rparr>)"
| ask: "tm_txns m (op_Txn opx) = Some t \<Longrightarrow> tx_Asked t = None \<Longrightarrow> txn_step so al cur m (OnOpTxn opx m)"
| prepare: "unat (cur (TsAlloc m)) < 2 ^ 64 - 2 \<Longrightarrow> received m = xs @ opx # ys
     \<Longrightarrow> onPreparing so al opx (m\<lparr>received := xs @ ys\<rparr>) = Ok m' \<Longrightarrow> txn_step so al cur m m'"
| commit: "checkpoint m = xs @ opx # ys \<Longrightarrow> onCommit so opx (m\<lparr>checkpoint := xs @ ys\<rparr>) = Ok m'
     \<Longrightarrow> txn_step so al cur m m'"
| finish: "tm_txns m i = Some t \<Longrightarrow> tx_Asked t \<noteq> None \<Longrightarrow> tx_Wait t = 0 \<Longrightarrow> txn_step so al cur m (DeleteTxn i m)"

section \<open>The invariant of a run\<close>

text \<open>The timestamps a transaction holds, and what they satisfy below the counter \<open>hi\<close>.\<close>

definition stamps :: "'s Txn \<Rightarrow> u64 set" where
  "stamps t = {StartTS (tx_Ctx t)} \<union> (if CommitTS (tx_Ctx t) = UncommitTS then {} else {CommitTS (tx_Ctx t)})"

definition txn_ok :: "nat \<Rightarrow> 's Txn \<Rightarrow> bool" where
  "txn_ok hi t \<longleftrightarrow>
     unat (StartTS (tx_Ctx t)) \<le> hi
     \<and> (State (tx_Ctx t) = TxnStateActive \<longleftrightarrow> CommitTS (tx_Ctx t) = UncommitTS)
     \<and> (CommitTS (tx_Ctx t) \<noteq> UncommitTS \<longrightarrow>
          StartTS (tx_Ctx t) < CommitTS (tx_Ctx t) \<and> unat (CommitTS (tx_Ctx t)) \<le> hi)"

text \<open>Where a transaction stands while its work is received, prepared, or not queued.\<close>

definition phase_received :: "OpType \<Rightarrow> 's Txn \<Rightarrow> bool" where
  "phase_received opt t \<longleftrightarrow> State (tx_Ctx t) = TxnStateActive \<and> tx_Wait t = 1 \<and> tx_Asked t = Some opt"

definition phase_prepared :: "OpType \<Rightarrow> 's Txn \<Rightarrow> bool" where
  "phase_prepared opt t \<longleftrightarrow> tx_Wait t = 1 \<and> tx_Asked t \<noteq> None \<and>
     (if opt = OpCommit then State (tx_Ctx t) = TxnStateCommitting \<and> tx_Err t = None \<and> tx_Asked t = Some OpCommit
      else State (tx_Ctx t) = TxnStateRollbacking)"

definition phase_out :: "'s Txn \<Rightarrow> bool" where
  "phase_out t \<longleftrightarrow> tx_Wait t = 0 \<and>
     (tx_Asked t = None \<and> State (tx_Ctx t) = TxnStateActive
      \<or> tx_Asked t = Some OpCommit \<and> State (tx_Ctx t) = TxnStateCommitted \<and> tx_Err t = None
      \<or> tx_Asked t \<noteq> None \<and> State (tx_Ctx t) = TxnStateRollbacked)"

definition tm_inv :: "('a \<Rightarrow> u64) \<Rightarrow> ('s, 'a) TxnManager \<Rightarrow> bool" where
  "tm_inv cur m \<longleftrightarrow>
     unat (cur (TsAlloc m)) < 2 ^ 64 - 1
     \<and> (\<forall>i t. tm_txns m i = Some t \<longrightarrow>
          txn_ID (tx_Ctx t) = i \<and> unat i \<le> unat (cur (IdAlloc m)) \<and> txn_ok (unat (cur (TsAlloc m))) t)
     \<and> (\<forall>i j t u. tm_txns m i = Some t \<and> tm_txns m j = Some u \<and> i \<noteq> j \<longrightarrow> stamps t \<inter> stamps u = {})
     \<and> distinct (map op_Txn (received m @ checkpoint m))
     \<and> (\<forall>q \<in> set (received m). \<exists>t. tm_txns m (op_Txn q) = Some t \<and> phase_received (op_Op q) t)
     \<and> (\<forall>q \<in> set (checkpoint m). \<exists>t. tm_txns m (op_Txn q) = Some t \<and> phase_prepared (op_Op q) t)
     \<and> (\<forall>i t. tm_txns m i = Some t \<and> i \<notin> op_Txn ` set (received m @ checkpoint m) \<longrightarrow> phase_out t)"

lemma UncommitTS_unat: "unat UncommitTS = 2 ^ 64 - 1"
  by (simp add: UncommitTS_def unsigned_minus_1_eq_mask mask_eq_exp_minus_1)

lemma stamps_le: "txn_ok hi t \<Longrightarrow> s \<in> stamps t \<Longrightarrow> unat s \<le> hi"
  by (auto simp: txn_ok_def stamps_def split: if_splits)

text \<open>Preparing a received transaction at a fresh timestamp never panics.\<close>

lemma onPrepar_ctx [simp]:
  "tx_Ctx (onPreCommit so t) = tx_Ctx t" "tx_Wait (onPreCommit so t) = tx_Wait t" "tx_Asked (onPreCommit so t) = tx_Asked t"
  "tx_Ctx (onPreparCommit so t) = tx_Ctx t" "tx_Wait (onPreparCommit so t) = tx_Wait t" "tx_Asked (onPreparCommit so t) = tx_Asked t"
  "tx_Ctx (onPreparRollback so t) = tx_Ctx t" "tx_Wait (onPreparRollback so t) = tx_Wait t"
  "tx_Asked (onPreparRollback so t) = tx_Asked t"
  by (simp_all add: onPreCommit_def Txn_PreCommit_def onPreparCommit_def Txn_PrepareCommit_def onPreparRollback_def
      Txn_PrepareRollback_def split: prod.splits option.splits)

lemma prepare_txn_ok:
  assumes "phase_received opt t" and "txn_ok hi t" and "hi < unat ts" and "ts \<noteq> UncommitTS"
  shows "\<exists>opt' t'. prepare_txn so opt ts t = Ok (opt', t') \<and> phase_prepared opt' t' \<and> tx_Asked t' = Some opt
    \<and> txn_ID (tx_Ctx t') = txn_ID (tx_Ctx t) \<and> StartTS (tx_Ctx t') = StartTS (tx_Ctx t) \<and> CommitTS (tx_Ctx t') = ts"
proof -
  have st: "State (tx_Ctx t) = TxnStateActive" "CommitTS (tx_Ctx t) = UncommitTS" "tx_Wait t = 1" "tx_Asked t = Some opt"
    using assms(1,2) by (auto simp: phase_received_def txn_ok_def)
  have lt: "\<not> ts \<le> StartTS (tx_Ctx t)"
    using assms(2,3) by (auto simp: txn_ok_def word_le_nat_alt)
  show ?thesis
    by (cases opt) (auto simp: prepare_txn_def Let_def ToCommittingLocked_def ToRollbackingLocked_def st lt phase_prepared_def)
qed

lemma commit_txn_ok:
  assumes "phase_prepared opt t" and "commit_txn so opt t = Ok t'"
  shows "phase_out t' \<and> txn_ID (tx_Ctx t') = txn_ID (tx_Ctx t) \<and> StartTS (tx_Ctx t') = StartTS (tx_Ctx t)
    \<and> CommitTS (tx_Ctx t') = CommitTS (tx_Ctx t) \<and> tx_Asked t' = tx_Asked t
    \<and> State (tx_Ctx t') = (if opt = OpCommit then TxnStateCommitted else TxnStateRollbacked)"
  using assms
  by (cases opt) (auto simp: commit_txn_def Txn_ApplyCommit_def Txn_ApplyRollback_def Txn_close_def Txn_Done_def Let_def
      ToCommittedLocked_def ToRollbackedLocked_def phase_prepared_def phase_out_def split: prod.splits if_splits)

text \<open>
  Replacing one transaction: its timestamps may only be its old ones or one above the counter, its
  phase must fit the queues it is in now.
\<close>

lemma tm_inv_upd:
  assumes inv: "tm_inv cur m" and t: "tm_txns m i = Some t"
    and txns: "tm_txns m' = (tm_txns m)(i \<mapsto> t')" and ida: "cur (IdAlloc m') = cur (IdAlloc m)"
    and hi: "unat (cur (TsAlloc m)) \<le> unat (cur (TsAlloc m'))" "unat (cur (TsAlloc m')) < 2 ^ 64 - 1"
    and idn: "txn_ID (tx_Ctx t') = txn_ID (tx_Ctx t)" and ok: "txn_ok (unat (cur (TsAlloc m'))) t'"
    and st: "\<forall>s \<in> stamps t'. s \<in> stamps t \<or> unat (cur (TsAlloc m)) < unat s"
    and dist: "distinct (map op_Txn (received m' @ checkpoint m'))"
    and rec: "\<forall>q \<in> set (received m'). if op_Txn q = i then phase_received (op_Op q) t' else q \<in> set (received m)"
    and chk: "\<forall>q \<in> set (checkpoint m'). if op_Txn q = i then phase_prepared (op_Op q) t' else q \<in> set (checkpoint m)"
    and out: "i \<notin> op_Txn ` set (received m' @ checkpoint m') \<longrightarrow> phase_out t'"
    and rest: "\<forall>q \<in> set (received m @ checkpoint m). op_Txn q \<noteq> i \<longrightarrow> q \<in> set (received m' @ checkpoint m')"
  shows "tm_inv cur m'"
proof -
  have mono: "txn_ok (unat (cur (TsAlloc m'))) u" if "tm_txns m j = Some u" for j u
    using inv that hi(1) unfolding tm_inv_def txn_ok_def by (meson order_trans)
  have le: "unat s \<le> unat (cur (TsAlloc m))" if "tm_txns m j = Some u" "s \<in> stamps u" for j u s
    using inv that stamps_le unfolding tm_inv_def by blast
  have disj: "stamps t' \<inter> stamps u = {}" if "tm_txns m j = Some u" "j \<noteq> i" for j u
  proof -
    have "stamps t \<inter> stamps u = {}" using inv t that unfolding tm_inv_def by blast
    moreover have "x \<in> stamps t" if "x \<in> stamps t'" "x \<in> stamps u" for x
      using st that le [OF \<open>tm_txns m j = Some u\<close> that(2)] by force
    ultimately show ?thesis by blast
  qed
  have "\<forall>j k u v. tm_txns m' j = Some u \<and> tm_txns m' k = Some v \<and> j \<noteq> k \<longrightarrow> stamps u \<inter> stamps v = {}"
  proof (intro allI impI)
    fix j k u v
    assume a: "tm_txns m' j = Some u \<and> tm_txns m' k = Some v \<and> j \<noteq> k"
    show "stamps u \<inter> stamps v = {}"
    proof (cases "j = i \<or> k = i")
      case True
      then show ?thesis using a disj txns by (auto split: if_splits)
    next
      case False
      then show ?thesis using a inv txns unfolding tm_inv_def by simp
    qed
  qed
  moreover have "\<forall>j u. tm_txns m' j = Some u \<longrightarrow>
      txn_ID (tx_Ctx u) = j \<and> unat j \<le> unat (cur (IdAlloc m')) \<and> txn_ok (unat (cur (TsAlloc m'))) u"
    using inv t idn ok mono ida txns unfolding tm_inv_def by auto
  moreover have "\<forall>q \<in> set (received m'). \<exists>u. tm_txns m' (op_Txn q) = Some u \<and> phase_received (op_Op q) u"
    using rec inv txns unfolding tm_inv_def by auto
  moreover have "\<forall>q \<in> set (checkpoint m'). \<exists>u. tm_txns m' (op_Txn q) = Some u \<and> phase_prepared (op_Op q) u"
    using chk inv txns unfolding tm_inv_def by auto
  moreover have "phase_out u" if "tm_txns m' j = Some u" "j \<notin> op_Txn ` set (received m' @ checkpoint m')" for j u
  proof (cases "j = i")
    case True
    then show ?thesis using that out txns by auto
  next
    case False
    then have "j \<notin> op_Txn ` set (received m @ checkpoint m)" using that(2) rest by blast
    then show ?thesis using inv that(1) False txns unfolding tm_inv_def by simp
  qed
  ultimately show ?thesis
    using hi dist unfolding tm_inv_def by blast
qed

lemma alloc_next:
  assumes "id_source al cur" and "al a = (ts, a')" and "unat (cur a) < 2 ^ 64 - 2"
  shows "cur a' = ts" and "unat ts = Suc (unat (cur a))" and "ts \<noteq> UncommitTS"
proof -
  have ts: "ts = cur a + 1" "cur a' = cur a + 1"
    using id_source.alloc_id [OF assms(1), of a] id_source.alloc_current [OF assms(1), of a] assms(2) by simp_all
  have u: "unat (cur a + 1) = Suc (unat (cur a))"
    using assms(3) by (subst unat_plus_no_wrap) simp_all
  show "cur a' = ts" "unat ts = Suc (unat (cur a))" using ts u by simp_all
  have "unat ts \<noteq> unat UncommitTS" using u ts assms(3) unfolding UncommitTS_unat by simp
  then show "ts \<noteq> UncommitTS" by blast
qed

lemma start_inv:
  assumes al: "id_source al cur" and inv: "tm_inv cur m"
    and ts: "unat (cur (TsAlloc m)) < 2 ^ 64 - 2" and ids: "unat (cur (IdAlloc m)) < 2 ^ 64 - 1"
  shows "tm_inv cur (snd (StartTxn so al info m))"
proof -
  obtain i ia where i: "al (IdAlloc m) = (i, ia)" by force
  obtain st ta where st: "al (TsAlloc m) = (st, ta)" by force
  note s = alloc_next [OF al st ts]
  have "i = cur (IdAlloc m) + 1" and ia: "cur ia = i"
    using id_source.alloc_id [OF al, of "IdAlloc m"] id_source.alloc_current [OF al, of "IdAlloc m"] i by simp_all
  then have iu: "unat i = Suc (unat (cur (IdAlloc m)))"
    using ids by (simp add: unat_plus_no_wrap)
  have fresh: "tm_txns m i = None"
  proof (cases "tm_txns m i")
    case (Some t)
    then have "unat i \<le> unat (cur (IdAlloc m))" using inv unfolding tm_inv_def by blast
    then show ?thesis using iu by simp
  qed
  define t where "t = (NewTxn (so_new so) i st info)\<lparr>tx_Store := so_BindTxn so (NewTxnCtx i st info) (so_new so)\<rparr>"
  have m': "snd (StartTxn so al info m) = m\<lparr>IdAlloc := ia, TsAlloc := ta, tm_txns := (tm_txns m)(i \<mapsto> t), Active := insert i (Active m)\<rparr>"
    by (simp add: StartTxn_def i st t_def Let_def NewTxn_def)
  have t: "txn_ID (tx_Ctx t) = i" "phase_out t" "txn_ok (unat st) t" "stamps t = {st}"
    by (simp_all add: t_def NewTxn_def NewTxnCtx_def phase_out_def txn_ok_def stamps_def)
  have "i \<notin> op_Txn ` set (received m @ checkpoint m)"
    using inv fresh unfolding tm_inv_def by force
  moreover have "txn_ok (unat st) u" "st \<notin> stamps u" "unat j \<le> unat i" if "tm_txns m j = Some u" for j u
  proof -
    have "unat j \<le> unat (cur (IdAlloc m))" and u: "txn_ok (unat (cur (TsAlloc m))) u"
      using inv that unfolding tm_inv_def by blast+
    then show "txn_ok (unat st) u" "unat j \<le> unat i" using s iu by (auto simp: txn_ok_def)
    show "st \<notin> stamps u" using stamps_le [OF u, of st] s by auto
  qed
  ultimately show ?thesis
    unfolding m' using inv t s ia fresh ts unfolding tm_inv_def
    by (simp add: s(1)) (auto 0 3 split: if_splits)
qed

lemma hook_inv:
  assumes inv: "tm_inv cur m" and "tm_txns m i = Some t" and "tx_Asked t = None"
  shows "tm_inv cur (m\<lparr>tm_txns := (tm_txns m)(i \<mapsto> t\<lparr>tx_PrepareCommitFn := e, tx_Store := s\<rparr>)\<rparr>)"
proof (rule tm_inv_upd [OF inv assms(2)])
  have "i \<notin> op_Txn ` set (received m @ checkpoint m)"
    using inv assms(2,3) unfolding tm_inv_def phase_received_def phase_prepared_def by force
  then show "i \<notin> op_Txn ` set (received (m\<lparr>tm_txns := (tm_txns m)(i \<mapsto> t\<lparr>tx_PrepareCommitFn := e, tx_Store := s\<rparr>)\<rparr>)
      @ checkpoint (m\<lparr>tm_txns := (tm_txns m)(i \<mapsto> t\<lparr>tx_PrepareCommitFn := e, tx_Store := s\<rparr>)\<rparr>))
      \<longrightarrow> phase_out (t\<lparr>tx_PrepareCommitFn := e, tx_Store := s\<rparr>)"
    using inv assms(2) unfolding tm_inv_def phase_out_def by auto
qed (use inv assms(2,3) in \<open>auto simp: tm_inv_def txn_ok_def stamps_def phase_received_def phase_prepared_def\<close>)

lemma ask_inv:
  assumes inv: "tm_inv cur m" and t: "tm_txns m (op_Txn opx) = Some t" and "tx_Asked t = None"
  shows "tm_inv cur (OnOpTxn opx m)"
proof -
  let ?t = "t\<lparr>tx_Wait := tx_Wait t + 1, tx_Asked := Some (op_Op opx)\<rparr>"
  have no: "op_Txn opx \<notin> op_Txn ` set (received m @ checkpoint m)"
    using inv t assms(3) unfolding tm_inv_def phase_received_def phase_prepared_def by force
  then have ph: "phase_out t" using inv t unfolding tm_inv_def by blast
  have ne: "op_Txn q \<noteq> op_Txn opx" if "q \<in> set (received m) \<or> q \<in> set (checkpoint m)" for q
    using no that by (metis imageI set_append Un_iff)
  have m': "OnOpTxn opx m = m\<lparr>tm_txns := (tm_txns m)(op_Txn opx \<mapsto> ?t), received := received m @ [opx]\<rparr>"
    using t by (simp add: OnOpTxn_def)
  have ok: "txn_ok (unat (cur (TsAlloc m))) t" using inv t unfolding tm_inv_def by blast
  show ?thesis
    unfolding m'
  proof (rule tm_inv_upd [OF inv t])
    show "txn_ok (unat (cur (TsAlloc (m\<lparr>tm_txns := (tm_txns m)(op_Txn opx \<mapsto> ?t), received := received m @ [opx]\<rparr>)))) ?t"
      using ok by (simp add: txn_ok_def)
    show "distinct (map op_Txn (received (m\<lparr>tm_txns := (tm_txns m)(op_Txn opx \<mapsto> ?t), received := received m @ [opx]\<rparr>)
        @ checkpoint (m\<lparr>tm_txns := (tm_txns m)(op_Txn opx \<mapsto> ?t), received := received m @ [opx]\<rparr>)))"
      using inv no by (auto simp: tm_inv_def)
  qed (use inv ne ph assms(3) in \<open>auto simp: tm_inv_def stamps_def phase_received_def phase_out_def\<close>)
qed

lemma queue_split:
  assumes "distinct (map op_Txn (xs @ q # ys @ zs))"
  shows "op_Txn q \<notin> op_Txn ` set (xs @ ys @ zs)" "distinct (map op_Txn (xs @ ys @ zs))"
  using assms by auto

lemma prepare_inv:
  assumes al: "id_source al cur" and inv: "tm_inv cur m" and ts: "unat (cur (TsAlloc m)) < 2 ^ 64 - 2"
    and q: "received m = xs @ opx # ys"
  shows "\<exists>m'. onPreparing so al opx (m\<lparr>received := xs @ ys\<rparr>) = Ok m' \<and> tm_inv cur m'"
proof -
  obtain t where t: "tm_txns m (op_Txn opx) = Some t" "phase_received (op_Op opx) t"
    using inv q unfolding tm_inv_def by force
  have ok: "txn_ok (unat (cur (TsAlloc m))) t" using inv t unfolding tm_inv_def by blast
  obtain st ta where st: "al (TsAlloc m) = (st, ta)" by force
  note s = alloc_next [OF al st ts]
  obtain opt t' where p: "prepare_txn so (op_Op opx) st t = Ok (opt, t')" "phase_prepared opt t'"
    "txn_ID (tx_Ctx t') = txn_ID (tx_Ctx t)" "StartTS (tx_Ctx t') = StartTS (tx_Ctx t)" "CommitTS (tx_Ctx t') = st"
    using prepare_txn_ok [OF t(2) ok, of st so] s by auto
  let ?m = "m\<lparr>received := xs @ ys, TsAlloc := ta, tm_txns := (tm_txns m)(op_Txn opx \<mapsto> t'),
      checkpoint := checkpoint m @ [opx\<lparr>op_Op := opt\<rparr>]\<rparr>"
  have m': "onPreparing so al opx (m\<lparr>received := xs @ ys\<rparr>) = Ok ?m"
    using t p st by (simp add: onPreparing_def)
  have d: "distinct (map op_Txn (xs @ opx # ys @ checkpoint m))"
    using inv q by (simp add: tm_inv_def)
  note sp = queue_split [OF d]
  have ne: "op_Txn k \<noteq> op_Txn opx" if "k \<in> set xs \<or> k \<in> set ys \<or> k \<in> set (checkpoint m)" for k
    using sp(1) that by (metis imageI set_append Un_iff)
  have lt: "StartTS (tx_Ctx t) < st" "st \<noteq> UncommitTS"
    using ok s by (auto simp: txn_ok_def word_less_nat_alt)
  have "State (tx_Ctx t') \<noteq> TxnStateActive"
    using p(2) by (auto simp: phase_prepared_def split: if_splits)
  then have ok': "txn_ok (unat st) t'"
    using ok p lt s by (simp add: txn_ok_def)
  have stp: "stamps t' \<subseteq> stamps t \<union> {st}" using p by (auto simp: stamps_def)
  have "tm_inv cur ?m"
  proof (rule tm_inv_upd [OF inv t(1)])
    show "distinct (map op_Txn (received ?m @ checkpoint ?m))" using sp by auto
    show "\<forall>k \<in> stamps t'. k \<in> stamps t \<or> unat (cur (TsAlloc m)) < unat k" using stp s by auto
  qed (use ok' p s q ts ne in \<open>auto\<close>)
  then show ?thesis using m' by blast
qed

lemma commit_inv:
  assumes inv: "tm_inv cur m" and q: "checkpoint m = xs @ opx # ys"
    and c: "onCommit so opx (m\<lparr>checkpoint := xs @ ys\<rparr>) = Ok m'"
  shows "tm_inv cur m'"
proof -
  obtain t where t: "tm_txns m (op_Txn opx) = Some t" "phase_prepared (op_Op opx) t"
    using inv q unfolding tm_inv_def by force
  have ok: "txn_ok (unat (cur (TsAlloc m))) t" using inv t unfolding tm_inv_def by blast
  obtain t' where t': "commit_txn so (op_Op opx) t = Ok t'"
    and m': "m' = m\<lparr>checkpoint := xs @ ys, tm_txns := (tm_txns m)(op_Txn opx \<mapsto> t')\<rparr>"
    using c t(1) by (auto simp: onCommit_def)
  note e = commit_txn_ok [OF t(2) t']
  have d: "distinct (map op_Txn (xs @ opx # ys @ received m))"
    using inv q by (auto simp: tm_inv_def)
  note sp = queue_split [OF d]
  have ne: "op_Txn k \<noteq> op_Txn opx" if "k \<in> set xs \<or> k \<in> set ys \<or> k \<in> set (received m)" for k
    using sp(1) that by (metis imageI set_append Un_iff)
  have "State (tx_Ctx t) \<noteq> TxnStateActive"
    using t(2) by (auto simp: phase_prepared_def split: if_splits)
  then have ok': "txn_ok (unat (cur (TsAlloc m))) t'"
    using ok e by (auto simp: txn_ok_def)
  have stp: "stamps t' = stamps t" using e by (simp add: stamps_def)
  show ?thesis
  proof (rule tm_inv_upd [OF inv t(1)])
    show "distinct (map op_Txn (received m' @ checkpoint m'))" using sp by (auto simp: m')
  qed (use inv ok' e stp q ne in \<open>auto simp: m' tm_inv_def\<close>)
qed

lemma txn_step_inv:
  assumes "txn_step so al cur m m'" and al: "id_source al cur" and inv: "tm_inv cur m"
  shows "tm_inv cur m'"
  using assms(1)
proof cases
  case start
  then show ?thesis using start_inv [OF al inv] by simp
next
  case hook
  then show ?thesis using hook_inv [OF inv] by simp
next
  case ask
  then show ?thesis using ask_inv [OF inv] by simp
next
  case prepare
  then show ?thesis using prepare_inv [OF al inv, of _ _ _ so] by (metis res.inject(1))
next
  case commit
  then show ?thesis using commit_inv [OF inv] by simp
next
  case finish
  then show ?thesis using inv by (simp add: DeleteTxn_def tm_inv_def)
qed

lemma txn_run_inv:
  assumes "(txn_step so al cur)\<^sup>*\<^sup>* m m'" and "id_source al cur" and "tm_inv cur m"
  shows "tm_inv cur m'"
  using assms by (induction rule: rtranclp_induct) (auto intro: txn_step_inv)

lemma NewTxnManager_inv: "unat (cur a) < 2 ^ 64 - 1 \<Longrightarrow> tm_inv cur (NewTxnManager a)"
  by (simp add: tm_inv_def NewTxnManager_def)

section \<open>Properties of every run\<close>

text \<open>
  C7. In every run of the transaction manager, whatever the stores answer, however the queued work
  is interleaved and in whatever order the queues deliver it: no two transactions share a start or
  commit timestamp, a transaction has a commit timestamp exactly when it is no longer active and then
  it lies after its start, and a transaction ends as committed only if its client asked for a commit
  and it carries no error.
\<close>

theorem txn_manager_invariant:
  assumes "id_source al cur" and "cur a = 0" and "(txn_step so al cur)\<^sup>*\<^sup>* (NewTxnManager a) m"
  shows "(\<forall>i t. tm_txns m i = Some t \<longrightarrow>
        (State (tx_Ctx t) = TxnStateActive \<longleftrightarrow> CommitTS (tx_Ctx t) = UncommitTS)
        \<and> (State (tx_Ctx t) \<noteq> TxnStateActive \<longrightarrow> StartTS (tx_Ctx t) < CommitTS (tx_Ctx t))
        \<and> (State (tx_Ctx t) = TxnStateCommitted \<longrightarrow> tx_Asked t = Some OpCommit \<and> tx_Err t = None))
    \<and> (\<forall>i j t u. tm_txns m i = Some t \<and> tm_txns m j = Some u \<and> i \<noteq> j \<longrightarrow> stamps t \<inter> stamps u = {})"
proof -
  have inv: "tm_inv cur m"
    using txn_run_inv [OF assms(3,1)] NewTxnManager_inv [of cur a] assms(2) by simp
  have "tx_Asked t = Some OpCommit \<and> tx_Err t = None" if t: "tm_txns m i = Some t" "State (tx_Ctx t) = TxnStateCommitted" for i t
  proof -
    have "i \<notin> op_Txn ` set (received m @ checkpoint m)"
    proof
      assume "i \<in> op_Txn ` set (received m @ checkpoint m)"
      then obtain q where "q \<in> set (received m) \<or> q \<in> set (checkpoint m)" "i = op_Txn q" by auto
      then have "phase_received (op_Op q) t \<or> phase_prepared (op_Op q) t"
        using inv t(1) unfolding tm_inv_def by (metis option.inject)
      then show False using t(2) by (auto simp: phase_received_def phase_prepared_def split: if_splits)
    qed
    then have "phase_out t" using inv t(1) unfolding tm_inv_def by blast
    then show ?thesis using t(2) by (auto simp: phase_out_def)
  qed
  then show ?thesis
    using inv unfolding tm_inv_def txn_ok_def by blast
qed

definition noop_store :: "unit TxnStoreOps" where
  "noop_store = \<lparr>so_new = (), so_BindTxn = (\<lambda>_ s. s), so_PreCommit = (\<lambda>_ s. (None, s)),
     so_PrepareCommit = (\<lambda>_ s. (None, s)), so_PrepareRollback = (\<lambda>_ s. (None, s)),
     so_ApplyCommit = (\<lambda>_ s. (None, s)), so_ApplyRollback = (\<lambda>_ s. (None, s)), so_Close = (\<lambda>s. (None, s))\<rparr>"

text \<open>Applying a prepared transaction with a store that reports no error.\<close>

lemma commit_txn_no_panic:
  assumes "phase_prepared opt t" and "\<And>c s. fst (so_ApplyCommit so c s) \<in> {None, Some TxnRollbacked}"
    and "\<And>c s. fst (so_ApplyRollback so c s) = None" and "\<And>s. fst (so_Close so s) = None"
  shows "\<exists>t'. commit_txn so opt t = Ok t'"
proof -
  have ac: "\<exists>e s. so_ApplyCommit so (tx_Ctx t) (tx_Store t) = (e, s) \<and> (e = None \<or> e = Some TxnRollbacked)"
    using assms(2) [of "tx_Ctx t" "tx_Store t"] by (cases "so_ApplyCommit so (tx_Ctx t) (tx_Store t)") auto
  have ar: "\<exists>s. so_ApplyRollback so (tx_Ctx t) (tx_Store t) = (None, s)"
    using assms(3) [of "tx_Ctx t" "tx_Store t"] by (cases "so_ApplyRollback so (tx_Ctx t) (tx_Store t)") auto
  have cl: "\<exists>s'. so_Close so s = (None, s')" for s
    using assms(4) [of s] by (cases "so_Close so s") auto
  show ?thesis
  proof (cases "opt")
    case OpCommit
    then obtain e s s' where "so_ApplyCommit so (tx_Ctx t) (tx_Store t) = (e, s)" "e = None \<or> e = Some TxnRollbacked"
      "so_Close so s = (None, s')"
      using ac cl by blast
    then show ?thesis
      using assms(1) OpCommit by (auto simp: commit_txn_def Txn_ApplyCommit_def Txn_close_def Txn_Done_def phase_prepared_def Let_def)
  next
    case OpRollback
    then obtain s s' where "so_ApplyRollback so (tx_Ctx t) (tx_Store t) = (None, s)" "so_Close so s = (None, s')"
      using ar cl by blast
    then show ?thesis
      using assms(1) OpRollback by (auto simp: commit_txn_def Txn_ApplyRollback_def Txn_close_def Txn_Done_def phase_prepared_def Let_def)
  qed
qed


text \<open>
  C23. When preparing a commit fails and the rollback that follows prepares without error, the
  transaction ends as rolled back but carries no error: \<open>onPreparRollback\<close> overwrites the error that
  was recorded, so the client's \<open>Commit\<close> reports success.
\<close>

theorem commit_failure_reports_success:
  assumes "phase_received OpCommit t" and "txn_ok hi t" and "hi < unat ts" and "ts \<noteq> UncommitTS"
    and "tx_PrepareCommitFn t = None" and "\<And>c s. fst (so_PrepareCommit so c s) = Some e"
    and "\<And>c s. fst (so_PrepareRollback so c s) = None"
  shows "\<exists>t'. prepare_txn so OpCommit ts t = Ok (OpRollback, t') \<and> tx_Err t' = None
    \<and> (\<forall>t''. commit_txn so OpRollback t' = Ok t'' \<longrightarrow> State (tx_Ctx t'') = TxnStateRollbacked \<and> tx_Err t'' = None)"
proof -
  obtain opt t' where p: "prepare_txn so OpCommit ts t = Ok (opt, t')" "phase_prepared opt t'"
    using prepare_txn_ok [OF assms(1-4), of so] by auto
  have fn: "tx_PrepareCommitFn (onPreCommit so t) = None"
    using assms(5) by (simp add: onPreCommit_def Txn_PreCommit_def split: prod.splits)
  have err: "tx_Err (onPreparCommit so u) = Some e" if "tx_PrepareCommitFn u = None" for u
    using assms(6) [of "tx_Ctx u" "tx_Store u"] that
    by (auto simp: onPreparCommit_def Txn_PrepareCommit_def split: prod.splits)
  have noerr: "tx_Err (onPreparRollback so u) = None" for u
    using assms(7) [of "tx_Ctx u" "tx_Store u"]
    by (auto simp: onPreparRollback_def Txn_PrepareRollback_def split: prod.splits)
  have "opt = OpRollback \<and> tx_Err t' = None"
    using p(1) fn err noerr by (auto simp: prepare_txn_def Let_def)
  moreover have "tx_Err t'' = tx_Err t'" if "commit_txn so OpRollback t' = Ok t''" for t''
    using that by (auto simp: commit_txn_def Txn_ApplyRollback_def Txn_close_def Txn_Done_def Let_def
        split: prod.splits if_splits)
  ultimately show ?thesis
    using p commit_txn_ok [of OpRollback t' so] by auto
qed

text \<open>
  A caller that found the transaction committing and waited for it gets the state read before the
  wait, never a final one.
\<close>

lemma GetTxnState_wait:
  "GetTxnState True s0 s1 = (if s0 = TxnStateCommitting then s1 else s0)"
  by (simp add: GetTxnState_def)

lemma IsTerminated_after_wait: "\<not> IsTerminated True TxnStateCommitting TxnStateCommitting"
  by (simp add: IsTerminated_def GetTxnState_wait)

section \<open>Concrete runs\<close>

lemma ida_source: "id_source Alloc Get"
  by (rule ida.id_source_axioms)

definition demo_mgr :: "(unit, IdAlloctor) TxnManager" where
  "demo_mgr = snd (StartTxn noop_store Alloc [] (NewTxnManager \<lparr>alloc_id = 0\<rparr>))"

lemma demo_run: "(txn_step noop_store Alloc Get)\<^sup>*\<^sup>* (NewTxnManager \<lparr>alloc_id = 0\<rparr>) demo_mgr"
  unfolding demo_mgr_def by (rule r_into_rtranclp, rule txn_step.start) (simp_all add: NewTxnManager_def Get_def)

lemma demo_txn: "tm_txns demo_mgr 1 = Some (NewTxn () 1 1 [])"
  by (simp add: demo_mgr_def StartTxn_def NewTxnManager_def Alloc_def noop_store_def NewTxn_def)

theorem txn_manager_invariant_witness:
  "\<exists>t. tm_txns demo_mgr 1 = Some t \<and> State (tx_Ctx t) = TxnStateActive \<and> CommitTS (tx_Ctx t) = UncommitTS"
  using txn_manager_invariant [OF ida_source _ demo_run] demo_txn
  by (simp add: Get_def NewTxn_def NewTxnCtx_def)


definition failing_store :: "unit TxnStoreOps" where
  "failing_store = noop_store\<lparr>so_PrepareCommit := (\<lambda>_ s. (Some TxnWWConflictErr, s))\<rparr>"

theorem commit_failure_reports_success_witness:
  "\<exists>t'. prepare_txn failing_store OpCommit 2 ((NewTxn () 1 1 [])\<lparr>tx_Wait := 1, tx_Asked := Some OpCommit\<rparr>)
      = Ok (OpRollback, t') \<and> tx_Err t' = None"
  using commit_failure_reports_success [of "(NewTxn () 1 1 [])\<lparr>tx_Wait := 1, tx_Asked := Some OpCommit\<rparr>" 1 2
      failing_store TxnWWConflictErr]
  by (auto simp: phase_received_def txn_ok_def NewTxn_def NewTxnCtx_def failing_store_def noop_store_def UncommitTS_def)

end
