(* ===== verification/SLink.thy ===== *)
theory SLink
  imports Common_Base
begin

text \<open>
  The singly linked lists of \<^verbatim>\<open>pkg/common/linklist.go\<close> and their use in
  \<^verbatim>\<open>pkg/catalog/node.go\<close>: a \<open>nodeList\<close> chains the identifiers of all the entries that
  ever had one name, newest first.  Nodes live in a heap; \<open>nodelist_rep\<close> relates a list head to
  the identifiers it chains, and the operations are shown to push, remove and traverse that list.
\<close>

section \<open>Nodes and operations\<close>

type_synonym saddr = nat

record SSLLNode =
  ss_next :: "saddr option"
  ss_id :: u64

type_synonym ssheap = "saddr \<rightharpoonup> SSLLNode"

definition GetNext :: "ssheap \<Rightarrow> saddr \<Rightarrow> saddr option" where
  "GetNext h n = (case h n of None \<Rightarrow> None | Some x \<Rightarrow> ss_next x)"

definition SetNext :: "saddr \<Rightarrow> saddr option \<Rightarrow> ssheap \<Rightarrow> ssheap" where
  "SetNext n v h = (case h n of None \<Rightarrow> h | Some x \<Rightarrow> h(n \<mapsto> x\<lparr>ss_next := v\<rparr>))"

definition SSLL_Insert :: "saddr \<Rightarrow> saddr \<Rightarrow> ssheap \<Rightarrow> ssheap" where
  "SSLL_Insert n nn h = (let nxt = GetNext h n in SetNext nn nxt (SetNext n (Some nn) h))"

definition ReleaseNextNode :: "saddr \<Rightarrow> ssheap \<Rightarrow> saddr option \<times> ssheap" where
  "ReleaseNextNode n h =
     (case GetNext h n of
        None \<Rightarrow> (None, h)
      | Some r \<Rightarrow> (Some r, SetNext n (GetNext h r) h))"

definition ReleaseFollowing :: "saddr \<Rightarrow> ssheap \<Rightarrow> saddr option \<times> ssheap" where
  "ReleaseFollowing n h =
     (case GetNext h n of
        None \<Rightarrow> (None, h)
      | Some r \<Rightarrow> (Some r, SetNext n None h))"

text \<open>\<open>nodeList.CreateNode\<close>: a new \<open>nameNode\<close> at the fresh address \<open>a\<close>, right after the head.\<close>

definition CreateNode :: "saddr \<Rightarrow> saddr \<Rightarrow> u64 \<Rightarrow> ssheap \<Rightarrow> ssheap" where
  "CreateNode n a i h = SSLL_Insert n a (h(a \<mapsto> \<lparr>ss_next = None, ss_id = i\<rparr>))"

text \<open>\<open>nodeList.DeleteNode\<close>: the loop, with the node before \<open>cur\<close> and the depth.\<close>

partial_function (option) delete_loop ::
  "u64 \<Rightarrow> saddr \<Rightarrow> saddr option \<Rightarrow> nat \<Rightarrow> ssheap \<Rightarrow> (saddr option \<times> bool \<times> ssheap) option" where
  "delete_loop i prev cur depth h =
     (case cur of
        None \<Rightarrow> Some (None, False, h)
      | Some c \<Rightarrow>
          (case h c of
             None \<Rightarrow> None
           | Some x \<Rightarrow>
               if i = ss_id x then
                 Some (Some c, ss_next x = None \<and> depth = 0, snd (ReleaseNextNode prev h))
               else delete_loop i c (ss_next x) (depth + 1) h))"

definition DeleteNode :: "saddr \<Rightarrow> u64 \<Rightarrow> ssheap \<Rightarrow> (saddr option \<times> bool \<times> ssheap) option" where
  "DeleteNode n i h = delete_loop i n (GetNext h n) 0 h"

partial_function (option) ForEachNodesLocked ::
  "ssheap \<Rightarrow> saddr option \<Rightarrow> (u64 \<Rightarrow> 's \<Rightarrow> bool \<times> 's) \<Rightarrow> 's \<Rightarrow> 's option" where
  "ForEachNodesLocked h cur fn s =
     (case cur of
        None \<Rightarrow> Some s
      | Some c \<Rightarrow>
          (case h c of
             None \<Rightarrow> None
           | Some x \<Rightarrow>
               (case fn (ss_id x) s of (ok, s') \<Rightarrow>
                  if \<not> ok then Some s' else ForEachNodesLocked h (ss_next x) fn s')))"

definition LengthLocked :: "ssheap \<Rightarrow> saddr \<Rightarrow> nat option" where
  "LengthLocked h n = ForEachNodesLocked h (GetNext h n) (\<lambda>_ len. (True, len + 1)) 0"

section \<open>Reference-counted list nodes\<close>

record SLLNode =
  sl_ref :: RefHelper
  sl_next :: "saddr option"

type_synonym slheap = "saddr \<rightharpoonup> SLLNode"

text \<open>A write through the counter of the node at \<open>a\<close>; a pointer in use is never dangling.\<close>

definition sl_unref :: "saddr \<Rightarrow> slheap \<Rightarrow> slheap res" where
  "sl_unref a h =
     (case h a of
        None \<Rightarrow> Panic
      | Some x \<Rightarrow> res_bind (Unref (sl_ref x)) (\<lambda>(r, _). Ok (h(a \<mapsto> x\<lparr>sl_ref := r\<rparr>))))"

definition sl_set_next :: "saddr \<Rightarrow> saddr option \<Rightarrow> slheap \<Rightarrow> slheap" where
  "sl_set_next l v h = (case h l of None \<Rightarrow> h | Some x \<Rightarrow> h(l \<mapsto> x\<lparr>sl_next := v\<rparr>))"

definition sl_next_of :: "slheap \<Rightarrow> saddr \<Rightarrow> saddr option" where
  "sl_next_of h l = (case h l of None \<Rightarrow> None | Some x \<Rightarrow> sl_next x)"

definition SetNextNodeNoLock :: "saddr \<Rightarrow> saddr option \<Rightarrow> slheap \<Rightarrow> slheap res" where
  "SetNextNodeNoLock l nxt h =
     res_bind (case sl_next_of h l of None \<Rightarrow> Ok h | Some m \<Rightarrow> sl_unref m h)
       (\<lambda>h'. Ok (sl_set_next l nxt h'))"

definition SLL_Insert :: "saddr \<Rightarrow> saddr \<Rightarrow> slheap \<Rightarrow> slheap" where
  "SLL_Insert l n h = (let nxt = sl_next_of h l in sl_set_next n nxt (sl_set_next l (Some n) h))"

definition GetNextNode :: "saddr \<Rightarrow> slheap \<Rightarrow> saddr option \<times> slheap" where
  "GetNextNode l h =
     (case sl_next_of h l of
        None \<Rightarrow> (None, h)
      | Some m \<Rightarrow>
          (Some m, case h m of None \<Rightarrow> h | Some x \<Rightarrow> h(m \<mapsto> x\<lparr>sl_ref := Ref (sl_ref x)\<rparr>)))"

definition SLL_ReleaseNextNode :: "saddr \<Rightarrow> slheap \<Rightarrow> slheap res" where
  "SLL_ReleaseNextNode l h =
     (case sl_next_of h l of
        None \<Rightarrow> Ok h
      | Some m \<Rightarrow> res_bind (sl_unref m h) (\<lambda>h'. Ok (sl_set_next l None h')))"

section \<open>The chain behind a head\<close>

fun chained :: "ssheap \<Rightarrow> saddr option \<Rightarrow> (saddr \<times> u64) list \<Rightarrow> bool" where
  "chained h p [] \<longleftrightarrow> p = None"
| "chained h p ((a, i) # xs) \<longleftrightarrow>
     p = Some a \<and> (\<exists>nx. h a = Some \<lparr>ss_next = nx, ss_id = i\<rparr> \<and> chained h nx xs)"

definition nodes_rep :: "ssheap \<Rightarrow> saddr \<Rightarrow> (saddr \<times> u64) list \<Rightarrow> bool" where
  "nodes_rep h n xs \<longleftrightarrow> h n \<noteq> None \<and> distinct (n # map fst xs) \<and> chained h (GetNext h n) xs"

definition nodelist_rep :: "ssheap \<Rightarrow> saddr \<Rightarrow> u64 list \<Rightarrow> bool" where
  "nodelist_rep h n ids \<longleftrightarrow> (\<exists>xs. nodes_rep h n xs \<and> map snd xs = ids)"

text \<open>The traversal of the identifiers with a callback that may stop it.\<close>

fun each_list :: "(u64 \<Rightarrow> 's \<Rightarrow> bool \<times> 's) \<Rightarrow> u64 list \<Rightarrow> 's \<Rightarrow> 's" where
  "each_list fn [] s = s"
| "each_list fn (i # is) s = (case fn i s of (ok, s') \<Rightarrow> if ok then each_list fn is s' else s')"

section \<open>Lemmas\<close>

lemma chained_frame:
  "(\<And>a. a \<in> fst ` set xs \<Longrightarrow> h' a = h a) \<Longrightarrow> chained h' p xs = chained h p xs"
  by (induction h p xs rule: chained.induct) auto

lemma chained_alloc: "chained h p xs \<Longrightarrow> a \<in> fst ` set xs \<Longrightarrow> h a \<noteq> None"
  by (induction h p xs rule: chained.induct) auto

lemma CreateNode_nodes:
  assumes "nodes_rep h n xs" and "h a = None"
  shows "nodes_rep (CreateNode n a i h) n ((a, i) # xs)"
proof -
  obtain x where x: "h n = Some x" using assms by (auto simp: nodes_rep_def)
  have a: "a \<noteq> n" "a \<notin> fst ` set xs"
    using assms x by (auto simp: nodes_rep_def dest: chained_alloc)
  have h': "CreateNode n a i h = h(n \<mapsto> x\<lparr>ss_next := Some a\<rparr>, a \<mapsto> \<lparr>ss_next = ss_next x, ss_id = i\<rparr>)"
    using a x by (auto simp: CreateNode_def SSLL_Insert_def SetNext_def GetNext_def Let_def fun_eq_iff)
  have "chained (CreateNode n a i h) (ss_next x) xs"
  proof -
    have "CreateNode n a i h b = h b" if "b \<in> fst ` set xs" for b
      using that a assms(1) by (auto simp: h' nodes_rep_def)
    then have "chained (CreateNode n a i h) (ss_next x) xs = chained h (ss_next x) xs"
      by (rule chained_frame)
    then show ?thesis using assms(1) x by (simp add: nodes_rep_def GetNext_def)
  qed
  moreover have "CreateNode n a i h a = Some \<lparr>ss_next = ss_next x, ss_id = i\<rparr>"
    and "GetNext (CreateNode n a i h) n = Some a" and "CreateNode n a i h n \<noteq> None"
    using a(1) by (simp_all add: h' GetNext_def)
  ultimately show ?thesis
    using assms(1) a unfolding nodes_rep_def by simp
qed

lemma for_each_chained:
  "chained h p xs \<Longrightarrow> ForEachNodesLocked h p fn s = Some (each_list fn (map snd xs) s)"
  by (induction h p xs arbitrary: s rule: chained.induct)
    (subst ForEachNodesLocked.simps, auto split: prod.splits)+

text \<open>
  The loop of \<open>DeleteNode\<close> from any position: \<open>prev\<close> is a node whose successor chain is
  \<open>xs\<close>.
\<close>

lemma delete_loop_correct:
  assumes "h prev = Some x" and "chained h (ss_next x) xs" and "distinct (prev # map fst xs)"
  shows "\<exists>h'. delete_loop i prev (ss_next x) depth h =
      Some (map_of (map (\<lambda>(a, j). (j, a)) xs) i, depth = 0 \<and> map snd xs = [i], h')
    \<and> (\<exists>x'. h' prev = Some x' \<and> ss_id x' = ss_id x
        \<and> chained h' (ss_next x') (remove1 (the (map_of (map (\<lambda>(a, j). (j, a)) xs) i), i) xs))
    \<and> (\<forall>b. b \<notin> insert prev (fst ` set xs) \<longrightarrow> h' b = h b)"
  using assms
proof (induction xs arbitrary: prev x depth)
  case Nil
  then show ?case by (subst delete_loop.simps) auto
next
  case (Cons y xs)
  obtain c j where y: "y = (c, j)" by (cases y)
  obtain nx where c: "ss_next x = Some c" "h c = Some \<lparr>ss_next = nx, ss_id = j\<rparr>" "chained h nx xs"
    using Cons.prems y by auto
  show ?case
  proof (cases "i = j")
    case True
    let ?h = "h(prev \<mapsto> x\<lparr>ss_next := nx\<rparr>)"
    have "snd (ReleaseNextNode prev h) = ?h"
      using Cons.prems c by (simp add: ReleaseNextNode_def GetNext_def SetNext_def)
    moreover have "chained ?h nx xs"
      using Cons.prems c y by (subst chained_frame) auto
    moreover have "nx = None \<longleftrightarrow> xs = []"
      using c(3) by (cases xs) auto
    ultimately show ?thesis
      using True c y by (subst delete_loop.simps) auto
  next
    case False
    let ?x = "\<lparr>ss_next = nx, ss_id = j\<rparr>"
    let ?k = "the (map_of (map (\<lambda>(a, j). (j, a)) xs) i)"
    obtain h' x' where IH: "delete_loop i c nx (depth + 1) h =
        Some (map_of (map (\<lambda>(a, j). (j, a)) xs) i, False, h')"
      "h' c = Some x'" "ss_id x' = j" "chained h' (ss_next x') (remove1 (?k, i) xs)"
      "\<forall>b. b \<notin> insert c (fst ` set xs) \<longrightarrow> h' b = h b"
      using Cons.IH [of c ?x "depth + 1"] Cons.prems c y by auto
    have "h' prev = Some x"
      using IH(5) Cons.prems y by auto
    moreover have "x' = \<lparr>ss_next = ss_next x', ss_id = j\<rparr>"
      using IH(3) by simp
    ultimately show ?thesis
      using False c y IH Cons.prems by (subst delete_loop.simps) auto
  qed
qed

lemma DeleteNode_nodes:
  assumes "nodes_rep h n xs"
  shows "\<exists>h'. DeleteNode n i h =
      Some (map_of (map (\<lambda>(a, j). (j, a)) xs) i, map snd xs = [i], h')
    \<and> nodes_rep h' n (remove1 (the (map_of (map (\<lambda>(a, j). (j, a)) xs) i), i) xs)
    \<and> (\<forall>b. b \<notin> insert n (fst ` set xs) \<longrightarrow> h' b = h b)"
proof -
  obtain x where x: "h n = Some x" using assms by (auto simp: nodes_rep_def)
  have "distinct (n # map fst (remove1 k xs))" for k
    using assms by (auto simp: nodes_rep_def distinct_map inj_on_def dest!: notin_set_remove1 set_remove1_subset [THEN subsetD])
  then show ?thesis
    using delete_loop_correct [of h n x xs i 0] assms x
    by (auto simp: nodes_rep_def DeleteNode_def GetNext_def)
qed

lemma remove1_assoc:
  "distinct (map fst xs) \<Longrightarrow> map_of (map (\<lambda>(a, j). (j, a)) xs) i = Some a
   \<Longrightarrow> map snd (remove1 (a, i) xs) = remove1 i (map snd xs)"
  by (induction xs) (auto dest: map_of_SomeD split: if_splits)

lemma map_of_swap_None: "map_of (map (\<lambda>(a, j). (j, a)) xs) i = None \<longleftrightarrow> i \<notin> set (map snd xs)"
  by (force simp: map_of_eq_None_iff)

text \<open>
  The name list of the catalog behaves as a list of identifiers, newest first: \<open>CreateNode\<close>
  pushes; \<open>DeleteNode\<close> terminates, removes the first occurrence, reports a node exactly when the
  identifier was there, and reports "empty" exactly when it removed the only node; \<open>ForEachNodes\<close>
  visits the identifiers in that order until the callback stops it.
\<close>

lemma nodelist_refines:
  assumes "nodelist_rep h n ids"
  shows "(h a = None \<longrightarrow> nodelist_rep (CreateNode n a i h) n (i # ids))
    \<and> (\<exists>del h'. DeleteNode n i h = Some (del, ids = [i], h')
        \<and> (del \<noteq> None \<longleftrightarrow> i \<in> set ids) \<and> nodelist_rep h' n (remove1 i ids))
    \<and> ForEachNodesLocked h (GetNext h n) fn s = Some (each_list fn ids s)"
proof -
  obtain xs where xs: "nodes_rep h n xs" "map snd xs = ids"
    using assms by (auto simp: nodelist_rep_def)
  have "h a = None \<longrightarrow> nodelist_rep (CreateNode n a i h) n (i # ids)"
    using CreateNode_nodes [OF xs(1)] xs(2) unfolding nodelist_rep_def
    by (intro impI exI [of _ "(a, i) # xs"]) auto
  moreover have "ForEachNodesLocked h (GetNext h n) fn s = Some (each_list fn ids s)"
    using for_each_chained xs by (auto simp: nodes_rep_def)
  moreover have "\<exists>del h'. DeleteNode n i h = Some (del, ids = [i], h')
      \<and> (del \<noteq> None \<longleftrightarrow> i \<in> set ids) \<and> nodelist_rep h' n (remove1 i ids)"
  proof (cases "map_of (map (\<lambda>(a, j). (j, a)) xs) i")
    case None
    then have i: "i \<notin> set ids" using xs(2) map_of_swap_None by metis
    then have "remove1 (b, i) xs = xs" for b
      using xs(2) by (intro remove1_idem) force
    then show ?thesis
      using DeleteNode_nodes [OF xs(1), of i] None xs(2) i
      by (auto simp: nodelist_rep_def remove1_idem)
  next
    case (Some b)
    then have "i \<in> set ids" using map_of_swap_None [of xs i] xs(2) by auto
    moreover have "map snd (remove1 (b, i) xs) = remove1 i ids"
      using remove1_assoc [OF _ Some] xs by (auto simp: nodes_rep_def)
    ultimately show ?thesis
      using DeleteNode_nodes [OF xs(1), of i] Some xs(2) unfolding nodelist_rep_def
      by auto
  qed
  ultimately show ?thesis by blast
qed

lemma nodelist_refines_example:
  "nodelist_rep [0 \<mapsto> \<lparr>ss_next = Some 1, ss_id = 0\<rparr>, 1 \<mapsto> \<lparr>ss_next = None, ss_id = 7\<rparr>] 0 [7]
   \<and> ForEachNodesLocked [0 \<mapsto> \<lparr>ss_next = Some 1, ss_id = 0\<rparr>, 1 \<mapsto> \<lparr>ss_next = None, ss_id = 7\<rparr>] (Some 1)
       (\<lambda>i n. (True, n + unat i)) 0 = Some (7 :: nat)"
proof -
  let ?h = "[0 \<mapsto> \<lparr>ss_next = Some 1, ss_id = 0\<rparr>, 1 \<mapsto> \<lparr>ss_next = None, ss_id = 7\<rparr>] :: ssheap"
  have rep: "nodelist_rep ?h 0 [7]"
    unfolding nodelist_rep_def by (intro exI [of _ "[(1, 7)]"]) (simp add: nodes_rep_def GetNext_def)
  then show ?thesis
    using nodelist_refines [OF rep, of 5 9 "\<lambda>i n. (True, n + unat i)" 0] by (simp add: GetNext_def)
qed

lemma LengthLocked_length: "nodelist_rep h n ids \<Longrightarrow> LengthLocked h n = Some (length ids)"
proof -
  have "each_list (\<lambda>_ len. (True, len + 1)) ids k = k + length ids" for k :: nat
    by (induction ids arbitrary: k) auto
  then show "nodelist_rep h n ids \<Longrightarrow> LengthLocked h n = Some (length ids)"
    by (auto simp: LengthLocked_def nodelist_rep_def nodes_rep_def for_each_chained)
qed

end
