(* ===== verification/Entry.thy ===== *)
theory Entry
  imports DLink Txn SLink
begin

text \<open>
  Versioned catalog entries: the common part of databases, tables, segments and blocks in
  \<^verbatim>\<open>pkg/catalog/base.go\<close> (creation and deletion timestamps, the transaction that is writing
  the entry, the visibility test) and the lookup of a name among its versions in
  \<^verbatim>\<open>pkg/catalog/node.go\<close>.  An entry refers to a transaction by its identifier; \<open>env\<close> gives the
  context of every transaction, and \<open>later\<close> the state a waiting call finds under the lock of the
  transaction's condition variable.
\<close>

section \<open>Entries\<close>

datatype OpT = OpCreate | OpUpdate | OpSoftDelete | OpHardDelete

type_synonym txn_env = "u64 \<Rightarrow> TxnCtx"

record BaseEntry =
  CurrOp :: OpT
  be_Txn :: "u64 option"
  PrevCommit :: "OpT option"
  be_ID :: u64
  CreateAt :: u64
  DeleteAt :: u64

definition CompareUint64 :: "u64 \<Rightarrow> u64 \<Rightarrow> int" where
  "CompareUint64 l r = (if l > r then 1 else if l < r then - 1 else 0)"

text \<open>Comparing two entries without creation time reads the start of their transactions.\<close>

definition DoCompre :: "txn_env \<Rightarrow> BaseEntry \<Rightarrow> BaseEntry \<Rightarrow> int" where
  "DoCompre env be oe =
     (if CreateAt be \<noteq> 0 \<and> CreateAt oe \<noteq> 0 then CompareUint64 (CreateAt be) (CreateAt oe)
      else if CreateAt be \<noteq> 0 then - 1
      else if CreateAt oe \<noteq> 0 then 1
      else CompareUint64 (StartTS (env (the (be_Txn be)))) (StartTS (env (the (be_Txn oe)))))"

definition PrepareCommit :: "txn_env \<Rightarrow> BaseEntry \<Rightarrow> BaseEntry" where
  "PrepareCommit env be =
     (let ts = CommitTS (env (the (be_Txn be)));
          be1 = (if CreateAt be = 0 then be\<lparr>CreateAt := ts\<rparr> else be)
      in if CurrOp be1 = OpSoftDelete then be1\<lparr>DeleteAt := ts\<rparr> else be1)"

definition PrepareRollback :: "BaseEntry \<Rightarrow> BaseEntry" where
  "PrepareRollback be =
     (let be1 = (case PrevCommit be of Some opt \<Rightarrow> be\<lparr>CurrOp := opt\<rparr> | None \<Rightarrow> be) in be1\<lparr>be_Txn := None\<rparr>)"

definition ApplyCommit :: "BaseEntry \<Rightarrow> BaseEntry" where
  "ApplyCommit be = be\<lparr>PrevCommit := None, be_Txn := None\<rparr>"

definition HasDropped :: "BaseEntry \<Rightarrow> bool" where
  "HasDropped be \<longleftrightarrow> DeleteAt be \<noteq> 0"

definition HasCreated :: "BaseEntry \<Rightarrow> bool" where
  "HasCreated be \<longleftrightarrow> CreateAt be \<noteq> 0"

definition CreateBefore :: "u64 \<Rightarrow> BaseEntry \<Rightarrow> bool" where
  "CreateBefore ts be \<longleftrightarrow> CreateAt be \<noteq> 0 \<and> CreateAt be < ts"

definition CreateAfter :: "u64 \<Rightarrow> BaseEntry \<Rightarrow> bool" where
  "CreateAfter ts be \<longleftrightarrow> CreateAt be \<noteq> 0 \<and> CreateAt be > ts"

definition DeleteBefore :: "u64 \<Rightarrow> BaseEntry \<Rightarrow> bool" where
  "DeleteBefore ts be \<longleftrightarrow> DeleteAt be \<noteq> 0 \<and> DeleteAt be < ts"

definition DeleteAfter :: "u64 \<Rightarrow> BaseEntry \<Rightarrow> bool" where
  "DeleteAfter ts be \<longleftrightarrow> DeleteAt be \<noteq> 0 \<and> DeleteAt be > ts"

definition DropEntryLocked :: "TxnCtx \<Rightarrow> BaseEntry \<Rightarrow> BaseEntry res" where
  "DropEntryLocked txnCtx be =
     (case be_Txn be of
        None \<Rightarrow>
          if HasDropped be then Err ErrNotFound
          else if CreateAt be > StartTS txnCtx then Panic
          else Ok (be\<lparr>PrevCommit := Some (CurrOp be), be_Txn := Some (txn_ID txnCtx), CurrOp := OpSoftDelete\<rparr>)
      | Some i \<Rightarrow>
          if i = txn_ID txnCtx then
            (if CurrOp be = OpSoftDelete then Err ErrNotFound else Ok (be\<lparr>CurrOp := OpSoftDelete\<rparr>))
          else Err TxnWWConflictErr)"

definition SameTxn :: "BaseEntry \<Rightarrow> BaseEntry \<Rightarrow> bool" where
  "SameTxn be q \<longleftrightarrow> be_Txn be \<noteq> None \<and> be_Txn q \<noteq> None \<and> be_Txn be = be_Txn q"

definition IsDroppedUncommitted :: "BaseEntry \<Rightarrow> bool" where
  "IsDroppedUncommitted be \<longleftrightarrow> be_Txn be \<noteq> None \<and> CurrOp be = OpSoftDelete"

definition HasActiveTxn :: "BaseEntry \<Rightarrow> bool" where
  "HasActiveTxn be \<longleftrightarrow> be_Txn be \<noteq> None"

definition GetTxnID :: "BaseEntry \<Rightarrow> u64" where
  "GetTxnID be = (case be_Txn be of Some i \<Rightarrow> i | None \<Rightarrow> 0)"

definition IsSameTxn :: "u64 \<Rightarrow> BaseEntry \<Rightarrow> bool" where
  "IsSameTxn r be \<longleftrightarrow> be_Txn be = Some r"

definition IsCommitting :: "txn_env \<Rightarrow> BaseEntry \<Rightarrow> bool" where
  "IsCommitting env be \<longleftrightarrow> (case be_Txn be of None \<Rightarrow> False | Some i \<Rightarrow> CommitTS (env i) \<noteq> UncommitTS)"

definition CreateAndDropInSameTxn :: "BaseEntry \<Rightarrow> bool" where
  "CreateAndDropInSameTxn be \<longleftrightarrow> CreateAt be \<noteq> 0 \<and> CreateAt be = DeleteAt be"

text \<open>The state a caller of \<open>GetTxnState(true)\<close> on the entry's transaction gets.\<close>

definition waited_state :: "txn_env \<Rightarrow> (u64 \<Rightarrow> TxnStates) \<Rightarrow> BaseEntry \<Rightarrow> TxnStates" where
  "waited_state env later be = (let i = the (be_Txn be) in GetTxnState True (State (env i)) (later i))"

definition IsCommitted :: "txn_env \<Rightarrow> (u64 \<Rightarrow> TxnStates) \<Rightarrow> BaseEntry \<Rightarrow> bool" where
  "IsCommitted env later be =
     (if be_Txn be = None then True
      else waited_state env later be \<in> {TxnStateCommitted, TxnStateRollbacked})"

text \<open>\<open>txn\<close> is the reader; a nil reader sees everything.\<close>

definition TxnCanRead :: "txn_env \<Rightarrow> (u64 \<Rightarrow> TxnStates) \<Rightarrow> u64 option \<Rightarrow> BaseEntry \<Rightarrow> bool" where
  "TxnCanRead env later txn be =
     (case txn of
        None \<Rightarrow> True
      | Some r \<Rightarrow>
          let ts = StartTS (env r) in
          if \<not> HasActiveTxn be then \<not> (CreateAfter ts be \<or> DeleteBefore ts be)
          else if IsSameTxn r be then \<not> IsDroppedUncommitted be
          else if \<not> HasCreated be then False
          else if CreateAfter ts be then False
          else if \<not> HasDropped be then True
          else if DeleteAfter ts be then True
          else if \<not> IsCommitting env be then False
          else if CreateAndDropInSameTxn be then False
          else waited_state env later be = TxnStateRollbacked)"

definition PrepareWrite :: "txn_env \<Rightarrow> u64 option \<Rightarrow> BaseEntry \<Rightarrow> go_error option" where
  "PrepareWrite env txn be =
     (case txn of
        None \<Rightarrow> None
      | Some r \<Rightarrow>
          (case be_Txn be of
             None \<Rightarrow> None
           | Some i \<Rightarrow>
               if i = r then None
               else if CommitTS (env i) = UncommitTS then Some TxnWWConflictErr
               else None))"

section \<open>Looking up a name\<close>

text \<open>
  The callback of \<open>TxnGetTableNodeLocked\<close> on one entry: whether the entry is the answer, and
  whether to go on to the next version.
\<close>

definition table_visit :: "txn_env \<Rightarrow> (u64 \<Rightarrow> TxnStates) \<Rightarrow> u64 \<Rightarrow> BaseEntry \<Rightarrow> bool \<times> bool" where
  "table_visit env later r be =
     (let ts = StartTS (env r) in
      if HasActiveTxn be then
        if IsSameTxn r be then (\<not> IsDroppedUncommitted be, False)
        else if \<not> HasCreated be \<and> \<not> HasDropped be then (False, True)
        else if CreateBefore ts be then
          if \<not> IsCommitting env be then (True, False)
          else if CreateAndDropInSameTxn be then (False, True)
          else if DeleteAfter ts be then (True, False)
          else (waited_state env later be = TxnStateRollbacked, False)
        else (False, True)
      else if CreateAfter ts be then (False, True)
      else if DeleteBefore ts be then (False, False)
      else (True, False))"

definition db_visit :: "txn_env \<Rightarrow> (u64 \<Rightarrow> TxnStates) \<Rightarrow> u64 \<Rightarrow> BaseEntry \<Rightarrow> bool \<times> bool" where
  "db_visit env later r be =
     (let ts = StartTS (env r) in
      if HasActiveTxn be then
        if IsSameTxn r be then (\<not> IsDroppedUncommitted be, False)
        else if \<not> HasCreated be \<and> \<not> HasDropped be then (False, True)
        else if CreateBefore ts be then
          if \<not> IsCommitting env be then (True, False)
          else if CreateAndDropInSameTxn be then (False, False)
          else if DeleteAfter ts be then (True, False)
          else (waited_state env later be = TxnStateRollbacked, False)
        else (False, True)
      else if CreateAfter ts be then (False, True)
      else if DeleteBefore ts be then (False, False)
      else (True, False))"

text \<open>The traversal of the versions of a name, newest first, that both lookups make.\<close>

definition visit_step :: "(BaseEntry \<Rightarrow> bool \<times> bool) \<Rightarrow> (u64 \<Rightarrow> BaseEntry) \<Rightarrow> u64 \<Rightarrow> u64 option \<Rightarrow> bool \<times> u64 option" where
  "visit_step visit ent i dn = (case visit (ent i) of (found, goNext) \<Rightarrow> (goNext, if found then Some i else dn))"

definition TxnGetTableNodeLocked ::
  "txn_env \<Rightarrow> (u64 \<Rightarrow> TxnStates) \<Rightarrow> (u64 \<Rightarrow> BaseEntry) \<Rightarrow> u64 \<Rightarrow> u64 list \<Rightarrow> u64 option" where
  "TxnGetTableNodeLocked env later ent r ids = each_list (visit_step (table_visit env later r) ent) ids None"

definition TxnGetDBNodeLocked ::
  "txn_env \<Rightarrow> (u64 \<Rightarrow> TxnStates) \<Rightarrow> (u64 \<Rightarrow> BaseEntry) \<Rightarrow> u64 \<Rightarrow> u64 list \<Rightarrow> u64 option" where
  "TxnGetDBNodeLocked env later ent r ids = each_list (visit_step (db_visit env later r) ent) ids None"

section \<open>The order of entries\<close>

text \<open>
  Entries without a creation time rank above those with one, otherwise the timestamps decide: the
  comparison meets what the sorted list asks of its payloads.
\<close>

lemma CompareUint64_less: "CompareUint64 l r < 0 \<longleftrightarrow> l < r" "0 \<le> CompareUint64 l r \<longleftrightarrow> r \<le> l"
  by (auto simp: CompareUint64_def)

interpretation entries: payload_order "DoCompre env" "\<lambda>_. True"
  by unfold_locales
    (auto simp: DoCompre_def CompareUint64_less not_less split: if_splits)

section \<open>Snapshot visibility\<close>

text \<open>
  What a reader should see of an entry: its own writes; otherwise an entry created not after its start
  and not deleted before it, where a deletion whose transaction turned out rolled back does not count.
\<close>

definition snapshot_visible :: "txn_env \<Rightarrow> (u64 \<Rightarrow> TxnStates) \<Rightarrow> u64 \<Rightarrow> BaseEntry \<Rightarrow> bool" where
  "snapshot_visible env later r be \<longleftrightarrow>
     (let ts = StartTS (env r) in
      if be_Txn be = Some r then CurrOp be \<noteq> OpSoftDelete
      else CreateAt be \<noteq> 0 \<and> CreateAt be \<le> ts
        \<and> (DeleteAt be = 0 \<or> ts < DeleteAt be
           \<or> (be_Txn be \<noteq> None \<and> CreateAt be \<noteq> DeleteAt be \<and> waited_state env later be = TxnStateRollbacked)))"

definition entry_wf :: "txn_env \<Rightarrow> BaseEntry \<Rightarrow> bool" where
  "entry_wf env be \<longleftrightarrow>
     (be_Txn be = None \<longrightarrow> CreateAt be \<noteq> 0)
     \<and> (\<forall>i. be_Txn be = Some i \<and> CommitTS (env i) = UncommitTS \<longrightarrow> State (env i) = TxnStateActive)"

lemmas visit_defs = HasActiveTxn_def IsSameTxn_def IsDroppedUncommitted_def HasCreated_def HasDropped_def
  CreateAfter_def CreateBefore_def DeleteBefore_def DeleteAfter_def IsCommitting_def CreateAndDropInSameTxn_def

text \<open>
  C4. \<open>TxnCanRead\<close> decides snapshot visibility: a transaction reads an entry exactly when it wrote
  it and has not dropped it, or the entry was created not after the transaction's start and not
  deleted before it, counting a committing deletion as done unless it is seen rolled back.  The entry
  has a creation time unless a transaction is on it, a transaction without commit timestamp is active,
  and the reader's start is not the deletion time.
\<close>

theorem TxnCanRead_snapshot:
  assumes "entry_wf env be" and "DeleteAt be \<noteq> StartTS (env r)"
  shows "TxnCanRead env later (Some r) be \<longleftrightarrow> snapshot_visible env later r be"
proof (cases "be_Txn be")
  case None
  then show ?thesis
    using assms by (auto simp: TxnCanRead_def snapshot_visible_def entry_wf_def visit_defs Let_def not_less)
next
  case (Some i)
  have w: "waited_state env later be \<noteq> TxnStateRollbacked" if "CommitTS (env i) = UncommitTS"
    using assms(1) Some that by (simp add: entry_wf_def waited_state_def GetTxnState_def)
  show ?thesis
    using assms(2) Some w
    by (auto simp: TxnCanRead_def snapshot_visible_def visit_defs Let_def not_less)
qed

definition demo_env :: txn_env where
  "demo_env i = NewTxnCtx i i []"

definition demo_entry :: "u64 option \<Rightarrow> u64 \<Rightarrow> u64 \<Rightarrow> BaseEntry" where
  "demo_entry t c d = \<lparr>CurrOp = OpCreate, be_Txn = t, PrevCommit = None, be_ID = 1, CreateAt = c, DeleteAt = d\<rparr>"

theorem TxnCanRead_snapshot_witness:
  "TxnCanRead demo_env (\<lambda>_. TxnStateActive) (Some 5) (demo_entry None 3 7) \<longleftrightarrow>
     snapshot_visible demo_env (\<lambda>_. TxnStateActive) 5 (demo_entry None 3 7)"
  by (rule TxnCanRead_snapshot) (simp_all add: entry_wf_def demo_entry_def demo_env_def NewTxnCtx_def)

section \<open>The life of a dropped entry\<close>

text \<open>
  Dropping an entry: while the dropping transaction is active every other reader still sees the
  entry, the dropper does not, and any other dropper is refused with a write conflict; once the
  drop is committed exactly the readers that started after it lose the entry, and dropping again
  reports "not found".
\<close>

lemma drop_lifecycle:
  assumes "be_Txn be = None" and "DeleteAt be = 0" and "CreateAt be \<noteq> 0" and "CreateAt be \<le> StartTS (env d)"
    and "txn_ID (env d) = d" and "CommitTS (env' d) = ts" and "ts \<noteq> 0"
    and "r \<noteq> d" and "CreateAt be \<le> StartTS (env r)" and "StartTS (env' r) = StartTS (env r)" and "txn_ID (env r) = r"
  shows "\<exists>be1. DropEntryLocked (env d) be = Ok be1
    \<and> TxnCanRead env later (Some r) be1 \<and> \<not> TxnCanRead env later (Some d) be1
    \<and> DropEntryLocked (env r) be1 = Err TxnWWConflictErr
    \<and> (let be3 = ApplyCommit (PrepareCommit env' be1) in
         (TxnCanRead env' later (Some r) be3 \<longleftrightarrow> StartTS (env r) \<le> ts)
         \<and> DropEntryLocked (env r) be3 = Err ErrNotFound)"
  using assms
  by (auto simp: DropEntryLocked_def TxnCanRead_def PrepareCommit_def ApplyCommit_def visit_defs Let_def not_less)

lemma drop_lifecycle_example:
  "\<exists>be1. DropEntryLocked (demo_env 5) (demo_entry None 3 0) = Ok be1
     \<and> TxnCanRead demo_env (\<lambda>_. TxnStateActive) (Some 6) be1"
proof -
  have "\<exists>be1. DropEntryLocked (demo_env 5) (demo_entry None 3 0) = Ok be1
    \<and> TxnCanRead demo_env (\<lambda>_. TxnStateActive) (Some 6) be1 \<and> \<not> TxnCanRead demo_env (\<lambda>_. TxnStateActive) (Some 5) be1
    \<and> DropEntryLocked (demo_env 6) be1 = Err TxnWWConflictErr
    \<and> (let be3 = ApplyCommit (PrepareCommit (\<lambda>i. (demo_env i)\<lparr>CommitTS := 9\<rparr>) be1) in
         (TxnCanRead (\<lambda>i. (demo_env i)\<lparr>CommitTS := 9\<rparr>) (\<lambda>_. TxnStateActive) (Some 6) be3 \<longleftrightarrow> StartTS (demo_env 6) \<le> 9)
         \<and> DropEntryLocked (demo_env 6) be3 = Err ErrNotFound)"
    by (rule drop_lifecycle) (simp_all add: demo_entry_def demo_env_def NewTxnCtx_def)
  then show ?thesis by blast
qed

text \<open>
  Rolling back a drop that had already been prepared does not undo it: the deletion time stays
  although the operation and the transaction are reset, so the entry is invisible to every reader that
  starts later and can never be dropped again.
\<close>

lemma prepared_drop_survives_rollback:
  assumes "be_Txn be = None" and "DeleteAt be = 0" and "CreateAt be \<le> StartTS (env d)"
    and "CommitTS (env' d) = ts" and "txn_ID (env d) = d" and "ts \<noteq> 0" and "ts < StartTS (env' r)"
  shows "\<exists>be1. DropEntryLocked (env d) be = Ok be1
    \<and> (let be3 = PrepareRollback (PrepareCommit env' be1) in
         be_Txn be3 = None \<and> CurrOp be3 = CurrOp be \<and> HasDropped be3
         \<and> \<not> TxnCanRead env' later (Some r) be3 \<and> DropEntryLocked (env' r) be3 = Err ErrNotFound)"
  using assms
  by (auto simp: DropEntryLocked_def TxnCanRead_def PrepareCommit_def PrepareRollback_def visit_defs Let_def)

lemma prepared_drop_survives_rollback_example:
  "\<exists>be1. DropEntryLocked (demo_env 5) (demo_entry None 3 0) = Ok be1
     \<and> \<not> TxnCanRead (\<lambda>i. (demo_env i)\<lparr>CommitTS := 9\<rparr>) (\<lambda>_. TxnStateActive) (Some 12)
         (PrepareRollback (PrepareCommit (\<lambda>i. (demo_env i)\<lparr>CommitTS := 9\<rparr>) be1))"
  using prepared_drop_survives_rollback [of "demo_entry None 3 0" demo_env 5 "\<lambda>i. (demo_env i)\<lparr>CommitTS := 9\<rparr>" 9 12
      "\<lambda>_. TxnStateActive"]
  by (auto simp: demo_entry_def demo_env_def NewTxnCtx_def Let_def)

section \<open>Lookups\<close>

text \<open>
  A reader's view is settled when no other transaction is in the middle of committing one of the
  versions: a version has a creation time or an active writer, deletions follow creations, the reader
  started at no version's timestamps and has dropped only versions older than its start.
\<close>

definition settled :: "txn_env \<Rightarrow> u64 \<Rightarrow> BaseEntry \<Rightarrow> bool" where
  "settled env r be \<longleftrightarrow>
     (case be_Txn be of
        None \<Rightarrow> CreateAt be \<noteq> 0
      | Some i \<Rightarrow> CommitTS (env i) = UncommitTS \<and> DeleteAt be = 0)
     \<and> StartTS (env r) \<noteq> CreateAt be \<and> StartTS (env r) \<noteq> DeleteAt be
     \<and> (DeleteAt be \<noteq> 0 \<longrightarrow> CreateAt be \<le> DeleteAt be)
     \<and> (be_Txn be = Some r \<and> CreateAt be \<noteq> 0 \<longrightarrow> CreateAt be < StartTS (env r))"

text \<open>
  A version gives way to the next one of the same name: it was deleted before the newer one was
  created, or the transaction that creates the newer one has dropped it.
\<close>

definition replaced_by :: "txn_env \<Rightarrow> u64 \<Rightarrow> BaseEntry \<Rightarrow> BaseEntry \<Rightarrow> bool" where
  "replaced_by env r new old \<longleftrightarrow>
     (if CreateAt new \<noteq> 0 then DeleteAt old \<noteq> 0 \<and> DeleteAt old \<le> CreateAt new
      else (be_Txn old = be_Txn new \<and> CurrOp old = OpSoftDelete)
        \<or> (DeleteAt old \<noteq> 0 \<and> (be_Txn new = Some r \<longrightarrow> DeleteAt old < StartTS (env r))))"

lemma visit_cases:
  assumes "settled env r be"
  shows "table_visit env later r be = db_visit env later r be"
    and "fst (table_visit env later r be) = snapshot_visible env later r be"
    and "snapshot_visible env later r be \<Longrightarrow> \<not> snd (table_visit env later r be)"
  using assms
  by (auto simp: table_visit_def db_visit_def snapshot_visible_def settled_def visit_defs Let_def not_less
      split: option.splits)

lemma stop_hides_older:
  assumes "settled env r be" and "table_visit env later r be = (False, False)"
    and "settled env r old" and "replaced_by env r be old"
  shows "\<not> snapshot_visible env later r old"
proof -
  let ?ts = "StartTS (env r)"
  consider (own) "be_Txn be = Some r" "CurrOp be = OpSoftDelete" | (gone) "be_Txn be = None" "DeleteAt be \<noteq> 0" "DeleteAt be < ?ts"
    using assms(1,2)
    by (auto simp: table_visit_def settled_def visit_defs Let_def split: if_splits option.splits)
  then have "(DeleteAt old \<noteq> 0 \<and> DeleteAt old < ?ts) \<or> (be_Txn old = Some r \<and> CurrOp old = OpSoftDelete)"
  proof cases
    case own
    then show ?thesis using assms(1,4) by (auto simp: replaced_by_def settled_def split: if_splits)
  next
    case gone
    then show ?thesis using assms(1,4) by (auto simp: replaced_by_def settled_def split: if_splits)
  qed
  moreover have "DeleteAt old \<noteq> 0 \<Longrightarrow> be_Txn old = None"
    using assms(3) by (auto simp: settled_def split: option.splits)
  ultimately show ?thesis
    by (auto simp: snapshot_visible_def Let_def)
qed

lemma find_none: "(\<forall>x \<in> set xs. \<not> P x) \<Longrightarrow> List.find P xs = None"
  by (induction xs) auto

lemma lookup_find:
  assumes "\<forall>i \<in> set ids. settled env r (ent i)"
    and "sorted_wrt (\<lambda>n k. replaced_by env r (ent n) (ent k)) ids"
  shows "each_list (visit_step (table_visit env later r) ent) ids None
    = List.find (\<lambda>i. snapshot_visible env later r (ent i)) ids"
  using assms
proof (induction ids)
  case (Cons i ids)
  obtain f g where v: "table_visit env later r (ent i) = (f, g)" by force
  have s: "settled env r (ent i)" using Cons.prems by simp
  have f: "f = snapshot_visible env later r (ent i)" using visit_cases(2) [OF s, of later] v by simp
  show ?case
  proof (cases f)
    case True
    then have "\<not> g" using visit_cases(3) [OF s, of later] v f by simp
    then show ?thesis using True f v by (simp add: visit_step_def)
  next
    case False
    show ?thesis
    proof (cases g)
      case True
      then show ?thesis using False f v Cons by (simp add: visit_step_def)
    next
      case g: False
      have "\<forall>k \<in> set ids. \<not> snapshot_visible env later r (ent k)"
        using stop_hides_older [OF s] False g v Cons.prems by auto
      then show ?thesis using False g f v by (simp add: visit_step_def find_none)
    qed
  qed
qed simp



text \<open>
  While the transaction that created an entry is committing, readers that started after its
  commit timestamp read the entry through \<open>TxnCanRead\<close>, but a lookup of its name finds nothing: the
  lookup treats the missing deletion time as one before the reader's start, waits, and gives up on the
  name even though the transaction commits.
\<close>

lemma lookup_loses_committing_creation:
  assumes "be_Txn (ent i) = Some w" and "w \<noteq> r" and "CommitTS (env w) \<noteq> UncommitTS" and "later w \<noteq> TxnStateRollbacked"
    and "State (env w) = TxnStateCommitting" and "CreateAt (ent i) = CommitTS (env w)" and "CreateAt (ent i) \<noteq> 0"
    and "CommitTS (env w) < StartTS (env r)" and "DeleteAt (ent i) = 0"
  shows "TxnCanRead env later (Some r) (ent i) \<and> TxnGetTableNodeLocked env later ent r (i # ids) = None
    \<and> TxnGetDBNodeLocked env later ent r (i # ids) = None"
  using assms
  by (auto simp: TxnCanRead_def TxnGetTableNodeLocked_def TxnGetDBNodeLocked_def visit_step_def table_visit_def
      db_visit_def waited_state_def GetTxnState_def visit_defs Let_def)

lemma lookup_loses_committing_creation_example:
  "\<exists>env. TxnGetTableNodeLocked env (\<lambda>_. TxnStateCommitted) (\<lambda>_. demo_entry (Some 2) 4 0) 6 [1] = None"
  using lookup_loses_committing_creation [of "\<lambda>_. demo_entry (Some 2) 4 0" 1 2 6
      "\<lambda>i. if i = 2 then (demo_env 2)\<lparr>CommitTS := 4, State := TxnStateCommitting\<rparr> else demo_env i" "\<lambda>_. TxnStateCommitted" "[]"]
  by (intro exI) (auto simp: demo_entry_def demo_env_def NewTxnCtx_def UncommitTS_def)

end
