(* ===== verification/IDs.thy ===== *)
theory IDs
  imports Common_Base "HOL-Library.Sublist"
begin

text \<open>
  Identifiers and names: the resource identifier of \<^verbatim>\<open>pkg/common/id.go\<close> with its derived
  identifiers, its file names and the parsers that read them back, the file name helpers of
  \<^verbatim>\<open>pkg/common/filenames.go\<close> and the string encoding of \<^verbatim>\<open>pkg/common/marshal.go\<close>.
  The part of \<^verbatim>\<open>fmt\<close>, \<^verbatim>\<open>strconv\<close> and \<^verbatim>\<open>strings\<close> that the sources use is
  defined first.
\<close>

section \<open>Decimal numbers and separators\<close>

definition digit :: "nat \<Rightarrow> char" where
  "digit d = char_of (48 + d)"

definition digit_val :: "char \<Rightarrow> nat" where
  "digit_val c = of_char c - 48"

definition is_digit :: "char \<Rightarrow> bool" where
  "is_digit c \<longleftrightarrow> 48 \<le> (of_char c :: nat) \<and> (of_char c :: nat) \<le> 57"

text \<open>\<open>fmt.Sprintf("%d", n)\<close> of an unsigned number.\<close>

fun dec :: "nat \<Rightarrow> string" where
  "dec n = (if n < 10 then [digit n] else dec (n div 10) @ [digit (n mod 10)])"

declare dec.simps [simp del]

definition digits_val :: "string \<Rightarrow> nat" where
  "digits_val s = foldl (\<lambda>v c. v * 10 + digit_val c) 0 s"

text \<open>\<open>strconv.ParseUint(s, 10, 64)\<close> and \<open>strconv.Atoi(s)\<close>.\<close>

definition ParseUint :: "string \<Rightarrow> u64 res" where
  "ParseUint s =
     (if s = [] \<or> \<not> list_all is_digit s then Err ErrParseUint
      else if digits_val s \<ge> 2 ^ 64 then Err ErrParseUint
      else Ok (word_of_nat (digits_val s)))"

definition Atoi :: "string \<Rightarrow> int res" where
  "Atoi s =
     (let (neg, t) = (case s of [] \<Rightarrow> (False, []) | c # cs \<Rightarrow>
             if c = CHR ''-'' then (True, cs) else if c = CHR ''+'' then (False, cs) else (False, s))
      in if t = [] \<or> \<not> list_all is_digit t then Err ErrParseUint
         else if neg then (if digits_val t > 2 ^ 63 then Err ErrParseUint else Ok (- int (digits_val t)))
         else if digits_val t \<ge> 2 ^ 63 then Err ErrParseUint else Ok (int (digits_val t)))"

text \<open>\<open>strings.Split\<close> at a one-character separator, and joining.\<close>

fun split_on :: "char \<Rightarrow> string \<Rightarrow> string list" where
  "split_on c [] = [[]]"
| "split_on c (x # xs) =
     (if x = c then [] # split_on c xs
      else case split_on c xs of [] \<Rightarrow> [[x]] | y # ys \<Rightarrow> (x # y) # ys)"

fun join_on :: "char \<Rightarrow> string list \<Rightarrow> string" where
  "join_on c [] = []"
| "join_on c [x] = x"
| "join_on c (x # y # ys) = x @ c # join_on c (y # ys)"

definition HasSuffix :: "string \<Rightarrow> string \<Rightarrow> bool" where
  "HasSuffix s suf \<longleftrightarrow> suffix suf s"

definition TrimSuffix :: "string \<Rightarrow> string \<Rightarrow> string" where
  "TrimSuffix s suf = (if suffix suf s then take (length s - length suf) s else s)"

text \<open>\<open>strings.Trim(s, cutset)\<close> removes characters of the cutset at both ends.\<close>

definition Trim :: "string \<Rightarrow> string \<Rightarrow> string" where
  "Trim s cutset = rev (dropWhile (\<lambda>c. c \<in> set cutset) (rev (dropWhile (\<lambda>c. c \<in> set cutset) s)))"

section \<open>Identifiers\<close>

record ID =
  TableID :: u64
  SegmentID :: u64
  BlockID :: u64
  PartID :: u32
  Idx :: u16
  Iter :: u8

definition zero_ID :: ID where
  "zero_ID = \<lparr>TableID = 0, SegmentID = 0, BlockID = 0, PartID = 0, Idx = 0, Iter = 0\<rparr>"

definition TRANSIENT_TABLE_START_ID :: u64 where
  "TRANSIENT_TABLE_START_ID = not 0 div 2"

definition NewTransientID :: ID where
  "NewTransientID = zero_ID\<lparr>TableID := TRANSIENT_TABLE_START_ID\<rparr>"

definition AsBlockID :: "ID \<Rightarrow> ID" where
  "AsBlockID i = zero_ID\<lparr>TableID := TableID i, SegmentID := SegmentID i, BlockID := BlockID i\<rparr>"

definition AsSegmentID :: "ID \<Rightarrow> ID" where
  "AsSegmentID i = zero_ID\<lparr>TableID := TableID i, SegmentID := SegmentID i\<rparr>"

definition IsSameSegment :: "ID \<Rightarrow> ID \<Rightarrow> bool" where
  "IsSameSegment i q \<longleftrightarrow> TableID i = TableID q \<and> SegmentID i = SegmentID q"

definition IsSameBlock :: "ID \<Rightarrow> ID \<Rightarrow> bool" where
  "IsSameBlock i q \<longleftrightarrow> TableID i = TableID q \<and> SegmentID i = SegmentID q \<and> BlockID i = BlockID q"

text \<open>The operations that advance a field in place return the new identifier and the receiver after it.\<close>

definition ID_Next :: "ID \<Rightarrow> ID \<times> ID" where
  "ID_Next i = (let newId = TableID i + 1 in (zero_ID\<lparr>TableID := newId - 1\<rparr>, i\<lparr>TableID := newId\<rparr>))"

definition NextPart :: "ID \<Rightarrow> ID \<times> ID" where
  "NextPart i = (let newId = PartID i + 1; i' = i\<lparr>PartID := newId\<rparr> in (i'\<lparr>PartID := newId - 1\<rparr>, i'))"

definition NextIter :: "ID \<Rightarrow> ID" where
  "NextIter i = \<lparr>TableID = TableID i, SegmentID = SegmentID i, BlockID = BlockID i, PartID = PartID i,
     Idx = Idx i, Iter = Iter i + 1\<rparr>"

definition NextBlock :: "ID \<Rightarrow> ID \<times> ID" where
  "NextBlock i = (let newId = BlockID i + 1; i' = i\<lparr>BlockID := newId\<rparr> in (i'\<lparr>BlockID := newId - 1\<rparr>, i'))"

definition NextSegment :: "ID \<Rightarrow> ID \<times> ID" where
  "NextSegment i = (let newId = SegmentID i + 1; i' = i\<lparr>SegmentID := newId\<rparr> in (i'\<lparr>SegmentID := newId - 1\<rparr>, i'))"

definition IsTransient :: "ID \<Rightarrow> bool" where
  "IsTransient i \<longleftrightarrow> TableID i \<ge> TRANSIENT_TABLE_START_ID"

definition dec_w :: "'a::len word \<Rightarrow> string" where
  "dec_w x = dec (unat x)"

definition ToPartFileName :: "ID \<Rightarrow> string" where
  "ToPartFileName i = dec_w (Idx i) @ ''_'' @ dec_w (TableID i) @ ''_'' @ dec_w (SegmentID i) @ ''_''
     @ dec_w (BlockID i) @ ''_'' @ dec_w (PartID i)"

definition ToPartFilePath :: "ID \<Rightarrow> string" where
  "ToPartFilePath i = dec_w (TableID i) @ ''/'' @ dec_w (SegmentID i) @ ''/'' @ dec_w (BlockID i) @ ''/''
     @ dec_w (Idx i) @ ''/'' @ dec_w (PartID i) @ ''.'' @ dec_w (Iter i)"

definition ToBlockFileName :: "ID \<Rightarrow> string" where
  "ToBlockFileName i = dec_w (TableID i) @ ''_'' @ dec_w (SegmentID i) @ ''_'' @ dec_w (BlockID i)"

definition ToTBlockFileName :: "ID \<Rightarrow> string \<Rightarrow> string" where
  "ToTBlockFileName i nm =
     dec_w (TableID i) @ ''_'' @ dec_w (SegmentID i) @ ''_'' @ dec_w (BlockID i) @ ''_'' @ nm"

definition ToBlockFilePath :: "ID \<Rightarrow> string" where
  "ToBlockFilePath i = dec_w (TableID i) @ ''/'' @ dec_w (SegmentID i) @ ''/'' @ dec_w (BlockID i) @ ''/''"

definition ToSegmentFileName :: "ID \<Rightarrow> string" where
  "ToSegmentFileName i = dec_w (TableID i) @ ''_'' @ dec_w (SegmentID i)"

definition ToSegmentFilePath :: "ID \<Rightarrow> string" where
  "ToSegmentFilePath i = dec_w (TableID i) @ ''/'' @ dec_w (SegmentID i) @ ''/''"

definition ParseTBlkName :: "string \<Rightarrow> (ID \<times> string) res" where
  "ParseTBlkName nm =
     (let strs = split_on CHR ''_'' nm in
      if length strs \<noteq> 4 then Err ErrParseTBlockFileName
      else res_bind (ParseUint (strs ! 0)) (\<lambda>tid.
           res_bind (ParseUint (strs ! 1)) (\<lambda>sid.
           res_bind (ParseUint (strs ! 2)) (\<lambda>bid.
             Ok (zero_ID\<lparr>TableID := tid, SegmentID := sid, BlockID := bid\<rparr>, strs ! 3)))))"

definition ParseBlkNameToID :: "string \<Rightarrow> ID res" where
  "ParseBlkNameToID nm =
     (let strs = split_on CHR ''_'' nm in
      if length strs \<noteq> 3 then Err ErrParseBlockFileName
      else res_bind (ParseUint (strs ! 0)) (\<lambda>tid.
           res_bind (ParseUint (strs ! 1)) (\<lambda>sid.
           res_bind (ParseUint (strs ! 2)) (\<lambda>bid.
             Ok (zero_ID\<lparr>TableID := tid, SegmentID := sid, BlockID := bid\<rparr>)))))"

definition ParseSegmentNameToID :: "string \<Rightarrow> ID res" where
  "ParseSegmentNameToID nm =
     (let strs = split_on CHR ''_'' nm in
      if length strs \<noteq> 2 then Err ErrParseSegmentFileName
      else res_bind (ParseUint (strs ! 0)) (\<lambda>tid.
           res_bind (ParseUint (strs ! 1)) (\<lambda>sid.
             Ok (zero_ID\<lparr>TableID := tid, SegmentID := sid\<rparr>))))"

section \<open>File names\<close>

definition parse_suffix :: "string \<Rightarrow> string \<Rightarrow> string \<times> bool" where
  "parse_suffix suf filename =
     (let nm = TrimSuffix filename suf in if length nm = length filename then (nm, False) else (nm, True))"

definition ParseBlockBitSlicedIndexFileName :: "string \<Rightarrow> string \<times> bool" where
  "ParseBlockBitSlicedIndexFileName = parse_suffix ''.bbsi''"
definition ParseSegmentFileName :: "string \<Rightarrow> string \<times> bool" where
  "ParseSegmentFileName = parse_suffix ''.seg''"
definition ParseTBlockfileName :: "string \<Rightarrow> string \<times> bool" where
  "ParseTBlockfileName = parse_suffix ''.tblk''"
definition ParseBlockfileName :: "string \<Rightarrow> string \<times> bool" where
  "ParseBlockfileName = parse_suffix ''.blk''"
definition ParseBitSlicedIndexFileName :: "string \<Rightarrow> string \<times> bool" where
  "ParseBitSlicedIndexFileName = parse_suffix ''.bsi''"

definition MakeBitSlicedIndexFileName :: "u64 \<Rightarrow> u64 \<Rightarrow> u64 \<Rightarrow> u16 \<Rightarrow> string" where
  "MakeBitSlicedIndexFileName version tid sid col =
     dec_w version @ ''_'' @ dec_w tid @ ''_'' @ dec_w sid @ ''_'' @ dec_w col @ ''.bsi''"

definition MakeBlockBitSlicedIndexFileName :: "u64 \<Rightarrow> u64 \<Rightarrow> u64 \<Rightarrow> u64 \<Rightarrow> u16 \<Rightarrow> string" where
  "MakeBlockBitSlicedIndexFileName version tid sid bid col =
     dec_w version @ ''_'' @ dec_w tid @ ''_'' @ dec_w sid @ ''_'' @ dec_w bid @ ''_'' @ dec_w col @ ''.bbsi''"

text \<open>
  The first \<open>n\<close> fields as \<open>int\<close>s, in order: a missing field is an index out of range, a field
  that is not a number stops with "not ok".
\<close>

fun atoi_fields :: "nat \<Rightarrow> string list \<Rightarrow> int list option res" where
  "atoi_fields 0 infos = Ok (Some [])"
| "atoi_fields (Suc n) [] = Panic"
| "atoi_fields (Suc n) (x # xs) =
     (case Atoi x of
        Ok v \<Rightarrow> res_bind (atoi_fields n xs) (\<lambda>r. Ok (map_option ((#) v) r))
      | _ \<Rightarrow> Ok None)"

definition ParseBitSlicedIndexFileNameToInfo :: "string \<Rightarrow> (u64 \<times> u64 \<times> u64 \<times> u16 \<times> bool) res" where
  "ParseBitSlicedIndexFileNameToInfo filename =
     res_bind (atoi_fields 4 (split_on CHR ''_'' (Trim filename ''.bsi''))) (\<lambda>r.
       Ok (case r of
             Some [a, b, c, d] \<Rightarrow> (word_of_int a, word_of_int b, word_of_int c, word_of_int d, True)
           | _ \<Rightarrow> (0, 0, 0, 0, False)))"

definition ParseBlockBitSlicedIndexFileNameToInfo ::
  "string \<Rightarrow> (u64 \<times> u64 \<times> u64 \<times> u64 \<times> u16 \<times> bool) res" where
  "ParseBlockBitSlicedIndexFileNameToInfo filename =
     res_bind (atoi_fields 5 (split_on CHR ''_'' (Trim filename ''.bbsi''))) (\<lambda>r.
       Ok (case r of
             Some [a, b, c, d, e] \<Rightarrow>
               (word_of_int a, word_of_int b, word_of_int c, word_of_int d, word_of_int e, True)
           | _ \<Rightarrow> (0, 0, 0, 0, 0, False)))"

definition IsTempFile :: "string \<Rightarrow> bool" where "IsTempFile nm = HasSuffix nm ''.tmp''"
definition IsTBlockFile :: "string \<Rightarrow> bool" where "IsTBlockFile nm = HasSuffix nm ''.tblk''"
definition IsBlockFile :: "string \<Rightarrow> bool" where "IsBlockFile nm = HasSuffix nm ''.blk''"
definition IsSegmentFile :: "string \<Rightarrow> bool" where "IsSegmentFile nm = HasSuffix nm ''.seg''"

definition FilenameFromTmpfile :: "string \<Rightarrow> string res" where
  "FilenameFromTmpfile tmpFile =
     (let fname = TrimSuffix tmpFile ''.tmp''
      in if length fname = length tmpFile then Err (ErrOther 1) else Ok fname)"

section \<open>Strings in a byte stream\<close>

definition str_bytes :: "string \<Rightarrow> bytes" where
  "str_bytes s = map (\<lambda>c. word_of_nat (of_char c)) s"

definition bytes_str :: "bytes \<Rightarrow> string" where
  "bytes_str bs = map (\<lambda>b. char_of (unat b)) bs"

text \<open>The length goes through \<open>uint16\<close>.\<close>

definition WriteString :: "string \<Rightarrow> bytes" where
  "WriteString str = put_u16 (word_of_nat (length str)) @ str_bytes str"

definition ReadString :: "bytes \<Rightarrow> (string \<times> bytes) res" where
  "ReadString bs =
     res_bind (get_u16 bs) (\<lambda>(strLen, r).
       res_bind (buf_read (unat strLen) r) (\<lambda>(buf, r'). Ok (bytes_str buf, r')))"

section \<open>Numbers and separators round-trip\<close>

lemma digit_simps [simp]:
  assumes "d < 10"
  shows "digit_val (digit d) = d" "is_digit (digit d)"
  using assms by (simp_all add: digit_val_def digit_def is_digit_def)

lemma dec_nonempty [simp]: "dec n \<noteq> []"
  by (subst dec.simps) auto

lemma dec_digits [simp]: "list_all is_digit (dec n)"
  by (induction n rule: dec.induct) (subst dec.simps, auto)

lemma digits_val_snoc: "digits_val (s @ [c]) = digits_val s * 10 + digit_val c"
  by (simp add: digits_val_def)

lemma digits_val_dec [simp]: "digits_val (dec n) = n"
proof (induction n rule: dec.induct)
  case (1 n)
  show ?case
  proof (cases "n < 10")
    case True
    then show ?thesis by (subst dec.simps) (simp add: digits_val_def)
  next
    case False
    then show ?thesis using 1 by (subst dec.simps) (simp add: digits_val_snoc)
  qed
qed

lemma digit_not_char: "is_digit c \<Longrightarrow> c \<noteq> CHR ''_''" "is_digit c \<Longrightarrow> c \<noteq> CHR ''-''"
  "is_digit c \<Longrightarrow> c \<noteq> CHR ''+''" "is_digit c \<Longrightarrow> c \<notin> set ''.bsi''" "is_digit c \<Longrightarrow> c \<notin> set ''.bbsi''"
  by (auto simp: is_digit_def)

lemma dec_sep [simp]: "CHR ''_'' \<notin> set (dec n)" "CHR ''_'' \<notin> set (dec_w w)"
  using dec_digits by (auto simp: dec_w_def list_all_iff dest: digit_not_char)

lemma ParseUint_dec_w [simp]: "ParseUint (dec_w x) = Ok x"
  using unat_less_width [of x] by (simp add: ParseUint_def dec_w_def)

lemma Atoi_dec_w:
  "Atoi (dec_w x) = (if unat x < 2 ^ 63 then Ok (int (unat x)) else Err ErrParseUint)"
proof -
  obtain c cs where c: "dec (unat x) = c # cs" by (cases "dec (unat x)") auto
  have "is_digit c" using dec_digits [of "unat x"] c by simp
  then have "c \<noteq> CHR ''-''" "c \<noteq> CHR ''+''" by (auto dest: digit_not_char)
  then have "Atoi (c # cs) =
      (if \<not> list_all is_digit (c # cs) then Err ErrParseUint
       else if digits_val (c # cs) \<ge> 2 ^ 63 then Err ErrParseUint else Ok (int (digits_val (c # cs))))"
    by (simp add: Atoi_def Let_def)
  then show ?thesis by (simp add: dec_w_def c [symmetric] not_less)
qed

lemma split_on_none [simp]: "c \<notin> set xs \<Longrightarrow> split_on c xs = [xs]"
  by (induction xs) auto

lemma split_on_sep [simp]: "c \<notin> set xs \<Longrightarrow> split_on c (xs @ c # ys) = xs # split_on c ys"
  by (induction xs) auto

text \<open>Splitting and joining at a separator are inverse in both directions.\<close>

lemma join_split: "join_on c (split_on c s) = s"
proof (induction s)
  case (Cons x xs)
  then show ?case by (cases "split_on c xs"; cases "tl (split_on c xs)") auto
qed simp

lemma split_join:
  "xs \<noteq> [] \<Longrightarrow> \<forall>x \<in> set xs. c \<notin> set x \<Longrightarrow> split_on c (join_on c xs) = xs"
  by (induction c xs rule: join_on.induct) auto

section \<open>Identifier names\<close>

text \<open>
  Every block, segment and transient-block file name parses back to the identifier it was made
  from, for all 64-bit identifiers; a transient-block tag comes back as long as it has no separator.
\<close>

lemma ID_names_roundtrip:
  "ParseBlkNameToID (ToBlockFileName i) = Ok (AsBlockID i)
   \<and> ParseSegmentNameToID (ToSegmentFileName i) = Ok (AsSegmentID i)
   \<and> (CHR ''_'' \<notin> set tag \<longrightarrow> ParseTBlkName (ToTBlockFileName i tag) = Ok (AsBlockID i, tag))"
  by (simp add: ParseBlkNameToID_def ToBlockFileName_def ParseSegmentNameToID_def ToSegmentFileName_def
      ParseTBlkName_def ToTBlockFileName_def AsBlockID_def AsSegmentID_def Let_def)

lemma ID_names_roundtrip_example:
  "ParseTBlkName (ToTBlockFileName NewTransientID ''tag'') = Ok (AsBlockID NewTransientID, ''tag'')"
  using ID_names_roundtrip [of NewTransientID "''tag''"] by simp

text \<open>Names identify blocks: two identifiers have the same block name iff they are the same block.\<close>

lemma ToBlockFileName_inj: "ToBlockFileName i = ToBlockFileName j \<longleftrightarrow> IsSameBlock i j"
proof -
  have p: "ParseBlkNameToID (ToBlockFileName k) = Ok (AsBlockID k)" for k
    by (simp add: ParseBlkNameToID_def ToBlockFileName_def AsBlockID_def Let_def)
  have "ToBlockFileName i = ToBlockFileName j \<Longrightarrow> AsBlockID i = AsBlockID j"
    using p [of i] p [of j] by simp
  moreover have "AsBlockID i = AsBlockID j \<Longrightarrow> IsSameBlock i j"
    by (auto simp: AsBlockID_def IsSameBlock_def zero_ID_def)
  moreover have "IsSameBlock i j \<Longrightarrow> ToBlockFileName i = ToBlockFileName j"
    by (simp add: ToBlockFileName_def IsSameBlock_def)
  ultimately show ?thesis by blast
qed

text \<open>The four in-place counters of an identifier are identifier sources.\<close>

interpretation id_next: id_source
  "\<lambda>i. (TableID (fst (ID_Next i)), snd (ID_Next i))" "\<lambda>i. TableID i - 1"
  by unfold_locales (simp_all add: ID_Next_def Let_def)

interpretation id_next_block: id_source
  "\<lambda>i. (BlockID (fst (NextBlock i)), snd (NextBlock i))" "\<lambda>i. BlockID i - 1"
  by unfold_locales (simp_all add: NextBlock_def Let_def)

interpretation id_next_segment: id_source
  "\<lambda>i. (SegmentID (fst (NextSegment i)), snd (NextSegment i))" "\<lambda>i. SegmentID i - 1"
  by unfold_locales (simp_all add: NextSegment_def Let_def)

section \<open>Index file names\<close>

lemma TrimSuffix_append [simp]: "TrimSuffix (s @ suf) suf = s"
  by (simp add: TrimSuffix_def suffix_def)

lemma parse_suffix_append: "suf \<noteq> [] \<Longrightarrow> parse_suffix suf (s @ suf) = (s, True)"
  by (simp add: parse_suffix_def)

lemma parse_suffix_ok: "parse_suffix suf f = (n, True) \<Longrightarrow> f = n @ suf"
  by (auto simp: parse_suffix_def TrimSuffix_def Let_def suffix_def split: if_splits)

lemma Trim_core:
  assumes "s \<noteq> []" and "hd s \<notin> set cs" and "last s \<notin> set cs" and "set suf \<subseteq> set cs"
  shows "Trim (s @ suf) cs = s"
proof -
  have 1: "dropWhile (\<lambda>c. c \<in> set cs) (s @ suf) = s @ suf"
    using assms by (cases s) auto
  have 2: "dropWhile (\<lambda>c. c \<in> set cs) (rev suf @ rev s) = dropWhile (\<lambda>c. c \<in> set cs) (rev s)"
    using assms by (subst dropWhile_append2) auto
  have 3: "dropWhile (\<lambda>c. c \<in> set cs) (rev s) = rev s"
    using assms by (cases "rev s") (auto simp: last_rev hd_rev [symmetric])
  show ?thesis by (simp add: Trim_def 1 2 3)
qed

lemma dec_ends: "hd (dec n) \<notin> set ''.bsi''" "last (dec n) \<notin> set ''.bsi''"
  "hd (dec n) \<notin> set ''.bbsi''" "last (dec n) \<notin> set ''.bbsi''"
  using digit_not_char(4,5) dec_digits [of n] hd_in_set [of "dec n"] last_in_set [of "dec n"]
  unfolding list_all_iff by (meson dec_nonempty)+

text \<open>
  Index file names round-trip for every version, table, segment and column as long as the 64-bit
  parts are below \<open>2^63\<close>; the parser goes through \<open>int\<close>, so a larger part makes a name the
  code itself produced unparsable.
\<close>

lemma BitSlicedIndexFileName_roundtrip:
  "ParseBitSlicedIndexFileNameToInfo (MakeBitSlicedIndexFileName version tid sid col) =
     Ok (if unat version < 2 ^ 63 \<and> unat tid < 2 ^ 63 \<and> unat sid < 2 ^ 63
         then (version, tid, sid, col, True) else (0, 0, 0, 0, False))"
proof -
  let ?b = "dec_w version @ ''_'' @ dec_w tid @ ''_'' @ dec_w sid @ ''_'' @ dec_w col"
  have "Trim (?b @ ''.bsi'') ''.bsi'' = ?b"
    using dec_ends(1) [of "unat version"] dec_ends(2) [of "unat col"]
    by (intro Trim_core) (simp_all add: dec_w_def)
  moreover have "MakeBitSlicedIndexFileName version tid sid col = ?b @ ''.bsi''"
    by (simp add: MakeBitSlicedIndexFileName_def)
  moreover have "unat col < 2 ^ 63" using unat_less_width [of col] by simp
  moreover have "atoi_fields 4 = atoi_fields (Suc (Suc (Suc (Suc 0))))"
    by (simp add: eval_nat_numeral)
  ultimately show ?thesis
    by (simp add: ParseBitSlicedIndexFileNameToInfo_def Atoi_dec_w)
qed

section \<open>Strings in a byte stream\<close>

lemma bytes_str_bytes [simp]: "bytes_str (str_bytes s) = s"
  by (induction s) (auto simp: bytes_str_def str_bytes_def unat_of_nat)

lemma str_bytes_Nil [simp]: "str_bytes [] = []"
  by (simp add: str_bytes_def)

lemma length_str_bytes [simp]: "length (str_bytes s) = length s"
  by (simp add: str_bytes_def)

text \<open>
  What \<open>ReadString\<close> finds after \<open>WriteString\<close>: the length modulo \<open>2^16\<close> says how much of
  the string is taken.
\<close>

lemma Read_WriteString:
  "ReadString (WriteString s @ bs) =
     Ok (take (length s mod 2 ^ 16) s, str_bytes (drop (length s mod 2 ^ 16) s) @ bs)"
proof -
  let ?k = "length s mod 2 ^ 16"
  have u: "unat (word_of_nat (length s) :: u16) = ?k" by (simp add: unat_of_nat)
  have "str_bytes s @ bs = str_bytes (take ?k s) @ str_bytes (drop ?k s) @ bs"
    unfolding str_bytes_def append_assoc [symmetric] map_append [symmetric] by simp
  moreover have "length (str_bytes (take ?k s)) = ?k" by simp
  ultimately have "buf_read ?k (str_bytes s @ bs) = Ok (str_bytes (take ?k s), str_bytes (drop ?k s) @ bs)"
    by (simp only: buf_read_append)
  then show ?thesis
    by (simp add: ReadString_def WriteString_def u)
qed

interpretation c_str: codec WriteString ReadString "\<lambda>s. length s < 2 ^ 16"
  by unfold_locales (simp add: Read_WriteString)

text \<open>
  A string shorter than \<open>2^16\<close> bytes reads back as written whatever follows it; a longer one
  loses its tail into the stream: the reader gets \<open>length mod 2^16\<close> bytes and the rest stays in
  front of the next field.
\<close>

lemma WriteString_ReadString:
  "ReadString (WriteString s @ bs) =
     (if length s < 2 ^ 16 then Ok (s, bs)
      else Ok (take (length s mod 2 ^ 16) s, str_bytes (drop (length s mod 2 ^ 16) s) @ bs))"
  using c_str.dec_enc [of s bs] Read_WriteString [of s bs] by simp

end
