(* ===== verification/Schema.thy ===== *)
theory Schema
  imports IDs
begin

text \<open>
  Table schemas (\<^verbatim>\<open>pkg/catalog/schema.go\<close>): columns, the name index, validity and the binary
  encoding.  Column types and their fixed-size encoding belong to another module; a type is a type
  variable and its encoder and decoder are arguments.
\<close>

section \<open>Schemas\<close>

record IndexInfo =
  ii_Id :: u64
  ii_Name :: string
  ii_Type :: u16
  ii_Columns :: "u16 list"

definition NewIndexInfo :: "string \<Rightarrow> u16 \<Rightarrow> int list \<Rightarrow> IndexInfo" where
  "NewIndexInfo nm typ colIdx = \<lparr>ii_Id = 0, ii_Name = nm, ii_Type = typ, ii_Columns = map word_of_int colIdx\<rparr>"

record 'ty ColDef =
  cd_Name :: string
  cd_Idx :: nat
  cd_Type :: 'ty

text \<open>
  \<open>NameIndex\<close> is \<open>None\<close> for a nil map: reading it finds nothing, writing it panics.  The primary
  key is an \<open>int32\<close>, kept by its bits.
\<close>

record 'ty Schema =
  sc_Name :: string
  ColDefs :: "'ty ColDef list"
  NameIndex :: "(string \<rightharpoonup> nat) option"
  BlockMaxRows :: u32
  PrimaryKey :: u32
  SegmentMaxBlocks :: u16

definition zero_Schema :: "'ty Schema" where
  "zero_Schema = \<lparr>sc_Name = [], ColDefs = [], NameIndex = None, BlockMaxRows = 0, PrimaryKey = 0, SegmentMaxBlocks = 0\<rparr>"

definition NewEmptySchema :: "string \<Rightarrow> 'ty Schema" where
  "NewEmptySchema nm = zero_Schema\<lparr>sc_Name := nm, NameIndex := Some Map.empty\<rparr>"

definition AppendCol :: "string \<Rightarrow> 'ty \<Rightarrow> 'ty Schema \<Rightarrow> 'ty Schema res" where
  "AppendCol nm typ s =
     (case NameIndex s of
        None \<Rightarrow> Panic
      | Some ni \<Rightarrow>
          let colDef = \<lparr>cd_Name = nm, cd_Idx = length (ColDefs s), cd_Type = typ\<rparr>
          in Ok (s\<lparr>ColDefs := ColDefs s @ [colDef], NameIndex := Some (ni(nm \<mapsto> cd_Idx colDef))\<rparr>))"

definition Types :: "'ty Schema \<Rightarrow> 'ty list" where
  "Types s = map cd_Type (ColDefs s)"

text \<open>The loop of \<open>Valid\<close> at position \<open>idx\<close> with the names seen so far.\<close>

fun valid_loop :: "nat \<Rightarrow> string set \<Rightarrow> 'ty ColDef list \<Rightarrow> bool" where
  "valid_loop idx names [] = True"
| "valid_loop idx names (c # cs) =
     (if idx \<noteq> cd_Idx c then False
      else if cd_Name c \<in> names then False
      else valid_loop (Suc idx) (insert (cd_Name c) names) cs)"

definition Schema_Valid :: "'ty Schema option \<Rightarrow> bool" where
  "Schema_Valid so =
     (case so of None \<Rightarrow> False | Some s \<Rightarrow> if ColDefs s = [] then False else valid_loop 0 {} (ColDefs s))"

definition GetColIdx :: "string \<Rightarrow> 'ty Schema \<Rightarrow> int" where
  "GetColIdx attr s =
     (case NameIndex s of
        None \<Rightarrow> - 1
      | Some ni \<Rightarrow> (case ni attr of None \<Rightarrow> - 1 | Some i \<Rightarrow> int i))"

section \<open>Encoding\<close>

definition col_bytes :: "('ty \<Rightarrow> bytes) \<Rightarrow> 'ty ColDef \<Rightarrow> bytes" where
  "col_bytes encT c = encT (cd_Type c) @ WriteString (cd_Name c)"

definition Schema_Marshal :: "('ty \<Rightarrow> bytes) \<Rightarrow> 'ty Schema \<Rightarrow> bytes" where
  "Schema_Marshal encT s =
     put_u32 (BlockMaxRows s) @ put_u32 (PrimaryKey s) @ put_u16 (SegmentMaxBlocks s)
     @ WriteString (sc_Name s) @ put_u16 (word_of_nat (length (ColDefs s))) @ concat (map (col_bytes encT) (ColDefs s))"

text \<open>
  \<open>r.Read(colBuf)\<close> into the buffer the loop reuses: a short read keeps the old bytes behind the new.
\<close>

definition read_into :: "bytes \<Rightarrow> bytes \<Rightarrow> (bytes \<times> bytes) res" where
  "read_into buf bs =
     (if bs = [] \<and> buf \<noteq> [] then Err ErrEOF
      else Ok (take (length buf) bs @ drop (length bs) buf, drop (length buf) bs))"

text \<open>The column loop: position \<open>i\<close>, columns still to read, the reused buffer.\<close>

fun read_cols ::
  "(bytes \<Rightarrow> 'ty) \<Rightarrow> nat \<Rightarrow> nat \<Rightarrow> bytes \<Rightarrow> 'ty ColDef list \<Rightarrow> bytes \<Rightarrow> ('ty ColDef list \<times> bytes) res" where
  "read_cols decT i 0 buf acc bs = Ok (acc, bs)"
| "read_cols decT i (Suc n) buf acc bs =
     res_bind (read_into buf bs) (\<lambda>(buf', r).
       res_bind (ReadString r) (\<lambda>(nm, r').
         read_cols decT (Suc i) n buf' (acc @ [\<lparr>cd_Name = nm, cd_Idx = i, cd_Type = decT buf'\<rparr>]) r'))"

definition Schema_ReadFrom :: "nat \<Rightarrow> (bytes \<Rightarrow> 'ty) \<Rightarrow> 'ty Schema \<Rightarrow> bytes \<Rightarrow> ('ty Schema \<times> bytes) res" where
  "Schema_ReadFrom typeSize decT s bs =
     res_bind (get_u32 bs) (\<lambda>(rows, r1).
     res_bind (get_u32 r1) (\<lambda>(pk, r2).
     res_bind (get_u16 r2) (\<lambda>(sblk, r3).
     res_bind (ReadString r3) (\<lambda>(nm, r4).
     res_bind (get_u16 r4) (\<lambda>(colCnt, r5).
     res_bind (read_cols decT 0 (unat colCnt) (replicate typeSize 0) (ColDefs s) r5) (\<lambda>(cols, r6).
       Ok (s\<lparr>BlockMaxRows := rows, PrimaryKey := pk, SegmentMaxBlocks := sblk, sc_Name := nm, ColDefs := cols\<rparr>, r6)))))))"

section \<open>Columns and names\<close>

fun append_cols :: "(string \<times> 'ty) list \<Rightarrow> 'ty Schema \<Rightarrow> 'ty Schema res" where
  "append_cols [] s = Ok s"
| "append_cols ((nm, ty) # cs) s = res_bind (AppendCol nm ty s) (append_cols cs)"

text \<open>What appending columns keeps: positions, and an index that maps a name to its last position.\<close>

definition name_positions :: "'ty ColDef list \<Rightarrow> string \<Rightarrow> nat set" where
  "name_positions cols nm = {i. i < length cols \<and> cd_Name (cols ! i) = nm}"

lemma name_positions_snoc:
  "name_positions (cols @ [c]) nm =
     (if nm = cd_Name c then insert (length cols) (name_positions cols nm) else name_positions cols nm)"
  by (auto simp: name_positions_def nth_append less_Suc_eq)

definition cols_ok :: "'ty Schema \<Rightarrow> bool" where
  "cols_ok s \<longleftrightarrow>
     (\<forall>i < length (ColDefs s). cd_Idx (ColDefs s ! i) = i)
     \<and> (\<exists>ni. NameIndex s = Some ni
          \<and> (\<forall>nm. ni nm = (if nm \<in> cd_Name ` set (ColDefs s)
               then Some (Max (name_positions (ColDefs s) nm)) else None)))"

lemma AppendCol_ok:
  assumes "cols_ok s"
  shows "\<exists>s'. AppendCol nm ty s = Ok s' \<and> cols_ok s'
    \<and> map cd_Name (ColDefs s') = map cd_Name (ColDefs s) @ [nm] \<and> map cd_Type (ColDefs s') = map cd_Type (ColDefs s) @ [ty]
    \<and> sc_Name s' = sc_Name s"
proof -
  obtain ni where ni: "NameIndex s = Some ni"
    "\<And>n. ni n = (if n \<in> cd_Name ` set (ColDefs s) then Some (Max (name_positions (ColDefs s) n)) else None)"
    using assms by (auto simp: cols_ok_def)
  let ?c = "\<lparr>cd_Name = nm, cd_Idx = length (ColDefs s), cd_Type = ty\<rparr>"
  let ?s = "s\<lparr>ColDefs := ColDefs s @ [?c], NameIndex := Some (ni(nm \<mapsto> length (ColDefs s)))\<rparr>"
  have a: "AppendCol nm ty s = Ok ?s" by (simp add: AppendCol_def ni)
  have mx: "Max (insert (length (ColDefs s)) (name_positions (ColDefs s) nm)) = length (ColDefs s)"
    by (rule Max_eqI) (auto simp: name_positions_def)
  have idx: "\<forall>i < length (ColDefs ?s). cd_Idx (ColDefs ?s ! i) = i"
    using assms by (auto simp: cols_ok_def nth_append less_Suc_eq)
  have "(ni(nm \<mapsto> length (ColDefs s))) n = (if n \<in> cd_Name ` set (ColDefs ?s)
      then Some (Max (name_positions (ColDefs ?s) n)) else None)" for n
    using mx ni(2) [of n] by (simp add: name_positions_snoc)
  then have "cols_ok ?s" using idx by (simp add: cols_ok_def)
  then show ?thesis using a by simp
qed

lemma append_cols_ok:
  "cols_ok s \<Longrightarrow> \<exists>s'. append_cols cs s = Ok s' \<and> cols_ok s'
    \<and> map cd_Name (ColDefs s') = map cd_Name (ColDefs s) @ map fst cs
    \<and> map cd_Type (ColDefs s') = map cd_Type (ColDefs s) @ map snd cs"
proof (induction cs arbitrary: s)
  case (Cons c cs)
  obtain nm ty where c: "c = (nm, ty)" by (cases c)
  obtain s1 where s1: "AppendCol nm ty s = Ok s1" "cols_ok s1" "map cd_Name (ColDefs s1) = map cd_Name (ColDefs s) @ [nm]"
    "map cd_Type (ColDefs s1) = map cd_Type (ColDefs s) @ [ty]"
    using AppendCol_ok [OF Cons.prems] by blast
  show ?case using Cons.IH [OF s1(2)] s1 c by auto
qed simp

lemma valid_loop_iff:
  "valid_loop k names cs \<longleftrightarrow>
     (\<forall>i < length cs. cd_Idx (cs ! i) = k + i) \<and> distinct (map cd_Name cs) \<and> cd_Name ` set cs \<inter> names = {}"
proof (induction cs arbitrary: k names)
  case (Cons c cs)
  have "(\<forall>i < length (c # cs). cd_Idx ((c # cs) ! i) = k + i)
      \<longleftrightarrow> cd_Idx c = k \<and> (\<forall>i < length cs. cd_Idx (cs ! i) = Suc k + i)"
    by (auto simp: nth_Cons less_Suc_eq_0_disj split: nat.splits)
  then show ?case using Cons [of "Suc k" "insert (cd_Name c) names"] by auto
qed simp

text \<open>
  A schema built by appending columns never panics and is valid exactly when it has a column and
  no two columns share a name; then \<open>GetColIdx\<close> returns the position of every column and \<open>-1\<close> for
  every other name, and \<open>Types\<close> lists the types in order.
\<close>

lemma schema_build_correct:
  "\<exists>s. append_cols cs (NewEmptySchema nm) = Ok s
    \<and> (Schema_Valid (Some s) \<longleftrightarrow> cs \<noteq> [] \<and> distinct (map fst cs))
    \<and> Types s = map snd cs
    \<and> (distinct (map fst cs) \<longrightarrow>
         (\<forall>i < length cs. GetColIdx (fst (cs ! i)) s = int i) \<and> (\<forall>a. a \<notin> fst ` set cs \<longrightarrow> GetColIdx a s = - 1))"
proof -
  have "cols_ok (NewEmptySchema nm :: 'a Schema)"
    by (simp add: cols_ok_def NewEmptySchema_def zero_Schema_def)
  then obtain s where s: "append_cols cs (NewEmptySchema nm) = Ok s" "cols_ok s"
    "map cd_Name (ColDefs s) = map fst cs" "map cd_Type (ColDefs s) = map snd cs"
    using append_cols_ok [of "NewEmptySchema nm" cs] by (auto simp: NewEmptySchema_def zero_Schema_def)
  have len: "length (ColDefs s) = length cs" using s(3) by (metis length_map)
  have nth: "cd_Name (ColDefs s ! i) = fst (cs ! i)" if "i < length cs" for i
    using s(3) that len by (metis nth_map)
  have img: "cd_Name ` set (ColDefs s) = fst ` set cs" using s(3) by (metis list.set_map)
  have valid: "Schema_Valid (Some s) \<longleftrightarrow> cs \<noteq> [] \<and> distinct (map fst cs)"
    using s(2,3) len by (auto simp: Schema_Valid_def valid_loop_iff cols_ok_def)
  obtain ni where ni: "NameIndex s = Some ni"
    "\<And>n. ni n = (if n \<in> fst ` set cs then Some (Max (name_positions (ColDefs s) n)) else None)"
    using s(2) img len by (auto simp: cols_ok_def)
  have idx: "GetColIdx (fst (cs ! i)) s = int i" if d: "distinct (map fst cs)" and i: "i < length cs" for i
  proof -
    have "k = i" if "k < length cs" "fst (cs ! k) = fst (cs ! i)" for k
      using distinct_nth_inj [OF d, of k i] that i by simp
    then have "name_positions (ColDefs s) (fst (cs ! i)) = {i}"
      using i nth len by (auto simp: name_positions_def)
    then show ?thesis using i by (simp add: GetColIdx_def ni)
  qed
  have other: "GetColIdx a s = - 1" if "a \<notin> fst ` set cs" for a
    using that by (simp add: GetColIdx_def ni)
  show ?thesis
    using s(1,4) valid idx other by (auto simp: Types_def)
qed

lemma schema_build_correct_example:
  "\<exists>s. append_cols [(''a'', ()), (''b'', ())] (NewEmptySchema ''t'') = Ok s \<and> Schema_Valid (Some s)
     \<and> GetColIdx ''b'' s = 1"
proof -
  obtain s where "append_cols [(''a'', ()), (''b'', ())] (NewEmptySchema ''t'') = Ok s" "Schema_Valid (Some s)"
    "\<forall>i < 2. GetColIdx (fst ([(''a'', ()), (''b'', ())] ! i)) s = int i"
    using schema_build_correct [of "[(''a'', ()), (''b'', ())]" "''t''"] by auto
  then show ?thesis by (intro exI [of _ s]) (auto dest: spec [of _ 1])
qed

section \<open>The encoding round-trips\<close>

definition type_laws :: "nat \<Rightarrow> ('ty \<Rightarrow> bytes) \<Rightarrow> (bytes \<Rightarrow> 'ty) \<Rightarrow> bool" where
  "type_laws typeSize encT decT \<longleftrightarrow> (\<forall>t. length (encT t) = typeSize \<and> decT (encT t) = t)"

definition schema_wf :: "'ty Schema \<Rightarrow> bool" where
  "schema_wf s \<longleftrightarrow> length (sc_Name s) < 2 ^ 16 \<and> length (ColDefs s) < 2 ^ 16
     \<and> (\<forall>i < length (ColDefs s). cd_Idx (ColDefs s ! i) = i) \<and> (\<forall>c \<in> set (ColDefs s). length (cd_Name c) < 2 ^ 16)"

lemma read_into_exact: "length xs = length buf \<Longrightarrow> read_into buf (xs @ bs) = Ok (xs, bs)"
  by (auto simp: read_into_def)

lemma read_cols_correct:
  assumes laws: "type_laws typeSize encT decT"
  shows "length buf = typeSize \<Longrightarrow> \<forall>i < length cs. cd_Idx (cs ! i) = k + i \<Longrightarrow> \<forall>c \<in> set cs. length (cd_Name c) < 2 ^ 16
    \<Longrightarrow> read_cols decT k (length cs) buf acc (concat (map (col_bytes encT) cs) @ bs) = Ok (acc @ cs, bs)"
proof (induction cs arbitrary: k buf acc)
  case (Cons c cs)
  let ?rest = "concat (map (col_bytes encT) cs) @ bs"
  have t: "length (encT (cd_Type c)) = length buf" "decT (encT (cd_Type c)) = cd_Type c"
    using laws Cons.prems(1) by (simp_all add: type_laws_def)
  have r: "read_into buf (encT (cd_Type c) @ WriteString (cd_Name c) @ ?rest) = Ok (encT (cd_Type c), WriteString (cd_Name c) @ ?rest)"
    using read_into_exact [OF t(1)] by simp
  have n: "ReadString (WriteString (cd_Name c) @ ?rest) = Ok (cd_Name c, ?rest)"
    using Cons.prems(3) by (intro c_str.dec_enc) simp
  have i: "cd_Idx c = k" using Cons.prems(2) by (auto dest: spec [of _ 0])
  have ih: "read_cols decT (Suc k) (length cs) (encT (cd_Type c)) (acc @ [c]) ?rest = Ok ((acc @ [c]) @ cs, bs)"
  proof (rule Cons.IH)
    show "\<forall>i < length cs. cd_Idx (cs ! i) = Suc k + i" using Cons.prems(2) by (auto dest: spec [of _ "Suc _"])
  qed (use t Cons.prems in auto)
  have "\<lparr>cd_Name = cd_Name c, cd_Idx = k, cd_Type = cd_Type c\<rparr> = c" using i by simp
  moreover have "concat (map (col_bytes encT) (c # cs)) @ bs = encT (cd_Type c) @ WriteString (cd_Name c) @ ?rest"
    by (simp add: col_bytes_def)
  ultimately show ?case using ih by (simp only: read_cols.simps list.size add_Suc_right add_0_right) (simp add: r n t)
qed simp

lemma schema_reads_back:
  assumes "type_laws typeSize encT decT" and "schema_wf s"
  shows "Schema_ReadFrom typeSize decT zero_Schema (Schema_Marshal encT s @ bs) = Ok (s\<lparr>NameIndex := None\<rparr>, bs)"
proof -
  have cols: "read_cols decT 0 (length (ColDefs s)) (replicate typeSize 0) [] (concat (map (col_bytes encT) (ColDefs s)) @ bs)
      = Ok (ColDefs s, bs)"
    using read_cols_correct [OF assms(1), of "replicate typeSize 0" "ColDefs s" 0 "[]" bs] assms(2)
    by (simp add: schema_wf_def)
  have nm: "ReadString (WriteString (sc_Name s) @ r) = Ok (sc_Name s, r)" for r
    using assms(2) by (intro c_str.dec_enc) (simp add: schema_wf_def)
  have n: "unat (word_of_nat (length (ColDefs s)) :: u16) = length (ColDefs s)"
    using assms(2) by (simp add: schema_wf_def unat_of_nat)
  show ?thesis
    by (simp add: Schema_ReadFrom_def Schema_Marshal_def nm n cols zero_Schema_def)
qed

text \<open>
  C22. A schema with fields that fit their length prefixes reads back as it was written, whatever
  follows in the stream, except for the name index, which is not rebuilt: on the schema that was read
  \<open>GetColIdx\<close> finds no column and appending a column panics.
\<close>

theorem schema_roundtrip:
  assumes "type_laws typeSize encT decT" and "schema_wf s"
  shows "\<exists>s'. Schema_ReadFrom typeSize decT zero_Schema (Schema_Marshal encT s @ bs) = Ok (s', bs)
    \<and> s' = s\<lparr>NameIndex := None\<rparr> \<and> GetColIdx a s' = - 1 \<and> AppendCol a ty s' = Panic"
  by (simp add: schema_reads_back [OF assms] GetColIdx_def AppendCol_def)

theorem schema_roundtrip_witness:
  "\<exists>s'. Schema_ReadFrom 1 (\<lambda>bs. hd bs) zero_Schema (Schema_Marshal (\<lambda>t. [t]) (NewEmptySchema ''t'')) = Ok (s', [])
     \<and> sc_Name s' = ''t'' \<and> GetColIdx ''c'' s' = - 1"
  using schema_roundtrip [of 1 "\<lambda>t. [t]" "\<lambda>bs. hd bs" "NewEmptySchema ''t''" "[]" "''c''"]
  by (simp add: type_laws_def schema_wf_def NewEmptySchema_def zero_Schema_def)

end
