(* ===== verification/Catalog.thy ===== *)
theory Catalog
  imports Entry Schema
begin

text \<open>
  The catalog tree of \<^verbatim>\<open>pkg/catalog\<close>: blocks, segments, tables, databases and the catalog
  itself, with creation, lookup, drop and removal at each level.  A level that is addressed by name
  keeps a directory: the entries by identifier, for each name the identifiers of its versions (newest
  first) and the list of all entries in the order of \<open>DoCompre\<close>.  Version lists and entry lists
  are the abstract lists that the heap code of the link theories implements: \<open>CreateNode\<close> is
  \<open>#\<close>, \<open>DeleteNode\<close> and \<open>Link.Delete\<close> are \<open>remove1\<close>, \<open>Link.Insert\<close> is
  \<open>sink\<close>.  The data handles that entries carry belong to other packages and are left out.
\<close>

section \<open>Identifiers\<close>

record 'a IDAlloctor =
  dbAlloc :: 'a
  tblAlloc :: 'a
  segAlloc :: 'a
  blkAlloc :: 'a

definition NewIDAllocator :: "'a \<Rightarrow> 'a IDAlloctor" where
  "NewIDAllocator a = \<lparr>dbAlloc = a, tblAlloc = a, segAlloc = a, blkAlloc = a\<rparr>"

definition NextDB :: "('a \<Rightarrow> u64 \<times> 'a) \<Rightarrow> 'a IDAlloctor \<Rightarrow> u64 \<times> 'a IDAlloctor" where
  "NextDB al x = (case al (dbAlloc x) of (i, a) \<Rightarrow> (i, x\<lparr>dbAlloc := a\<rparr>))"

definition NextTable :: "('a \<Rightarrow> u64 \<times> 'a) \<Rightarrow> 'a IDAlloctor \<Rightarrow> u64 \<times> 'a IDAlloctor" where
  "NextTable al x = (case al (tblAlloc x) of (i, a) \<Rightarrow> (i, x\<lparr>tblAlloc := a\<rparr>))"

definition IDA_NextSegment :: "('a \<Rightarrow> u64 \<times> 'a) \<Rightarrow> 'a IDAlloctor \<Rightarrow> u64 \<times> 'a IDAlloctor" where
  "IDA_NextSegment al x = (case al (segAlloc x) of (i, a) \<Rightarrow> (i, x\<lparr>segAlloc := a\<rparr>))"

definition IDA_NextBlock :: "('a \<Rightarrow> u64 \<times> 'a) \<Rightarrow> 'a IDAlloctor \<Rightarrow> u64 \<times> 'a IDAlloctor" where
  "IDA_NextBlock al x = (case al (blkAlloc x) of (i, a) \<Rightarrow> (i, x\<lparr>blkAlloc := a\<rparr>))"

section \<open>Blocks and segments\<close>

datatype EntryState = ES_Appendable | ES_NotAppendable | ES_Frozen

definition new_base :: "u64 \<Rightarrow> u64 option \<Rightarrow> BaseEntry" where
  "new_base i txn = \<lparr>CurrOp = OpCreate, be_Txn = txn, PrevCommit = None, be_ID = i, CreateAt = 0, DeleteAt = 0\<rparr>"

text \<open>A child keeps the identifiers of its parents.\<close>

record BlockEntry =
  blk_base :: BaseEntry
  blk_segment :: u64
  blk_table :: u64
  blk_state :: EntryState

record SegmentEntry =
  seg_base :: BaseEntry
  seg_table :: u64
  seg_entries :: "u64 \<rightharpoonup> BlockEntry"
  seg_link :: "u64 list"
  seg_state :: EntryState

definition NewBlockEntry ::
  "('a \<Rightarrow> u64 \<times> 'a) \<Rightarrow> SegmentEntry \<Rightarrow> u64 option \<Rightarrow> EntryState \<Rightarrow> 'a IDAlloctor \<Rightarrow> BlockEntry \<times> 'a IDAlloctor" where
  "NewBlockEntry al sg txn st x =
     (case IDA_NextBlock al x of (i, x') \<Rightarrow>
        (\<lparr>blk_base = new_base i txn, blk_segment = be_ID (seg_base sg), blk_table = seg_table sg, blk_state = st\<rparr>, x'))"

definition Block_IsAppendable :: "BlockEntry \<Rightarrow> bool" where
  "Block_IsAppendable b \<longleftrightarrow> blk_state b = ES_Appendable"

definition Block_AsCommonID :: "BlockEntry \<Rightarrow> ID" where
  "Block_AsCommonID b = zero_ID\<lparr>TableID := blk_table b, SegmentID := blk_segment b, BlockID := be_ID (blk_base b)\<rparr>"

definition GetBlockEntryByID :: "u64 \<Rightarrow> SegmentEntry \<Rightarrow> BlockEntry res" where
  "GetBlockEntryByID i s = (case seg_entries s i of None \<Rightarrow> Err ErrNotFound | Some b \<Rightarrow> Ok b)"

definition Segment_IsAppendable :: "SegmentEntry \<Rightarrow> bool" where
  "Segment_IsAppendable s \<longleftrightarrow> seg_state s = ES_Appendable"

definition Segment_AsCommonID :: "SegmentEntry \<Rightarrow> ID" where
  "Segment_AsCommonID s = zero_ID\<lparr>TableID := seg_table s, SegmentID := be_ID (seg_base s)\<rparr>"

text \<open>The iterations over the blocks: backwards when counting, forwards for the last appendable one.\<close>

definition GetAppendableBlockCnt :: "SegmentEntry \<Rightarrow> nat" where
  "GetAppendableBlockCnt s =
     foldl (\<lambda>cnt i. if Block_IsAppendable (the (seg_entries s i)) then cnt + 1 else cnt) 0 (rev (seg_link s))"

definition LastAppendableBlock :: "SegmentEntry \<Rightarrow> BlockEntry option" where
  "LastAppendableBlock s =
     foldl (\<lambda>blk i. if Block_IsAppendable (the (seg_entries s i)) then seg_entries s i else blk) None (seg_link s)"

definition seg_pay :: "(u64 \<rightharpoonup> BlockEntry) \<Rightarrow> u64 \<Rightarrow> BaseEntry" where
  "seg_pay es i = blk_base (the (es i))"

definition Segment_addEntryLocked :: "txn_env \<Rightarrow> BlockEntry \<Rightarrow> SegmentEntry \<Rightarrow> SegmentEntry" where
  "Segment_addEntryLocked env b s =
     (let i = be_ID (blk_base b); es = (seg_entries s)(i \<mapsto> b)
      in s\<lparr>seg_entries := es, seg_link := sink (DoCompre env) (seg_pay es) i (seg_link s)\<rparr>)"

definition CreateBlock ::
  "('a \<Rightarrow> u64 \<times> 'a) \<Rightarrow> txn_env \<Rightarrow> u64 option \<Rightarrow> EntryState \<Rightarrow> SegmentEntry \<Rightarrow> 'a IDAlloctor
   \<Rightarrow> BlockEntry \<times> SegmentEntry \<times> 'a IDAlloctor" where
  "CreateBlock al env txn st s x =
     (case NewBlockEntry al s txn st x of (b, x') \<Rightarrow> (b, Segment_addEntryLocked env b s, x'))"

section \<open>Tables\<close>

record 'ty TableEntry =
  tbl_base :: BaseEntry
  tbl_db :: u64
  tbl_schema :: "'ty Schema"
  tbl_entries :: "u64 \<rightharpoonup> SegmentEntry"
  tbl_link :: "u64 list"

definition NewSegmentEntry ::
  "('a \<Rightarrow> u64 \<times> 'a) \<Rightarrow> 'ty TableEntry \<Rightarrow> u64 option \<Rightarrow> EntryState \<Rightarrow> 'a IDAlloctor \<Rightarrow> SegmentEntry \<times> 'a IDAlloctor" where
  "NewSegmentEntry al t txn st x =
     (case IDA_NextSegment al x of (i, x') \<Rightarrow>
        (\<lparr>seg_base = new_base i txn, seg_table = be_ID (tbl_base t), seg_entries = Map.empty, seg_link = [], seg_state = st\<rparr>, x'))"

definition GetSegmentByID :: "u64 \<Rightarrow> 'ty TableEntry \<Rightarrow> SegmentEntry res" where
  "GetSegmentByID i t = (case tbl_entries t i of None \<Rightarrow> Err ErrNotFound | Some s \<Rightarrow> Ok s)"

definition tbl_pay :: "(u64 \<rightharpoonup> SegmentEntry) \<Rightarrow> u64 \<Rightarrow> BaseEntry" where
  "tbl_pay es i = seg_base (the (es i))"

definition Table_addEntryLocked :: "txn_env \<Rightarrow> SegmentEntry \<Rightarrow> 'ty TableEntry \<Rightarrow> 'ty TableEntry" where
  "Table_addEntryLocked env s t =
     (let i = be_ID (seg_base s); es = (tbl_entries t)(i \<mapsto> s)
      in t\<lparr>tbl_entries := es, tbl_link := sink (DoCompre env) (tbl_pay es) i (tbl_link t)\<rparr>)"

definition Table_deleteEntryLocked :: "u64 \<Rightarrow> 'ty TableEntry \<Rightarrow> 'ty TableEntry res" where
  "Table_deleteEntryLocked i t =
     (case tbl_entries t i of None \<Rightarrow> Err ErrNotFound | Some _ \<Rightarrow> Ok (t\<lparr>tbl_link := remove1 i (tbl_link t)\<rparr>))"

definition CreateSegment ::
  "('a \<Rightarrow> u64 \<times> 'a) \<Rightarrow> txn_env \<Rightarrow> u64 option \<Rightarrow> EntryState \<Rightarrow> 'ty TableEntry \<Rightarrow> 'a IDAlloctor
   \<Rightarrow> SegmentEntry \<times> 'ty TableEntry \<times> 'a IDAlloctor" where
  "CreateSegment al env txn st t x =
     (case NewSegmentEntry al t txn st x of (s, x') \<Rightarrow> (s, Table_addEntryLocked env s t, x'))"

section \<open>Directories\<close>

record 'e dir =
  entries :: "u64 \<rightharpoonup> 'e"
  nameNodes :: "string \<rightharpoonup> u64 list"
  link :: "u64 list"

definition empty_dir :: "'e dir" where
  "empty_dir = \<lparr>entries = Map.empty, nameNodes = Map.empty, link = []\<rparr>"

text \<open>
  The decision of both \<open>addEntryLocked\<close> on the newest version of the name: \<open>GetDBNode\<close> and
  \<open>GetTableNode\<close> dereference the first name node and its entry, and panic when there is none.
\<close>

definition add_check :: "txn_env \<Rightarrow> u64 option \<Rightarrow> BaseEntry option \<Rightarrow> unit res" where
  "add_check env txn newest =
     (case newest of
        None \<Rightarrow> Panic
      | Some record \<Rightarrow>
          (case PrepareWrite env txn record of
             Some e \<Rightarrow> Err e
           | None \<Rightarrow>
               if HasActiveTxn record then (if \<not> IsDroppedUncommitted record then Err ErrDuplicate else Ok ())
               else if \<not> HasDropped record then Err ErrDuplicate else Ok ()))"

definition dir_pay :: "('e \<Rightarrow> BaseEntry) \<Rightarrow> (u64 \<rightharpoonup> 'e) \<Rightarrow> u64 \<Rightarrow> BaseEntry" where
  "dir_pay base_of es i = base_of (the (es i))"

definition addEntryLocked ::
  "('e \<Rightarrow> BaseEntry) \<Rightarrow> ('e \<Rightarrow> string) \<Rightarrow> txn_env \<Rightarrow> 'e \<Rightarrow> 'e dir \<Rightarrow> 'e dir res" where
  "addEntryLocked base_of name_of env e d =
     (let i = be_ID (base_of e); es = (entries d)(i \<mapsto> e);
          d' = d\<lparr>entries := es, link := sink (DoCompre env) (dir_pay base_of es) i (link d)\<rparr>
      in case nameNodes d (name_of e) of
           None \<Rightarrow> Ok (d'\<lparr>nameNodes := (nameNodes d)(name_of e \<mapsto> [i])\<rparr>)
         | Some ids \<Rightarrow>
             (case ids of
                [] \<Rightarrow> Panic
              | k # _ \<Rightarrow>
                  res_bind (add_check env (be_Txn (base_of e)) (map_option base_of (entries d k)))
                    (\<lambda>_. Ok (d'\<lparr>nameNodes := (nameNodes d)(name_of e \<mapsto> i # ids)\<rparr>))))"

definition RemoveEntry :: "('e \<Rightarrow> BaseEntry) \<Rightarrow> ('e \<Rightarrow> string) \<Rightarrow> 'e \<Rightarrow> 'e dir \<Rightarrow> 'e dir res" where
  "RemoveEntry base_of name_of e d =
     (let i = be_ID (base_of e) in
      case entries d i of
        None \<Rightarrow> Err ErrNotFound
      | Some _ \<Rightarrow>
          (case nameNodes d (name_of e) of
             None \<Rightarrow> Panic
           | Some ids \<Rightarrow> Ok (d\<lparr>nameNodes := (nameNodes d)(name_of e \<mapsto> remove1 i ids), link := remove1 i (link d)\<rparr>)))"

section \<open>Databases and the catalog\<close>

record 'ty DBEntry =
  db_base :: BaseEntry
  db_name :: string
  db_dir :: "'ty TableEntry dir"

record ('ty, 'a) Catalog =
  cat_alloc :: "'a IDAlloctor"
  cat_dir :: "'ty DBEntry dir"

definition tbl_name :: "'ty TableEntry \<Rightarrow> string" where
  "tbl_name t = sc_Name (tbl_schema t)"

definition NewTableEntry ::
  "('a \<Rightarrow> u64 \<times> 'a) \<Rightarrow> 'ty DBEntry \<Rightarrow> 'ty Schema \<Rightarrow> u64 option \<Rightarrow> 'a IDAlloctor \<Rightarrow> 'ty TableEntry \<times> 'a IDAlloctor" where
  "NewTableEntry al db schema txn x =
     (case NextTable al x of (i, x') \<Rightarrow>
        (\<lparr>tbl_base = new_base i txn, tbl_db = be_ID (db_base db), tbl_schema = schema, tbl_entries = Map.empty, tbl_link = []\<rparr>, x'))"

definition NewDBEntry ::
  "('a \<Rightarrow> u64 \<times> 'a) \<Rightarrow> string \<Rightarrow> u64 option \<Rightarrow> 'a IDAlloctor \<Rightarrow> 'ty DBEntry \<times> 'a IDAlloctor" where
  "NewDBEntry al nm txn x =
     (case NextDB al x of (i, x') \<Rightarrow> (\<lparr>db_base = new_base i txn, db_name = nm, db_dir = empty_dir\<rparr>, x'))"

definition Catalog_GetDatabaseByID :: "u64 \<Rightarrow> ('ty, 'a) Catalog \<Rightarrow> 'ty DBEntry res" where
  "Catalog_GetDatabaseByID i c = (case entries (cat_dir c) i of None \<Rightarrow> Err ErrNotFound | Some db \<Rightarrow> Ok db)"

definition GetTableEntryByID :: "u64 \<Rightarrow> 'ty DBEntry \<Rightarrow> 'ty TableEntry res" where
  "GetTableEntryByID i db = (case entries (db_dir db) i of None \<Rightarrow> Err ErrNotFound | Some t \<Rightarrow> Ok t)"

definition Catalog_txnGetNodeByNameLocked ::
  "txn_env \<Rightarrow> (u64 \<Rightarrow> TxnStates) \<Rightarrow> string \<Rightarrow> u64 \<Rightarrow> ('ty, 'a) Catalog \<Rightarrow> u64 option" where
  "Catalog_txnGetNodeByNameLocked env later nm r c =
     (case nameNodes (cat_dir c) nm of
        None \<Rightarrow> None
      | Some ids \<Rightarrow> TxnGetDBNodeLocked env later (dir_pay db_base (entries (cat_dir c))) r ids)"

definition DB_txnGetNodeByNameLocked ::
  "txn_env \<Rightarrow> (u64 \<Rightarrow> TxnStates) \<Rightarrow> string \<Rightarrow> u64 \<Rightarrow> 'ty DBEntry \<Rightarrow> u64 option" where
  "DB_txnGetNodeByNameLocked env later nm r db =
     (case nameNodes (db_dir db) nm of
        None \<Rightarrow> None
      | Some ids \<Rightarrow> TxnGetTableNodeLocked env later (dir_pay tbl_base (entries (db_dir db))) r ids)"

definition GetDBEntry ::
  "txn_env \<Rightarrow> (u64 \<Rightarrow> TxnStates) \<Rightarrow> string \<Rightarrow> u64 \<Rightarrow> ('ty, 'a) Catalog \<Rightarrow> 'ty DBEntry res" where
  "GetDBEntry env later nm r c =
     (case Catalog_txnGetNodeByNameLocked env later nm r c of
        None \<Rightarrow> Err ErrNotFound
      | Some i \<Rightarrow> (case entries (cat_dir c) i of None \<Rightarrow> Panic | Some db \<Rightarrow> Ok db))"

definition GetTableEntry ::
  "txn_env \<Rightarrow> (u64 \<Rightarrow> TxnStates) \<Rightarrow> string \<Rightarrow> u64 \<Rightarrow> 'ty DBEntry \<Rightarrow> 'ty TableEntry res" where
  "GetTableEntry env later nm r db =
     (case DB_txnGetNodeByNameLocked env later nm r db of
        None \<Rightarrow> Err ErrNotFound
      | Some i \<Rightarrow> (case entries (db_dir db) i of None \<Rightarrow> Panic | Some t \<Rightarrow> Ok t))"

text \<open>Writing an entry back at its identifier.\<close>

definition put_entry :: "u64 \<Rightarrow> 'e \<Rightarrow> 'e dir \<Rightarrow> 'e dir" where
  "put_entry i e d = d\<lparr>entries := (entries d)(i \<mapsto> e)\<rparr>"

definition DropDBEntry ::
  "txn_env \<Rightarrow> (u64 \<Rightarrow> TxnStates) \<Rightarrow> string \<Rightarrow> u64 \<Rightarrow> ('ty, 'a) Catalog \<Rightarrow> ('ty DBEntry \<times> ('ty, 'a) Catalog) res" where
  "DropDBEntry env later nm r c =
     (case Catalog_txnGetNodeByNameLocked env later nm r c of
        None \<Rightarrow> Err ErrNotFound
      | Some i \<Rightarrow>
          (case entries (cat_dir c) i of
             None \<Rightarrow> Panic
           | Some db \<Rightarrow>
               res_bind (DropEntryLocked (env r) (db_base db)) (\<lambda>be.
                 let db' = db\<lparr>db_base := be\<rparr> in Ok (db', c\<lparr>cat_dir := put_entry i db' (cat_dir c)\<rparr>))))"

definition DropTableEntry ::
  "txn_env \<Rightarrow> (u64 \<Rightarrow> TxnStates) \<Rightarrow> string \<Rightarrow> u64 \<Rightarrow> 'ty DBEntry \<Rightarrow> ('ty TableEntry \<times> 'ty DBEntry) res" where
  "DropTableEntry env later nm r db =
     (case DB_txnGetNodeByNameLocked env later nm r db of
        None \<Rightarrow> Err ErrNotFound
      | Some i \<Rightarrow>
          (case entries (db_dir db) i of
             None \<Rightarrow> Panic
           | Some t \<Rightarrow>
               res_bind (DropEntryLocked (env r) (tbl_base t)) (\<lambda>be.
                 let t' = t\<lparr>tbl_base := be\<rparr> in Ok (t', db\<lparr>db_dir := put_entry i t' (db_dir db)\<rparr>))))"

text \<open>The allocator advances even when the new entry is refused, so the error is part of the result.\<close>

definition CreateDBEntry ::
  "('a \<Rightarrow> u64 \<times> 'a) \<Rightarrow> txn_env \<Rightarrow> string \<Rightarrow> u64 option \<Rightarrow> ('ty, 'a) Catalog
   \<Rightarrow> (go_error option \<times> 'ty DBEntry \<times> ('ty, 'a) Catalog) res" where
  "CreateDBEntry al env nm txn c =
     (case NewDBEntry al nm txn (cat_alloc c) of (e, x) \<Rightarrow>
        (case addEntryLocked db_base db_name env e (cat_dir c) of
           Ok d \<Rightarrow> Ok (None, e, c\<lparr>cat_alloc := x, cat_dir := d\<rparr>)
         | Err er \<Rightarrow> Ok (Some er, e, c\<lparr>cat_alloc := x\<rparr>)
         | Panic \<Rightarrow> Panic))"

definition CreateTableEntry ::
  "('a \<Rightarrow> u64 \<times> 'a) \<Rightarrow> txn_env \<Rightarrow> 'ty Schema \<Rightarrow> u64 option \<Rightarrow> 'ty DBEntry \<Rightarrow> 'a IDAlloctor
   \<Rightarrow> (go_error option \<times> 'ty TableEntry \<times> 'ty DBEntry \<times> 'a IDAlloctor) res" where
  "CreateTableEntry al env schema txn db x =
     (case NewTableEntry al db schema txn x of (e, x') \<Rightarrow>
        (case addEntryLocked tbl_base tbl_name env e (db_dir db) of
           Ok d \<Rightarrow> Ok (None, e, db\<lparr>db_dir := d\<rparr>, x')
         | Err er \<Rightarrow> Ok (Some er, e, db, x')
         | Panic \<Rightarrow> Panic))"

definition Catalog_RemoveEntry :: "'ty DBEntry \<Rightarrow> ('ty, 'a) Catalog \<Rightarrow> ('ty, 'a) Catalog res" where
  "Catalog_RemoveEntry db c = res_bind (RemoveEntry db_base db_name db (cat_dir c)) (\<lambda>d. Ok (c\<lparr>cat_dir := d\<rparr>))"

definition DB_RemoveEntry :: "'ty TableEntry \<Rightarrow> 'ty DBEntry \<Rightarrow> 'ty DBEntry res" where
  "DB_RemoveEntry t db = res_bind (RemoveEntry tbl_base tbl_name t (db_dir db)) (\<lambda>d. Ok (db\<lparr>db_dir := d\<rparr>))"

definition MockCatalog :: "'a \<Rightarrow> ('ty, 'a) Catalog" where
  "MockCatalog a = \<lparr>cat_alloc = NewIDAllocator a, cat_dir = empty_dir\<rparr>"

section \<open>Size estimates\<close>

text \<open>\<open>types.go\<close>; whether a type is variable-length and its size belong to the type module.\<close>

definition EstimateColumnBlockSize :: "('ty \<Rightarrow> bool) \<Rightarrow> ('ty \<Rightarrow> u32) \<Rightarrow> nat \<Rightarrow> u32 \<Rightarrow> 'ty Schema \<Rightarrow> u32" where
  "EstimateColumnBlockSize varlen tsize colIdx rows s =
     (let ty = cd_Type (ColDefs s ! colIdx) in if varlen ty then rows * 2 * 4 else rows * tsize ty)"

definition EstimateBlockSize :: "('ty \<Rightarrow> bool) \<Rightarrow> ('ty \<Rightarrow> u32) \<Rightarrow> u32 \<Rightarrow> 'ty Schema \<Rightarrow> u32" where
  "EstimateBlockSize varlen tsize rows s =
     foldl (\<lambda>sz colIdx. sz + EstimateColumnBlockSize varlen tsize colIdx rows s) 0 [0..<length (ColDefs s)]"

section \<open>Well-formed directories\<close>

text \<open>
  Entries sit at their own identifier, which was allocated; every version of a name is an entry of
  that name, listed once; the entry list holds exactly the listed versions, once.
\<close>

definition dir_ok :: "('e \<Rightarrow> BaseEntry) \<Rightarrow> ('e \<Rightarrow> string) \<Rightarrow> nat \<Rightarrow> 'e dir \<Rightarrow> bool" where
  "dir_ok base_of name_of hi d \<longleftrightarrow>
     (\<forall>i e. entries d i = Some e \<longrightarrow> be_ID (base_of e) = i \<and> unat i \<le> hi)
     \<and> (\<forall>nm ids. nameNodes d nm = Some ids \<longrightarrow>
          distinct ids \<and> (\<forall>i \<in> set ids. \<exists>e. entries d i = Some e \<and> name_of e = nm))
     \<and> distinct (link d)
     \<and> (\<forall>i. i \<in> set (link d) \<longleftrightarrow> (\<exists>nm ids. nameNodes d nm = Some ids \<and> i \<in> set ids))"

lemma sink_set [simp]: "set (sink cmp pay x ys) = insert x (set ys)"
proof -
  have "set ys = set (takeWhile (\<lambda>y. cmp (pay x) (pay y) < 0) ys) \<union> set (dropWhile (\<lambda>y. cmp (pay x) (pay y) < 0) ys)"
    by (metis set_append takeWhile_dropWhile_id)
  then show ?thesis by (auto simp: sink_def)
qed

lemma sink_distinct [simp]: "x \<notin> set ys \<Longrightarrow> distinct ys \<Longrightarrow> distinct (sink cmp pay x ys)"
proof -
  let ?P = "\<lambda>y. cmp (pay x) (pay y) < 0"
  assume "x \<notin> set ys" "distinct ys"
  moreover have "distinct (takeWhile ?P ys @ dropWhile ?P ys)" using \<open>distinct ys\<close> by simp
  moreover have "x \<notin> set (takeWhile ?P ys @ dropWhile ?P ys)" using \<open>x \<notin> set ys\<close> by simp
  ultimately show ?thesis by (simp add: sink_def del: takeWhile_dropWhile_id)
qed

lemma dir_ok_mono: "dir_ok b n hi d \<Longrightarrow> hi \<le> hi' \<Longrightarrow> dir_ok b n hi' d"
  by (fastforce simp: dir_ok_def)

lemma empty_dir_ok [simp]: "dir_ok b n hi empty_dir"
  by (simp add: dir_ok_def empty_dir_def)

text \<open>What a successful \<open>addEntryLocked\<close> does.\<close>

lemma addEntryLocked_Ok:
  assumes "addEntryLocked base_of name_of env e d = Ok d'"
  shows "entries d' = (entries d)(be_ID (base_of e) \<mapsto> e)
    \<and> nameNodes d' = (nameNodes d)(name_of e \<mapsto>
        be_ID (base_of e) # (case nameNodes d (name_of e) of None \<Rightarrow> [] | Some ids \<Rightarrow> ids))
    \<and> link d' = sink (DoCompre env) (dir_pay base_of (entries d')) (be_ID (base_of e)) (link d)"
  using assms by (auto simp: addEntryLocked_def Let_def split: option.splits list.splits)

lemma addEntryLocked_ok:
  assumes ok: "dir_ok base_of name_of hi d" and add: "addEntryLocked base_of name_of env e d = Ok d'"
    and fresh: "hi < unat (be_ID (base_of e))" and hi': "unat (be_ID (base_of e)) \<le> hi'"
  shows "dir_ok base_of name_of hi' d'"
proof -
  let ?i = "be_ID (base_of e)"
  note a = addEntryLocked_Ok [OF add]
  have new: "entries d ?i = None"
    using ok fresh unfolding dir_ok_def by (metis leD option.exhaust)
  have notin: "?i \<notin> set ids" if "nameNodes d nm = Some ids" for nm ids
    using ok new that by (force simp: dir_ok_def)
  have nl: "?i \<notin> set (link d)" using ok notin by (auto simp: dir_ok_def)
  have E: "be_ID (base_of x) = i \<and> unat i \<le> hi'" if "entries d' i = Some x" for i x
  proof (cases "i = ?i")
    case True
    then show ?thesis using that a hi' by simp
  next
    case False
    then have "be_ID (base_of x) = i \<and> unat i \<le> hi" using that a ok by (auto simp: dir_ok_def)
    then show ?thesis using fresh hi' by linarith
  qed
  have N: "distinct ids \<and> (\<forall>i \<in> set ids. \<exists>x. entries d' i = Some x \<and> name_of x = nm)" if "nameNodes d' nm = Some ids" for nm ids
  proof (cases "nm = name_of e")
    case True
    define old where "old = (case nameNodes d nm of None \<Rightarrow> [] | Some k \<Rightarrow> k)"
    have old: "ids = ?i # old" "old = [] \<or> nameNodes d nm = Some old"
      using that a True by (auto simp: old_def split: option.splits)
    then show ?thesis using True a ok notin [of nm old] by (auto simp: dir_ok_def)
  next
    case False
    then have n: "nameNodes d nm = Some ids" using that a by simp
    then show ?thesis using a ok notin [OF n] by (auto simp: dir_ok_def)
  qed
  have L: "i \<in> set (link d') \<longleftrightarrow> (\<exists>nm ids. nameNodes d' nm = Some ids \<and> i \<in> set ids)" for i
  proof -
    have "i \<in> set (link d) \<longleftrightarrow> (\<exists>nm ids. nameNodes d nm = Some ids \<and> i \<in> set ids)" using ok by (simp add: dir_ok_def)
    moreover have "(\<exists>nm ids. nameNodes d' nm = Some ids \<and> i \<in> set ids)
        \<longleftrightarrow> i = ?i \<or> (\<exists>nm ids. nameNodes d nm = Some ids \<and> i \<in> set ids)"
      (is "?l \<longleftrightarrow> ?r")
    proof
      assume ?l
      then show ?r using a by (auto split: option.splits if_splits)
    next
      assume ?r
      then show ?l
      proof (elim disjE exE conjE)
        assume "i = ?i"
        then show ?l using a by (auto intro!: exI [of _ "name_of e"])
      next
        fix nm k assume "nameNodes d nm = Some k" "i \<in> set k"
        then show ?l using a by (cases "nm = name_of e") (auto intro!: exI [of _ nm])
      qed
    qed
    ultimately show ?thesis using a by auto
  qed
  have "distinct (link d')" using a nl ok by (simp add: dir_ok_def)
  then show ?thesis using E N L unfolding dir_ok_def by blast
qed

lemma RemoveEntry_ok:
  assumes ok: "dir_ok base_of name_of hi d" and e: "entries d i = Some e" and r: "RemoveEntry base_of name_of e d = Ok d'"
  shows "dir_ok base_of name_of hi d'"
proof -
  have i: "be_ID (base_of e) = i" using ok e by (auto simp: dir_ok_def)
  obtain ids where ids: "nameNodes d (name_of e) = Some ids"
    and d': "d' = d\<lparr>nameNodes := (nameNodes d)(name_of e \<mapsto> remove1 i ids), link := remove1 i (link d)\<rparr>"
    using r e i by (auto simp: RemoveEntry_def Let_def split: option.splits)
  have only: "nm = name_of e" if "nameNodes d nm = Some k" "i \<in> set k" for nm k
    using ok e that by (force simp: dir_ok_def)
  have d1: "distinct ids" "distinct (link d)" using ok ids by (auto simp: dir_ok_def)
  have L: "j \<in> set (link d') \<longleftrightarrow> (\<exists>nm ids. nameNodes d' nm = Some ids \<and> j \<in> set ids)" for j
  proof -
    have "j \<in> set (link d) \<longleftrightarrow> (\<exists>nm ids. nameNodes d nm = Some ids \<and> j \<in> set ids)" using ok by (simp add: dir_ok_def)
    moreover have "(\<exists>nm ids. nameNodes d' nm = Some ids \<and> j \<in> set ids)
        \<longleftrightarrow> j \<noteq> i \<and> (\<exists>nm ids. nameNodes d nm = Some ids \<and> j \<in> set ids)"
      (is "?l \<longleftrightarrow> ?r")
    proof
      assume ?l
      then show ?r using d' d1 ids only by (auto split: if_splits)
    next
      assume ?r
      then obtain nm k where "j \<noteq> i" "nameNodes d nm = Some k" "j \<in> set k" by blast
      then show ?l using d' d1 ids by (cases "nm = name_of e") (auto intro!: exI [of _ nm])
    qed
    ultimately show ?thesis using d' d1 by auto
  qed
  have N: "distinct k \<and> (\<forall>j \<in> set k. \<exists>x. entries d' j = Some x \<and> name_of x = nm)" if "nameNodes d' nm = Some k" for nm k
  proof (cases "nm = name_of e")
    case True
    then show ?thesis using that ok ids d' d1 set_remove1_subset [of i ids] by (auto simp: dir_ok_def)
  next
    case False
    then show ?thesis using that ok d' by (simp add: dir_ok_def)
  qed
  show ?thesis
    using L N ok d1 unfolding dir_ok_def by (auto simp: d')
qed

lemma put_entry_ok:
  "dir_ok base_of name_of hi d \<Longrightarrow> entries d i = Some e \<Longrightarrow> be_ID (base_of e') = be_ID (base_of e)
   \<Longrightarrow> name_of e' = name_of e \<Longrightarrow> dir_ok base_of name_of hi (put_entry i e' d)"
  by (fastforce simp: dir_ok_def put_entry_def)

text \<open>The entry list stays in the order of \<open>DoCompre\<close> when an entry is added.\<close>

lemma addEntryLocked_sorted:
  assumes add: "addEntryLocked base_of name_of env e d = Ok d'" and "be_ID (base_of e) \<notin> set (link d)"
    and "entries.descending env (map (dir_pay base_of (entries d)) (link d))"
  shows "entries.descending env (map (dir_pay base_of (entries d')) (link d'))"
proof -
  note a = addEntryLocked_Ok [OF add]
  have m: "map (dir_pay base_of (entries d')) (link d) = map (dir_pay base_of (entries d)) (link d)"
    using a assms(2) by (auto simp: dir_pay_def)
  have "entries.descending env (map (dir_pay base_of (entries d')) (link d))"
    unfolding m by (rule assms(3))
  then show ?thesis
    using a entries.descending_sink [where pay = "dir_pay base_of (entries d')" and env = env] by simp
qed

section \<open>Named versions\<close>

text \<open>
  What databases and tables share: an entry has a replaceable base and a fixed name, and the lookup
  callback treats the reader's own entry, a foreign entry under creation and a foreign pending drop as
  a snapshot reader expects.
\<close>

locale versioned =
  fixes base_of :: "'e \<Rightarrow> BaseEntry"
    and set_base :: "BaseEntry \<Rightarrow> 'e \<Rightarrow> 'e"
    and name_of :: "'e \<Rightarrow> string"
    and visit :: "txn_env \<Rightarrow> (u64 \<Rightarrow> TxnStates) \<Rightarrow> u64 \<Rightarrow> BaseEntry \<Rightarrow> bool \<times> bool"
  assumes base_set: "base_of (set_base b e) = b"
    and name_set: "name_of (set_base b e) = name_of e"
    and visit_own: "be_Txn b = Some r \<Longrightarrow> visit env later r b = (CurrOp b \<noteq> OpSoftDelete, False)"
    and visit_found_stops: "fst (visit env later r b) \<Longrightarrow> \<not> snd (visit env later r b)"
    and visit_foreign_new: "be_Txn b = Some i \<Longrightarrow> i \<noteq> r \<Longrightarrow> CreateAt b = 0 \<Longrightarrow> DeleteAt b = 0
      \<Longrightarrow> visit env later r b = (False, True)"
    and visit_foreign_drop: "be_Txn b = None \<Longrightarrow> CreateAt b \<noteq> 0 \<Longrightarrow> CreateAt b \<noteq> StartTS (env r)
      \<Longrightarrow> DropEntryLocked (env t) b = Ok b' \<Longrightarrow> txn_ID (env t) = t \<Longrightarrow> t \<noteq> r \<Longrightarrow> CommitTS (env t) = UncommitTS
      \<Longrightarrow> visit env later r b' = visit env later r b"
begin

definition look :: "txn_env \<Rightarrow> (u64 \<Rightarrow> TxnStates) \<Rightarrow> string \<Rightarrow> u64 \<Rightarrow> 'e dir \<Rightarrow> u64 option" where
  "look env later nm r d =
     (case nameNodes d nm of
        None \<Rightarrow> None
      | Some ids \<Rightarrow> each_list (visit_step (visit env later r) (dir_pay base_of (entries d))) ids None)"

lemma each_cong:
  "(\<And>i. i \<in> set ids \<Longrightarrow> f i = g i) \<Longrightarrow> each_list f ids s = each_list g ids s"
  by (induction ids arbitrary: s) (auto split: prod.splits)

lemma look_own:
  assumes "addEntryLocked base_of name_of env0 e d = Ok d'" and "be_Txn (base_of e) = Some r" and "CurrOp (base_of e) = OpCreate"
  shows "look env later (name_of e) r d' = Some (be_ID (base_of e))"
  using addEntryLocked_Ok [OF assms(1)] assms(2,3) visit_own [of "base_of e" r env later]
  by (simp add: look_def visit_step_def dir_pay_def)

lemma look_other:
  assumes ok: "dir_ok base_of name_of hi d" and add: "addEntryLocked base_of name_of env0 e d = Ok d'"
    and fresh: "hi < unat (be_ID (base_of e))"
    and new: "be_Txn (base_of e) = Some t" "t \<noteq> r" "CreateAt (base_of e) = 0" "DeleteAt (base_of e) = 0"
  shows "look env later nm r d' = look env later nm r d"
proof -
  let ?i = "be_ID (base_of e)"
  note a = addEntryLocked_Ok [OF add]
  have none: "entries d ?i = None"
    using ok fresh unfolding dir_ok_def by (metis leD option.exhaust)
  have same: "each_list (visit_step (visit env later r) (dir_pay base_of (entries d'))) ids s
      = each_list (visit_step (visit env later r) (dir_pay base_of (entries d))) ids s"
    if "nameNodes d k = Some ids" for k ids s
  proof (rule each_cong)
    fix j assume "j \<in> set ids"
    then have "j \<noteq> ?i" using ok none that by (force simp: dir_ok_def)
    then show "visit_step (visit env later r) (dir_pay base_of (entries d')) j = visit_step (visit env later r) (dir_pay base_of (entries d)) j"
      using a by (simp add: visit_step_def dir_pay_def fun_eq_iff)
  qed
  show ?thesis
  proof (cases "nm = name_of e")
    case True
    have v: "visit_step (visit env later r) (dir_pay base_of (entries d')) ?i None = (True, None)"
      using a visit_foreign_new [OF new] by (simp add: visit_step_def dir_pay_def)
    show ?thesis
      using a True v same by (cases "nameNodes d nm") (auto simp: look_def)
  next
    case False
    then show ?thesis using a same by (cases "nameNodes d nm") (auto simp: look_def)
  qed
qed

text \<open>A lookup that found \<open>i\<close> passed over everything in front of it.\<close>

lemma look_split:
  assumes "each_list (visit_step (visit env later r) ent) ids None = Some i"
  shows "\<exists>pre post. ids = pre @ i # post \<and> (\<forall>k \<in> set pre. visit env later r (ent k) = (False, True))
    \<and> visit env later r (ent i) = (True, False)"
  using assms
proof (induction ids)
  case (Cons k ids)
  obtain f g where v: "visit env later r (ent k) = (f, g)" by force
  have fg: "f \<Longrightarrow> \<not> g" using visit_found_stops [of env later r "ent k"] v by simp
  show ?case
  proof (cases f)
    case True
    then have "k = i" using Cons.prems v fg by (simp add: visit_step_def)
    then show ?thesis using True v fg by (intro exI [of _ "[]"] exI [of _ ids]) simp
  next
    case False
    then have "visit_step (visit env later r) ent k None = (g, None)" using v by (simp add: visit_step_def)
    then have "g" "each_list (visit_step (visit env later r) ent) ids None = Some i"
      using Cons.prems by (auto split: if_splits)
    then obtain pre post where "ids = pre @ i # post" "\<forall>k \<in> set pre. visit env later r (ent k) = (False, True)"
      "visit env later r (ent i) = (True, False)"
      using Cons.IH by blast
    then show ?thesis using False v \<open>g\<close> by (intro exI [of _ "k # pre"] exI [of _ post]) simp
  qed
qed simp

lemma each_skip:
  "\<forall>k \<in> set pre. visit env later r (ent k) = (False, True)
   \<Longrightarrow> each_list (visit_step (visit env later r) ent) (pre @ ids) s = each_list (visit_step (visit env later r) ent) ids s"
  by (induction pre arbitrary: s) (auto simp: visit_step_def)

lemma look_Some:
  assumes "dir_ok base_of name_of hi d" and "look env later nm r d = Some i"
  shows "\<exists>e. entries d i = Some e \<and> name_of e = nm"
proof -
  obtain ids where ids: "nameNodes d nm = Some ids"
    "each_list (visit_step (visit env later r) (dir_pay base_of (entries d))) ids None = Some i"
    using assms(2) by (auto simp: look_def split: option.splits)
  then have "i \<in> set ids" using look_split by fastforce
  then show ?thesis using assms(1) ids(1) by (auto simp: dir_ok_def)
qed

lemma look_drop_own:
  assumes ok: "dir_ok base_of name_of hi d" and l: "look env later nm r d = Some i" and e: "entries d i = Some e"
    and drop: "DropEntryLocked (env r) (base_of e) = Ok b" and r: "txn_ID (env r) = r"
  shows "look env later nm r (put_entry i (set_base b e) d) = None"
proof -
  let ?d = "put_entry i (set_base b e) d"
  obtain ids where ids: "nameNodes d nm = Some ids"
    "each_list (visit_step (visit env later r) (dir_pay base_of (entries d))) ids None = Some i"
    using l by (auto simp: look_def split: option.splits)
  then obtain pre post where sp: "ids = pre @ i # post"
    "\<forall>k \<in> set pre. visit env later r (dir_pay base_of (entries d) k) = (False, True)"
    using look_split by blast
  have "distinct (pre @ i # post)" using ok ids(1) unfolding dir_ok_def sp(1) by blast
  then have "i \<notin> set pre" by simp
  then have "\<forall>k \<in> set pre. visit env later r (dir_pay base_of (entries ?d) k) = (False, True)"
    using sp(2) by (auto simp: dir_pay_def put_entry_def)
  moreover have "be_Txn b = Some r" "CurrOp b = OpSoftDelete"
    using drop r by (auto simp: DropEntryLocked_def split: option.splits if_splits)
  then have "visit_step (visit env later r) (dir_pay base_of (entries ?d)) i None = (False, None)"
    using visit_own [of b r env later] by (simp add: visit_step_def dir_pay_def put_entry_def base_set)
  ultimately show ?thesis
    using ids(1) sp(1) by (simp add: look_def put_entry_def each_skip)
qed

lemma look_drop_other:
  assumes e: "entries d i = Some e" and b: "be_Txn (base_of e) = None" "CreateAt (base_of e) \<noteq> 0"
    and c: "CreateAt (base_of e) \<noteq> StartTS (env r)" and drop: "DropEntryLocked (env t) (base_of e) = Ok b"
    and t: "txn_ID (env t) = t" "t \<noteq> r" "CommitTS (env t) = UncommitTS"
  shows "look env later nm r (put_entry i (set_base b e) d) = look env later nm r d"
proof -
  have "visit env later r b = visit env later r (base_of e)"
    by (rule visit_foreign_drop [OF b c drop t])
  then have "visit_step (visit env later r) (dir_pay base_of (entries (put_entry i (set_base b e) d)))
      = visit_step (visit env later r) (dir_pay base_of (entries d))"
    using e by (auto simp: visit_step_def dir_pay_def put_entry_def base_set fun_eq_iff)
  moreover have "nameNodes (put_entry i (set_base b e) d) = nameNodes d" by (simp add: put_entry_def)
  ultimately show ?thesis
    unfolding look_def by (simp only:)
qed

end

text \<open>Both lookups meet the contract.\<close>

lemma visits_meet:
  "be_Txn b = Some r \<Longrightarrow> db_visit env later r b = (CurrOp b \<noteq> OpSoftDelete, False)"
  "be_Txn b = Some r \<Longrightarrow> table_visit env later r b = (CurrOp b \<noteq> OpSoftDelete, False)"
  "fst (db_visit env later r b) \<Longrightarrow> \<not> snd (db_visit env later r b)"
  "fst (table_visit env later r b) \<Longrightarrow> \<not> snd (table_visit env later r b)"
  by (auto simp: db_visit_def table_visit_def visit_defs Let_def split: if_splits)

lemma visits_foreign:
  assumes "be_Txn b = None" "CreateAt b \<noteq> 0" "CreateAt b \<noteq> StartTS (env r)" "DropEntryLocked (env t) b = Ok b'"
    "txn_ID (env t) = t" "t \<noteq> r" "CommitTS (env t) = UncommitTS"
  shows "db_visit env later r b' = db_visit env later r b" "table_visit env later r b' = table_visit env later r b"
proof -
  have b': "be_Txn b' = Some t" "CreateAt b' = CreateAt b" "DeleteAt b' = 0" "DeleteAt b = 0"
    using assms(1,4,5) by (auto simp: DropEntryLocked_def HasDropped_def split: if_splits)
  have "CreateAt b < StartTS (env r) \<or> StartTS (env r) < CreateAt b" using assms(3) by force
  then show "db_visit env later r b' = db_visit env later r b" "table_visit env later r b' = table_visit env later r b"
    using assms(1,2,6,7) b' by (auto simp: db_visit_def table_visit_def visit_defs Let_def)
qed

interpretation dbs: versioned db_base "\<lambda>b e. e\<lparr>db_base := b\<rparr>" db_name db_visit
  by unfold_locales (simp_all add: visits_meet visits_foreign, simp add: db_visit_def visit_defs)

interpretation tbls: versioned tbl_base "\<lambda>b e. e\<lparr>tbl_base := b\<rparr>" tbl_name table_visit
  by unfold_locales (simp_all add: visits_meet visits_foreign tbl_name_def, simp add: table_visit_def visit_defs)

section \<open>Reachable catalogs\<close>

definition cat_ok :: "('a \<Rightarrow> u64) \<Rightarrow> ('ty, 'a) Catalog \<Rightarrow> bool" where
  "cat_ok cur c \<longleftrightarrow>
     dir_ok db_base db_name (unat (cur (dbAlloc (cat_alloc c)))) (cat_dir c)
     \<and> (\<forall>i db. entries (cat_dir c) i = Some db \<longrightarrow>
          dir_ok tbl_base tbl_name (unat (cur (tblAlloc (cat_alloc c)))) (db_dir db))"

text \<open>The ways an entry's base changes when its transaction ends.\<close>

definition base_change :: "txn_env \<Rightarrow> BaseEntry \<Rightarrow> BaseEntry \<Rightarrow> bool" where
  "base_change env b b' \<longleftrightarrow> b' = PrepareCommit env b \<or> b' = ApplyCommit b \<or> b' = PrepareRollback b"

lemma base_change_ID: "base_change env b b' \<Longrightarrow> be_ID b' = be_ID b"
  by (auto simp: base_change_def PrepareCommit_def ApplyCommit_def PrepareRollback_def Let_def split: option.splits)

lemma drop_ID: "DropEntryLocked t b = Ok b' \<Longrightarrow> be_ID b' = be_ID b"
  by (auto simp: DropEntryLocked_def split: option.splits if_splits)

inductive cat_step ::
  "('a \<Rightarrow> u64 \<times> 'a) \<Rightarrow> ('a \<Rightarrow> u64) \<Rightarrow> ('ty, 'a) Catalog \<Rightarrow> ('ty, 'a) Catalog \<Rightarrow> bool"
  for al cur where
  create_db: "unat (cur (dbAlloc (cat_alloc c))) < 2 ^ 64 - 1 \<Longrightarrow> CreateDBEntry al env nm txn c = Ok (er, db, c')
     \<Longrightarrow> cat_step al cur c c'"
| drop_db: "DropDBEntry env later nm r c = Ok (db, c') \<Longrightarrow> cat_step al cur c c'"
| remove_db: "entries (cat_dir c) i = Some db \<Longrightarrow> Catalog_RemoveEntry db c = Ok c' \<Longrightarrow> cat_step al cur c c'"
| end_db: "entries (cat_dir c) i = Some db \<Longrightarrow> base_change env (db_base db) b
     \<Longrightarrow> cat_step al cur c (c\<lparr>cat_dir := put_entry i (db\<lparr>db_base := b\<rparr>) (cat_dir c)\<rparr>)"
| create_table: "entries (cat_dir c) i = Some db \<Longrightarrow> unat (cur (tblAlloc (cat_alloc c))) < 2 ^ 64 - 1
     \<Longrightarrow> CreateTableEntry al env schema txn db (cat_alloc c) = Ok (er, t, db', x)
     \<Longrightarrow> cat_step al cur c (c\<lparr>cat_alloc := x, cat_dir := put_entry i db' (cat_dir c)\<rparr>)"
| drop_table: "entries (cat_dir c) i = Some db \<Longrightarrow> DropTableEntry env later nm r db = Ok (t, db')
     \<Longrightarrow> cat_step al cur c (c\<lparr>cat_dir := put_entry i db' (cat_dir c)\<rparr>)"
| remove_table: "entries (cat_dir c) i = Some db \<Longrightarrow> entries (db_dir db) j = Some t \<Longrightarrow> DB_RemoveEntry t db = Ok db'
     \<Longrightarrow> cat_step al cur c (c\<lparr>cat_dir := put_entry i db' (cat_dir c)\<rparr>)"
| end_table: "entries (cat_dir c) i = Some db \<Longrightarrow> entries (db_dir db) j = Some t \<Longrightarrow> base_change env (tbl_base t) b
     \<Longrightarrow> cat_step al cur c (c\<lparr>cat_dir := put_entry i (db\<lparr>db_dir := put_entry j (t\<lparr>tbl_base := b\<rparr>) (db_dir db)\<rparr>) (cat_dir c)\<rparr>)"

lemma next_fresh:
  assumes "id_source al cur" and "al a = (i, a')" and "unat (cur a) < 2 ^ 64 - 1"
  shows "cur a' = i" and "unat (cur a) < unat i"
proof -
  have i: "i = cur a + 1" "cur a' = cur a + 1"
    using id_source.alloc_id [OF assms(1), of a] id_source.alloc_current [OF assms(1), of a] assms(2) by simp_all
  moreover have "unat (cur a + 1) = unat (cur a) + 1" using assms(3) by (subst unat_plus_no_wrap) simp_all
  ultimately show "cur a' = i" "unat (cur a) < unat i" by simp_all
qed

text \<open>A new database or table has a fresh identifier, its name, an active creator and no timestamps.\<close>

lemma NewDBEntry_fresh:
  assumes "id_source al cur" and "NewDBEntry al nm txn x = (e, x')" and "unat (cur (dbAlloc x)) < 2 ^ 64 - 1"
  shows "unat (cur (dbAlloc x)) < unat (be_ID (db_base e))" "cur (dbAlloc x') = be_ID (db_base e)"
    "tblAlloc x' = tblAlloc x" "db_base e = new_base (be_ID (db_base e)) txn" "db_name e = nm" "db_dir e = empty_dir"
proof -
  obtain i a where a: "al (dbAlloc x) = (i, a)" by force
  have e: "e = \<lparr>db_base = new_base i txn, db_name = nm, db_dir = empty_dir\<rparr>" "x' = x\<lparr>dbAlloc := a\<rparr>"
    using assms(2) a by (auto simp: NewDBEntry_def NextDB_def)
  then show "unat (cur (dbAlloc x)) < unat (be_ID (db_base e))" "cur (dbAlloc x') = be_ID (db_base e)"
    "tblAlloc x' = tblAlloc x" "db_base e = new_base (be_ID (db_base e)) txn" "db_name e = nm" "db_dir e = empty_dir"
    using next_fresh [OF assms(1) a assms(3)] by (simp_all add: new_base_def)
qed

lemma NewTableEntry_fresh:
  assumes "id_source al cur" and "NewTableEntry al db schema txn x = (e, x')" and "unat (cur (tblAlloc x)) < 2 ^ 64 - 1"
  shows "unat (cur (tblAlloc x)) < unat (be_ID (tbl_base e))" "cur (tblAlloc x') = be_ID (tbl_base e)"
    "dbAlloc x' = dbAlloc x" "tbl_base e = new_base (be_ID (tbl_base e)) txn" "tbl_name e = sc_Name schema"
proof -
  obtain i a where a: "al (tblAlloc x) = (i, a)" by force
  have e: "tbl_base e = new_base i txn" "tbl_schema e = schema" "x' = x\<lparr>tblAlloc := a\<rparr>"
    using assms(2) a by (auto simp: NewTableEntry_def NextTable_def)
  then show "unat (cur (tblAlloc x)) < unat (be_ID (tbl_base e))" "cur (tblAlloc x') = be_ID (tbl_base e)"
    "dbAlloc x' = dbAlloc x" "tbl_base e = new_base (be_ID (tbl_base e)) txn" "tbl_name e = sc_Name schema"
    using next_fresh [OF assms(1) a assms(3)] by (simp_all add: new_base_def tbl_name_def)
qed

lemma cat_ok_put:
  assumes "cat_ok cur c" and "entries (cat_dir c) i = Some db" and "be_ID (db_base db') = be_ID (db_base db)"
    and "db_name db' = db_name db" and "dbAlloc x = dbAlloc (cat_alloc c)"
    and "unat (cur (tblAlloc (cat_alloc c))) \<le> unat (cur (tblAlloc x))"
    and "dir_ok tbl_base tbl_name (unat (cur (tblAlloc x))) (db_dir db')"
  shows "cat_ok cur (c\<lparr>cat_alloc := x, cat_dir := put_entry i db' (cat_dir c)\<rparr>)"
proof -
  have "dir_ok tbl_base tbl_name (unat (cur (tblAlloc x))) (db_dir e)" if "entries (put_entry i db' (cat_dir c)) j = Some e" for j e
  proof (cases "j = i")
    case True
    then show ?thesis using that assms(7) by (simp add: put_entry_def)
  next
    case False
    then have "entries (cat_dir c) j = Some e" using that by (simp add: put_entry_def)
    then have "dir_ok tbl_base tbl_name (unat (cur (tblAlloc (cat_alloc c)))) (db_dir e)"
      using assms(1) unfolding cat_ok_def by blast
    then show ?thesis by (rule dir_ok_mono [OF _ assms(6)])
  qed
  moreover have "dir_ok db_base db_name (unat (cur (dbAlloc x))) (put_entry i db' (cat_dir c))"
    using put_entry_ok [OF _ assms(2-4)] assms(1,5) by (simp add: cat_ok_def)
  ultimately show ?thesis by (simp add: cat_ok_def)
qed

lemma create_db_ok:
  fixes c :: "('ty, 'a) Catalog"
  assumes al: "id_source al cur" and ok: "cat_ok cur c" and hi: "unat (cur (dbAlloc (cat_alloc c))) < 2 ^ 64 - 1"
    and cr: "CreateDBEntry al env nm txn c = Ok (er, db, c')"
  shows "cat_ok cur c'"
proof -
  obtain e :: "'ty DBEntry" and x where n: "NewDBEntry al nm txn (cat_alloc c) = (e, x)" by force
  note f = NewDBEntry_fresh [OF al n hi]
  show ?thesis
  proof (cases "addEntryLocked db_base db_name env e (cat_dir c)")
    case (Ok d)
    have c': "c' = c\<lparr>cat_alloc := x, cat_dir := d\<rparr>" using cr n Ok by (simp add: CreateDBEntry_def)
    have "dir_ok db_base db_name (unat (cur (dbAlloc x))) d"
      using addEntryLocked_ok [OF _ Ok f(1)] ok f by (simp add: cat_ok_def)
    moreover have "entries d = (entries (cat_dir c))(be_ID (db_base e) \<mapsto> e)" using addEntryLocked_Ok [OF Ok] by simp
    ultimately show ?thesis using ok f c' by (auto simp: cat_ok_def)
  next
    case (Err er')
    have "c' = c\<lparr>cat_alloc := x\<rparr>" using cr n Err by (simp add: CreateDBEntry_def)
    then show ?thesis using ok f dir_ok_mono [of db_base db_name "unat (cur (dbAlloc (cat_alloc c)))" "cat_dir c"]
      by (simp add: cat_ok_def)
  next
    case Panic
    then show ?thesis using cr n by (simp add: CreateDBEntry_def)
  qed
qed

lemma cat_step_ok:
  assumes "cat_step al cur c c'" and al: "id_source al cur" and ok: "cat_ok cur c"
  shows "cat_ok cur c'"
  using assms(1)
proof cases
  case create_db
  then show ?thesis using create_db_ok [OF al ok] by simp
next
  case (drop_db env later nm r db)
  then obtain i e b where e: "entries (cat_dir c) i = Some e" "DropEntryLocked (env r) (db_base e) = Ok b"
    "c' = c\<lparr>cat_alloc := cat_alloc c, cat_dir := put_entry i (e\<lparr>db_base := b\<rparr>) (cat_dir c)\<rparr>"
    by (auto simp: DropDBEntry_def Let_def split: option.splits)
  show ?thesis
    unfolding e(3) by (rule cat_ok_put [OF ok e(1)]) (use e ok drop_ID in \<open>auto simp: cat_ok_def\<close>)
next
  case (remove_db i db)
  then obtain d where d: "RemoveEntry db_base db_name db (cat_dir c) = Ok d" "c' = c\<lparr>cat_dir := d\<rparr>"
    by (auto simp: Catalog_RemoveEntry_def)
  have "entries d = entries (cat_dir c)"
    using d(1) by (auto simp: RemoveEntry_def Let_def split: option.splits)
  then show ?thesis
    using RemoveEntry_ok [OF _ remove_db(1) d(1)] ok d(2) by (simp add: cat_ok_def)
next
  case (end_db i db env b)
  have "c' = c\<lparr>cat_alloc := cat_alloc c, cat_dir := put_entry i (db\<lparr>db_base := b\<rparr>) (cat_dir c)\<rparr>"
    using end_db(1) by simp
  then show ?thesis
    using cat_ok_put [OF ok end_db(2), of "db\<lparr>db_base := b\<rparr>" "cat_alloc c"] ok end_db(2) base_change_ID [OF end_db(3)]
    by (simp add: cat_ok_def)
next
  case (create_table i db env schema txn er t db' x)
  obtain e where n: "NewTableEntry al db schema txn (cat_alloc c) = (e, x)"
    using create_table(4) by (auto simp: CreateTableEntry_def split: res.splits prod.splits)
  note f = NewTableEntry_fresh [OF al n create_table(3)]
  have okd: "dir_ok tbl_base tbl_name (unat (cur (tblAlloc (cat_alloc c)))) (db_dir db)"
    using ok create_table(2) by (auto simp: cat_ok_def)
  have db': "db_base db' = db_base db" "db_name db' = db_name db"
    "dir_ok tbl_base tbl_name (unat (cur (tblAlloc x))) (db_dir db')"
    using create_table(4) n f okd addEntryLocked_ok [OF okd _ f(1)] dir_ok_mono [OF okd]
    by (auto simp: CreateTableEntry_def split: res.splits)
  show ?thesis
    unfolding create_table(1) using cat_ok_put [OF ok create_table(2), of db' x] db' f by simp
next
  case (drop_table i db env later nm r t db')
  then obtain j e b where e: "entries (db_dir db) j = Some e" "DropEntryLocked (env r) (tbl_base e) = Ok b"
    "db' = db\<lparr>db_dir := put_entry j (e\<lparr>tbl_base := b\<rparr>) (db_dir db)\<rparr>"
    by (auto simp: DropTableEntry_def Let_def split: option.splits)
  have "dir_ok tbl_base tbl_name (unat (cur (tblAlloc (cat_alloc c)))) (db_dir db')"
    using ok drop_table(2) put_entry_ok [of tbl_base tbl_name _ "db_dir db" j e "e\<lparr>tbl_base := b\<rparr>"] e drop_ID [OF e(2)]
    by (auto simp: cat_ok_def tbl_name_def)
  then show ?thesis
    unfolding drop_table(1) using cat_ok_put [OF ok drop_table(2), of db' "cat_alloc c"] e by simp
next
  case (remove_table i db j t db')
  then obtain d where d: "RemoveEntry tbl_base tbl_name t (db_dir db) = Ok d" "db' = db\<lparr>db_dir := d\<rparr>"
    by (auto simp: DB_RemoveEntry_def)
  have "dir_ok tbl_base tbl_name (unat (cur (tblAlloc (cat_alloc c)))) (db_dir db')"
    using RemoveEntry_ok [OF _ remove_table(3) d(1)] ok remove_table(2) d(2) by (auto simp: cat_ok_def)
  then show ?thesis
    unfolding remove_table(1) using cat_ok_put [OF ok remove_table(2), of db' "cat_alloc c"] d by simp
next
  case (end_table i db j t env b)
  let ?db = "db\<lparr>db_dir := put_entry j (t\<lparr>tbl_base := b\<rparr>) (db_dir db)\<rparr>"
  have "dir_ok tbl_base tbl_name (unat (cur (tblAlloc (cat_alloc c)))) (db_dir ?db)"
    using ok end_table(2,3) put_entry_ok [of tbl_base tbl_name _ "db_dir db" j t "t\<lparr>tbl_base := b\<rparr>"] base_change_ID [OF end_table(4)]
    by (auto simp: cat_ok_def tbl_name_def)
  then show ?thesis
    unfolding end_table(1) using cat_ok_put [OF ok end_table(2), of ?db "cat_alloc c"] by simp
qed

lemma cat_run_ok:
  "(cat_step al cur)\<^sup>*\<^sup>* c c' \<Longrightarrow> id_source al cur \<Longrightarrow> cat_ok cur c \<Longrightarrow> cat_ok cur c'"
  by (induction rule: rtranclp_induct) (auto intro: cat_step_ok)

lemma MockCatalog_ok [simp]: "cat_ok cur (MockCatalog a)"
  by (simp add: cat_ok_def MockCatalog_def) (simp add: empty_dir_def)


section \<open>Isolation of creations and drops\<close>

lemma Catalog_lookup: "Catalog_txnGetNodeByNameLocked env later nm r c = dbs.look env later nm r (cat_dir c)"
  by (simp add: Catalog_txnGetNodeByNameLocked_def dbs.look_def TxnGetDBNodeLocked_def split: option.splits)

lemma DB_lookup: "DB_txnGetNodeByNameLocked env later nm r db = tbls.look env later nm r (db_dir db)"
  by (simp add: DB_txnGetNodeByNameLocked_def tbls.look_def TxnGetTableNodeLocked_def split: option.splits)

text \<open>
  C18. Creating a database: the creating transaction finds the new database under its name at once,
  and no lookup of any other transaction, under any name, changes.
\<close>

theorem create_db_isolated:
  assumes "id_source al cur" and "cat_ok cur c" and "unat (cur (dbAlloc (cat_alloc c))) < 2 ^ 64 - 1"
    and "CreateDBEntry al env nm (Some t) c = Ok (None, db, c')"
  shows "GetDBEntry env' later nm t c' = Ok db
    \<and> (\<forall>r nm'. r \<noteq> t \<longrightarrow> GetDBEntry env' later nm' r c' = GetDBEntry env' later nm' r c)"
proof -
  obtain x where n: "NewDBEntry al nm (Some t) (cat_alloc c) = (db, x)"
    and add: "addEntryLocked db_base db_name env db (cat_dir c) = Ok (cat_dir c')"
    using assms(4) by (auto simp: CreateDBEntry_def split: res.splits prod.splits)
  note f = NewDBEntry_fresh [OF assms(1) n assms(3)]
  have b: "be_Txn (db_base db) = Some t" "CurrOp (db_base db) = OpCreate" "CreateAt (db_base db) = 0" "DeleteAt (db_base db) = 0"
    using f(4) by (metis new_base_def BaseEntry.simps(1,2,5,6))+
  have ok: "dir_ok db_base db_name (unat (cur (dbAlloc (cat_alloc c)))) (cat_dir c)"
    using assms(2) by (simp add: cat_ok_def)
  have es: "entries (cat_dir c') = (entries (cat_dir c))(be_ID (db_base db) \<mapsto> db)"
    using addEntryLocked_Ok [OF add] by simp
  have own: "dbs.look env' later nm t (cat_dir c') = Some (be_ID (db_base db))"
    using dbs.look_own [OF add b(1,2)] f(5) by simp
  have "GetDBEntry env' later nm' r c' = GetDBEntry env' later nm' r c" if "r \<noteq> t" for r nm'
  proof -
    have l: "dbs.look env' later nm' r (cat_dir c') = dbs.look env' later nm' r (cat_dir c)"
      using dbs.look_other [OF ok add f(1) b(1) _ b(3,4)] that by simp
    show ?thesis
    proof (cases "dbs.look env' later nm' r (cat_dir c)")
      case None
      then show ?thesis using l by (simp add: GetDBEntry_def Catalog_lookup)
    next
      case (Some i)
      then obtain e where e: "entries (cat_dir c) i = Some e" using dbs.look_Some [OF ok] by blast
      then have "i \<noteq> be_ID (db_base db)" using ok f(1) by (fastforce simp: dir_ok_def)
      then show ?thesis using Some l e es by (simp add: GetDBEntry_def Catalog_lookup)
    qed
  qed
  then show ?thesis using own es by (simp add: GetDBEntry_def Catalog_lookup)
qed

text \<open>
  Creating a table in a database is isolated in the same way.
\<close>

lemma create_table_isolated:
  assumes "id_source al cur" and "dir_ok tbl_base tbl_name (unat (cur (tblAlloc x))) (db_dir db)"
    and "unat (cur (tblAlloc x)) < 2 ^ 64 - 1"
    and "CreateTableEntry al env schema (Some t) db x = Ok (None, tbl, db', x')"
  shows "GetTableEntry env' later (sc_Name schema) t db' = Ok tbl
    \<and> (\<forall>r nm'. r \<noteq> t \<longrightarrow> GetTableEntry env' later nm' r db' = GetTableEntry env' later nm' r db)"
proof -
  have n: "NewTableEntry al db schema (Some t) x = (tbl, x')"
    and add: "addEntryLocked tbl_base tbl_name env tbl (db_dir db) = Ok (db_dir db')"
    using assms(4) by (auto simp: CreateTableEntry_def split: res.splits prod.splits)
  note f = NewTableEntry_fresh [OF assms(1) n assms(3)]
  have b: "be_Txn (tbl_base tbl) = Some t" "CurrOp (tbl_base tbl) = OpCreate" "CreateAt (tbl_base tbl) = 0" "DeleteAt (tbl_base tbl) = 0"
    using f(4) by (metis new_base_def BaseEntry.simps(1,2,5,6))+
  have es: "entries (db_dir db') = (entries (db_dir db))(be_ID (tbl_base tbl) \<mapsto> tbl)"
    using addEntryLocked_Ok [OF add] by simp
  have own: "tbls.look env' later (sc_Name schema) t (db_dir db') = Some (be_ID (tbl_base tbl))"
    using tbls.look_own [OF add b(1,2)] f(5) by simp
  have "GetTableEntry env' later nm' r db' = GetTableEntry env' later nm' r db" if "r \<noteq> t" for r nm'
  proof -
    have l: "tbls.look env' later nm' r (db_dir db') = tbls.look env' later nm' r (db_dir db)"
      using tbls.look_other [OF assms(2) add f(1) b(1) _ b(3,4)] that by simp
    show ?thesis
    proof (cases "tbls.look env' later nm' r (db_dir db)")
      case None
      then show ?thesis using l by (simp add: GetTableEntry_def DB_lookup)
    next
      case (Some i)
      then obtain e where e: "entries (db_dir db) i = Some e" using tbls.look_Some [OF assms(2)] by blast
      then have "i \<noteq> be_ID (tbl_base tbl)" using assms(2) f(1) by (fastforce simp: dir_ok_def)
      then show ?thesis using Some l e es by (simp add: GetTableEntry_def DB_lookup)
    qed
  qed
  then show ?thesis using own es by (simp add: GetTableEntry_def DB_lookup)
qed

text \<open>
  Dropping a database: the dropping transaction no longer finds the name; every other transaction
  finds exactly the version it found before, as long as the drop is not committed and the dropped
  version was committed at a timestamp other than that reader's start.
\<close>

lemma drop_db_isolated:
  assumes "cat_ok cur c" and "txn_ID (env t) = t" and "CommitTS (env t) = UncommitTS"
    and "DropDBEntry env later nm t c = Ok (db, c')"
  shows "GetDBEntry env later nm t c' = Err ErrNotFound
    \<and> (\<forall>r nm'. r \<noteq> t
         \<and> (\<exists>old. entries (cat_dir c) (be_ID (db_base db)) = Some old \<and> be_Txn (db_base old) = None
              \<and> CreateAt (db_base old) \<notin> {0, StartTS (env r)})
         \<longrightarrow> Catalog_txnGetNodeByNameLocked env later nm' r c' = Catalog_txnGetNodeByNameLocked env later nm' r c)"
proof -
  obtain i e b where l: "dbs.look env later nm t (cat_dir c) = Some i" and e: "entries (cat_dir c) i = Some e"
    and b: "DropEntryLocked (env t) (db_base e) = Ok b" and db: "db = e\<lparr>db_base := b\<rparr>"
    and c': "cat_dir c' = put_entry i db (cat_dir c)"
    using assms(4) by (auto simp: DropDBEntry_def Catalog_lookup Let_def split: option.splits)
  have ok: "dir_ok db_base db_name (unat (cur (dbAlloc (cat_alloc c)))) (cat_dir c)"
    using assms(1) by (simp add: cat_ok_def)
  have i: "be_ID (db_base e) = i" "be_ID b = i" using ok e drop_ID [OF b] by (auto simp: dir_ok_def)
  have own: "dbs.look env later nm t (cat_dir c') = None"
    unfolding c' db by (rule dbs.look_drop_own [where later = later, OF ok l e b assms(2)])
  have "dbs.look env later nm' r (cat_dir c') = dbs.look env later nm' r (cat_dir c)"
    if "r \<noteq> t" "CreateAt (db_base e) \<noteq> 0" "CreateAt (db_base e) \<noteq> StartTS (env r)" "be_Txn (db_base e) = None" for r nm'
    unfolding c' db
    by (rule dbs.look_drop_other [where t = t]) (use e that b assms(2,3) in auto)
  then show ?thesis
    using own e i db by (auto simp: GetDBEntry_def Catalog_lookup)
qed

text \<open>
  What creating a database of an existing name does, by the newest version of that name: it is
  refused as a write conflict while another active transaction writes that version, refused as a
  duplicate while the version stands, and accepted when the version is dropped - committed, by the same
  transaction, or by another one that is already committing.  A refused creation leaves the directory
  as it was.
\<close>

lemma create_db_outcome:
  fixes c :: "('ty, 'a) Catalog"
  assumes "nameNodes (cat_dir c) nm = Some (k # ids)" and "entries (cat_dir c) k = Some old"
  shows "\<exists>er db c'. CreateDBEntry al env nm (Some t) c = Ok (er, db, c')
    \<and> er = (case be_Txn (db_base old) of
              None \<Rightarrow> if DeleteAt (db_base old) = 0 then Some ErrDuplicate else None
            | Some i \<Rightarrow>
                if i \<noteq> t \<and> CommitTS (env i) = UncommitTS then Some TxnWWConflictErr
                else if CurrOp (db_base old) = OpSoftDelete then None else Some ErrDuplicate)
    \<and> (er \<noteq> None \<longrightarrow> cat_dir c' = cat_dir c)"
proof -
  obtain db :: "'ty DBEntry" and x where n: "NewDBEntry al nm (Some t) (cat_alloc c) = (db, x)" by force
  then have db: "db_name db = nm" "be_Txn (db_base db) = Some t"
    by (auto simp: NewDBEntry_def new_base_def split: prod.splits)
  show ?thesis
    using assms db n
    by (cases "be_Txn (db_base old)")
      (auto simp: CreateDBEntry_def addEntryLocked_def Let_def add_check_def PrepareWrite_def visit_defs)
qed

text \<open>
  Removing the only version of a name, as a rolled back creation does, leaves an empty version
  list behind: the next creation of that name dereferences the missing newest version and panics.
\<close>

lemma recreate_after_remove_panics:
  fixes c :: "('ty, 'a) Catalog"
  assumes "cat_ok cur c" and "entries (cat_dir c) i = Some db" and "nameNodes (cat_dir c) (db_name db) = Some [i]"
  shows "\<exists>c'. Catalog_RemoveEntry db c = Ok c' \<and> CreateDBEntry al env (db_name db) txn c' = Panic"
proof -
  have i: "be_ID (db_base db) = i" using assms(1,2) by (auto simp: cat_ok_def dir_ok_def)
  obtain e :: "'ty DBEntry" and x where n: "NewDBEntry al (db_name db) txn (cat_alloc c) = (e, x)" by force
  then have "db_name e = db_name db" by (auto simp: NewDBEntry_def split: prod.splits)
  then show ?thesis
    using assms(2,3) i n
    by (simp add: Catalog_RemoveEntry_def RemoveEntry_def CreateDBEntry_def addEntryLocked_def Let_def)
qed

section \<open>Blocks of a segment\<close>

lemma count_foldl:
  "foldl (\<lambda>cnt i. if P i then cnt + 1 else cnt) k xs = k + length (filter P xs)" for k :: nat
  by (induction xs arbitrary: k) auto

lemma GetAppendableBlockCnt_eq:
  "GetAppendableBlockCnt s = length (filter (\<lambda>i. Block_IsAppendable (the (seg_entries s i))) (seg_link s))"
  by (simp add: GetAppendableBlockCnt_def count_foldl rev_filter [symmetric])

lemma last_foldl:
  "foldl (\<lambda>blk i. if P i then f i else blk) b xs =
     (case filter P xs of [] \<Rightarrow> b | _ \<Rightarrow> f (last (filter P xs)))"
proof (induction xs arbitrary: b)
  case (Cons x xs)
  then show ?case by (cases "filter P xs") auto
qed simp

text \<open>
  \<open>LastAppendableBlock\<close> walks the blocks from the newest to the oldest and keeps the last hit:
  when the blocks are committed and in the order of the list, it returns the appendable block with the
  smallest creation time, and it returns one exactly when \<open>GetAppendableBlockCnt\<close> is not zero.
\<close>

lemma LastAppendableBlock_oldest:
  assumes "entries.descending env (map (seg_pay (seg_entries s)) (seg_link s))"
    and "\<forall>i \<in> set (seg_link s). \<exists>b. seg_entries s i = Some b \<and> CreateAt (blk_base b) \<noteq> 0"
  shows "(LastAppendableBlock s = None \<longleftrightarrow> GetAppendableBlockCnt s = 0)
    \<and> (\<forall>b. LastAppendableBlock s = Some b \<longrightarrow> Block_IsAppendable b
        \<and> (\<forall>i \<in> set (seg_link s). Block_IsAppendable (the (seg_entries s i))
             \<longrightarrow> CreateAt (blk_base b) \<le> CreateAt (blk_base (the (seg_entries s i)))))"
proof -
  let ?P = "\<lambda>i. Block_IsAppendable (the (seg_entries s i))"
  let ?xs = "filter ?P (seg_link s)"
  have sorted: "sorted_wrt (\<lambda>i j. CreateAt (seg_pay (seg_entries s) j) \<le> CreateAt (seg_pay (seg_entries s) i)) (seg_link s)"
  proof (rule sorted_wrt_mono_rel [OF _ assms(1) [unfolded entries.descending_def sorted_wrt_map]])
    fix i j assume "i \<in> set (seg_link s)" "j \<in> set (seg_link s)"
      "\<not> DoCompre env (seg_pay (seg_entries s) i) (seg_pay (seg_entries s) j) < 0"
    moreover have "CreateAt (seg_pay (seg_entries s) k) \<noteq> 0" if "k \<in> set (seg_link s)" for k
      using assms(2) that by (force simp: seg_pay_def)
    ultimately show "CreateAt (seg_pay (seg_entries s) j) \<le> CreateAt (seg_pay (seg_entries s) i)"
      by (simp add: DoCompre_def CompareUint64_less)
  qed
  have last: "LastAppendableBlock s = (if ?xs = [] then None else seg_entries s (last ?xs))"
    by (simp add: LastAppendableBlock_def last_foldl split: list.splits)
  have mem: "\<exists>b. seg_entries s i = Some b" if "i \<in> set ?xs" for i using assms(2) that by auto
  have least: "CreateAt (seg_pay (seg_entries s) (last ?xs)) \<le> CreateAt (seg_pay (seg_entries s) i)" if "i \<in> set ?xs" for i
  proof -
    have srt: "sorted_wrt (\<lambda>i j. CreateAt (seg_pay (seg_entries s) j) \<le> CreateAt (seg_pay (seg_entries s) i)) ?xs"
      using sorted by (rule sorted_wrt_filter)
    have ne: "?xs \<noteq> []" using that by (cases ?xs) simp_all
    define z where "z = last ?xs"
    obtain ys where ys: "?xs = ys @ [z]" unfolding z_def by (metis append_butlast_last_id ne)
    have "sorted_wrt (\<lambda>i j. CreateAt (seg_pay (seg_entries s) j) \<le> CreateAt (seg_pay (seg_entries s) i)) (ys @ [z])"
      using srt unfolding ys .
    moreover have "i \<in> set ys \<or> i = z" using that unfolding ys by auto
    ultimately have "CreateAt (seg_pay (seg_entries s) z) \<le> CreateAt (seg_pay (seg_entries s) i)"
      by (auto simp: sorted_wrt_append)
    then show ?thesis unfolding z_def .
  qed
  have "Block_IsAppendable b \<and> (\<forall>i \<in> set (seg_link s). ?P i \<longrightarrow> CreateAt (blk_base b) \<le> CreateAt (blk_base (the (seg_entries s i))))"
    if b: "LastAppendableBlock s = Some b" for b
  proof -
    have ne: "?xs \<noteq> []" and sb: "seg_entries s (last ?xs) = Some b" using b last by (auto split: if_splits)
    have "last ?xs \<in> set ?xs" using ne by (rule last_in_set)
    then have "?P (last ?xs)" by simp
    then show ?thesis using sb least by (auto simp: seg_pay_def)
  qed
  moreover have "LastAppendableBlock s = None \<longleftrightarrow> GetAppendableBlockCnt s = 0"
    using last mem [of "last ?xs"] last_in_set [of ?xs] by (auto simp: GetAppendableBlockCnt_eq split: if_splits)
  ultimately show ?thesis by blast
qed

section \<open>Concrete catalogs\<close>

definition demo_cat :: "(unit, IdAlloctor) Catalog" where
  "demo_cat = MockCatalog \<lparr>alloc_id = 0\<rparr>"

lemma demo_create:
  "CreateDBEntry Alloc demo_env ''db'' (Some 4) demo_cat = Ok (None, \<lparr>db_base = new_base 1 (Some 4), db_name = ''db'', db_dir = empty_dir\<rparr>,
     \<lparr>cat_alloc = (NewIDAllocator \<lparr>alloc_id = 0\<rparr>)\<lparr>dbAlloc := \<lparr>alloc_id = 1\<rparr>\<rparr>,
      cat_dir = \<lparr>entries = [1 \<mapsto> \<lparr>db_base = new_base 1 (Some 4), db_name = ''db'', db_dir = empty_dir\<rparr>],
        nameNodes = [''db'' \<mapsto> [1]], link = [1]\<rparr>\<rparr>)"
  by (simp add: demo_cat_def MockCatalog_def CreateDBEntry_def NewDBEntry_def NextDB_def NewIDAllocator_def Alloc_def
      addEntryLocked_def empty_dir_def Let_def new_base_def sink_def)

theorem create_db_isolated_witness:
  "\<exists>db c'. CreateDBEntry Alloc demo_env ''db'' (Some 4) demo_cat = Ok (None, db, c')
     \<and> GetDBEntry demo_env (\<lambda>_. TxnStateActive) ''db'' 4 c' = Ok db
     \<and> GetDBEntry demo_env (\<lambda>_. TxnStateActive) ''db'' 5 c' = GetDBEntry demo_env (\<lambda>_. TxnStateActive) ''db'' 5 demo_cat"
  using create_db_isolated [OF ida_source _ _ demo_create] demo_create
  by (simp add: demo_cat_def) (simp add: MockCatalog_def NewIDAllocator_def Get_def)


definition demo_db :: "unit DBEntry" where
  "demo_db = \<lparr>db_base = new_base 1 None, db_name = ''db'', db_dir = empty_dir\<rparr>"

lemma demo_create_table:
  "\<exists>tbl db' x'. CreateTableEntry Alloc demo_env (NewEmptySchema ''t'') (Some 4) demo_db (NewIDAllocator \<lparr>alloc_id = 0\<rparr>)
     = Ok (None, tbl, db', x')"
  by (simp add: demo_db_def CreateTableEntry_def NewTableEntry_def NextTable_def NewIDAllocator_def Alloc_def
      addEntryLocked_def empty_dir_def Let_def)

lemma create_table_isolated_example:
  "\<exists>tbl db' x'. CreateTableEntry Alloc demo_env (NewEmptySchema ''t'') (Some 4) demo_db (NewIDAllocator \<lparr>alloc_id = 0\<rparr>)
      = Ok (None, tbl, db', x')
     \<and> GetTableEntry demo_env (\<lambda>_. TxnStateActive) (sc_Name (NewEmptySchema ''t'' :: unit Schema)) 4 db' = Ok tbl"
proof -
  obtain tbl db' x' where c: "CreateTableEntry Alloc demo_env (NewEmptySchema ''t'') (Some 4) demo_db (NewIDAllocator \<lparr>alloc_id = 0\<rparr>)
      = Ok (None, tbl, db', x')"
    using demo_create_table by blast
  have "GetTableEntry demo_env (\<lambda>_. TxnStateActive) (sc_Name (NewEmptySchema ''t'' :: unit Schema)) 4 db' = Ok tbl"
    using create_table_isolated [OF ida_source _ _ c, of demo_env "\<lambda>_. TxnStateActive"]
    by (simp add: demo_db_def NewIDAllocator_def Get_def)
  then show ?thesis using c by blast
qed

definition demo_cat1 :: "(unit, IdAlloctor) Catalog" where
  "demo_cat1 = \<lparr>cat_alloc = (NewIDAllocator \<lparr>alloc_id = 0\<rparr>)\<lparr>dbAlloc := \<lparr>alloc_id = 1\<rparr>\<rparr>,
     cat_dir = \<lparr>entries = [1 \<mapsto> demo_db\<lparr>db_base := (new_base 1 None)\<lparr>CreateAt := 2\<rparr>\<rparr>], nameNodes = [''db'' \<mapsto> [1]], link = [1]\<rparr>\<rparr>"

lemma demo_cat1_ok: "cat_ok Get demo_cat1"
  by (simp add: cat_ok_def dir_ok_def demo_cat1_def demo_db_def new_base_def Get_def empty_dir_def)

lemma demo_drop:
  "\<exists>db c'. DropDBEntry demo_env (\<lambda>_. TxnStateActive) ''db'' 4 demo_cat1 = Ok (db, c')"
  by (simp add: DropDBEntry_def Catalog_txnGetNodeByNameLocked_def TxnGetDBNodeLocked_def visit_step_def db_visit_def visit_defs
      dir_pay_def demo_cat1_def demo_db_def new_base_def demo_env_def NewTxnCtx_def DropEntryLocked_def Let_def)

lemma drop_db_isolated_example:
  "\<exists>db c'. DropDBEntry demo_env (\<lambda>_. TxnStateActive) ''db'' 4 demo_cat1 = Ok (db, c')
     \<and> GetDBEntry demo_env (\<lambda>_. TxnStateActive) ''db'' 4 c' = Err ErrNotFound"
proof -
  obtain db c' where d: "DropDBEntry demo_env (\<lambda>_. TxnStateActive) ''db'' 4 demo_cat1 = Ok (db, c')"
    using demo_drop by blast
  have "GetDBEntry demo_env (\<lambda>_. TxnStateActive) ''db'' 4 c' = Err ErrNotFound"
    using drop_db_isolated [OF demo_cat1_ok _ _ d] by (simp add: demo_env_def NewTxnCtx_def)
  then show ?thesis using d by blast
qed

lemma create_db_outcome_example:
  "\<exists>db c'. CreateDBEntry Alloc demo_env ''db'' (Some 4) demo_cat1 = Ok (Some ErrDuplicate, db, c') \<and> cat_dir c' = cat_dir demo_cat1"
  using create_db_outcome [of demo_cat1 "''db''" 1 "[]" "demo_db\<lparr>db_base := (new_base 1 None)\<lparr>CreateAt := 2\<rparr>\<rparr>" Alloc demo_env 4]
  by (auto simp: demo_cat1_def new_base_def)

lemma recreate_after_remove_panics_example:
  "\<exists>c'. Catalog_RemoveEntry (demo_db\<lparr>db_base := (new_base 1 None)\<lparr>CreateAt := 2\<rparr>\<rparr>) demo_cat1 = Ok c'
     \<and> CreateDBEntry Alloc demo_env ''db'' (Some 4) c' = Panic"
  using recreate_after_remove_panics [OF demo_cat1_ok, of 1 "demo_db\<lparr>db_base := (new_base 1 None)\<lparr>CreateAt := 2\<rparr>\<rparr>" Alloc demo_env "Some 4"]
  by (auto simp: demo_cat1_def demo_db_def)

definition demo_blk :: "u64 \<Rightarrow> u64 \<Rightarrow> BlockEntry" where
  "demo_blk i c = \<lparr>blk_base = (new_base i None)\<lparr>CreateAt := c\<rparr>, blk_segment = 1, blk_table = 1, blk_state = ES_Appendable\<rparr>"

definition demo_seg :: SegmentEntry where
  "demo_seg = \<lparr>seg_base = new_base 1 None, seg_table = 1, seg_entries = [1 \<mapsto> demo_blk 1 3, 2 \<mapsto> demo_blk 2 5],
     seg_link = [2, 1], seg_state = ES_Appendable\<rparr>"

lemma LastAppendableBlock_oldest_example:
  "LastAppendableBlock demo_seg \<noteq> None \<and> GetAppendableBlockCnt demo_seg = 2"
proof -
  have "entries.descending demo_env (map (seg_pay (seg_entries demo_seg)) (seg_link demo_seg))"
    by (simp add: entries.descending_def demo_seg_def seg_pay_def DoCompre_def CompareUint64_def demo_blk_def new_base_def)
  moreover have cnt: "GetAppendableBlockCnt demo_seg = 2"
    by (simp add: GetAppendableBlockCnt_eq demo_seg_def demo_blk_def Block_IsAppendable_def)
  ultimately show ?thesis
    using LastAppendableBlock_oldest [of demo_env demo_seg] by (simp add: demo_seg_def demo_blk_def)
qed

end
