(* ===== verification/Vectors.thy ===== *)
theory Vectors
  imports Common_Base IDs
begin

text \<open>
  The helpers of \<^verbatim>\<open>pkg/txn/txnbase\<close> on identifiers, keys, column vectors and batches:
  \<^verbatim>\<open>kv.go\<close> (keys of catalog entries and rows) and \<^verbatim>\<open>helper.go\<close>
  (\<open>MarshalID\<close>, values of a vector, offsets of a byte column, splitting and encoding a batch).
  Bitmaps (\<^verbatim>\<open>roaring\<close>, \<^verbatim>\<open>roaring64\<close>), the encoding of a column type and the
  batch and vector containers of \<^verbatim>\<open>matrixone\<close> are not part of the repository: their
  operations are arguments, and what the code relies on is stated by \<open>bitmap_laws\<close> and
  \<open>batch_laws\<close>.
\<close>

section \<open>Identifiers and keys\<close>

text \<open>
  The sources ignore the error of \<open>binary.Read\<close> here: the variable keeps its zero value, and
  the failed read has consumed what was left of the buffer.
\<close>

definition or_zero :: "(bytes \<Rightarrow> ('a::len word \<times> bytes) res) \<Rightarrow> bytes \<Rightarrow> 'a word \<times> bytes" where
  "or_zero get bs = (case get bs of Ok xr \<Rightarrow> xr | _ \<Rightarrow> (0, []))"

definition IDSize :: nat where
  "IDSize = 8 + 8 + 8 + 4 + 2 + 1"

definition MarshalID :: "ID \<Rightarrow> bytes" where
  "MarshalID i = put_u64 (TableID i) @ put_u64 (SegmentID i) @ put_u64 (BlockID i) @ put_u32 (PartID i)
     @ put_u16 (Idx i) @ put_u8 (Iter i)"

definition UnmarshalID :: "bytes \<Rightarrow> ID" where
  "UnmarshalID buf =
     (let (t, r1) = or_zero get_u64 buf; (s, r2) = or_zero get_u64 r1; (b, r3) = or_zero get_u64 r2;
          (p, r4) = or_zero get_u32 r3; (x, r5) = or_zero get_u16 r4; (it, r6) = or_zero get_u8 r5
      in \<lparr>TableID = t, SegmentID = s, BlockID = b, PartID = p, Idx = x, Iter = it\<rparr>)"

definition KeyT_DBEntry :: u8 where "KeyT_DBEntry = 0"
definition KeyT_TableEntry :: u8 where "KeyT_TableEntry = 1"
definition KeyT_SegmentEntry :: u8 where "KeyT_SegmentEntry = 2"
definition KeyT_BlockEntry :: u8 where "KeyT_BlockEntry = 3"
definition KeyT_DataRow :: u8 where "KeyT_DataRow = 4"

definition EncodeDB :: "u64 \<Rightarrow> bytes" where
  "EncodeDB db = [KeyT_DBEntry] @ put_u64 db"

definition EncodeTable :: "u64 \<Rightarrow> u64 \<Rightarrow> bytes" where
  "EncodeTable db tb = [KeyT_TableEntry] @ put_u64 db @ put_u64 tb"

definition EncodeSegment :: "u64 \<Rightarrow> u64 \<Rightarrow> u64 \<Rightarrow> bytes" where
  "EncodeSegment db tb sg = [KeyT_SegmentEntry] @ put_u64 db @ put_u64 tb @ put_u64 sg"

definition EncodeBlock :: "u64 \<Rightarrow> u64 \<Rightarrow> u64 \<Rightarrow> u64 \<Rightarrow> bytes" where
  "EncodeBlock db tb sg blk = [KeyT_BlockEntry] @ put_u64 db @ put_u64 tb @ put_u64 sg @ put_u64 blk"

definition EncodeRow :: "u64 \<Rightarrow> u64 \<Rightarrow> u64 \<Rightarrow> u64 \<Rightarrow> u32 \<Rightarrow> bytes" where
  "EncodeRow db tb sg blk offset =
     [KeyT_DataRow] @ put_u64 db @ put_u64 tb @ put_u64 sg @ put_u64 blk @ put_u32 offset"

text \<open>\<open>ReadByte\<close> on an empty buffer returns zero and an error, which is ignored.\<close>

definition Decode :: "bytes \<Rightarrow> u8 \<times> u64 \<times> u64 \<times> u64 \<times> u64" where
  "Decode buf =
     (let (kt, r) = (case buf of [] \<Rightarrow> (0, []) | b # bs \<Rightarrow> (b, bs)) in
      if kt = KeyT_DBEntry then let (db, _) = or_zero get_u64 r in (kt, db, 0, 0, 0)
      else if kt = KeyT_TableEntry then
        let (db, r1) = or_zero get_u64 r; (tb, _) = or_zero get_u64 r1 in (kt, db, tb, 0, 0)
      else if kt = KeyT_SegmentEntry then
        let (db, r1) = or_zero get_u64 r; (tb, r2) = or_zero get_u64 r1; (sg, _) = or_zero get_u64 r2
        in (kt, db, tb, sg, 0)
      else if kt = KeyT_BlockEntry then
        let (db, r1) = or_zero get_u64 r; (tb, r2) = or_zero get_u64 r1; (sg, r3) = or_zero get_u64 r2;
            (blk, _) = or_zero get_u64 r3
        in (kt, db, tb, sg, blk)
      else (kt, 0, 0, 0, 0))"

definition DecodeRow :: "bytes \<Rightarrow> u64 \<times> u64 \<times> u64 \<times> u64 \<times> u32" where
  "DecodeRow buf =
     (let r = drop 1 buf; (db, r1) = or_zero get_u64 r; (tb, r2) = or_zero get_u64 r1;
          (sg, r3) = or_zero get_u64 r2; (blk, r4) = or_zero get_u64 r3; (off, _) = or_zero get_u32 r4
      in (db, tb, sg, blk, off))"

section \<open>Bitmaps\<close>

text \<open>
  The operations of a bitmap over keys \<open>'k\<close> that the code calls; \<open>bm_iter\<close> is the
  sequence of keys that \<open>Iterator()\<close> yields, and \<open>bm_containsNil\<close> is \<open>Contains\<close> called
  on a nil pointer.
\<close>

record ('b, 'k) bitmap =
  bm_new :: 'b
  bm_contains :: "'b \<Rightarrow> 'k \<Rightarrow> bool"
  bm_containsNil :: "'k \<Rightarrow> bool res"
  bm_add :: "'b \<Rightarrow> 'k \<Rightarrow> 'b"
  bm_addRange :: "'b \<Rightarrow> u64 \<Rightarrow> u64 \<Rightarrow> 'b"
  bm_flip :: "'b \<Rightarrow> u64 \<Rightarrow> u64 \<Rightarrow> 'b"
  bm_or :: "'b \<Rightarrow> 'b \<Rightarrow> 'b"
  bm_iter :: "'b \<Rightarrow> 'k list"
  bm_ToBytes :: "'b \<Rightarrow> bytes"
  bm_Unmarshal :: "bytes \<Rightarrow> 'b res"

abbreviation bm_set :: "('b, 'k) bitmap \<Rightarrow> 'b \<Rightarrow> 'k set" where
  "bm_set B b \<equiv> set (bm_iter B b)"

text \<open>The documented behaviour: a set of keys, iterated in ascending order, with half-open ranges.\<close>

definition bitmap_laws :: "('b, 'k::len word) bitmap \<Rightarrow> bool" where
  "bitmap_laws B \<longleftrightarrow>
     (\<forall>b. sorted_wrt (<) (bm_iter B b)) \<and> bm_iter B (bm_new B) = []
     \<and> (\<forall>b x. bm_contains B b x \<longleftrightarrow> x \<in> bm_set B b)
     \<and> (\<forall>b x. bm_set B (bm_add B b x) = insert x (bm_set B b))
     \<and> (\<forall>b lo hi. bm_set B (bm_addRange B b lo hi) = bm_set B b \<union> {x. unat lo \<le> unat x \<and> unat x < unat hi})
     \<and> (\<forall>b lo hi. bm_set B (bm_flip B b lo hi) =
          {x. (x \<in> bm_set B b) \<noteq> (unat lo \<le> unat x \<and> unat x < unat hi)})
     \<and> (\<forall>a b. bm_set B (bm_or B a b) = bm_set B a \<union> bm_set B b)
     \<and> (\<forall>b. \<exists>b'. bm_Unmarshal B (bm_ToBytes B b) = Ok b' \<and> bm_iter B b' = bm_iter B b)"

text \<open>A bitmap as a list of keys shows that the laws can hold.\<close>

fun key_chunks :: "nat \<Rightarrow> nat \<Rightarrow> bytes \<Rightarrow> 'k::len word list" where
  "key_chunks 0 k bs = []"
| "key_chunks (Suc n) k bs = word_of_nat (be_val (take k bs)) # key_chunks n k (drop k bs)"

definition list_bitmap :: "('k::len word list, 'k word) bitmap" where
  "list_bitmap = \<lparr>bm_new = [], bm_contains = (\<lambda>b x. x \<in> set b), bm_containsNil = (\<lambda>_. Panic), bm_add = (\<lambda>b x. x # b),
     bm_addRange = (\<lambda>b lo hi. b @ map word_of_nat [unat lo..<min (unat hi) (2 ^ LENGTH('k))]),
     bm_flip = (\<lambda>b lo hi. filter (\<lambda>x. \<not> (unat lo \<le> unat x \<and> unat x < unat hi)) b
       @ filter (\<lambda>x. x \<notin> set b) (map word_of_nat [unat lo..<min (unat hi) (2 ^ LENGTH('k))])),
     bm_or = (@), bm_iter = (\<lambda>b. sort (remdups b)),
     bm_ToBytes = (\<lambda>b. concat (map (\<lambda>x. be_bytes LENGTH('k) (unat x)) b)),
     bm_Unmarshal = (\<lambda>bs. Ok (key_chunks (length bs div LENGTH('k)) LENGTH('k) bs))\<rparr>"

section \<open>Values and vectors\<close>

text \<open>
  A column is a slice of one of the fixed-size Go types or a pointer to \<open>types.Bytes\<close>, which
  keeps the strings of all rows in one buffer.  The thirteen fixed-size cases of the type switches
  differ in the type only, which is \<open>fixT\<close> here; a type assertion that fails panics.
\<close>

datatype fixT = T_int8 | T_int16 | T_int32 | T_int64 | T_uint8 | T_uint16 | T_uint32 | T_uint64
  | T_decimal | T_float32 | T_float64 | T_date | T_datetime

datatype Oid = Fix fixT | T_char | T_varchar | T_json | T_unsupported

abbreviation is_bytes_oid :: "Oid \<Rightarrow> bool" where
  "is_bytes_oid t \<equiv> t = T_char \<or> t = T_varchar \<or> t = T_json"

text \<open>A Go \<open>interface{}\<close> value; \<open>VErr\<close> is an error stored as a value.\<close>

datatype 'v goval = VNil | VFix fixT 'v | VBytes bytes | VString bytes | VErr go_error

record Bytes =
  Data :: bytes
  Offsets :: "u32 list"
  Lengths :: "u32 list"

datatype 'v column = CFix fixT "'v list" | CBytes Bytes

record ('v, 'n) Vector =
  Typ_Oid :: Oid
  vec_Col :: "'v column"
  vec_Np :: "'n option"

definition AppendValue :: "('v, 'n) Vector \<Rightarrow> 'v goval \<Rightarrow> ('v, 'n) Vector res" where
  "AppendValue vec v =
     (case Typ_Oid vec of
        Fix t \<Rightarrow>
          (case vec_Col vec of
             CFix t' vvals \<Rightarrow>
               if t' \<noteq> t then Panic
               else (case v of VFix t'' x \<Rightarrow> if t'' = t then Ok (vec\<lparr>vec_Col := CFix t (vvals @ [x])\<rparr>) else Panic
                     | _ \<Rightarrow> Panic)
           | CBytes _ \<Rightarrow> Panic)
      | T_unsupported \<Rightarrow> Panic
      | _ \<Rightarrow>
          (case vec_Col vec of
             CFix _ _ \<Rightarrow> Panic
           | CBytes vvals \<Rightarrow>
               (case v of
                  VBytes x \<Rightarrow>
                    Ok (vec\<lparr>vec_Col := CBytes \<lparr>Data = Data vvals @ x,
                      Offsets = Offsets vvals @ [word_of_nat (length (Data vvals))],
                      Lengths = Lengths vvals @ [word_of_nat (length x)]\<rparr>\<rparr>)
                | _ \<Rightarrow> Panic)))"

text \<open>
  The bytes of a row are read with the length as the end of the slice.  The capacity of the buffer
  is taken to be its length.
\<close>

definition GetValue :: "('v, 'n) Vector \<Rightarrow> u32 \<Rightarrow> 'v goval res" where
  "GetValue vec row =
     (case Typ_Oid vec of
        Fix t \<Rightarrow>
          (case vec_Col vec of
             CFix t' vals \<Rightarrow> if t' = t \<and> unat row < length vals then Ok (VFix t (vals ! unat row)) else Panic
           | CBytes _ \<Rightarrow> Panic)
      | T_unsupported \<Rightarrow> Ok (VErr VecTypeNotSupportErr)
      | _ \<Rightarrow>
          (case vec_Col vec of
             CFix _ _ \<Rightarrow> Panic
           | CBytes vals \<Rightarrow>
               if unat row < length (Offsets vals) \<and> unat row < length (Lengths vals) then
                 (let s = unat (Offsets vals ! unat row); e = unat (Lengths vals ! unat row) in
                  if s \<le> e \<and> e \<le> length (Data vals) then Ok (VString (drop s (take e (Data vals)))) else Panic)
               else Panic))"

definition SetFixSizeTypeValue :: "('v, 'n) Vector \<Rightarrow> u32 \<Rightarrow> 'v goval \<Rightarrow> ('v, 'n) Vector res" where
  "SetFixSizeTypeValue vec row val =
     (case Typ_Oid vec of
        Fix t \<Rightarrow>
          (case (vec_Col vec, val) of
             (CFix t' vals, VFix t'' x) \<Rightarrow>
               if t' = t \<and> t'' = t \<and> unat row < length vals then Ok (vec\<lparr>vec_Col := CFix t (vals[unat row := x])\<rparr>)
               else Panic
           | _ \<Rightarrow> Panic)
      | T_unsupported \<Rightarrow> Err VecTypeNotSupportErr
      | _ \<Rightarrow> Ok vec)"

definition DeleteFixSizeTypeValue :: "('v, 'n) Vector \<Rightarrow> u32 \<Rightarrow> ('v, 'n) Vector res" where
  "DeleteFixSizeTypeValue vec row =
     (case Typ_Oid vec of
        Fix t \<Rightarrow>
          (case vec_Col vec of
             CFix t' vals \<Rightarrow>
               if t' = t \<and> unat row \<le> length vals \<and> unat (row + 1) \<le> length vals then
                 Ok (vec\<lparr>vec_Col := CFix t (take (unat row) vals @ drop (unat (row + 1)) vals)\<rparr>)
               else Panic
           | CBytes _ \<Rightarrow> Panic)
      | T_unsupported \<Rightarrow> Err VecTypeNotSupportErr
      | _ \<Rightarrow> Ok vec)"

text \<open>The loop of \<open>UpdateOffsets\<close>; every index is checked.\<close>

function upd_offsets :: "Bytes \<Rightarrow> int \<Rightarrow> int \<Rightarrow> Bytes res" where
  "upd_offsets d i end =
     (if i < end then
        if 0 \<le> i \<and> nat i + 1 < length (Offsets d) \<and> nat i < length (Lengths d) then
          upd_offsets (d\<lparr>Offsets := (Offsets d)[nat i + 1 := Offsets d ! nat i + Lengths d ! nat i]\<rparr>) (i + 1) end
        else Panic
      else Ok d)"
  by auto
termination by (relation "measure (\<lambda>(d, i, end). nat (end - i))") auto

declare upd_offsets.simps [simp del]

definition UpdateOffsets :: "Bytes \<Rightarrow> int \<Rightarrow> int \<Rightarrow> Bytes res" where
  "UpdateOffsets d start end =
     (if start = - 1 then
        if Offsets d = [] then Panic else upd_offsets (d\<lparr>Offsets := (Offsets d)[0 := 0]\<rparr>) 0 end
      else upd_offsets d start end)"

section \<open>Batches\<close>

text \<open>
  The batch and vector containers and the encoding of a column type.  A vector is read back into a
  fresh one of its type and number of rows; an error of \<open>Marshal\<close> and \<open>Unmarshal\<close> is ignored
  by the callers, so both are functions here.
\<close>

record ('bat, 'vec, 'ty) batch_ops =
  bat_GetAttrs :: "'bat \<Rightarrow> int list"
  bat_GetVectorByAttr :: "'bat \<Rightarrow> int \<Rightarrow> 'vec res"
  bat_Length :: "'bat \<Rightarrow> int"
  bat_New :: "int list \<Rightarrow> 'vec list \<Rightarrow> 'bat res"
  vec_New :: "'ty \<Rightarrow> u64 \<Rightarrow> 'vec"
  vec_Marshal :: "'vec \<Rightarrow> bytes"
  vec_Unmarshal :: "'vec \<Rightarrow> bytes \<Rightarrow> 'vec"
  ty_Encode :: "'ty \<Rightarrow> bytes"
  ty_Decode :: "bytes \<Rightarrow> 'ty"
  ty_Size :: nat

fun collect_vecs :: "('bat, 'vec, 'ty) batch_ops \<Rightarrow> 'bat \<Rightarrow> int list \<Rightarrow> 'vec list res" where
  "collect_vecs bo data [] = Ok []"
| "collect_vecs bo data (a # attrs) =
     res_bind (bat_GetVectorByAttr bo data a) (\<lambda>v. res_bind (collect_vecs bo data attrs) (\<lambda>vs. Ok (v # vs)))"

text \<open>The type and the size of every vector; a missing type is an index out of range.\<close>

fun vec_heads :: "('bat, 'vec, 'ty) batch_ops \<Rightarrow> 'ty list \<Rightarrow> bytes list \<Rightarrow> bytes res" where
  "vec_heads bo types [] = Ok []"
| "vec_heads bo [] (b # bufs) = Panic"
| "vec_heads bo (t # types) (b # bufs) =
     res_bind (vec_heads bo types bufs) (\<lambda>h. Ok (ty_Encode bo t @ put_u32 (word_of_nat (length b)) @ h))"

definition MarshalBatch :: "('bat, 'vec, 'ty) batch_ops \<Rightarrow> 'ty list \<Rightarrow> 'bat option \<Rightarrow> bytes res" where
  "MarshalBatch bo types data =
     (case data of
        None \<Rightarrow> Ok []
      | Some bat \<Rightarrow>
          res_bind (collect_vecs bo bat (bat_GetAttrs bo bat)) (\<lambda>vecs.
            let bufs = map (vec_Marshal bo) vecs in
            res_bind (vec_heads bo types bufs) (\<lambda>heads.
              let body = put_u16 (word_of_nat (length vecs)) @ put_u32 (word_of_int (bat_Length bo bat)) @ heads @ concat bufs
              in Ok (put_u32 (word_of_nat (4 + length body)) @ body))))"

fun read_heads :: "('bat, 'vec, 'ty) batch_ops \<Rightarrow> bytes \<Rightarrow> nat \<Rightarrow> nat \<Rightarrow> (('ty \<times> u32) list \<times> nat) res" where
  "read_heads bo buf pos 0 = Ok ([], pos)"
| "read_heads bo buf pos (Suc n) =
     (if pos + ty_Size bo + 4 \<le> length buf then
        res_bind (read_heads bo buf (pos + ty_Size bo + 4) n) (\<lambda>(hs, p).
          Ok ((ty_Decode bo (take (ty_Size bo) (drop pos buf)),
               word_of_nat (be_val (take 4 (drop (pos + ty_Size bo) buf)))) # hs, p))
      else Panic)"

fun read_vecs :: "('bat, 'vec, 'ty) batch_ops \<Rightarrow> bytes \<Rightarrow> nat \<Rightarrow> u32 \<Rightarrow> ('ty \<times> u32) list \<Rightarrow> 'vec list res" where
  "read_vecs bo buf pos rows [] = Ok []"
| "read_vecs bo buf pos rows ((t, len) # hs) =
     (if pos + unat len \<le> length buf then
        res_bind (read_vecs bo buf (pos + unat len) rows hs) (\<lambda>vs.
          Ok (vec_Unmarshal bo (vec_New bo t (ucast rows)) (take (unat len) (drop pos buf)) # vs))
      else Panic)"

definition UnmarshalBatchFrom :: "('bat, 'vec, 'ty) batch_ops \<Rightarrow> bytes \<Rightarrow> ('ty list \<times> 'bat \<times> bytes) res" where
  "UnmarshalBatchFrom bo bs =
     (let (sz, r1) = or_zero get_u32 bs in
      res_bind (buf_read (unat (sz - 4)) r1) (\<lambda>(buf, r2).
        let (vecs, b1) = or_zero get_u16 buf; (rows, b2) = or_zero get_u32 b1 in
        res_bind (read_heads bo buf 6 (unat vecs)) (\<lambda>(hs, pos).
          res_bind (read_vecs bo buf pos rows hs) (\<lambda>cols.
            res_bind (bat_New bo (map int [0..<unat vecs]) cols) (\<lambda>bat. Ok (map fst hs, bat, r2))))))"

text \<open>
  \<open>SplitBatch\<close> cuts the rows of a batch into windows; \<open>win v a b\<close> is the window of the rows
  \<open>a\<close> to \<open>b\<close>.  With \<open>cnt \<le> 0\<close> the division or the allocation panics.
\<close>

fun row_array :: "nat \<Rightarrow> nat \<Rightarrow> int \<Rightarrow> int list" where
  "row_array 0 rows left = []"
| "row_array (Suc n) rows left = (if left \<ge> int rows then int rows else left) # row_array n rows (left - int rows)"

fun cut_rows :: "('vec \<Rightarrow> int \<Rightarrow> int \<Rightarrow> 'vec) \<Rightarrow> 'vec list \<Rightarrow> int \<Rightarrow> int list \<Rightarrow> 'vec list list" where
  "cut_rows win vecs start [] = []"
| "cut_rows win vecs start (row # rs) = map (\<lambda>v. win v start (start + row)) vecs # cut_rows win vecs (start + row) rs"

definition SplitBatch :: "('vec \<Rightarrow> nat) \<Rightarrow> ('vec \<Rightarrow> int \<Rightarrow> int \<Rightarrow> 'vec) \<Rightarrow> 'vec list \<Rightarrow> int \<Rightarrow> 'vec list list res" where
  "SplitBatch len win vecs cnt =
     (if cnt = 1 then Ok [vecs]
      else if vecs = [] \<or> cnt \<le> 0 then Panic
      else
        let l = len (hd vecs); n = nat cnt; rows = l div n in
        if l mod n = 0 then
          Ok (map (\<lambda>i. map (\<lambda>v. win v (int i * int rows) ((int i + 1) * int rows)) vecs) [0..<n])
        else
          Ok (cut_rows win vecs 0 (if l div n = 0 then replicate l 1 else row_array n rows (int l))))"

text \<open>The size of a column is computed in 32 bits.\<close>

definition EstimateSize :: "u32 list \<Rightarrow> u32 \<Rightarrow> u64" where
  "EstimateSize sizes len = foldl (\<lambda>acc s. acc + ucast (len * s)) 0 sizes"

section \<open>Lemmas: bitmaps\<close>

lemma word_range_set:
  "word_of_nat ` {a..<min b (2 ^ LENGTH('k))} = {x :: 'k::len word. a \<le> unat x \<and> unat x < b}"
proof -
  have "x \<in> word_of_nat ` {a..<min b (2 ^ LENGTH('k))}" if "a \<le> unat x" "unat x < b" for x :: "'k word"
    using that unat_less_width [of x] by (intro image_eqI [of _ _ "unat x"]) simp_all
  then show ?thesis by (auto simp: unat_of_nat)
qed

lemma key_chunks_concat:
  "key_chunks (length b) LENGTH('k) (concat (map (\<lambda>x. be_bytes LENGTH('k) (unat x)) b)) = (b :: 'k::len word list)"
proof (induction b)
  case (Cons x b)
  have "unat x < 256 ^ LENGTH('k)"
    using unat_less_width [of x] by (rule less_le_trans) (simp add: power_mono)
  then show ?case using Cons by (simp add: be_val_be_bytes)
qed simp

lemma list_bitmap_laws: "bitmap_laws (list_bitmap :: ('k::len word list, 'k word) bitmap)"
proof -
  have "length (concat (map (\<lambda>x. be_bytes LENGTH('k) (unat x)) b)) = length b * LENGTH('k)" for b :: "'k word list"
    by (induction b) auto
  then show ?thesis
    by (auto simp: bitmap_laws_def list_bitmap_def word_range_set key_chunks_concat strict_sorted_iff)
qed

section \<open>Lemmas: identifiers and keys\<close>

lemma or_zero_get_put [simp]:
  "or_zero get_u64 (put_u64 d @ bs) = (d, bs)" "or_zero get_u32 (put_u32 c @ bs) = (c, bs)"
  "or_zero get_u16 (put_u16 b @ bs) = (b, bs)" "or_zero get_u8 (put_u8 a @ bs) = (a, bs)"
  "or_zero get_u64 (put_u64 d) = (d, [])" "or_zero get_u32 (put_u32 c) = (c, [])"
  "or_zero get_u16 (put_u16 b) = (b, [])" "or_zero get_u8 (put_u8 a) = (a, [])"
  by (simp_all add: or_zero_def)

lemma length_MarshalID [simp]: "length (MarshalID i) = IDSize"
  by (simp add: MarshalID_def IDSize_def)

lemma UnmarshalID_MarshalID [simp, codec_simps]: "UnmarshalID (MarshalID i) = i"
  by (simp add: UnmarshalID_def MarshalID_def)

lemmas key_kind_defs = KeyT_DBEntry_def KeyT_TableEntry_def KeyT_SegmentEntry_def KeyT_BlockEntry_def KeyT_DataRow_def

lemma Decode_encodings [simp]:
  "Decode (EncodeDB db) = (KeyT_DBEntry, db, 0, 0, 0)"
  "Decode (EncodeTable db tb) = (KeyT_TableEntry, db, tb, 0, 0)"
  "Decode (EncodeSegment db tb sg) = (KeyT_SegmentEntry, db, tb, sg, 0)"
  "Decode (EncodeBlock db tb sg blk) = (KeyT_BlockEntry, db, tb, sg, blk)"
  by (simp_all add: Decode_def EncodeDB_def EncodeTable_def EncodeSegment_def EncodeBlock_def key_kind_defs)

text \<open>
  Keys of databases, tables, segments and blocks decode to their kind and identifiers, rows
  to their position, and identifiers survive \<open>MarshalID\<close>: no two different entities share a key.
\<close>

lemma keys_roundtrip:
  "Decode (EncodeDB db) = (KeyT_DBEntry, db, 0, 0, 0)
   \<and> Decode (EncodeTable db tb) = (KeyT_TableEntry, db, tb, 0, 0)
   \<and> Decode (EncodeSegment db tb sg) = (KeyT_SegmentEntry, db, tb, sg, 0)
   \<and> Decode (EncodeBlock db tb sg blk) = (KeyT_BlockEntry, db, tb, sg, blk)
   \<and> DecodeRow (EncodeRow db tb sg blk off) = (db, tb, sg, blk, off)
   \<and> UnmarshalID (MarshalID i) = i \<and> length (MarshalID i) = IDSize"
  by (simp add: DecodeRow_def EncodeRow_def)

section \<open>Lemmas: offsets of a byte column\<close>

text \<open>
  \<open>bytes_rep rows k d\<close>: the buffer and the lengths of \<open>d\<close> are those of the byte strings
  \<open>rows\<close>, and the first \<open>k\<close> offsets are up to date.
\<close>

definition offset_at :: "bytes list \<Rightarrow> nat \<Rightarrow> nat" where
  "offset_at rows j = length (concat (take j rows))"

definition bytes_rep :: "bytes list \<Rightarrow> nat \<Rightarrow> Bytes \<Rightarrow> bool" where
  "bytes_rep rows k d \<longleftrightarrow>
     Data d = concat rows \<and> Lengths d = map (\<lambda>r. word_of_nat (length r)) rows
     \<and> length (Offsets d) = length rows \<and> k \<le> length rows
     \<and> (\<forall>j < k. Offsets d ! j = word_of_nat (offset_at rows j))
     \<and> length (concat rows) < 2 ^ 32"

lemma offset_at_simps [simp]: "offset_at rows 0 = 0"
  by (simp add: offset_at_def)

lemma offset_at_Suc: "j < length rows \<Longrightarrow> offset_at rows (Suc j) = offset_at rows j + length (rows ! j)"
  by (simp add: offset_at_def take_Suc_conv_app_nth)

lemma upd_offsets_rep:
  assumes "bytes_rep rows (Suc i) d" and "e < length rows"
  shows "\<exists>d'. upd_offsets d (int i) (int e) = Ok d' \<and> bytes_rep rows (max (Suc i) (Suc e)) d'"
  using assms
proof (induction "e - i" arbitrary: i d)
  case 0
  then have "upd_offsets d (int i) (int e) = Ok d" by (subst upd_offsets.simps) simp
  then show ?case using 0 by (auto simp: max_def)
next
  case (Suc n)
  let ?d = "d\<lparr>Offsets := (Offsets d)[i + 1 := Offsets d ! i + Lengths d ! i]\<rparr>"
  have i: "i < e" using Suc.hyps by simp
  have v: "Offsets d ! i + Lengths d ! i = word_of_nat (offset_at rows (Suc i))"
    using Suc.prems i by (simp add: bytes_rep_def offset_at_Suc)
  have "\<exists>d'. upd_offsets ?d (int (Suc i)) (int e) = Ok d' \<and> bytes_rep rows (max (Suc (Suc i)) (Suc e)) d'"
  proof (rule Suc.hyps(1))
    show "n = e - Suc i" using Suc.hyps by simp
    show "bytes_rep rows (Suc (Suc i)) ?d"
      using Suc.prems i v by (auto simp: bytes_rep_def nth_list_update less_Suc_eq)
  qed (use Suc.prems in simp)
  moreover have "upd_offsets d (int i) (int e) = upd_offsets ?d (int (Suc i)) (int e)"
    using Suc.prems i by (subst upd_offsets.simps) (simp add: bytes_rep_def ac_simps)
  ultimately show ?case using i by (auto simp: max_def)
qed

text \<open>
  \<open>UpdateOffsets\<close> from the last valid offset brings the offsets up to \<open>end\<close> up to date; asked
  to start before the first row of an empty column it panics.
\<close>

lemma UpdateOffsets_rep:
  assumes "bytes_rep rows k d" and "e < length rows" and "- 1 \<le> s" and "s + 1 \<le> int k"
  shows "\<exists>d'. UpdateOffsets d s (int e) = Ok d' \<and> bytes_rep rows (max (nat (s + 1)) (Suc e)) d'"
proof (cases "s = - 1")
  case True
  have "bytes_rep rows (Suc 0) (d\<lparr>Offsets := (Offsets d)[0 := 0]\<rparr>)"
    using assms by (cases "Offsets d") (auto simp: bytes_rep_def)
  from upd_offsets_rep [OF this assms(2)] show ?thesis
    using True assms by (auto simp: UpdateOffsets_def bytes_rep_def)
next
  case False
  then have "bytes_rep rows (Suc (nat s)) d"
    using assms by (auto simp: bytes_rep_def)
  from upd_offsets_rep [OF this assms(2)] show ?thesis
    using False assms by (auto simp: UpdateOffsets_def nat_add_distrib)
qed

lemma UpdateOffsets_empty: "Offsets d = [] \<Longrightarrow> UpdateOffsets d (- 1) e = Panic"
  by (simp add: UpdateOffsets_def)

section \<open>Values of a vector\<close>

text \<open>
  A fixed-size value that was appended to a vector is read back at its row and leaves the rows
  before it alone.  In a byte column \<open>GetValue\<close> takes the length of the row for the end of the slice:
  it returns the row's bytes when the row is at the start of the buffer, and panics on every row
  whose offset exceeds its length.
\<close>

lemma GetValue_after_append:
  assumes "Typ_Oid vec = Fix t" and "vec_Col vec = CFix t vs" and "length vs < 2 ^ 32"
    and "Typ_Oid vec' = T_varchar" and "vec_Col vec' = CBytes d" and "bytes_rep rows (length rows) d"
    and "unat row < length rows"
  shows "(\<exists>w. AppendValue vec (VFix t x) = Ok w \<and> GetValue w (word_of_nat (length vs)) = Ok (VFix t x)
            \<and> (\<forall>r. unat r < length vs \<longrightarrow> GetValue w r = GetValue vec r))
    \<and> (offset_at rows (unat row) = 0 \<longrightarrow> GetValue vec' row = Ok (VString (rows ! unat row)))
    \<and> (length (rows ! unat row) < offset_at rows (unat row) \<longrightarrow> GetValue vec' row = Panic)"
proof -
  let ?w = "vec\<lparr>vec_Col := CFix t (vs @ [x])\<rparr>"
  have "AppendValue vec (VFix t x) = Ok ?w" using assms by (simp add: AppendValue_def)
  moreover have "GetValue ?w (word_of_nat (length vs)) = Ok (VFix t x)"
    using assms by (simp add: GetValue_def unat_of_nat)
  moreover have "\<forall>r. unat r < length vs \<longrightarrow> GetValue ?w r = GetValue vec r"
    using assms by (simp add: GetValue_def nth_append)
  moreover have "offset_at rows (unat row) = 0 \<longrightarrow> GetValue vec' row = Ok (VString (rows ! unat row))"
    and "length (rows ! unat row) < offset_at rows (unat row) \<longrightarrow> GetValue vec' row = Panic"
  proof -
    define j where "j = unat row"
    have sp: "concat rows = concat (take j rows) @ rows ! j @ concat (drop (Suc j) rows)"
      using assms(7) by (metis append_take_drop_id concat.simps(2) concat_append Cons_nth_drop_Suc j_def)
    have le: "offset_at rows j + length (rows ! j) \<le> length (concat rows)"
      by (subst sp) (simp add: offset_at_def)
    have lt: "length (concat rows) < 2 ^ 32" using assms(6) by (simp add: bytes_rep_def)
    have u: "unat (Offsets d ! j) = offset_at rows j" "unat (Lengths d ! j) = length (rows ! j)"
      using assms(6,7) le lt by (simp_all add: bytes_rep_def j_def unat_of_nat)
    have g: "GetValue vec' row = (if offset_at rows j \<le> length (rows ! j)
        then Ok (VString (drop (offset_at rows j) (take (length (rows ! j)) (concat rows)))) else Panic)"
    proof -
      have "Data d = concat rows" "unat row < length (Offsets d)" "unat row < length (Lengths d)"
        using assms(6,7) by (simp_all add: bytes_rep_def)
      then show ?thesis
        using assms(4,5) le by (auto simp: GetValue_def u [unfolded j_def] j_def Let_def)
    qed
    have "take (length (rows ! j)) (concat rows) = rows ! j" if "offset_at rows j = 0"
    proof -
      have "concat (take j rows) = []" using that unfolding offset_at_def length_0_conv .
      then show ?thesis by (subst sp) (simp only: append_Nil append_eq_conv_conj [symmetric] append.assoc, simp)
    qed
    then show "offset_at rows (unat row) = 0 \<longrightarrow> GetValue vec' row = Ok (VString (rows ! unat row))"
      and "length (rows ! unat row) < offset_at rows (unat row) \<longrightarrow> GetValue vec' row = Panic"
      using g by (auto simp: j_def)
  qed
  ultimately show ?thesis by blast
qed

definition demo_bytes :: Bytes where
  "demo_bytes = \<lparr>Data = [97, 98, 99, 100], Offsets = [0, 3], Lengths = [3, 1]\<rparr>"

lemma GetValue_after_append_example:
  "\<exists>w. AppendValue \<lparr>Typ_Oid = Fix T_int32, vec_Col = CFix T_int32 [5 :: nat], vec_Np = (None :: unit option)\<rparr> (VFix T_int32 6) = Ok w
     \<and> GetValue w 1 = Ok (VFix T_int32 6)
     \<and> GetValue \<lparr>Typ_Oid = T_varchar, vec_Col = (CBytes demo_bytes :: nat column), vec_Np = (None :: unit option)\<rparr> 1 = Panic"
  using GetValue_after_append [of "\<lparr>Typ_Oid = Fix T_int32, vec_Col = CFix T_int32 [5 :: nat], vec_Np = (None :: unit option)\<rparr>"
      T_int32 "[5]" "\<lparr>Typ_Oid = T_varchar, vec_Col = (CBytes demo_bytes :: nat column), vec_Np = (None :: unit option)\<rparr>"
      demo_bytes "[[97, 98, 99], [100]]" 1 6]
  by (auto simp: bytes_rep_def demo_bytes_def offset_at_def All_less_Suc)

section \<open>Encoding a batch\<close>

text \<open>
  What the code relies on: a type has a fixed-size encoding that decodes to it, and the vectors of
  the batch, marshalled, unmarshal to themselves in a fresh vector of their type and the batch's
  number of rows.
\<close>

definition batch_laws :: "('bat, 'vec, 'ty) batch_ops \<Rightarrow> 'ty list \<Rightarrow> 'bat \<Rightarrow> 'vec list \<Rightarrow> bool" where
  "batch_laws bo types bat vecs \<longleftrightarrow>
     (\<forall>t. length (ty_Encode bo t) = ty_Size bo \<and> ty_Decode bo (ty_Encode bo t) = t)
     \<and> list_all2 (\<lambda>a v. bat_GetVectorByAttr bo bat a = Ok v) (bat_GetAttrs bo bat) vecs
     \<and> list_all2 (\<lambda>t v. vec_Unmarshal bo (vec_New bo t (ucast (word_of_int (bat_Length bo bat) :: u32))) (vec_Marshal bo v) = v
          \<and> length (vec_Marshal bo v) < 2 ^ 32) types vecs"

lemma collect_vecs_ok:
  "list_all2 (\<lambda>a v. bat_GetVectorByAttr bo bat a = Ok v) attrs vecs \<Longrightarrow> collect_vecs bo bat attrs = Ok vecs"
  by (induction rule: list_all2_induct) auto

lemma vec_heads_ok:
  "length types = length bufs \<Longrightarrow>
     vec_heads bo types bufs = Ok (concat (map2 (\<lambda>t b. ty_Encode bo t @ put_u32 (word_of_nat (length b))) types bufs))"
  by (induction types bufs rule: list_induct2) auto

lemma be_val_put_u32: "word_of_nat (be_val (put_u32 x)) = (x :: u32)"
  using unat_mod_width(3) [of x] by (simp add: put_u32_def be_val_be_bytes)

lemma take_put_u32 [simp]: "take 4 (put_u32 x @ xs) = put_u32 x" "take 4 (put_u32 x) = put_u32 x"
  using length_put(3) [of x] by simp_all

lemma read_heads_ok:
  assumes "\<forall>t. length (ty_Encode bo t) = ty_Size bo \<and> ty_Decode bo (ty_Encode bo t) = t"
    and "length types = length bufs" and "\<forall>b \<in> set bufs. length b < 2 ^ 32"
  shows "read_heads bo (pre @ concat (map2 (\<lambda>t b. ty_Encode bo t @ put_u32 (word_of_nat (length b))) types bufs) @ post)
      (length pre) (length types)
    = Ok (zip types (map (\<lambda>b. word_of_nat (length b)) bufs), length pre + length types * (ty_Size bo + 4))"
  using assms(2,3)
proof (induction types bufs arbitrary: pre rule: list_induct2)
  case (Cons t ts b bs)
  let ?h = "ty_Encode bo t @ put_u32 (word_of_nat (length b))"
  let ?rest = "concat (map2 (\<lambda>t b. ty_Encode bo t @ put_u32 (word_of_nat (length b))) ts bs) @ post"
  have len: "length (ty_Encode bo t) = ty_Size bo" "ty_Decode bo (ty_Encode bo t) = t" using assms(1) by auto
  have "read_heads bo ((pre @ ?h) @ ?rest) (length (pre @ ?h)) (length ts)
      = Ok (zip ts (map (\<lambda>b. word_of_nat (length b)) bs), length (pre @ ?h) + length ts * (ty_Size bo + 4))"
    using Cons.prems by (intro Cons.IH) auto
  then have "read_heads bo (pre @ ?h @ ?rest) (length pre + ty_Size bo + 4) (length ts)
      = Ok (zip ts (map (\<lambda>b. word_of_nat (length b)) bs), length pre + ty_Size bo + 4 + length ts * (ty_Size bo + 4))"
    by (simp add: len add.assoc)
  then show ?case
    by (simp add: len be_val_put_u32 algebra_simps flip: drop_drop)
qed simp

lemma read_vecs_ok:
  assumes "list_all2 (\<lambda>t v. vec_Unmarshal bo (vec_New bo t (ucast rows)) (vec_Marshal bo v) = v \<and> length (vec_Marshal bo v) < 2 ^ 32) types vecs"
  shows "read_vecs bo (pre @ concat (map (vec_Marshal bo) vecs)) (length pre) rows
      (zip types (map (\<lambda>v. word_of_nat (length (vec_Marshal bo v))) vecs)) = Ok vecs"
  using assms
proof (induction arbitrary: pre rule: list_all2_induct)
  case (Cons t ts v vs)
  let ?b = "vec_Marshal bo v"
  have u: "unat (word_of_nat (length ?b) :: u32) = length ?b" using Cons by (simp add: unat_of_nat)
  have "read_vecs bo ((pre @ ?b) @ concat (map (vec_Marshal bo) vs)) (length (pre @ ?b)) rows
      (zip ts (map (\<lambda>v. word_of_nat (length (vec_Marshal bo v))) vs)) = Ok vs"
    by (rule Cons.IH)
  then show ?case using Cons by (simp add: u)
qed simp

lemma batch_reads_back:
  assumes "batch_laws bo types bat vecs" and "length vecs < 2 ^ 16"
    and "MarshalBatch bo types (Some bat) = Ok buf" and "length buf < 2 ^ 32"
  shows "UnmarshalBatchFrom bo (buf @ bs)
    = res_bind (bat_New bo (map int [0..<length vecs]) vecs) (\<lambda>b. Ok (types, b, bs))"
proof -
  define bufs where "bufs = map (vec_Marshal bo) vecs"
  define rows where "rows = (word_of_int (bat_Length bo bat) :: u32)"
  define heads where "heads = concat (map2 (\<lambda>t b. ty_Encode bo t @ put_u32 (word_of_nat (length b))) types bufs)"
  define body where "body = put_u16 (word_of_nat (length vecs)) @ put_u32 rows @ heads @ concat bufs"
  have laws: "\<forall>t. length (ty_Encode bo t) = ty_Size bo \<and> ty_Decode bo (ty_Encode bo t) = t"
    and col: "collect_vecs bo bat (bat_GetAttrs bo bat) = Ok vecs"
    and vs: "list_all2 (\<lambda>t v. vec_Unmarshal bo (vec_New bo t (ucast rows)) (vec_Marshal bo v) = v
          \<and> length (vec_Marshal bo v) < 2 ^ 32) types vecs"
    using assms(1) by (auto simp: batch_laws_def rows_def intro: collect_vecs_ok)
  have len: "length types = length bufs" "length types = length vecs" using vs by (auto simp: bufs_def dest: list_all2_lengthD)
  have small: "\<forall>b \<in> set bufs. length b < 2 ^ 32"
    using vs by (auto simp: bufs_def list_all2_conv_all_nth in_set_conv_nth)
  have buf: "buf = put_u32 (word_of_nat (4 + length body)) @ body"
    using assms(3) vec_heads_ok [OF len(1), of bo]
    by (simp add: MarshalBatch_def col bufs_def [symmetric] heads_def [symmetric] rows_def [symmetric] body_def Let_def)
  have bl: "4 + length body < 2 ^ 32" using assms(4) by (simp add: buf)
  have sz: "unat (word_of_nat (length body) :: u32) = length body"
    using bl by (simp add: unat_of_nat)
  have n: "unat (word_of_nat (length vecs) :: u16) = length vecs" using assms(2) by (simp add: unat_of_nat)
  have bd: "body = (put_u16 (word_of_nat (length vecs)) @ put_u32 rows) @ heads @ concat bufs" by (simp add: body_def)
  have h: "read_heads bo body 6 (length vecs) = Ok (zip types (map (\<lambda>b. word_of_nat (length b)) bufs), 6 + length types * (ty_Size bo + 4))"
    using read_heads_ok [OF laws len(1) small, of "put_u16 (word_of_nat (length vecs)) @ put_u32 rows" "concat bufs"]
    by (simp add: bd heads_def len(2))
  have hl: "length heads = length types * (ty_Size bo + 4)"
    unfolding heads_def using len(1) laws by (induction types bufs rule: list_induct2) auto
  have v: "read_vecs bo body (6 + length types * (ty_Size bo + 4)) rows (zip types (map (\<lambda>b. word_of_nat (length b)) bufs)) = Ok vecs"
    using read_vecs_ok [OF vs, of "put_u16 (word_of_nat (length vecs)) @ put_u32 rows @ heads"]
    by (simp add: body_def bufs_def hl comp_def)
  have "or_zero get_u16 body = (word_of_nat (length vecs), put_u32 rows @ heads @ concat bufs)" by (simp add: body_def)
  then show ?thesis
    using h v len(1) by (simp add: UnmarshalBatchFrom_def buf sz n)
qed

text \<open>
  A batch survives its encoding: with column types, row count and sizes that fit their fields,
  \<open>MarshalBatch\<close> succeeds and \<open>UnmarshalBatchFrom\<close> consumes exactly its output, whatever follows,
  and rebuilds the batch from the same types and vectors.
\<close>

lemma batch_roundtrip:
  assumes "batch_laws bo types bat vecs" and "length vecs < 2 ^ 16"
    and "MarshalBatch bo types (Some bat) = Ok buf" and "length buf < 2 ^ 32"
  shows "UnmarshalBatchFrom bo (buf @ bs)
    = res_bind (bat_New bo (map int [0..<length vecs]) vecs) (\<lambda>b. Ok (types, b, bs))"
  by (rule batch_reads_back [OF assms])

definition demo_batch :: "(u8 list, u8, u8) batch_ops" where
  "demo_batch = \<lparr>bat_GetAttrs = (\<lambda>b. map int [0..<length b]), bat_GetVectorByAttr = (\<lambda>b i. Ok (b ! nat i)), bat_Length = (\<lambda>_. 1),
     bat_New = (\<lambda>_ vs. Ok vs), vec_New = (\<lambda>_ _. 0), vec_Marshal = (\<lambda>v. [v]), vec_Unmarshal = (\<lambda>_ bs. hd bs),
     ty_Encode = (\<lambda>t. [t]), ty_Decode = (\<lambda>bs. hd bs), ty_Size = 1\<rparr>"

lemma batch_roundtrip_example:
  "\<exists>buf. MarshalBatch demo_batch [3, 4] (Some [7, 8]) = Ok buf
     \<and> UnmarshalBatchFrom demo_batch (buf @ [1]) = Ok ([3, 4], [7, 8], [1])"
proof -
  obtain buf where b: "MarshalBatch demo_batch [3, 4] (Some [7, 8]) = Ok buf" "length buf < 2 ^ 32"
    by (simp add: MarshalBatch_def demo_batch_def Let_def)
  have "batch_laws demo_batch [3, 4] [7, 8] [7, 8]"
    by (simp add: batch_laws_def demo_batch_def)
  from batch_roundtrip [OF this _ b, of "[1]"] b show ?thesis by (simp add: demo_batch_def)
qed

section \<open>Splitting a batch\<close>

text \<open>The rows that the parts of a split cover, in order, as intervals.\<close>

fun consecutive :: "int \<Rightarrow> (int \<times> int) list \<Rightarrow> int \<Rightarrow> bool" where
  "consecutive a [] b \<longleftrightarrow> a = b"
| "consecutive a ((s, e) # xs) b \<longleftrightarrow> s = a \<and> s \<le> e \<and> consecutive e xs b"

lemma consecutive_append: "consecutive a (xs @ ys) c \<longleftrightarrow> (\<exists>b. consecutive a xs b \<and> consecutive b ys c)"
  by (induction a xs c rule: consecutive.induct) auto

lemma row_array_full:
  "int n * int rows \<le> left \<Longrightarrow> row_array n rows left = replicate n (int rows)"
proof (induction n arbitrary: left)
  case (Suc n)
  then have "int rows + int n * int rows \<le> left" by (simp add: algebra_simps)
  moreover have "0 \<le> int n * int rows" by simp
  ultimately have "int rows \<le> left" "int n * int rows \<le> left - int rows" by linarith+
  then show ?case using Suc.IH by simp
qed simp

lemma cut_rows_replicate:
  assumes "0 \<le> r"
  shows "\<exists>ivs. cut_rows win vecs a (replicate n r) = map (\<lambda>(s, e). map (\<lambda>v. win v s e) vecs) ivs
    \<and> length ivs = n \<and> consecutive a ivs (a + int n * r)"
proof (induction n arbitrary: a)
  case (Suc n)
  obtain ivs where ivs: "cut_rows win vecs (a + r) (replicate n r) = map (\<lambda>(s, e). map (\<lambda>v. win v s e) vecs) ivs"
      "length ivs = n" "consecutive (a + r) ivs (a + r + int n * r)"
    using Suc by blast
  show ?case
    by (rule exI [of _ "(a, a + r) # ivs"]) (use ivs assms in \<open>simp add: algebra_simps\<close>)
qed simp

lemma split_even:
  assumes "0 \<le> r"
  shows "consecutive 0 (map (\<lambda>i. (int i * r, (int i + 1) * r)) [0..<n]) (int n * r)"
proof (induction n)
  case (Suc n)
  then show ?case using assms by (simp add: consecutive_append algebra_simps)
qed simp

text \<open>
  \<open>SplitBatch\<close> cuts a batch of \<open>l\<close> rows into consecutive, non-overlapping windows that start at row
  zero.  They cover all rows when the number of parts divides \<open>l\<close> or exceeds it; otherwise the last
  \<open>l mod cnt\<close> rows are in no part.
\<close>

lemma SplitBatch_windows:
  assumes "vecs \<noteq> []" and "1 < cnt" and "l = len (hd vecs)"
  shows "\<exists>ivs. SplitBatch len win vecs cnt = Ok (map (\<lambda>(s, e). map (\<lambda>v. win v s e) vecs) ivs)
    \<and> consecutive 0 ivs (if l < nat cnt then int l else int l - int (l mod nat cnt))"
proof -
  define n where "n = nat cnt"
  have n: "n \<noteq> 0" "cnt \<noteq> 1" "\<not> cnt \<le> 0" using assms by (simp_all add: n_def)
  have dm: "int n * int (l div n) = int l - int (l mod n)"
    by (metis add_diff_cancel_right' mult_div_mod_eq of_nat_add of_nat_mult)
  note sb = SplitBatch_def n assms(1) assms(3) [symmetric] n_def [symmetric] Let_def
  consider "l mod n = 0" | "l mod n \<noteq> 0" "l < n" | "l mod n \<noteq> 0" "n \<le> l" by linarith
  then show ?thesis
  proof cases
    case 1
    have "consecutive 0 (map (\<lambda>i. (int i * int (l div n), (int i + 1) * int (l div n))) [0..<n]) (int n * int (l div n))"
      by (rule split_even) simp
    then show ?thesis using 1 dm
      by (intro exI [of _ "map (\<lambda>i. (int i * int (l div n), (int i + 1) * int (l div n))) [0..<n]"])
        (auto simp: sb)
  next
    case 2
    then obtain ivs where "cut_rows win vecs 0 (replicate l 1) = map (\<lambda>(s, e). map (\<lambda>v. win v s e) vecs) ivs"
        "consecutive 0 ivs (int l)"
      using cut_rows_replicate [of 1 win vecs 0 l] by auto
    then show ?thesis using 2 by (intro exI [of _ ivs]) (simp add: sb)
  next
    case 3
    have "int n * int (l div n) \<le> int l" unfolding dm by simp
    from row_array_full [OF this] obtain ivs where "cut_rows win vecs 0 (row_array n (l div n) (int l))
          = map (\<lambda>(s, e). map (\<lambda>v. win v s e) vecs) ivs" "consecutive 0 ivs (int l - int (l mod n))"
      using cut_rows_replicate [of "int (l div n)" win vecs 0 n] dm by auto
    then show ?thesis using 3 n by (intro exI [of _ ivs]) (simp add: sb div_eq_0_iff)
  qed
qed

lemma SplitBatch_windows_example:
  "\<exists>ivs. SplitBatch length (\<lambda>v s e. drop (nat s) (take (nat e) v)) [[1 :: nat, 2, 3, 4, 5]] 3
      = Ok (map (\<lambda>(s, e). map (\<lambda>v. drop (nat s) (take (nat e) v)) [[1, 2, 3, 4, 5]]) ivs)
    \<and> consecutive 0 ivs 3"
  using SplitBatch_windows [of "[[1 :: nat, 2, 3, 4, 5]]" 3 5 length "\<lambda>v s e. drop (nat s) (take (nat e) v)"]
  by simp

end
