(* ===== verification/WarChecker.thy ===== *)
theory WarChecker
  imports Catalog Vectors
begin

text \<open>
  The read-write conflict check of a committing transaction
  (\<^verbatim>\<open>pkg/txn/txnimpl/antidepend.go\<close>): every catalog entry the transaction has relied on is
  recorded by its key, and before the commit the checker looks each of them up and fails when one has been dropped
  in the meantime.
\<close>

section \<open>Recording what was read\<close>

text \<open>
  The Go map from keys to false is the list of its keys; iterating over it visits them in an
  unspecified order.  The pointers from an entry to its parents are arguments.
\<close>

record warChecker =
  wc_txn :: u64
  symTable :: "bytes list"

definition newWarChecker :: "u64 \<Rightarrow> warChecker" where
  "newWarChecker txn = \<lparr>wc_txn = txn, symTable = []\<rparr>"

definition readSymbol :: "bytes \<Rightarrow> warChecker \<Rightarrow> warChecker" where
  "readSymbol s c = (if s \<in> set (symTable c) then c else c\<lparr>symTable := s # symTable c\<rparr>)"

definition readDBVar :: "'ty DBEntry \<Rightarrow> warChecker \<Rightarrow> warChecker" where
  "readDBVar db = readSymbol (EncodeDB (be_ID (db_base db)))"

definition readTableVar :: "'ty TableEntry \<Rightarrow> warChecker \<Rightarrow> warChecker" where
  "readTableVar tb c =
     (let c1 = readSymbol (EncodeDB (tbl_db tb)) c
      in readSymbol (EncodeTable (tbl_db tb) (be_ID (tbl_base tb))) c1)"

definition readSegmentVar :: "'ty TableEntry \<Rightarrow> SegmentEntry \<Rightarrow> warChecker \<Rightarrow> warChecker" where
  "readSegmentVar tb sg c =
     (let c1 = readSymbol (EncodeDB (tbl_db tb)) c;
          c2 = readSymbol (EncodeTable (tbl_db tb) (be_ID (tbl_base tb))) c1
      in readSymbol (EncodeSegment (tbl_db tb) (be_ID (tbl_base tb)) (be_ID (seg_base sg))) c2)"

text \<open>The second key is built from the table's identifier twice.\<close>

definition readBlockVar :: "'ty TableEntry \<Rightarrow> SegmentEntry \<Rightarrow> BlockEntry \<Rightarrow> warChecker \<Rightarrow> warChecker" where
  "readBlockVar tb sg bk c =
     (let c1 = readSymbol (EncodeDB (tbl_db tb)) c;
          c2 = readSymbol (EncodeTable (be_ID (tbl_base tb)) (be_ID (tbl_base tb))) c1;
          c3 = readSymbol (EncodeSegment (tbl_db tb) (be_ID (tbl_base tb)) (be_ID (seg_base sg))) c2
      in readSymbol (EncodeBlock (tbl_db tb) (be_ID (tbl_base tb)) (be_ID (seg_base sg)) (be_ID (blk_base bk))) c3)"

section \<open>The check\<close>

text \<open>An entry that cannot be found panics.\<close>

definition or_panic :: "'a res \<Rightarrow> 'a res" where
  "or_panic r = (case r of Ok x \<Rightarrow> Ok x | _ \<Rightarrow> Panic)"

text \<open>
  The entry that a key stands for.  \<open>entry\<close> is declared outside the loop: without a database, or
  for a key of another kind, the entry of the previous iteration stays.
\<close>

definition key_entry :: "'ty DBEntry option \<Rightarrow> BaseEntry option \<Rightarrow> bytes \<Rightarrow> BaseEntry option res" where
  "key_entry db prev key =
     (let (keyt, did, tid, sid, bid) = Decode key;
          table = (case db of None \<Rightarrow> Panic | Some d \<Rightarrow> or_panic (GetTableEntryByID tid d))
      in if db \<noteq> None \<and> be_ID (db_base (the db)) \<noteq> did then Panic
         else if keyt = KeyT_DBEntry then Ok (case db of None \<Rightarrow> prev | Some d \<Rightarrow> Some (db_base d))
         else if keyt = KeyT_TableEntry then res_bind table (\<lambda>tb. Ok (Some (tbl_base tb)))
         else if keyt = KeyT_SegmentEntry then
           res_bind table (\<lambda>tb. res_bind (or_panic (GetSegmentByID sid tb)) (\<lambda>sg. Ok (Some (seg_base sg))))
         else if keyt = KeyT_BlockEntry then
           res_bind table (\<lambda>tb. res_bind (or_panic (GetSegmentByID sid tb)) (\<lambda>sg.
             res_bind (or_panic (GetBlockEntryByID bid sg)) (\<lambda>bk. Ok (Some (blk_base bk)))))
         else Ok prev)"

definition check_entry :: "txn_env \<Rightarrow> (u64 \<Rightarrow> TxnStates) \<Rightarrow> u64 \<Rightarrow> BaseEntry \<Rightarrow> unit res" where
  "check_entry env later commitTs e =
     (if DeleteBefore commitTs e then
        if \<not> IsCommitting env e then Err TxnRWConflictErr
        else if waited_state env later e \<noteq> TxnStateRollbacked then Err TxnRWConflictErr
        else Ok ()
      else Ok ())"

fun check_keys ::
  "txn_env \<Rightarrow> (u64 \<Rightarrow> TxnStates) \<Rightarrow> u64 \<Rightarrow> 'ty DBEntry option \<Rightarrow> BaseEntry option \<Rightarrow> bytes list \<Rightarrow> unit res" where
  "check_keys env later commitTs db prev [] = Ok ()"
| "check_keys env later commitTs db prev (k # ks) =
     res_bind (key_entry db prev k) (\<lambda>entry.
     res_bind (case entry of None \<Rightarrow> Ok () | Some e \<Rightarrow> check_entry env later commitTs e) (\<lambda>_.
       check_keys env later commitTs db entry ks))"

text \<open>\<open>order\<close> is the order in which the iteration visits the keys.\<close>

definition check :: "txn_env \<Rightarrow> (u64 \<Rightarrow> TxnStates) \<Rightarrow> 'ty DBEntry option \<Rightarrow> (bytes list \<Rightarrow> bytes list) \<Rightarrow> warChecker \<Rightarrow> unit res" where
  "check env later db order c = check_keys env later (CommitTS (env (wc_txn c))) db None (order (symTable c))"

section \<open>What the check decides\<close>

text \<open>
  The reads of a transaction on a database: the variables \<open>readDBVar\<close>, \<open>readTableVar\<close> and
  \<open>readSegmentVar\<close> record, with the entries that are in the database when the check runs.
\<close>

datatype read_var = RDB | RTable u64 | RSegment u64 u64 | RBlock u64 u64 u64

fun do_read :: "'ty DBEntry \<Rightarrow> read_var \<Rightarrow> warChecker \<Rightarrow> warChecker" where
  "do_read d RDB c = readDBVar d c"
| "do_read d (RTable t) c = (case entries (db_dir d) t of None \<Rightarrow> c | Some tb \<Rightarrow> readTableVar tb c)"
| "do_read d (RSegment t s) c =
     (case entries (db_dir d) t of None \<Rightarrow> c
      | Some tb \<Rightarrow> (case tbl_entries tb s of None \<Rightarrow> c | Some sg \<Rightarrow> readSegmentVar tb sg c))"
| "do_read d (RBlock t s b) c =
     (case entries (db_dir d) t of None \<Rightarrow> c
      | Some tb \<Rightarrow> (case tbl_entries tb s of None \<Rightarrow> c
         | Some sg \<Rightarrow> (case seg_entries sg b of None \<Rightarrow> c | Some bk \<Rightarrow> readBlockVar tb sg bk c)))"

text \<open>The entries that a variable depends on: the entry itself and its parents.\<close>

fun read_entries :: "'ty DBEntry \<Rightarrow> read_var \<Rightarrow> BaseEntry list" where
  "read_entries d RDB = [db_base d]"
| "read_entries d (RTable t) = (case entries (db_dir d) t of None \<Rightarrow> [] | Some tb \<Rightarrow> [db_base d, tbl_base tb])"
| "read_entries d (RSegment t s) =
     (case entries (db_dir d) t of None \<Rightarrow> []
      | Some tb \<Rightarrow> (case tbl_entries tb s of None \<Rightarrow> [] | Some sg \<Rightarrow> [db_base d, tbl_base tb, seg_base sg]))"
| "read_entries d (RBlock t s b) = []"

text \<open>Dropped before the commit, and not by a transaction that is rolled back.\<close>

definition dropped_under :: "txn_env \<Rightarrow> (u64 \<Rightarrow> TxnStates) \<Rightarrow> u64 \<Rightarrow> BaseEntry \<Rightarrow> bool" where
  "dropped_under env later cts e \<longleftrightarrow>
     DeleteAt e \<noteq> 0 \<and> DeleteAt e < cts
     \<and> (\<forall>i. be_Txn e = Some i \<and> CommitTS (env i) \<noteq> UncommitTS \<longrightarrow> GetTxnState True (State (env i)) (later i) \<noteq> TxnStateRollbacked)"

lemma check_entry_iff:
  "check_entry env later cts e = (if dropped_under env later cts e then Err TxnRWConflictErr else Ok ())"
  by (cases "be_Txn e") (auto simp: check_entry_def dropped_under_def DeleteBefore_def IsCommitting_def waited_state_def)

text \<open>Every identifier of the database leads to the entry that has it, with its parent's identifier.\<close>

definition ids_ok :: "'ty DBEntry \<Rightarrow> bool" where
  "ids_ok d \<longleftrightarrow>
     (\<forall>t tb. entries (db_dir d) t = Some tb \<longrightarrow> be_ID (tbl_base tb) = t \<and> tbl_db tb = be_ID (db_base d)
        \<and> (\<forall>s sg. tbl_entries tb s = Some sg \<longrightarrow> be_ID (seg_base sg) = s))"

text \<open>A key that leads to an entry of the database.\<close>

definition key_for :: "'ty DBEntry \<Rightarrow> bytes \<Rightarrow> BaseEntry \<Rightarrow> bool" where
  "key_for d k e \<longleftrightarrow> (\<forall>prev. key_entry (Some d) prev k = Ok (Some e))"

lemma key_for_encodings:
  assumes "ids_ok d"
  shows "key_for d (EncodeDB (be_ID (db_base d))) (db_base d)"
    "entries (db_dir d) t = Some tb \<Longrightarrow> key_for d (EncodeTable (tbl_db tb) (be_ID (tbl_base tb))) (tbl_base tb)"
    "entries (db_dir d) t = Some tb \<Longrightarrow> tbl_entries tb s = Some sg \<Longrightarrow>
       key_for d (EncodeSegment (tbl_db tb) (be_ID (tbl_base tb)) (be_ID (seg_base sg))) (seg_base sg)"
  using assms
  by (auto simp: key_for_def key_entry_def ids_ok_def or_panic_def GetTableEntryByID_def GetSegmentByID_def key_kind_defs Let_def)

lemma check_keys_iff:
  assumes "list_all2 (key_for d) ks es"
  shows "check_keys env later cts (Some d) prev ks
    = (if \<exists>e \<in> set es. dropped_under env later cts e then Err TxnRWConflictErr else Ok ())"
  using assms
  by (induction ks es arbitrary: prev rule: list_all2_induct) (auto simp: key_for_def check_entry_iff)

text \<open>The keys of a checker and the entries they stand for.\<close>

definition sym_ok :: "'ty DBEntry \<Rightarrow> BaseEntry set \<Rightarrow> warChecker \<Rightarrow> bool" where
  "sym_ok d E c \<longleftrightarrow> (\<forall>k \<in> set (symTable c). \<exists>e \<in> E. key_for d k e) \<and> (\<forall>e \<in> E. \<exists>k \<in> set (symTable c). key_for d k e)"

lemma readSymbol_ok: "sym_ok d E c \<Longrightarrow> key_for d k e \<Longrightarrow> sym_ok d (insert e E) (readSymbol k c)"
  by (auto simp: sym_ok_def readSymbol_def)

lemma do_read_ok:
  assumes "ids_ok d" and "sym_ok d E c" and "\<nexists>t s b. v = RBlock t s b"
  shows "sym_ok d (set (read_entries d v) \<union> E) (do_read d v c)"
proof -
  note k = key_for_encodings [OF assms(1)]
  have p: "tbl_db tb = be_ID (db_base d)" if "entries (db_dir d) t = Some tb" for t tb
    using assms(1) that by (auto simp: ids_ok_def)
  show ?thesis
  proof (cases v)
    case RDB
    then show ?thesis using readSymbol_ok [OF assms(2) k(1)] by (simp add: readDBVar_def)
  next
    case (RTable t)
    show ?thesis
    proof (cases "entries (db_dir d) t")
      case (Some tb)
      have "sym_ok d (insert (tbl_base tb) (insert (db_base d) E)) (readTableVar tb c)"
        unfolding readTableVar_def Let_def p [OF Some]
        using k(2) [OF Some] p [OF Some] by (intro readSymbol_ok assms(2) k(1)) simp
      then show ?thesis using RTable Some by (simp add: insert_commute)
    qed (use RTable assms(2) in simp)
  next
    case (RSegment t s)
    show ?thesis
    proof (cases "entries (db_dir d) t")
      case tb: (Some tb)
      show ?thesis
      proof (cases "tbl_entries tb s")
        case (Some sg)
        have "sym_ok d (insert (seg_base sg) (insert (tbl_base tb) (insert (db_base d) E))) (readSegmentVar tb sg c)"
          unfolding readSegmentVar_def Let_def
          using k(2) [OF tb] k(3) [OF tb Some] p [OF tb] by (intro readSymbol_ok assms(2)) (simp_all add: k(1))
        then show ?thesis using RSegment tb Some by (simp add: insert_commute)
      qed (use RSegment tb assms(2) in simp)
    qed (use RSegment assms(2) in simp)
  qed (use assms(3) in auto)
qed

lemma do_reads_ok:
  assumes "ids_ok d" and "\<forall>v \<in> set vs. \<nexists>t s b. v = RBlock t s b"
  shows "sym_ok d E c \<Longrightarrow> sym_ok d (E \<union> \<Union> (set ` read_entries d ` set vs)) (fold (do_read d) vs c)"
  using assms(2)
proof (induction vs arbitrary: E c)
  case (Cons v vs)
  have "sym_ok d ((set (read_entries d v) \<union> E) \<union> \<Union> (set ` read_entries d ` set vs)) (fold (do_read d) vs (do_read d v c))"
    using Cons.prems by (intro Cons.IH do_read_ok [OF assms(1)]) auto
  then show ?case by (simp add: ac_simps)
qed simp


definition demo_dropped :: "unit DBEntry" where
  "demo_dropped = \<lparr>db_base = new_base 1 None, db_name = ''db'',
     db_dir = empty_dir\<lparr>entries := [2 \<mapsto> \<lparr>tbl_base = (new_base 2 None)\<lparr>DeleteAt := 5\<rparr>, tbl_db = 1, tbl_schema = zero_Schema,
       tbl_entries = Map.empty, tbl_link = []\<rparr>]\<rparr>\<rparr>"

definition demo_commit :: txn_env where
  "demo_commit i = \<lparr>txn_ID = i, StartTS = 3, CommitTS = 9, txn_Info = [], State = TxnStateCommitting\<rparr>"


text \<open>
  A block variable is recorded under a table key whose database is the table: unless another key already
  reports a conflict, the check of a transaction that has read a block panics.
\<close>

lemma key_entry_foreign: "be_ID (db_base d) \<noteq> t \<Longrightarrow> key_entry (Some d) prev (EncodeTable t t) = Panic"
  by (simp add: key_entry_def)

lemma check_keys_foreign:
  assumes "EncodeTable t t \<in> set ks" and "be_ID (db_base d) \<noteq> t"
  shows "check_keys env later cts (Some d) prev ks \<noteq> Ok ()"
  using assms(1)
proof (induction ks arbitrary: prev)
  case (Cons k ks)
  then show ?case using key_entry_foreign [OF assms(2)] by (cases "k = EncodeTable t t") auto
qed simp

lemma readBlockVar_check:
  assumes "be_ID (tbl_base tb) \<noteq> be_ID (db_base d)" and "\<And>ks. set (order ks) = set ks"
  shows "check env later (Some d) order (readBlockVar tb sg bk c) \<noteq> Ok ()"
proof -
  have "EncodeTable (be_ID (tbl_base tb)) (be_ID (tbl_base tb)) \<in> set (symTable (readBlockVar tb sg bk c))"
    by (simp add: readBlockVar_def readSymbol_def Let_def)
  then show ?thesis unfolding check_def
    using assms by (intro check_keys_foreign [of "be_ID (tbl_base tb)"]) auto
qed

end
