(* ===== verification/ColUpdates.thy ===== *)
theory ColUpdates
  imports Vectors Schema "HOL-Library.AList"
begin

text \<open>
  \<open>ColumnUpdates\<close> of \<^verbatim>\<open>pkg/updates/colupdates.go\<close>: the new values of one column, merging
  them, and applying new values and deleted rows to a vector.  A Go map is an association list with
  distinct keys; a \<open>range\<close> over it visits the keys in list order, and the theorems depend on the
  finite map only.
\<close>

section \<open>Column updates\<close>

record ('v, 'b, 'ty) ColumnUpdates =
  cu_colDef :: "'ty ColDef option"
  cu_target :: "ID option"
  txnMask :: 'b
  txnVals :: "(u32 \<times> 'v goval) list"

definition NewColumnUpdates ::
  "('b, u32) bitmap \<Rightarrow> ID option \<Rightarrow> 'ty ColDef option \<Rightarrow> ('v, 'b, 'ty) ColumnUpdates" where
  "NewColumnUpdates B target colDef = \<lparr>cu_colDef = colDef, cu_target = target, txnMask = bm_new B, txnVals = []\<rparr>"

definition GetUpdateCntLocked :: "('b, u32) bitmap \<Rightarrow> ('v, 'b, 'ty) ColumnUpdates \<Rightarrow> nat" where
  "GetUpdateCntLocked B n = length (bm_iter B (txnMask n))"

definition Column_UpdateLocked ::
  "('b, u32) bitmap \<Rightarrow> u32 \<Rightarrow> 'v goval \<Rightarrow> ('v, 'b, 'ty) ColumnUpdates \<Rightarrow> ('v, 'b, 'ty) ColumnUpdates res" where
  "Column_UpdateLocked B row v n =
     (case map_of (txnVals n) row of
        Some _ \<Rightarrow> Err TxnWWConflictErr
      | None \<Rightarrow> Ok (n\<lparr>txnMask := bm_add B (txnMask n) row, txnVals := AList.update row v (txnVals n)\<rparr>))"

definition merge_val ::
  "('b, u32) bitmap \<Rightarrow> u32 \<times> 'v goval \<Rightarrow> ('v, 'b, 'ty) ColumnUpdates \<Rightarrow> ('v, 'b, 'ty) ColumnUpdates" where
  "merge_val B kv n = n\<lparr>txnMask := bm_add B (txnMask n) (fst kv), txnVals := AList.update (fst kv) (snd kv) (txnVals n)\<rparr>"

definition Column_MergeLocked ::
  "('b, u32) bitmap \<Rightarrow> ('v, 'b, 'ty) ColumnUpdates \<Rightarrow> ('v, 'b, 'ty) ColumnUpdates \<Rightarrow> ('v, 'b, 'ty) ColumnUpdates" where
  "Column_MergeLocked B q n = fold (merge_val B) (txnVals q) n"

subsection \<open>Applying the new values\<close>

text \<open>The value of a row in the Go map, \<open>nil\<close> when there is none.\<close>

definition val_at :: "('v, 'b, 'ty) ColumnUpdates \<Rightarrow> u32 \<Rightarrow> 'v goval" where
  "val_at n row = (case map_of (txnVals n) row of Some v \<Rightarrow> v | None \<Rightarrow> VNil)"

text \<open>A row with a new value is no longer null.\<close>

definition clear_null :: "('n, u64) bitmap \<Rightarrow> u32 \<Rightarrow> 'n option \<Rightarrow> 'n option" where
  "clear_null N row np =
     (case np of
        None \<Rightarrow> None
      | Some b \<Rightarrow> Some (if bm_contains N b (ucast row) then bm_flip N b (ucast row) (ucast (row + 1)) else b))"

text \<open>
  \<open>SetFixSizeTypeValue\<close> reports an error for an unsupported type only, which this loop never has.
\<close>

fun apply_fixed ::
  "('n, u64) bitmap \<Rightarrow> ('v, 'b, 'ty) ColumnUpdates \<Rightarrow> u32 list \<Rightarrow> ('v, 'n) Vector \<Rightarrow> ('v, 'n) Vector res" where
  "apply_fixed N n [] vec = Ok vec"
| "apply_fixed N n (row # rows) vec =
     (case SetFixSizeTypeValue vec row (val_at n row) of
        Ok vec' \<Rightarrow> apply_fixed N n rows (vec'\<lparr>vec_Np := clear_null N row (vec_Np vec')\<rparr>)
      | Err e \<Rightarrow> apply_fixed N n rows (vec\<lparr>vec_Np := clear_null N row (vec_Np vec)\<rparr>)
      | Panic \<Rightarrow> Panic)"

text \<open>Replacing the bytes of one row: the suffix of the buffer is moved behind the new value.\<close>

definition splice_row :: "Bytes \<Rightarrow> u32 \<Rightarrow> 'v goval \<Rightarrow> Bytes res" where
  "splice_row d row v =
     (case v of
        VBytes val \<Rightarrow>
          let r = unat row in
          if r < length (Offsets d) \<and> r < length (Lengths d)
            \<and> unat (Offsets d ! r + Lengths d ! r) \<le> length (Data d) \<and> unat (Offsets d ! r) \<le> length (Data d)
          then Ok (d\<lparr>Data := take (unat (Offsets d ! r)) (Data d) @ val @ drop (unat (Offsets d ! r + Lengths d ! r)) (Data d),
                     Lengths := (Lengths d)[r := word_of_nat (length val)]\<rparr>)
          else Panic
      | _ \<Rightarrow> Panic)"

fun apply_bytes ::
  "('n, u64) bitmap \<Rightarrow> ('v, 'b, 'ty) ColumnUpdates \<Rightarrow> u32 list \<Rightarrow> int \<Rightarrow> Bytes \<Rightarrow> 'n option \<Rightarrow> (Bytes \<times> 'n option) res" where
  "apply_bytes N n [] pre d np =
     (if pre \<noteq> - 1 then res_bind (UpdateOffsets d pre (int (length (Lengths d)) - 1)) (\<lambda>d'. Ok (d', np)) else Ok (d, np))"
| "apply_bytes N n (row # rows) pre d np =
     res_bind (if pre \<noteq> - 1 then UpdateOffsets d pre (int (unat row)) else Ok d) (\<lambda>d1.
     res_bind (splice_row d1 row (val_at n row)) (\<lambda>d2.
       apply_bytes N n rows (int (unat row)) d2 (clear_null N row np)))"

definition apply_values ::
  "('b, u32) bitmap \<Rightarrow> ('n, u64) bitmap \<Rightarrow> ('v, 'b, 'ty) ColumnUpdates \<Rightarrow> ('v, 'n) Vector \<Rightarrow> ('v, 'n) Vector res" where
  "apply_values B N n vec =
     (let rows = bm_iter B (txnMask n) in
      if rows = [] then Ok vec
      else (case Typ_Oid vec of
              Fix _ \<Rightarrow> apply_fixed N n rows vec
            | T_unsupported \<Rightarrow> Ok vec
            | _ \<Rightarrow> (case vec_Col vec of
                      CFix _ _ \<Rightarrow> Panic
                    | CBytes d \<Rightarrow>
                        res_bind (apply_bytes N n rows (- 1) d (vec_Np vec)) (\<lambda>(d', np).
                          Ok (vec\<lparr>vec_Col := CBytes d', vec_Np := np\<rparr>)))))"

subsection \<open>Applying the deletes\<close>

text \<open>
  The nulls below a deleted row move down by the number of rows deleted before; a null on the
  deleted row is dropped.
\<close>

fun skip_nulls :: "('n, u64) bitmap \<Rightarrow> u32 \<Rightarrow> nat \<Rightarrow> u64 list \<Rightarrow> 'n \<Rightarrow> u64 list \<times> 'n" where
  "skip_nulls N row deleted [] nsp = ([], nsp)"
| "skip_nulls N row deleted (x # xs) nsp =
     (if ucast x < row then skip_nulls N row deleted xs (bm_add N nsp (x - word_of_nat deleted))
      else if ucast x = row then (xs, nsp) else (x # xs, nsp))"

definition rest_nulls :: "('n, u64) bitmap \<Rightarrow> nat \<Rightarrow> u64 list \<Rightarrow> 'n \<Rightarrow> 'n" where
  "rest_nulls N deleted xs nsp = fold (\<lambda>x s. bm_add N s (x - word_of_nat deleted)) xs nsp"

text \<open>\<open>nulls = None\<close>: the vector has no null bitmap to iterate over.\<close>

definition skip_opt :: "('n, u64) bitmap \<Rightarrow> u32 \<Rightarrow> nat \<Rightarrow> u64 list option \<Rightarrow> 'n \<Rightarrow> u64 list option \<times> 'n" where
  "skip_opt N row deleted nulls nsp =
     (case nulls of None \<Rightarrow> (None, nsp) | Some xs \<Rightarrow> (case skip_nulls N row deleted xs nsp of (xs', nsp') \<Rightarrow> (Some xs', nsp')))"

definition rest_opt :: "('n, u64) bitmap \<Rightarrow> nat \<Rightarrow> u64 list option \<Rightarrow> 'n \<Rightarrow> 'n" where
  "rest_opt N deleted nulls nsp = (case nulls of None \<Rightarrow> nsp | Some xs \<Rightarrow> rest_nulls N deleted xs nsp)"

fun shift_nulls :: "('n, u64) bitmap \<Rightarrow> u32 list \<Rightarrow> nat \<Rightarrow> u64 list option \<Rightarrow> 'n \<Rightarrow> 'n" where
  "shift_nulls N [] deleted nulls nsp = rest_opt N deleted nulls nsp"
| "shift_nulls N (row # rows) deleted nulls nsp =
     (case skip_opt N row deleted nulls nsp of (nulls', nsp') \<Rightarrow> shift_nulls N rows (deleted + 1) nulls' nsp')"

text \<open>Removing the bytes, length and offset of one row; the last row is cut off.\<close>

definition cut_row :: "Bytes \<Rightarrow> nat \<Rightarrow> Bytes res" where
  "cut_row d r =
     (if int r = int (length (Lengths d)) - 1 then
        if r < length (Offsets d) \<and> unat (Offsets d ! r) \<le> length (Data d) then
          Ok \<lparr>Data = take (unat (Offsets d ! r)) (Data d), Offsets = take r (Offsets d), Lengths = take r (Lengths d)\<rparr>
        else Panic
      else if r + 1 < length (Offsets d) \<and> r + 1 \<le> length (Lengths d)
          \<and> unat (Offsets d ! r) \<le> length (Data d) \<and> unat (Offsets d ! (r + 1)) \<le> length (Data d) then
        Ok \<lparr>Data = take (unat (Offsets d ! r)) (Data d) @ drop (unat (Offsets d ! (r + 1))) (Data d),
            Offsets = take r (Offsets d) @ drop (r + 1) (Offsets d),
            Lengths = take r (Lengths d) @ drop (r + 1) (Lengths d)\<rparr>
      else Panic)"

fun delete_bytes ::
  "('n, u64) bitmap \<Rightarrow> u32 list \<Rightarrow> nat \<Rightarrow> int \<Rightarrow> Bytes \<Rightarrow> u64 list option \<Rightarrow> 'n \<Rightarrow> (Bytes \<times> 'n) res" where
  "delete_bytes N [] deleted pre d nulls nsp =
     (let nsp' = rest_opt N deleted nulls nsp in
      if pre \<noteq> - 1 then
        res_bind (UpdateOffsets d (pre - 1) (int (length (Lengths d)) - 1)) (\<lambda>d'. Ok (d', nsp'))
      else Ok (d, nsp'))"
| "delete_bytes N (row # rows) deleted pre d nulls nsp =
     (let currRow = row - word_of_nat deleted; r = unat currRow in
      res_bind
        (if pre \<noteq> - 1 then
           UpdateOffsets d (pre - 1) (if int r = int (length (Lengths d)) - 1 then int r else int r + 1)
         else Ok d) (\<lambda>d1.
      res_bind (cut_row d1 r) (\<lambda>d2.
        case skip_opt N row deleted nulls nsp of (nulls', nsp') \<Rightarrow>
          delete_bytes N rows (deleted + 1) (int r) d2 nulls' nsp')))"

definition apply_deletes ::
  "('b, u32) bitmap \<Rightarrow> ('n, u64) bitmap \<Rightarrow> 'b \<Rightarrow> ('v, 'n) Vector \<Rightarrow> ('v, 'n) Vector res" where
  "apply_deletes B N deletes vec =
     (let rows = bm_iter B deletes; nulls = map_option (bm_iter N) (vec_Np vec) in
      if rows = [] then Ok vec
      else (case Typ_Oid vec of
              Fix _ \<Rightarrow>
                (case vec_Col vec of
                   CFix t vals \<Rightarrow>
                     res_bind (InplaceDeleteRows (t = T_int32) vals (map unat rows)) (\<lambda>vals'.
                       Ok (vec\<lparr>vec_Col := CFix t vals', vec_Np := Some (shift_nulls N rows 0 nulls (bm_new N))\<rparr>))
                 | CBytes _ \<Rightarrow> Panic)
            | T_unsupported \<Rightarrow> Ok (vec\<lparr>vec_Np := Some (bm_new N)\<rparr>)
            | _ \<Rightarrow>
                (case vec_Col vec of
                   CFix _ _ \<Rightarrow> Panic
                 | CBytes d \<Rightarrow>
                     res_bind (delete_bytes N rows 0 (- 1) d nulls (bm_new N)) (\<lambda>(d', nsp).
                       Ok (vec\<lparr>vec_Col := CBytes d', vec_Np := Some nsp\<rparr>)))))"

definition ApplyToColumn ::
  "('b, u32) bitmap \<Rightarrow> ('n, u64) bitmap \<Rightarrow> ('v, 'b, 'ty) ColumnUpdates \<Rightarrow> ('v, 'n) Vector \<Rightarrow> 'b option \<Rightarrow> ('v, 'n) Vector res" where
  "ApplyToColumn B N n vec deletes =
     res_bind (apply_values B N n vec) (\<lambda>vec'.
       case deletes of None \<Rightarrow> Ok vec' | Some del \<Rightarrow> apply_deletes B N del vec')"

subsection \<open>Writing and reading\<close>

text \<open>
  The vector container: a fresh vector of a type, its serialised form, and reading that back.
\<close>

record ('ty, 'v, 'n) gvec_ops =
  gv_New :: "'ty \<Rightarrow> ('v, 'n) Vector"
  gv_Show :: "('v, 'n) Vector \<Rightarrow> bytes res"
  gv_Read :: "bytes \<Rightarrow> ('v, 'n) Vector res"

fun append_vals :: "('v, 'b, 'ty) ColumnUpdates \<Rightarrow> u32 list \<Rightarrow> ('v, 'n) Vector \<Rightarrow> ('v, 'n) Vector res" where
  "append_vals n [] col = Ok col"
| "append_vals n (row # rows) col = res_bind (AppendValue col (val_at n row)) (append_vals n rows)"

text \<open>The identifier and the column definition are dereferenced.\<close>

definition Column_WriteTo ::
  "('b, u32) bitmap \<Rightarrow> ('ty, 'v, 'n) gvec_ops \<Rightarrow> ('v, 'b, 'ty) ColumnUpdates \<Rightarrow> bytes res" where
  "Column_WriteTo B G n =
     (case (cu_target n, cu_colDef n) of
        (Some target, Some colDef) \<Rightarrow>
          let buf = bm_ToBytes B (txnMask n) in
          res_bind (append_vals n (bm_iter B (txnMask n)) (gv_New G (cd_Type colDef))) (\<lambda>col.
          res_bind (gv_Show G col) (\<lambda>vbuf.
            Ok (MarshalID target @ put_u32 (word_of_nat (length buf)) @ buf @ put_u32 (word_of_nat (length vbuf)) @ vbuf)))
      | _ \<Rightarrow> Panic)"

text \<open>The values are taken out of the vector at the row numbers of the block.\<close>

fun read_vals :: "('v, 'n) Vector \<Rightarrow> u32 list \<Rightarrow> (u32 \<times> 'v goval) list \<Rightarrow> (u32 \<times> 'v goval) list res" where
  "read_vals vals [] m = Ok m"
| "read_vals vals (row # rows) m = res_bind (GetValue vals row) (\<lambda>v. read_vals vals rows (AList.update row v m))"

definition Column_ReadFrom ::
  "('b, u32) bitmap \<Rightarrow> ('ty, 'v, 'n) gvec_ops \<Rightarrow> ('v, 'b, 'ty) ColumnUpdates \<Rightarrow> bytes \<Rightarrow> (('v, 'b, 'ty) ColumnUpdates \<times> bytes) res" where
  "Column_ReadFrom B G n bs =
     res_bind (buf_read IDSize bs) (\<lambda>(idbuf, r1).
     res_bind (get_u32 r1) (\<lambda>(len, r2).
     res_bind (buf_read (unat len) r2) (\<lambda>(mbuf, r3).
     res_bind (bm_Unmarshal B mbuf) (\<lambda>m.
     res_bind (get_u32 r3) (\<lambda>(vlen, r4).
     res_bind (buf_read (unat vlen) r4) (\<lambda>(vbuf, r5).
     res_bind (gv_Read G vbuf) (\<lambda>vals.
     res_bind (read_vals vals (bm_iter B m) (txnVals n)) (\<lambda>vs.
       Ok (n\<lparr>cu_target := Some (UnmarshalID idbuf), txnMask := m, txnVals := vs\<rparr>, r5)))))))))"

section \<open>Lemmas: bitmaps\<close>

lemma bitmap_lawsD:
  assumes "bitmap_laws B"
  shows "sorted_wrt (<) (bm_iter B b)" "bm_iter B (bm_new B) = []" "bm_contains B b x \<longleftrightarrow> x \<in> bm_set B b"
    "bm_set B (bm_add B b x) = insert x (bm_set B b)"
    "bm_set B (bm_addRange B b lo hi) = bm_set B b \<union> {x. unat lo \<le> unat x \<and> unat x < unat hi}"
    "bm_set B (bm_flip B b lo hi) = {x. (x \<in> bm_set B b) \<noteq> (unat lo \<le> unat x \<and> unat x < unat hi)}"
    "bm_set B (bm_or B a b) = bm_set B a \<union> bm_set B b"
  using assms by (auto simp: bitmap_laws_def)

lemma sorted_unat: "sorted_wrt (<) rows \<Longrightarrow> sorted_wrt (<) (map unat rows)"
  unfolding sorted_wrt_map by (erule sorted_wrt_mono_rel [rotated]) (simp add: word_less_nat_alt)

lemma unat_ucast_up [simp]: "unat (ucast (x :: u32) :: u64) = unat x"
  by (simp add: unsigned_ucast_eq take_bit_nat_eq_self less_trans [OF unat_less_width])

lemma unat_ucast_down: "unat (x :: u64) < 2 ^ 32 \<Longrightarrow> unat (ucast x :: u32) = unat x"
  by (simp add: unsigned_ucast_eq take_bit_nat_eq_self)

section \<open>Lemmas: nulls\<close>

lemma skip_nulls_spec:
  assumes "bitmap_laws N" and "sorted_wrt (<) xs" and "\<forall>x \<in> set xs. unat x < 2 ^ 32"
  shows "\<exists>nsp'. skip_nulls N row k xs nsp = (filter (\<lambda>x. row < ucast x) xs, nsp')
    \<and> bm_set N nsp' = bm_set N nsp \<union> (\<lambda>x. x - word_of_nat k) ` {x \<in> set xs. ucast x < row}"
  using assms(2,3)
proof (induction xs arbitrary: nsp)
  case (Cons x xs)
  have lt: "(ucast x :: u32) < ucast y" if "y \<in> set xs" for y
    using Cons.prems that by (auto simp: word_less_nat_alt unat_ucast_down)
  show ?case
  proof (cases "ucast x < row")
    case True
    then show ?thesis
      using Cons.IH [of "bm_add N nsp (x - word_of_nat k)"] Cons.prems
      by (auto simp: bitmap_lawsD(4) [OF assms(1)])
  next
    case False
    then have "filter (\<lambda>x. row < ucast x) xs = xs" "{y \<in> set (x # xs). ucast y < row} = {}"
      using lt by (fastforce simp: filter_id_conv)+
    then show ?thesis using False by auto
  qed
qed simp

lemma rest_nulls_set:
  assumes "bitmap_laws N"
  shows "bm_set N (rest_nulls N k xs nsp) = bm_set N nsp \<union> (\<lambda>x. x - word_of_nat k) ` set xs"
  unfolding rest_nulls_def
  by (induction xs arbitrary: nsp) (auto simp: bitmap_lawsD(4) [OF assms])

text \<open>Where a null of row \<open>x\<close> ends up when the rows of \<open>rows\<close> are deleted.\<close>

definition shifted :: "u32 set \<Rightarrow> nat \<Rightarrow> u64 \<Rightarrow> u64" where
  "shifted rows k x = x - word_of_nat (k + card {r \<in> rows. r < ucast x})"

lemma shift_nulls_spec:
  assumes "bitmap_laws N" and "sorted_wrt (<) rows" and "sorted_wrt (<) xs" and "\<forall>x \<in> set xs. unat x < 2 ^ 32"
  shows "bm_set N (shift_nulls N rows k (Some xs) nsp)
    = bm_set N nsp \<union> shifted (set rows) k ` {x \<in> set xs. ucast x \<notin> set rows}"
  using assms(2-4)
proof (induction rows arbitrary: k xs nsp)
  case Nil
  then show ?case by (simp add: rest_opt_def rest_nulls_set [OF assms(1)] shifted_def)
next
  case (Cons r rs)
  let ?xs = "filter (\<lambda>x. r < ucast x) xs"
  obtain nsp' where sk: "skip_nulls N r k xs nsp = (?xs, nsp')"
      and s: "bm_set N nsp' = bm_set N nsp \<union> (\<lambda>x. x - word_of_nat k) ` {x \<in> set xs. ucast x < r}"
    using skip_nulls_spec [OF assms(1)] Cons.prems by blast
  have ih: "bm_set N (shift_nulls N rs (k + 1) (Some ?xs) nsp')
      = bm_set N nsp' \<union> shifted (set rs) (k + 1) ` {x \<in> set ?xs. ucast x \<notin> set rs}"
    using Cons.prems by (intro Cons.IH) (auto intro: sorted_wrt_filter)
  have low: "shifted (set (r # rs)) k x = x - word_of_nat k" if "ucast x < r" for x
  proof -
    have "{y \<in> set (r # rs). y < ucast x} = {}" using Cons.prems(1) that by auto
    then show ?thesis by (simp only: shifted_def card.empty add_0_right)
  qed
  have high: "shifted (set (r # rs)) k x = shifted (set rs) (k + 1) x" if "r < ucast x" for x
  proof -
    have "{y \<in> set (r # rs). y < ucast x} = insert r {y \<in> set rs. y < ucast x}" using that by auto
    moreover have "r \<notin> {y \<in> set rs. y < ucast x}" using Cons.prems(1) by auto
    ultimately show ?thesis by (simp add: shifted_def)
  qed
  have split: "{x \<in> set xs. ucast x \<notin> set (r # rs)} = {x \<in> set xs. ucast x < r} \<union> {x \<in> set ?xs. ucast x \<notin> set rs}"
    using Cons.prems(1) by auto
  have "shifted (set (r # rs)) k ` {x \<in> set xs. ucast x \<notin> set (r # rs)}
      = (\<lambda>x. x - word_of_nat k) ` {x \<in> set xs. ucast x < r} \<union> shifted (set rs) (k + 1) ` {x \<in> set ?xs. ucast x \<notin> set rs}"
    unfolding split image_Un using low high by (intro arg_cong2 [where f = "(\<union>)"] image_cong) auto
  then show ?case using ih s by (simp add: skip_opt_def sk Un_assoc)
qed

lemma clear_null_fold:
  assumes "bitmap_laws N" and "\<forall>m \<in> set ms. unat m + 1 < 2 ^ 32"
  shows "\<exists>b'. fold (clear_null N) ms (Some b) = Some b' \<and> bm_set N b' = bm_set N b - ucast ` set ms"
  using assms(2)
proof (induction ms arbitrary: b)
  case (Cons m ms)
  have "unat (m + 1) = Suc (unat m)" using Cons.prems by (simp add: unat_plus_no_wrap)
  then have only: "unat m \<le> unat x \<and> unat x < unat (m + 1) \<longleftrightarrow> x = ucast m" for x :: u64
    by (simp add: word_unat_eq_iff) linarith
  obtain c where c: "clear_null N m (Some b) = Some c" "bm_set N c = bm_set N b - {ucast m}"
  proof
    show "clear_null N m (Some b)
        = Some (if bm_contains N b (ucast m) then bm_flip N b (ucast m) (ucast (m + 1)) else b)"
      by (simp add: clear_null_def)
    show "bm_set N (if bm_contains N b (ucast m) then bm_flip N b (ucast m) (ucast (m + 1)) else b) = bm_set N b - {ucast m}"
      by (auto simp: bitmap_lawsD(3,6) [OF assms(1)] only)
  qed
  then show ?case using Cons.IH [of c] Cons.prems by auto
qed simp

lemma clear_null_None [simp]: "fold (clear_null N) ms None = None"
  by (induction ms) (auto simp: clear_null_def)

section \<open>Lemmas: byte columns\<close>

lemma concat_at: "r < length rows \<Longrightarrow> concat rows = concat (take r rows) @ rows ! r @ concat (drop (Suc r) rows)"
  by (metis append_take_drop_id concat.simps(2) concat_append Cons_nth_drop_Suc)

lemma length_concat_at:
  "r < length rows \<Longrightarrow> length (concat (take r rows)) + length (rows ! r) + length (concat (drop (Suc r) rows)) = length (concat rows)"
  using arg_cong [OF concat_at, of r rows length] by simp

text \<open>Where a valid row starts and ends in the buffer, as machine integers.\<close>

lemma bytes_rep_at:
  assumes "bytes_rep rows k d" and "r < k"
  shows "unat (Offsets d ! r) = offset_at rows r" "unat (Offsets d ! r + Lengths d ! r) = offset_at rows r + length (rows ! r)"
    "offset_at rows r + length (rows ! r) \<le> length (concat rows)" "r < length rows"
    "take (offset_at rows r) (Data d) = concat (take r rows)"
    "drop (offset_at rows r + length (rows ! r)) (Data d) = concat (drop (Suc r) rows)"
proof -
  show r: "r < length rows" using assms by (simp add: bytes_rep_def)
  show le: "offset_at rows r + length (rows ! r) \<le> length (concat rows)"
    by (subst concat_at [OF r]) (simp add: offset_at_def)
  have lt: "length (concat rows) < 2 ^ 32" using assms(1) by (simp add: bytes_rep_def)
  have d: "Offsets d ! r = word_of_nat (offset_at rows r)" "Lengths d ! r = word_of_nat (length (rows ! r))"
    using assms r by (simp_all add: bytes_rep_def)
  show "unat (Offsets d ! r) = offset_at rows r" using le lt by (simp add: d unat_of_nat)
  have "Offsets d ! r + Lengths d ! r = word_of_nat (offset_at rows r + length (rows ! r))" by (simp add: d)
  then show "unat (Offsets d ! r + Lengths d ! r) = offset_at rows r + length (rows ! r)"
    using le lt by (simp only: unat_of_nat) simp
  have "Data d = concat (take r rows) @ rows ! r @ concat (drop (Suc r) rows)"
    using assms(1) concat_at [OF r] by (simp add: bytes_rep_def)
  then show "take (offset_at rows r) (Data d) = concat (take r rows)"
    "drop (offset_at rows r + length (rows ! r)) (Data d) = concat (drop (Suc r) rows)"
    by (simp_all add: offset_at_def)
qed

lemma splice_rep:
  assumes "bytes_rep rows k d" and "unat row < k" and "length (concat rows) + length val < 2 ^ 32"
  shows "\<exists>d'. splice_row d row (VBytes val) = Ok d' \<and> bytes_rep (rows[unat row := val]) (Suc (unat row)) d'"
proof -
  define r where "r = unat row"
  note at = bytes_rep_at [OF assms(1) assms(2) [folded r_def]]
  let ?d = "d\<lparr>Data := concat (take r rows) @ val @ concat (drop (Suc r) rows),
      Lengths := (Lengths d)[r := word_of_nat (length val)]\<rparr>"
  have Dl: "length (Data d) = length (concat rows)" using assms(1) by (simp add: bytes_rep_def)
  have "splice_row d row (VBytes val) = Ok ?d"
    using assms(1) at Dl by (simp add: splice_row_def r_def [symmetric] bytes_rep_def Let_def)
  moreover have "concat (rows[r := val]) = concat (take r rows) @ val @ concat (drop (Suc r) rows)"
    using at by (simp add: upd_conv_take_nth_drop)
  moreover have "length (concat (rows[r := val])) < 2 ^ 32"
  proof -
    have "length (concat (take r rows)) + length (concat (drop (Suc r) rows)) \<le> length (concat rows)"
      using length_concat_at [OF at(4)] by linarith
    then show ?thesis using assms(3) at by (simp add: upd_conv_take_nth_drop)
  qed
  moreover have "offset_at (rows[r := val]) j = offset_at rows j" if "j < Suc r" for j
    using that by (simp add: offset_at_def take_update_cancel)
  ultimately have "bytes_rep (rows[r := val]) (Suc r) ?d"
    using assms at by (auto simp: bytes_rep_def map_update r_def)
  with \<open>splice_row d row (VBytes val) = Ok ?d\<close> show ?thesis unfolding r_def by blast
qed

text \<open>The byte strings of the rows after the new values \<open>ms\<close>, one after the other.\<close>

definition the_bytes :: "'v goval \<Rightarrow> bytes" where
  "the_bytes v = (case v of VBytes b \<Rightarrow> b | _ \<Rightarrow> [])"

definition upd_rows :: "('v, 'b, 'ty) ColumnUpdates \<Rightarrow> u32 list \<Rightarrow> bytes list \<Rightarrow> bytes list" where
  "upd_rows n ms rows = foldl (\<lambda>rs m. rs[unat m := the_bytes (val_at n m)]) rows ms"

lemma length_upd_rows [simp]: "length (upd_rows n ms rows) = length rows"
  unfolding upd_rows_def by (induction ms arbitrary: rows) auto

lemma length_concat_update:
  assumes "r < length rows"
  shows "length (concat (rows[r := val])) \<le> length (concat rows) + length val"
proof -
  have "length (concat (take r rows)) + length (concat (drop (Suc r) rows)) \<le> length (concat rows)"
    using length_concat_at [OF assms] by linarith
  then show ?thesis using assms by (simp add: upd_conv_take_nth_drop)
qed

lemma apply_bytes_spec:
  assumes "bytes_rep rows k d" and "(pre = - 1 \<and> k = length rows) \<or> (0 \<le> pre \<and> k = nat pre + 1)"
    and "sorted_wrt (<) ms" and "\<forall>m \<in> set ms. pre < int (unat m) \<and> unat m < length rows \<and> (\<exists>b. val_at n m = VBytes b)"
    and "length (concat rows) + sum_list (map (\<lambda>m. length (the_bytes (val_at n m))) ms) < 2 ^ 32"
  shows "\<exists>d'. apply_bytes N n ms pre d np = Ok (d', fold (clear_null N) ms np)
    \<and> bytes_rep (upd_rows n ms rows) (length rows) d'"
  using assms
proof (induction ms arbitrary: rows k d pre np)
  case Nil
  have ll: "length (Lengths d) = length rows" using Nil by (simp add: bytes_rep_def)
  show ?case
  proof (cases "pre = - 1")
    case True
    then show ?thesis using Nil by (simp add: upd_rows_def)
  next
    case False
    then have k: "0 \<le> pre" "k = nat pre + 1" "k \<le> length rows" using Nil by (auto simp: bytes_rep_def)
    obtain d' where "UpdateOffsets d pre (int (length rows - 1)) = Ok d'"
        "bytes_rep rows (max (nat (pre + 1)) (Suc (length rows - 1))) d'"
      using UpdateOffsets_rep [OF Nil(1), of "length rows - 1" pre] k by force
    moreover have "max (nat (pre + 1)) (Suc (length rows - 1)) = length rows" using k by (auto simp: max_def)
    ultimately show ?thesis using False k ll by (simp add: upd_rows_def of_nat_diff)
  qed
next
  case (Cons m ms)
  obtain b where b: "val_at n m = VBytes b" using Cons.prems by auto
  have m: "pre < int (unat m)" "unat m < length rows" using Cons.prems by auto
  have sz: "length (concat rows) + length b < 2 ^ 32" using Cons.prems(5) by (simp add: b the_bytes_def)
  obtain d1 k1 where d1: "(if pre \<noteq> - 1 then UpdateOffsets d pre (int (unat m)) else Ok d) = Ok d1"
      "bytes_rep rows k1 d1" "unat m < k1"
  proof (cases "pre = - 1")
    case True
    then show ?thesis using Cons.prems m that [of d k] by auto
  next
    case False
    then have "0 \<le> pre" "k = nat pre + 1" using Cons.prems by auto
    then obtain d' where "UpdateOffsets d pre (int (unat m)) = Ok d'" "bytes_rep rows (max (nat (pre + 1)) (Suc (unat m))) d'"
      using UpdateOffsets_rep [OF Cons.prems(1) m(2), of pre] by auto
    then show ?thesis using False that [of d' "max (nat (pre + 1)) (Suc (unat m))"] by simp
  qed
  obtain d2 where d2: "splice_row d1 m (val_at n m) = Ok d2" "bytes_rep (rows[unat m := b]) (Suc (unat m)) d2"
    unfolding b using splice_rep [OF d1(2,3) sz] by blast
  have "\<exists>d'. apply_bytes N n ms (int (unat m)) d2 (clear_null N m np) = Ok (d', fold (clear_null N) ms (clear_null N m np))
    \<and> bytes_rep (upd_rows n ms (rows[unat m := b])) (length (rows[unat m := b])) d'"
  proof (rule Cons.IH [OF d2(2)])
    show "\<forall>x \<in> set ms. int (unat m) < int (unat x) \<and> unat x < length (rows[unat m := b]) \<and> (\<exists>b. val_at n x = VBytes b)"
      using Cons.prems(3,4) by (auto simp: word_less_nat_alt uint_nat simp del: of_nat_unat)
    show "length (concat (rows[unat m := b])) + sum_list (map (\<lambda>m. length (the_bytes (val_at n m))) ms) < 2 ^ 32"
      using Cons.prems(5) length_concat_update [OF m(2), of b] by (simp add: b the_bytes_def)
  qed (use Cons.prems in auto)
  moreover have "apply_bytes N n (m # ms) pre d np = apply_bytes N n ms (int (unat m)) d2 (clear_null N m np)"
    by (simp only: apply_bytes.simps d1(1) res_bind.simps d2(1))
  moreover have "upd_rows n (m # ms) rows = upd_rows n ms (rows[unat m := b])"
    by (simp add: upd_rows_def the_bytes_def b)
  ultimately show ?case by (simp only: fold_simps length_list_update)
qed

lemma cut_row_rep:
  assumes "bytes_rep cur k d" and "r < k" and "r \<noteq> length cur - 1 \<longrightarrow> Suc r < k"
  shows "\<exists>d'. cut_row d r = Ok d' \<and> bytes_rep (take r cur @ drop (Suc r) cur) r d'"
proof -
  note at = bytes_rep_at [OF assms(1,2)]
  have ll: "length (Lengths d) = length cur" "length (Offsets d) = length cur" "length (Data d) = length (concat cur)"
    "k \<le> length cur" "Lengths d = map (\<lambda>r. word_of_nat (length r)) cur"
    using assms(1) by (auto simp: bytes_rep_def)
  have off: "\<forall>j < r. Offsets d ! j = word_of_nat (offset_at (take r cur @ drop (Suc r) cur) j)"
    using assms(1,2) by (auto simp: bytes_rep_def offset_at_def)
  have total: "length (concat (take r cur @ drop (Suc r) cur)) < 2 ^ 32"
  proof -
    have "length (concat (take r cur @ drop (Suc r) cur)) \<le> length (concat cur)"
      using length_concat_at [OF at(4)] by simp
    then show ?thesis using assms(1) by (auto simp: bytes_rep_def)
  qed
  show ?thesis
  proof (cases "r = length cur - 1")
    case True
    then have lc: "length cur = Suc r" using at(4) by simp
    then have dr: "drop (Suc r) cur = []" by simp
    have "cut_row d r = Ok \<lparr>Data = concat (take r cur), Offsets = take r (Offsets d), Lengths = take r (Lengths d)\<rparr>"
      using lc at ll(1-4) by (simp add: cut_row_def)
    moreover have "bytes_rep (take r cur) r \<lparr>Data = concat (take r cur), Offsets = take r (Offsets d), Lengths = take r (Lengths d)\<rparr>"
      using lc ll off total unfolding dr by (simp add: bytes_rep_def take_map)
    ultimately show ?thesis unfolding dr by simp
  next
    case False
    then have s: "Suc r < k" using assms(3) by simp
    have nx: "unat (Offsets d ! Suc r) = offset_at cur r + length (cur ! r)"
      using bytes_rep_at(1) [OF assms(1) s] at(4) by (simp add: offset_at_Suc)
    have o: "\<forall>j < r. (take r (Offsets d) @ drop (Suc r) (Offsets d)) ! j = Offsets d ! j"
      using at ll by (simp add: nth_append)
    have "int r \<noteq> int (length cur) - 1" using False at(4) by linarith
    then show ?thesis
      using False at ll off total s o nx
      by (auto simp: cut_row_def bytes_rep_def take_map drop_map)
  qed
qed

text \<open>Deleting the rows \<open>ds\<close> of the original column one after the other, \<open>k\<close> of them being gone.\<close>

fun del_rows :: "u32 list \<Rightarrow> nat \<Rightarrow> 'a list \<Rightarrow> 'a list" where
  "del_rows [] k cur = cur"
| "del_rows (r # rs) k cur = del_rows rs (Suc k) (take (unat r - k) cur @ drop (Suc (unat r - k)) cur)"

lemma del_rows_nths:
  assumes "sorted_wrt (<) ds" and "\<forall>r \<in> set ds. k + length P \<le> unat r \<and> unat r < length arr" and "k + length P \<le> length arr"
  shows "del_rows ds k (P @ drop (k + length P) arr) = P @ nths (drop (k + length P) arr) {i. k + length P + i \<notin> unat ` set ds}"
  using assms
proof (induction ds arbitrary: k P)
  case (Cons r rs)
  define nx where "nx = k + length P"
  have r: "nx \<le> unat r" "unat r < length arr" "\<forall>x \<in> set rs. unat r < unat x"
    using Cons.prems by (auto simp: nx_def word_less_nat_alt)
  let ?P = "P @ drop nx (take (unat r) arr)"
  have P: "Suc k + length ?P = Suc (unat r)" using r Cons.prems(3) by (simp add: nx_def)
  have "take (unat r - k) (P @ drop nx arr) = ?P"
    using r Cons.prems(3) by (simp add: nx_def take_drop)
  moreover have "drop (Suc (unat r - k)) (P @ drop nx arr) = drop (Suc (unat r)) arr"
    using r by (simp add: nx_def Suc_diff_le)
  ultimately have "del_rows (r # rs) k (P @ drop nx arr) = del_rows rs (Suc k) (?P @ drop (Suc k + length ?P) arr)"
    by (simp only: del_rows.simps P)
  also have "\<dots> = ?P @ nths (drop (Suc (unat r)) arr) {i. Suc (unat r) + i \<notin> unat ` set rs}"
  proof -
    have "\<forall>x \<in> set rs. Suc k + length ?P \<le> unat x \<and> unat x < length arr" using r(3) Cons.prems(2) unfolding P by auto
    from Cons.IH [OF _ this] show ?thesis using Cons.prems(1) r(2) unfolding P by simp
  qed
  also have "\<dots> = P @ nths (drop nx arr) {i. nx + i \<notin> unat ` set (r # rs)}"
    using nths_skip [OF r(1,2), of "map unat rs"] r(3) by simp
  finally show ?case by (simp add: nx_def)
qed (simp add: nths_all)

lemma del_rows_all:
  assumes "sorted_wrt (<) ds" and "\<forall>r \<in> set ds. unat r < length arr"
  shows "del_rows ds 0 arr = nths arr {i. i \<notin> unat ` set ds}"
  using del_rows_nths [of ds 0 "[]" arr] assms by simp

lemma delete_bytes_spec:
  assumes "bytes_rep cur k d" and "(pre = - 1 \<and> k = length cur) \<or> (0 \<le> pre \<and> k = nat pre)"
    and "sorted_wrt (<) ds"
    and "\<forall>r \<in> set ds. deleted \<le> unat r \<and> pre \<le> int (unat r) - int deleted \<and> unat r - deleted < length cur"
  shows "if pre \<noteq> - 1 \<and> del_rows ds deleted cur = [] \<or> ds \<noteq> [] \<and> del_rows ds deleted cur = []
     then delete_bytes N ds deleted pre d nulls nsp = Panic
     else \<exists>d'. delete_bytes N ds deleted pre d nulls nsp = Ok (d', shift_nulls N ds deleted nulls nsp)
       \<and> bytes_rep (del_rows ds deleted cur) (length (del_rows ds deleted cur)) d'"
  using assms
proof (induction ds arbitrary: cur k d pre deleted nulls nsp)
  case Nil
  have ll: "length (Lengths d) = length cur" "length (Offsets d) = length cur" "k \<le> length cur" using Nil by (auto simp: bytes_rep_def)
  show ?case
  proof (cases "pre = - 1")
    case True
    then show ?thesis using Nil by simp
  next
    case False
    then have k: "0 \<le> pre" "k = nat pre" using Nil by auto
    show ?thesis
    proof (cases "cur = []")
      case True
      then show ?thesis using False k ll by (simp add: UpdateOffsets_empty)
    next
      case False
      then have "length cur - 1 < length cur" "int (length cur - 1) = int (length cur) - 1" by (simp_all add: Suc_leI of_nat_diff)
      then obtain d' where "UpdateOffsets d (pre - 1) (int (length cur) - 1) = Ok d'"
          "bytes_rep cur (max (nat pre) (Suc (length cur - 1))) d'"
        using UpdateOffsets_rep [OF Nil(1), of "length cur - 1" "pre - 1"] k by auto
      moreover have "max (nat pre) (Suc (length cur - 1)) = length cur" using k ll False by (auto simp: max_def)
      ultimately show ?thesis using False \<open>pre \<noteq> - 1\<close> ll by simp
    qed
  qed
next
  case (Cons r rs)
  define i where "i = unat r - deleted"
  have r: "deleted \<le> unat r" "pre \<le> int i" "i < length cur" using Cons.prems(4) by (auto simp: i_def of_nat_diff)
  have ur: "unat (r - word_of_nat deleted) = i"
  proof -
    have "unat (word_of_nat deleted :: u32) = deleted"
      using r(1) unat_less_width [of r] by (simp add: unat_of_nat)
    then show ?thesis using r(1) by (simp add: unat_minus_le i_def)
  qed
  have ll: "length (Lengths d) = length cur" "k \<le> length cur" using Cons.prems by (auto simp: bytes_rep_def)
  obtain d1 k1 where d1: "(if pre \<noteq> - 1 then UpdateOffsets d (pre - 1) (if int i = int (length (Lengths d)) - 1 then int i else int i + 1) else Ok d) = Ok d1"
      "bytes_rep cur k1 d1" "i < k1" "i \<noteq> length cur - 1 \<longrightarrow> Suc i < k1"
  proof (cases "pre = - 1")
    case True
    then show ?thesis using Cons.prems(1,2) r(3) by (intro that [of d k]) auto
  next
    case False
    then have k: "0 \<le> pre" "k = nat pre" using Cons.prems by auto
    define e where "e = (if Suc i = length cur then i else Suc i)"
    have e: "e < length cur" "(if int i = int (length (Lengths d)) - 1 then int i else int i + 1) = int e"
      using r(3) ll by (auto simp: e_def)
    obtain d' where d': "UpdateOffsets d (pre - 1) (int e) = Ok d'" "bytes_rep cur (max (nat pre) (Suc e)) d'"
      using UpdateOffsets_rep [OF Cons.prems(1) e(1), of "pre - 1"] k by auto
    show ?thesis
      by (rule that [OF _ d'(2)]) (use False d'(1) e(2) r(3) in \<open>auto simp: e_def split: if_splits\<close>)
  qed
  let ?cur = "take i cur @ drop (Suc i) cur"
  obtain d2 where d2: "cut_row d1 i = Ok d2" "bytes_rep ?cur i d2"
    using cut_row_rep [OF d1(2-4)] by blast
  obtain nulls' nsp' where sk: "skip_opt N r deleted nulls nsp = (nulls', nsp')" by (metis surj_pair)
  have step: "delete_bytes N (r # rs) deleted pre d nulls nsp = delete_bytes N rs (Suc deleted) (int i) d2 nulls' nsp'"
    by (simp only: delete_bytes.simps Let_def ur d1(1) res_bind.simps d2(1) sk case_prod_conv Suc_eq_plus1)
  have rs: "\<forall>x \<in> set rs. Suc deleted \<le> unat x \<and> int i \<le> int (unat x) - int (Suc deleted) \<and> unat x - Suc deleted < length ?cur"
  proof
    fix x assume "x \<in> set rs"
    then have "unat r < unat x" "unat x - deleted < length cur" using Cons.prems(3,4) by (auto simp: word_less_nat_alt)
    then show "Suc deleted \<le> unat x \<and> int i \<le> int (unat x) - int (Suc deleted) \<and> unat x - Suc deleted < length ?cur"
      using r unfolding i_def by (auto simp: uint_nat simp del: of_nat_unat)
  qed
  have ih: "if int i \<noteq> - 1 \<and> del_rows rs (Suc deleted) ?cur = [] \<or> rs \<noteq> [] \<and> del_rows rs (Suc deleted) ?cur = []
     then delete_bytes N rs (Suc deleted) (int i) d2 nulls' nsp' = Panic
     else \<exists>d'. delete_bytes N rs (Suc deleted) (int i) d2 nulls' nsp' = Ok (d', shift_nulls N rs (Suc deleted) nulls' nsp')
       \<and> bytes_rep (del_rows rs (Suc deleted) ?cur) (length (del_rows rs (Suc deleted) ?cur)) d'"
    using Cons.prems(3) by (intro Cons.IH [OF d2(2) _ _ rs]) auto
  have dr: "del_rows (r # rs) deleted cur = del_rows rs (Suc deleted) ?cur" by (simp add: i_def)
  have sn: "shift_nulls N (r # rs) deleted nulls nsp = shift_nulls N rs (Suc deleted) nulls' nsp'" by (simp add: sk)
  show ?case using ih unfolding step dr sn by (auto split: if_splits)
qed

section \<open>Applying updates and deletes\<close>

text \<open>The rows of a column after the new values of \<open>n\<close>, in terms of the finite map.\<close>

lemma upd_rows_nth:
  assumes "sorted_wrt (<) ms" and "i < length rows"
  shows "upd_rows n ms rows ! i = (if i \<in> unat ` set ms then the_bytes (val_at n (word_of_nat i)) else rows ! i)"
  using assms
proof (induction ms arbitrary: rows)
  case (Cons m ms)
  have "upd_rows n (m # ms) rows = upd_rows n ms (rows[unat m := the_bytes (val_at n m)])"
    by (simp add: upd_rows_def)
  moreover have "unat m \<notin> unat ` set ms" using Cons.prems(1) by (auto simp flip: word_unat_eq_iff)
  ultimately show ?case using Cons by (auto simp: nth_list_update)
qed (simp add: upd_rows_def)

text \<open>
  What applying a set of updates and deletes to a byte column should give: rows with a new value
  take it, then the deleted rows disappear.
\<close>

definition merged_rows :: "('v, 'b, 'ty) ColumnUpdates \<Rightarrow> u32 set \<Rightarrow> u32 set \<Rightarrow> bytes list \<Rightarrow> bytes list" where
  "merged_rows n ups dels rows =
     nths (map (\<lambda>i. if word_of_nat i \<in> ups then the_bytes (val_at n (word_of_nat i)) else rows ! i) [0..<length rows])
       {i. word_of_nat i \<notin> dels}"

lemma upd_rows_map:
  assumes "sorted_wrt (<) ms" and "length rows < 2 ^ 32"
  shows "upd_rows n ms rows
    = map (\<lambda>i. if word_of_nat i \<in> set ms then the_bytes (val_at n (word_of_nat i)) else rows ! i) [0..<length rows]"
proof (rule nth_equalityI)
  fix i assume "i < length (upd_rows n ms rows)"
  then have i: "i < length rows" by simp
  have "i \<in> unat ` set ms \<longleftrightarrow> word_of_nat i \<in> set ms"
    using i assms(2) by (auto simp: unat_of_nat image_iff intro!: bexI [of _ "word_of_nat i"])
  then show "upd_rows n ms rows ! i
      = map (\<lambda>i. if word_of_nat i \<in> set ms then the_bytes (val_at n (word_of_nat i)) else rows ! i) [0..<length rows] ! i"
    using upd_rows_nth [OF assms(1) i, of n] i by simp
qed simp

lemma nths_cong_length: "(\<And>i. i < length xs \<Longrightarrow> i \<in> A \<longleftrightarrow> i \<in> B) \<Longrightarrow> nths xs A = nths xs B"
  unfolding nths_def by (rule arg_cong [where f = "map fst"], rule filter_cong) (auto simp: set_zip)

text \<open>What a null bitmap should hold after the updates and deletes.\<close>

definition merged_nulls :: "u32 set \<Rightarrow> u32 set \<Rightarrow> u64 set \<Rightarrow> u64 set" where
  "merged_nulls ups dels nulls = shifted dels 0 ` {x \<in> nulls - ucast ` ups. ucast x \<notin> dels}"

definition opt_set :: "('b, 'k) bitmap \<Rightarrow> 'b option \<Rightarrow> 'k set" where
  "opt_set B d = (case d of None \<Rightarrow> {} | Some b \<Rightarrow> bm_set B b)"

lemma del_rows_upd:
  assumes "sorted_wrt (<) ms" and "sorted_wrt (<) ds" and "\<forall>r \<in> set ds. unat r < length rows" and "length rows < 2 ^ 32"
  shows "del_rows ds 0 (upd_rows n ms rows) = merged_rows n (set ms) (set ds) rows"
proof -
  have "del_rows ds 0 (upd_rows n ms rows) = nths (upd_rows n ms rows) {i. i \<notin> unat ` set ds}"
    using assms(2,3) by (intro del_rows_all) simp_all
  also have "\<dots> = nths (upd_rows n ms rows) {i. word_of_nat i \<notin> set ds}"
  proof (rule nths_cong_length)
    fix i assume "i < length (upd_rows n ms rows)"
    then have "unat (word_of_nat i :: u32) = i" using assms(4) by (simp add: unat_of_nat)
    then have "i \<in> unat ` set ds \<longleftrightarrow> word_of_nat i \<in> set ds"
      by (auto intro: image_eqI [of _ unat "word_of_nat i"])
    then show "i \<in> {i. i \<notin> unat ` set ds} \<longleftrightarrow> i \<in> {i. word_of_nat i \<notin> set ds}" by simp
  qed
  finally show ?thesis unfolding merged_rows_def upd_rows_map [OF assms(1,4)] .
qed

lemma apply_values_bytes:
  assumes "bitmap_laws B" and "is_bytes_oid (Typ_Oid vec)" and "vec_Col vec = CBytes d" and "bytes_rep rows (length rows) d"
    and "\<forall>m \<in> bm_set B (txnMask n). unat m < length rows \<and> (\<exists>b. val_at n m = VBytes b)"
    and "length (concat rows) + sum_list (map (\<lambda>m. length (the_bytes (val_at n m))) (bm_iter B (txnMask n))) < 2 ^ 32"
  shows "\<exists>d'. apply_values B N n vec
      = Ok (vec\<lparr>vec_Col := CBytes d', vec_Np := fold (clear_null N) (bm_iter B (txnMask n)) (vec_Np vec)\<rparr>)
    \<and> bytes_rep (upd_rows n (bm_iter B (txnMask n)) rows) (length rows) d'"
proof -
  let ?ms = "bm_iter B (txnMask n)"
  have neg: "- 1 < uint m" for m :: u32 by (rule less_le_trans [of _ 0]) simp_all
  obtain d' where d': "apply_bytes N n ?ms (- 1) d (vec_Np vec) = Ok (d', fold (clear_null N) ?ms (vec_Np vec))"
      "bytes_rep (upd_rows n ?ms rows) (length rows) d'"
    using apply_bytes_spec [OF assms(4), of "- 1" ?ms n N "vec_Np vec"] assms(5,6) bitmap_lawsD(1) [OF assms(1)] neg by auto
  show ?thesis
  proof (cases "?ms = []")
    case True
    then have "d' = d" using d'(1) by simp
    then show ?thesis using True d'(2) assms(3) by (intro exI [of _ d']) (simp add: apply_values_def)
  next
    case False
    then show ?thesis using d' assms(2,3) by (intro exI [of _ d']) (auto simp: apply_values_def)
  qed
qed

text \<open>
  C27. Applying updates and deletes to a byte column: on a column whose offsets are consistent, with
  new values and deleted rows in range, \<open>ApplyToColumn\<close> gives each updated row its new bytes and removes the
  deleted rows, offsets, lengths and buffer again consistent, and the null rows are those that were
  neither updated nor deleted, moved to their new positions.  The one exception is a delete of every row of the column,
  which panics.
\<close>

theorem ApplyToColumn_bytes:
  assumes "bitmap_laws B" and "bitmap_laws N" and "is_bytes_oid (Typ_Oid vec)" and "vec_Col vec = CBytes d"
    and "bytes_rep rows (length rows) d" and "length rows < 2 ^ 32"
    and "\<forall>m \<in> bm_set B (txnMask n). unat m < length rows \<and> (\<exists>b. val_at n m = VBytes b)"
    and "length (concat rows) + sum_list (map (\<lambda>m. length (the_bytes (val_at n m))) (bm_iter B (txnMask n))) < 2 ^ 32"
    and "\<forall>r \<in> opt_set B dels. unat r < length rows"
    and "vec_Np vec = Some np" and "\<forall>x \<in> bm_set N np. unat x < 2 ^ 32"
  shows "let M = bm_set B (txnMask n); D = opt_set B dels; rows' = merged_rows n M D rows in
    if D \<noteq> {} \<and> rows' = [] then ApplyToColumn B N n vec dels = Panic
    else \<exists>vec' d' np'. ApplyToColumn B N n vec dels = Ok vec' \<and> vec_Col vec' = CBytes d' \<and> vec_Np vec' = Some np'
      \<and> bytes_rep rows' (length rows') d' \<and> bm_set N np' = merged_nulls M D (bm_set N np)"
proof -
  let ?ms = "bm_iter B (txnMask n)"
  obtain d1 where d1: "apply_values B N n vec = Ok (vec\<lparr>vec_Col := CBytes d1, vec_Np := fold (clear_null N) ?ms (vec_Np vec)\<rparr>)"
      "bytes_rep (upd_rows n ?ms rows) (length rows) d1"
    using apply_values_bytes [OF assms(1,3-5,7,8)] by blast
  have "\<forall>m \<in> set ?ms. unat m + 1 < 2 ^ 32" using assms(6,7) by fastforce
  then obtain np1 where np1: "fold (clear_null N) ?ms (vec_Np vec) = Some np1" "bm_set N np1 = bm_set N np - ucast ` set ?ms"
    using clear_null_fold [OF assms(2), of ?ms np] assms(10) by auto
  define vec1 where "vec1 = vec\<lparr>vec_Col := CBytes d1, vec_Np := Some np1\<rparr>"
  have step: "ApplyToColumn B N n vec dels = (case dels of None \<Rightarrow> Ok vec1 | Some del \<Rightarrow> apply_deletes B N del vec1)"
    by (simp add: ApplyToColumn_def d1(1) np1(1) vec1_def split: option.split)
  have same: "merged_rows n (set ?ms) {} rows = upd_rows n ?ms rows" "merged_nulls (set ?ms) {} (bm_set N np) = bm_set N np1"
    using upd_rows_map [OF bitmap_lawsD(1) [OF assms(1)] assms(6), of n "txnMask n"] np1(2)
    by (auto simp: merged_rows_def nths_all merged_nulls_def shifted_def)
  show ?thesis
  proof (cases "opt_set B dels = {}")
    case True
    then have "ApplyToColumn B N n vec dels = Ok vec1"
      unfolding step by (auto simp: opt_set_def apply_deletes_def split: option.splits)
    then show ?thesis using True same d1(2) by (simp add: vec1_def Let_def)
  next
    case False
    then obtain del where del: "dels = Some del" by (auto simp: opt_set_def split: option.splits)
    define ds where "ds = bm_iter B del"
    have ds: "opt_set B dels = set ds" "ds \<noteq> []" "sorted_wrt (<) ds" "\<forall>r \<in> set ds. unat r < length rows"
      using False assms(9) bitmap_lawsD(1) [OF assms(1)] by (auto simp: opt_set_def del ds_def)
    have small: "\<forall>x \<in> set (bm_iter N np1). unat x < 2 ^ 32" using np1(2) assms(11) by auto
    have rows': "del_rows ds 0 (upd_rows n ?ms rows) = merged_rows n (set ?ms) (set ds) rows"
      by (rule del_rows_upd [OF bitmap_lawsD(1) [OF assms(1)] ds(3,4) assms(6)])
    have nulls: "bm_set N (shift_nulls N ds 0 (Some (bm_iter N np1)) (bm_new N)) = merged_nulls (set ?ms) (set ds) (bm_set N np)"
      using shift_nulls_spec [OF assms(2) ds(3) bitmap_lawsD(1) [OF assms(2)] small] np1(2)
      by (simp add: bitmap_lawsD(2) [OF assms(2)] merged_nulls_def)
    have ap: "ApplyToColumn B N n vec dels = res_bind (delete_bytes N ds 0 (- 1) d1 (Some (bm_iter N np1)) (bm_new N))
        (\<lambda>(d', nsp). Ok (vec1\<lparr>vec_Col := CBytes d', vec_Np := Some nsp\<rparr>))"
      unfolding step using assms(3) ds(2) by (auto simp: apply_deletes_def del vec1_def ds_def [symmetric])
    have neg: "- 1 \<le> uint r" for r :: u32 by (rule order_trans [of _ 0]) simp_all
    have db: "if ds \<noteq> [] \<and> merged_rows n (set ?ms) (set ds) rows = []
       then delete_bytes N ds 0 (- 1) d1 (Some (bm_iter N np1)) (bm_new N) = Panic
       else \<exists>d'. delete_bytes N ds 0 (- 1) d1 (Some (bm_iter N np1)) (bm_new N)
           = Ok (d', shift_nulls N ds 0 (Some (bm_iter N np1)) (bm_new N))
         \<and> bytes_rep (merged_rows n (set ?ms) (set ds) rows) (length (merged_rows n (set ?ms) (set ds) rows)) d'"
      using delete_bytes_spec [OF d1(2), of "- 1" ds 0 N "Some (bm_iter N np1)" "bm_new N"] ds neg
      unfolding rows' by simp
    show ?thesis
    proof (cases "merged_rows n (set ?ms) (set ds) rows = []")
      case True
      then show ?thesis using db ds(1,2) unfolding ap by (simp add: Let_def)
    next
      case False
      then obtain d' where "delete_bytes N ds 0 (- 1) d1 (Some (bm_iter N np1)) (bm_new N)
            = Ok (d', shift_nulls N ds 0 (Some (bm_iter N np1)) (bm_new N))"
          "bytes_rep (merged_rows n (set ?ms) (set ds) rows) (length (merged_rows n (set ?ms) (set ds) rows)) d'"
        using db by auto
      then show ?thesis using False ds(1) unfolding ap by (simp add: Let_def nulls)
    qed
  qed
qed

definition demo_updates :: "(nat, u32 list, unit) ColumnUpdates" where
  "demo_updates = \<lparr>cu_colDef = None, cu_target = None, txnMask = [1], txnVals = [(1, VBytes [120, 121])]\<rparr>"

definition demo_vector :: "(nat, u64 list) Vector" where
  "demo_vector = \<lparr>Typ_Oid = T_varchar, vec_Col = CBytes demo_bytes, vec_Np = Some []\<rparr>"

theorem ApplyToColumn_bytes_witness:
  "\<exists>vec' d'. ApplyToColumn list_bitmap list_bitmap demo_updates demo_vector (Some [0]) = Ok vec' \<and> vec_Col vec' = CBytes d'
     \<and> bytes_rep [[120, 121]] 1 d'"
proof -
  have m: "bm_iter list_bitmap (txnMask demo_updates) = [1 :: u32]" "opt_set list_bitmap (Some [0]) = {0 :: u32}"
    "bm_iter list_bitmap ([] :: u64 list) = []"
    by (simp_all add: list_bitmap_def demo_updates_def opt_set_def)
  have v: "val_at demo_updates 1 = VBytes [120, 121]" by (simp add: demo_updates_def val_at_def)
  have rows: "merged_rows demo_updates {1} {0} [[97, 98, 99], [100]] = [[120, 121]]"
    by (simp add: merged_rows_def the_bytes_def v nths_Cons)
  have rep: "bytes_rep [[97, 98, 99], [100]] (length [[97, 98, 99 :: u8], [100]]) demo_bytes"
    by (simp add: bytes_rep_def demo_bytes_def offset_at_def All_less_Suc)
  show ?thesis
    using ApplyToColumn_bytes [OF list_bitmap_laws list_bitmap_laws _ _ rep, of demo_vector demo_updates "Some [0]" "[]"]
    by (auto simp: m rows v the_bytes_def demo_vector_def)
qed

text \<open>The same for fixed-size values.\<close>

definition the_fix :: "'v goval \<Rightarrow> 'v" where
  "the_fix v = (case v of VFix _ x \<Rightarrow> x | _ \<Rightarrow> undefined)"

definition merged_vals :: "('v, 'b, 'ty) ColumnUpdates \<Rightarrow> u32 set \<Rightarrow> u32 set \<Rightarrow> 'v list \<Rightarrow> 'v list" where
  "merged_vals n ups dels vals =
     nths (map (\<lambda>i. if word_of_nat i \<in> ups then the_fix (val_at n (word_of_nat i)) else vals ! i) [0..<length vals])
       {i. word_of_nat i \<notin> dels}"

lemma foldl_updates:
  assumes "sorted_wrt (<) ms" and "length vals < 2 ^ 32"
  shows "foldl (\<lambda>vs m. vs[unat (m :: u32) := f m]) vals ms
    = map (\<lambda>i. if word_of_nat i \<in> set ms then f (word_of_nat i) else vals ! i) [0..<length vals]"
  using assms
proof (induction ms arbitrary: vals)
  case Nil
  then show ?case by (simp add: map_nth)
next
  case (Cons m ms)
  have "unat m \<noteq> i" if "word_of_nat i \<in> set ms" "i < length vals" for i
    using Cons.prems that by (auto simp: unat_of_nat)
  moreover have "word_of_nat i = m \<longleftrightarrow> unat m = i" if "i < length vals" for i
    using Cons.prems(2) that by (auto simp: unat_of_nat)
  ultimately show ?case using Cons by (auto simp: nth_list_update)
qed

lemma apply_fixed_spec:
  assumes "Typ_Oid vec = Fix t" and "vec_Col vec = CFix t vals"
    and "\<forall>m \<in> set ms. unat m < length vals \<and> (\<exists>x. val_at n m = VFix t x)"
  shows "apply_fixed N n ms vec = Ok (vec\<lparr>vec_Col := CFix t (foldl (\<lambda>vs m. vs[unat m := the_fix (val_at n m)]) vals ms),
    vec_Np := fold (clear_null N) ms (vec_Np vec)\<rparr>)"
  using assms
proof (induction ms arbitrary: vec vals)
  case (Cons m ms)
  obtain x where x: "val_at n m = VFix t x" "unat m < length vals" using Cons.prems by auto
  let ?vec = "vec\<lparr>vec_Col := CFix t (vals[unat m := x]), vec_Np := clear_null N m (vec_Np vec)\<rparr>"
  have "SetFixSizeTypeValue vec m (val_at n m) = Ok (vec\<lparr>vec_Col := CFix t (vals[unat m := x])\<rparr>)"
    using Cons.prems x by (simp add: SetFixSizeTypeValue_def)
  then have "apply_fixed N n (m # ms) vec = apply_fixed N n ms ?vec" by simp
  also have "\<dots> = Ok (?vec\<lparr>vec_Col := CFix t (foldl (\<lambda>vs m. vs[unat m := the_fix (val_at n m)]) (vals[unat m := x]) ms),
      vec_Np := fold (clear_null N) ms (vec_Np ?vec)\<rparr>)"
    using Cons.prems by (intro Cons.IH) auto
  finally show ?case by (simp add: x the_fix_def)
qed simp

text \<open>
  Applying updates and deletes to a fixed-size column: the updates alone give every column type its new
  values and clear the nulls of the updated rows; with deletes an \<open>int32\<close> column keeps exactly
  the rows that are not deleted, with the nulls moved along, and a column of any other fixed-size
  type panics.
\<close>

lemma ApplyToColumn_fixed:
  assumes "bitmap_laws B" and "bitmap_laws N" and "Typ_Oid vec = Fix t" and "vec_Col vec = CFix t vals" and "length vals < 2 ^ 32"
    and "\<forall>m \<in> bm_set B (txnMask n). unat m < length vals \<and> (\<exists>x. val_at n m = VFix t x)"
    and "\<forall>r \<in> opt_set B dels. unat r < length vals"
    and "vec_Np vec = Some np" and "\<forall>x \<in> bm_set N np. unat x < 2 ^ 32"
  shows "let M = bm_set B (txnMask n); D = opt_set B dels in
    if D \<noteq> {} \<and> t \<noteq> T_int32 then ApplyToColumn B N n vec dels = Panic
    else \<exists>vec' np'. ApplyToColumn B N n vec dels = Ok vec' \<and> vec_Col vec' = CFix t (merged_vals n M D vals)
      \<and> vec_Np vec' = Some np' \<and> bm_set N np' = merged_nulls M D (bm_set N np)"
proof -
  let ?ms = "bm_iter B (txnMask n)"
  let ?upd = "map (\<lambda>i. if word_of_nat i \<in> set ?ms then the_fix (val_at n (word_of_nat i)) else vals ! i) [0..<length vals]"
  have "\<forall>m \<in> set ?ms. unat m + 1 < 2 ^ 32" using assms(5,6) by fastforce
  then obtain np1 where np1: "fold (clear_null N) ?ms (vec_Np vec) = Some np1" "bm_set N np1 = bm_set N np - ucast ` set ?ms"
    using clear_null_fold [OF assms(2), of ?ms np] assms(8) by auto
  define vec1 where "vec1 = vec\<lparr>vec_Col := CFix t ?upd, vec_Np := Some np1\<rparr>"
  have fixd: "apply_fixed N n ?ms vec = Ok vec1"
    unfolding vec1_def apply_fixed_spec [OF assms(3,4,6)] np1(1)
    by (simp add: foldl_updates [OF bitmap_lawsD(1) [OF assms(1)] assms(5)])
  have "apply_values B N n vec = Ok vec1"
  proof (cases "?ms = []")
    case True
    then have "vec1 = vec" using fixd by simp
    then show ?thesis using True by (simp add: apply_values_def)
  next
    case False
    then show ?thesis using fixd assms(3) by (simp add: apply_values_def)
  qed
  then have step: "ApplyToColumn B N n vec dels = (case dels of None \<Rightarrow> Ok vec1 | Some del \<Rightarrow> apply_deletes B N del vec1)"
    by (simp add: ApplyToColumn_def)
  have same: "merged_vals n (set ?ms) {} vals = ?upd" "merged_nulls (set ?ms) {} (bm_set N np) = bm_set N np1"
    using np1(2) by (auto simp: merged_vals_def nths_all merged_nulls_def shifted_def)
  show ?thesis
  proof (cases "opt_set B dels = {}")
    case True
    then have "ApplyToColumn B N n vec dels = Ok vec1"
      unfolding step by (auto simp: opt_set_def apply_deletes_def split: option.splits)
    then show ?thesis using True same by (simp add: vec1_def Let_def)
  next
    case False
    then obtain del where del: "dels = Some del" by (auto simp: opt_set_def split: option.splits)
    define ds where "ds = bm_iter B del"
    have ds: "opt_set B dels = set ds" "ds \<noteq> []" "sorted_wrt (<) ds" "\<forall>r \<in> set ds. unat r < length vals"
      using False assms(7) bitmap_lawsD(1) [OF assms(1)] by (auto simp: opt_set_def del ds_def)
    have small: "\<forall>x \<in> set (bm_iter N np1). unat x < 2 ^ 32" using np1(2) assms(9) by auto
    have nulls: "bm_set N (shift_nulls N ds 0 (Some (bm_iter N np1)) (bm_new N)) = merged_nulls (set ?ms) (set ds) (bm_set N np)"
      using shift_nulls_spec [OF assms(2) ds(3) bitmap_lawsD(1) [OF assms(2)] small] np1(2)
      by (simp add: bitmap_lawsD(2) [OF assms(2)] merged_nulls_def)
    have ap: "ApplyToColumn B N n vec dels = res_bind (InplaceDeleteRows (t = T_int32) ?upd (map unat ds))
        (\<lambda>vals'. Ok (vec1\<lparr>vec_Col := CFix t vals', vec_Np := Some (shift_nulls N ds 0 (Some (bm_iter N np1)) (bm_new N))\<rparr>))"
      unfolding step using assms(3) ds(2) by (auto simp: apply_deletes_def del vec1_def ds_def [symmetric])
    show ?thesis
    proof (cases "t = T_int32")
      case True
      have "InplaceDeleteRows True ?upd (map unat ds) = Ok (nths ?upd {i. i \<notin> set (map unat ds)})"
      proof (rule InplaceDeleteRows_nths)
        show "sorted_wrt (<) (map unat ds)" by (rule sorted_unat [OF ds(3)])
      qed (use ds(4) in auto)
      also have "nths ?upd {i. i \<notin> set (map unat ds)} = merged_vals n (set ?ms) (set ds) vals"
        unfolding merged_vals_def
      proof (rule nths_cong_length)
        fix i assume "i < length ?upd"
        then have "unat (word_of_nat i :: u32) = i" using assms(5) by (simp add: unat_of_nat)
        then show "i \<in> {i. i \<notin> set (map unat ds)} \<longleftrightarrow> i \<in> {i. word_of_nat i \<notin> set ds}"
          by (auto intro: image_eqI [of _ unat "word_of_nat i"])
      qed
      finally show ?thesis using True ds(1) unfolding ap by (simp add: Let_def nulls)
    next
      case False
      then show ?thesis using ds(1,2) unfolding ap by (simp add: InplaceDeleteRows_def Let_def)
    qed
  qed
qed

lemma ApplyToColumn_fixed_example:
  "\<exists>vec' np'. ApplyToColumn list_bitmap list_bitmap
       \<lparr>cu_colDef = None, cu_target = None, txnMask = [1 :: u32], txnVals = [(1, VFix T_int32 (9 :: nat))]\<rparr>
       \<lparr>Typ_Oid = Fix T_int32, vec_Col = CFix T_int32 [5, 6, 7], vec_Np = Some ([] :: u64 list)\<rparr> (Some [0]) = Ok vec'
     \<and> vec_Col vec' = CFix T_int32 [9, 7] \<and> vec_Np vec' = Some np'"
proof -
  let ?n = "\<lparr>cu_colDef = None, cu_target = None, txnMask = [1 :: u32], txnVals = [(1, VFix T_int32 (9 :: nat))]\<rparr>"
  have m: "bm_iter list_bitmap [1 :: u32] = [1]" "opt_set list_bitmap (Some [0]) = {0 :: u32}" "bm_iter list_bitmap ([] :: u64 list) = []"
    by (simp_all add: list_bitmap_def opt_set_def)
  have v: "val_at ?n 1 = VFix T_int32 9" by (simp add: val_at_def)
  have rows: "merged_vals ?n {1} {0} [5, 6, 7] = [9, 7]"
    by (simp add: merged_vals_def the_fix_def v nths_Cons upt_rec)
  show ?thesis
    using ApplyToColumn_fixed [OF list_bitmap_laws list_bitmap_laws, of
        "\<lparr>Typ_Oid = Fix T_int32, vec_Col = CFix T_int32 [5, 6, 7], vec_Np = Some ([] :: u64 list)\<rparr>" T_int32 "[5, 6, 7]" ?n "Some [0]" "[]"]
    by (auto simp: m rows v)
qed

section \<open>Writing and reading column updates\<close>

lemma append_vals_fixed:
  assumes "Typ_Oid col = Fix t" and "vec_Col col = CFix t vs" and "\<forall>r \<in> set rows. \<exists>x. val_at n r = VFix t x"
  shows "append_vals n rows col = Ok (col\<lparr>vec_Col := CFix t (vs @ map (\<lambda>r. the_fix (val_at n r)) rows)\<rparr>)"
  using assms
proof (induction rows arbitrary: col vs)
  case (Cons r rows)
  obtain x where "val_at n r = VFix t x" using Cons.prems by auto
  then show ?case using Cons by (simp add: AppendValue_def the_fix_def)
qed simp

lemma read_vals_fixed:
  assumes "Typ_Oid vec = Fix t" and "vec_Col vec = CFix t vs" and "distinct rows"
  shows "if \<forall>r \<in> set rows. unat r < length vs
    then \<exists>m'. read_vals vec rows m = Ok m' \<and> map_of m' = (\<lambda>r. if r \<in> set rows then Some (VFix t (vs ! unat r)) else map_of m r)
    else read_vals vec rows m = Panic"
  using assms(3)
proof (induction rows arbitrary: m)
  case (Cons r rows)
  show ?case
  proof (cases "unat r < length vs")
    case True
    then have "read_vals vec (r # rows) m = read_vals vec rows (AList.update r (VFix t (vs ! unat r)) m)"
      using assms by (simp add: GetValue_def)
    then show ?thesis
      using Cons.IH [of "AList.update r (VFix t (vs ! unat r)) m"] Cons.prems True
      by (auto simp: update_conv fun_eq_iff split: if_splits)
  next
    case False
    then show ?thesis using assms by (simp add: GetValue_def)
  qed
qed simp

lemma increasing_below_length:
  assumes "sorted_wrt (<) (xs :: nat list)" and "\<forall>x \<in> set xs. x < length xs"
  shows "xs = [0..<length xs]"
proof (rule sorted_distinct_set_unique)
  show "distinct xs" "sorted xs" using assms(1) by (auto simp: strict_sorted_iff)
  have "set xs \<subseteq> {0..<length xs}" using assms(2) by auto
  moreover have "card (set xs) = length xs" using \<open>distinct xs\<close> by (simp add: distinct_card)
  ultimately show "set xs = set [0..<length xs]" by (metis card_atLeastLessThan card_subset_eq diff_zero finite_atLeastLessThan set_upt)
qed auto

text \<open>
  What the code relies on: the vector container starts empty and reads the vector of the values
  \<open>vs\<close> from what it shows.
\<close>

definition gvec_laws :: "('ty, 'v, 'n) gvec_ops \<Rightarrow> 'ty \<Rightarrow> fixT \<Rightarrow> 'v list \<Rightarrow> bool" where
  "gvec_laws G ty t vs \<longleftrightarrow> Typ_Oid (gv_New G ty) = Fix t \<and> vec_Col (gv_New G ty) = CFix t []
     \<and> (\<exists>b. gv_Show G (gv_New G ty\<lparr>vec_Col := CFix t vs\<rparr>) = Ok b \<and> length b < 2 ^ 32
          \<and> gv_Read G b = Ok (gv_New G ty\<lparr>vec_Col := CFix t vs\<rparr>))"

text \<open>
  Writing the updates of a fixed-size column succeeds, but they read back only when the updated rows
  are exactly the first rows of the block: \<open>ReadFrom\<close> uses the row number of the block as the index into the
  vector that holds one value per updated row, and panics for any other set of rows.
\<close>

lemma column_updates_roundtrip:
  assumes "bitmap_laws B" and "gvec_laws G (cd_Type c) t (map (\<lambda>r. the_fix (val_at n r)) (bm_iter B (txnMask n)))" and "cu_colDef n = Some c" and "cu_target n = Some tg"
    and "\<forall>r \<in> bm_set B (txnMask n). \<exists>x. val_at n r = VFix t x" and "length (bm_ToBytes B (txnMask n)) < 2 ^ 32"
    and "length (bm_iter B (txnMask n)) = k"
  shows "\<exists>buf. Column_WriteTo B G n = Ok buf
    \<and> (if unat ` bm_set B (txnMask n) = {0..<k} then
         \<exists>n'. Column_ReadFrom B G (NewColumnUpdates B None None) (buf @ bs) = Ok (n', bs) \<and> cu_target n' = Some tg
           \<and> bm_iter B (txnMask n') = bm_iter B (txnMask n) \<and> (\<forall>r \<in> bm_set B (txnMask n). val_at n' r = val_at n r)
       else Column_ReadFrom B G (NewColumnUpdates B None (None :: 'ty ColDef option)) (buf @ bs) = Panic)"
proof -
  define rows where "rows = bm_iter B (txnMask n)"
  define vs where "vs = map (\<lambda>r. the_fix (val_at n r)) rows"
  define col where "col = gv_New G (cd_Type c)\<lparr>vec_Col := CFix t vs\<rparr>"
  have rows: "sorted_wrt (<) rows" "distinct rows" "length rows = k" "length vs = k"
    using bitmap_lawsD(1) [OF assms(1)] assms(7) by (auto simp: rows_def vs_def strict_sorted_iff)
  obtain vbuf where vbuf: "gv_Show G col = Ok vbuf" "length vbuf < 2 ^ 32" "gv_Read G vbuf = Ok col"
    using assms(2) unfolding gvec_laws_def rows_def [symmetric] vs_def [symmetric] col_def [symmetric] by blast
  obtain mk where mk: "bm_Unmarshal B (bm_ToBytes B (txnMask n)) = Ok mk" "bm_iter B mk = rows"
    using assms(1) unfolding bitmap_laws_def rows_def by blast
  define buf where "buf = MarshalID tg @ put_u32 (word_of_nat (length (bm_ToBytes B (txnMask n)))) @ bm_ToBytes B (txnMask n)
    @ put_u32 (word_of_nat (length vbuf)) @ vbuf"
  have "append_vals n rows (gv_New G (cd_Type c)) = Ok col"
    using append_vals_fixed [of "gv_New G (cd_Type c)" t "[]" rows n] assms(2,5)
    by (simp add: gvec_laws_def rows_def [symmetric] col_def vs_def)
  then have w: "Column_WriteTo B G n = Ok buf"
    by (simp add: Column_WriteTo_def assms(3,4) rows_def [symmetric] vbuf(1) buf_def Let_def)
  have u: "unat (word_of_nat (length (bm_ToBytes B (txnMask n))) :: u32) = length (bm_ToBytes B (txnMask n))"
    "unat (word_of_nat (length vbuf) :: u32) = length vbuf"
    using assms(6) vbuf(2) by (simp_all add: unat_of_nat)
  have r: "Column_ReadFrom B G (NewColumnUpdates B None None) (buf @ bs)
      = res_bind (read_vals col rows []) (\<lambda>m. Ok (\<lparr>cu_colDef = None, cu_target = Some tg, txnMask = mk, txnVals = m\<rparr>, bs))"
    by (simp add: Column_ReadFrom_def buf_def NewColumnUpdates_def u mk vbuf(3))
  have ok: "(\<forall>r \<in> set rows. unat r < length vs) \<longleftrightarrow> unat ` set rows = {0..<k}"
  proof
    assume "\<forall>r \<in> set rows. unat r < length vs"
    then have "map unat rows = [0..<length (map unat rows)]"
      using rows by (intro increasing_below_length sorted_unat) auto
    then show "unat ` set rows = {0..<k}" by (metis atLeastLessThan_upt length_map list.set_map rows(3))
  qed (use rows in auto)
  have col: "Typ_Oid col = Fix t" "vec_Col col = CFix t vs" using assms(2) by (simp_all add: col_def gvec_laws_def)
  note rv = read_vals_fixed [OF col rows(2), of "[]"]
  show ?thesis
  proof (cases "unat ` set rows = {0..<k}")
    case True
    then obtain m where m: "read_vals col rows [] = Ok m" "map_of m = (\<lambda>r. if r \<in> set rows then Some (VFix t (vs ! unat r)) else None)"
      using rv ok unfolding map_of.simps(1) by auto
    have mu: "map unat rows = [0..<k]"
      using increasing_below_length [OF sorted_unat [OF rows(1)]] rows(3) True by auto
    have "VFix t (vs ! unat r) = val_at n r" if mem: "r \<in> set rows" for r
    proof -
      from mem obtain i where i': "i < length rows" "rows ! i = r" unfolding in_set_conv_nth by blast
      then have i: "i < k" "r = rows ! i" using rows(3) by simp_all
      have "unat r = i" using arg_cong [OF mu, of "\<lambda>l. l ! i"] i rows(3) by simp
      moreover obtain x where "val_at n r = VFix t x" using assms(5) mem by (auto simp: rows_def)
      ultimately show ?thesis using i rows(3) by (simp add: vs_def the_fix_def)
    qed
    then show ?thesis using True r m mk w unfolding rows_def [symmetric] by (auto simp: val_at_def)
  next
    case False
    then show ?thesis using r rv ok w unfolding rows_def [symmetric] by auto
  qed
qed

text \<open>A vector container for one-byte values.\<close>

definition demo_gvec :: "(unit, u8, unit) gvec_ops" where
  "demo_gvec = \<lparr>gv_New = (\<lambda>_. \<lparr>Typ_Oid = Fix T_int8, vec_Col = CFix T_int8 [], vec_Np = None\<rparr>),
     gv_Show = (\<lambda>v. case vec_Col v of CFix _ xs \<Rightarrow> Ok xs | _ \<Rightarrow> Err (ErrOther 0)),
     gv_Read = (\<lambda>b. Ok \<lparr>Typ_Oid = Fix T_int8, vec_Col = CFix T_int8 b, vec_Np = None\<rparr>)\<rparr>"

definition demo_row :: "u32 \<Rightarrow> (u8, u32 list, unit) ColumnUpdates" where
  "demo_row r = \<lparr>cu_colDef = Some \<lparr>cd_Name = ''a'', cd_Idx = 0, cd_Type = ()\<rparr>, cu_target = Some zero_ID,
     txnMask = [r], txnVals = [(r, VFix T_int8 5)]\<rparr>"

lemma column_updates_roundtrip_example:
  "(\<exists>buf n'. Column_WriteTo list_bitmap demo_gvec (demo_row 0) = Ok buf
      \<and> Column_ReadFrom list_bitmap demo_gvec (NewColumnUpdates list_bitmap None None) buf = Ok (n', []) \<and> val_at n' 0 = VFix T_int8 5)
   \<and> (\<exists>buf. Column_WriteTo list_bitmap demo_gvec (demo_row 4) = Ok buf
      \<and> Column_ReadFrom list_bitmap demo_gvec (NewColumnUpdates list_bitmap None (None :: unit ColDef option)) buf = Panic)"
proof -
  have it: "bm_iter list_bitmap [r :: u32] = [r]" "length (bm_ToBytes list_bitmap [r]) = 32" for r :: u32
    by (simp_all add: list_bitmap_def)
  have v: "val_at (demo_row r) r = VFix T_int8 5" for r by (simp add: demo_row_def val_at_def)
  have g: "gvec_laws demo_gvec () T_int8 [x]" for x by (simp add: gvec_laws_def demo_gvec_def)
  note w = column_updates_roundtrip [OF list_bitmap_laws, of demo_gvec "\<lparr>cd_Name = ''a'', cd_Idx = 0, cd_Type = ()\<rparr>" T_int8 _ zero_ID 1 "[]"]
  have m: "txnMask (demo_row r) = [r]" "cu_colDef (demo_row r) = Some \<lparr>cd_Name = ''a'', cd_Idx = 0, cd_Type = ()\<rparr>"
    "cu_target (demo_row r) = Some zero_ID" for r
    by (simp_all add: demo_row_def)
  show ?thesis using w [of "demo_row 0"] w [of "demo_row 4"] by (auto simp: m it v g)
qed

section \<open>Comparing updates\<close>

text \<open>Two interface values are compared by type and value; comparing two byte slices panics.\<close>

fun goval_ne :: "'v goval \<Rightarrow> 'v goval \<Rightarrow> bool res" where
  "goval_ne (VBytes a) (VBytes b) = Panic"
| "goval_ne x y = Ok (x \<noteq> y)"

fun equal_loop :: "('v, 'b, 'ty) ColumnUpdates \<Rightarrow> (u32 \<times> 'v goval) list \<Rightarrow> bool res" where
  "equal_loop q [] = Ok True"
| "equal_loop q ((k, v) # kvs) = res_bind (goval_ne v (val_at q k)) (\<lambda>ne. if ne then Ok False else equal_loop q kvs)"

definition EqualLocked :: "('v, 'b, 'ty) ColumnUpdates option \<Rightarrow> ('v, 'b, 'ty) ColumnUpdates option \<Rightarrow> bool res" where
  "EqualLocked n q =
     (case q of
        None \<Rightarrow> Ok (n = None)
      | Some q \<Rightarrow> (case n of None \<Rightarrow> Panic | Some n \<Rightarrow> equal_loop q (txnVals n)))"

text \<open>Without byte slices the comparison tells whether the other updates have every value of these, and maybe more.\<close>

lemma equal_loop_included:
  "\<forall>(k, v) \<in> set kvs. \<forall>b. v \<noteq> VBytes b \<Longrightarrow> equal_loop q kvs = Ok (\<forall>(k, v) \<in> set kvs. val_at q k = v)"
proof (induction kvs)
  case (Cons kv kvs)
  obtain k v where kv: "kv = (k, v)" by force
  have "goval_ne v (val_at q k) = Ok (v \<noteq> val_at q k)" using Cons.prems kv by (cases v) auto
  then show ?case using Cons kv by auto
qed simp

lemma EqualLocked_included:
  assumes "\<forall>(k, v) \<in> set (txnVals n). \<forall>b. v \<noteq> VBytes b"
  shows "EqualLocked (Some n) (Some q) = Ok (\<forall>(k, v) \<in> set (txnVals n). val_at q k = v)"
  using equal_loop_included [OF assms] by (simp add: EqualLocked_def)

lemma EqualLocked_one_sided: "txnVals n = [] \<Longrightarrow> EqualLocked (Some n) (Some q) = Ok True"
  by (simp add: EqualLocked_def)

end
