(* ===== verification/Updates.thy ===== *)
theory Updates
  imports ColUpdates Entry
begin

text \<open>
  The updates of a block, \<^verbatim>\<open>pkg/updates\<close>: \<open>BlockUpdates\<close> (the writes of one transaction to one
  block, or the merge of several; \<^verbatim>\<open>blkupdates.go\<close>), \<open>BlockUpdateNode\<close>
  (\<^verbatim>\<open>node.go\<close>) and \<open>BlockUpdateChain\<close> (\<^verbatim>\<open>chain.go\<close>), which keeps them in a
  sorted link, newest first.  A transaction is its identifier, as in the theory of entries.
\<close>

section \<open>Block updates\<close>

datatype NodeType = NT_Normal | NT_Merge

text \<open>Of the catalog entry of the block the code reads its identifier and the columns of its table.\<close>

record 'ty BlockMeta =
  meta_id :: ID
  meta_cols :: "'ty ColDef list"

record ('v, 'b, 'ty) BlockUpdates =
  bu_id :: "ID option"
  bu_meta :: "'ty BlockMeta option"
  bu_cols :: "(u16 \<times> ('v, 'b, 'ty) ColumnUpdates) list"
  baseDeletes :: "'b option"
  localDeletes :: "'b option"
  bu_txn :: "u64 option"
  bu_startTs :: u64
  bu_commitTs :: u64
  bu_nodeType :: NodeType

definition NewEmptyBlockUpdates :: "('v, 'b, 'ty) BlockUpdates" where
  "NewEmptyBlockUpdates = \<lparr>bu_id = None, bu_meta = None, bu_cols = [], baseDeletes = None, localDeletes = None, bu_txn = None,
     bu_startTs = 0, bu_commitTs = 0, bu_nodeType = NT_Normal\<rparr>"

definition NewBlockUpdates :: "txn_env \<Rightarrow> u64 option \<Rightarrow> 'ty BlockMeta \<Rightarrow> 'b option \<Rightarrow> ('v, 'b, 'ty) BlockUpdates" where
  "NewBlockUpdates env txn meta base =
     (let u = NewEmptyBlockUpdates\<lparr>bu_id := Some (meta_id meta), bu_meta := Some meta, baseDeletes := base, bu_txn := txn\<rparr>
      in case txn of None \<Rightarrow> u | Some t \<Rightarrow> u\<lparr>bu_startTs := StartTS (env t), bu_commitTs := UncommitTS\<rparr>)"

definition NewMergeBlockUpdates :: "u64 \<Rightarrow> 'ty BlockMeta \<Rightarrow> 'b option \<Rightarrow> ('v, 'b, 'ty) BlockUpdates" where
  "NewMergeBlockUpdates ts meta base =
     NewEmptyBlockUpdates\<lparr>bu_id := Some (meta_id meta), bu_meta := Some meta, baseDeletes := base,
       bu_startTs := ts, bu_commitTs := ts, bu_nodeType := NT_Merge\<rparr>"

definition IsMerge :: "('v, 'b, 'ty) BlockUpdates \<Rightarrow> bool" where
  "IsMerge n \<longleftrightarrow> bu_nodeType n = NT_Merge"

definition deleted_in :: "('b, u32) bitmap \<Rightarrow> 'b option \<Rightarrow> u32 \<Rightarrow> bool" where
  "deleted_in B d i \<longleftrightarrow> (case d of None \<Rightarrow> False | Some b \<Rightarrow> bm_contains B b i)"

text \<open>The conflict scan \<open>for i := start; i <= end; i++\<close> in 32 bits: it may not end.\<close>

partial_function (option) delete_scan ::
  "('b, u32) bitmap \<Rightarrow> 'b option \<Rightarrow> 'b option \<Rightarrow> u32 \<Rightarrow> u32 \<Rightarrow> bool option" where
  "delete_scan B base local i end =
     (if i \<le> end then
        if deleted_in B base i \<or> deleted_in B local i then Some True else delete_scan B base local (i + 1) end
      else Some False)"

definition DeleteLocked ::
  "('b, u32) bitmap \<Rightarrow> u32 \<Rightarrow> u32 \<Rightarrow> ('v, 'b, 'ty) BlockUpdates \<Rightarrow> ('v, 'b, 'ty) BlockUpdates res option" where
  "DeleteLocked B start end n =
     (case delete_scan B (baseDeletes n) (localDeletes n) start end of
        None \<Rightarrow> None
      | Some True \<Rightarrow> Some (Err TxnWWConflictErr)
      | Some False \<Rightarrow>
          let d = (case localDeletes n of None \<Rightarrow> bm_new B | Some b \<Rightarrow> b)
          in Some (Ok (n\<lparr>localDeletes := Some (bm_addRange B d (ucast start) (ucast (end + 1)))\<rparr>)))"

text \<open>The column of an index, created from the schema when it is missing.\<close>

definition get_col ::
  "('b, u32) bitmap \<Rightarrow> u16 \<Rightarrow> ('v, 'b, 'ty) BlockUpdates \<Rightarrow> ('v, 'b, 'ty) ColumnUpdates res" where
  "get_col B colIdx n =
     (case map_of (bu_cols n) colIdx of
        Some col \<Rightarrow> Ok col
      | None \<Rightarrow>
          (case bu_meta n of
             None \<Rightarrow> Panic
           | Some meta \<Rightarrow>
               if unat colIdx < length (meta_cols meta)
               then Ok (NewColumnUpdates B (bu_id n) (Some (meta_cols meta ! unat colIdx))) else Panic))"

text \<open>
  Unlike elsewhere, \<open>localDeletes\<close> is not tested for nil before \<open>Contains\<close>.  When the column is new
  it stays in the map even if its update were refused; a new column has no values, so it is not.
\<close>

definition Block_UpdateLocked ::
  "('b, u32) bitmap \<Rightarrow> u32 \<Rightarrow> u16 \<Rightarrow> 'v goval \<Rightarrow> ('v, 'b, 'ty) BlockUpdates \<Rightarrow> ('v, 'b, 'ty) BlockUpdates res" where
  "Block_UpdateLocked B row colIdx v n =
     (if deleted_in B (baseDeletes n) row then Err TxnWWConflictErr
      else res_bind (case localDeletes n of None \<Rightarrow> bm_containsNil B row | Some b \<Rightarrow> Ok (bm_contains B b row)) (\<lambda>del.
        if del then Err TxnWWConflictErr
        else res_bind (get_col B colIdx n) (\<lambda>col.
             res_bind (Column_UpdateLocked B row v col) (\<lambda>col'.
               Ok (n\<lparr>bu_cols := AList.update colIdx col' (bu_cols n)\<rparr>)))))"

definition or_deletes :: "('b, u32) bitmap \<Rightarrow> 'b option \<Rightarrow> 'b option \<Rightarrow> 'b option" where
  "or_deletes B q d =
     (case q of None \<Rightarrow> d | Some qb \<Rightarrow> Some (bm_or B (case d of None \<Rightarrow> bm_new B | Some b \<Rightarrow> b) qb))"

definition merge_col ::
  "('b, u32) bitmap \<Rightarrow> u16 \<Rightarrow> ('v, 'b, 'ty) ColumnUpdates \<Rightarrow> ('v, 'b, 'ty) BlockUpdates \<Rightarrow> ('v, 'b, 'ty) BlockUpdates res" where
  "merge_col B colIdx col n =
     res_bind (get_col B colIdx n) (\<lambda>cur. Ok (n\<lparr>bu_cols := AList.update colIdx (Column_MergeLocked B col cur) (bu_cols n)\<rparr>))"

definition MergeColumnLocked ::
  "('b, u32) bitmap \<Rightarrow> ('v, 'b, 'ty) BlockUpdates \<Rightarrow> u16 \<Rightarrow> ('v, 'b, 'ty) BlockUpdates \<Rightarrow> ('v, 'b, 'ty) BlockUpdates res" where
  "MergeColumnLocked B q colIdx n =
     (let n1 = n\<lparr>localDeletes := or_deletes B (localDeletes q) (localDeletes n)\<rparr>
      in case map_of (bu_cols q) colIdx of None \<Rightarrow> Ok n1 | Some col \<Rightarrow> merge_col B colIdx col n1)"

fun merge_cols ::
  "('b, u32) bitmap \<Rightarrow> (u16 \<times> ('v, 'b, 'ty) ColumnUpdates) list \<Rightarrow> ('v, 'b, 'ty) BlockUpdates \<Rightarrow> ('v, 'b, 'ty) BlockUpdates res" where
  "merge_cols B [] n = Ok n"
| "merge_cols B ((colIdx, col) # cs) n = res_bind (merge_col B colIdx col n) (merge_cols B cs)"

definition Block_MergeLocked ::
  "('b, u32) bitmap \<Rightarrow> ('v, 'b, 'ty) BlockUpdates \<Rightarrow> ('v, 'b, 'ty) BlockUpdates \<Rightarrow> ('v, 'b, 'ty) BlockUpdates res" where
  "Block_MergeLocked B q n = merge_cols B (bu_cols q) (n\<lparr>localDeletes := or_deletes B (localDeletes q) (localDeletes n)\<rparr>)"

definition Updates_Compare :: "('v, 'b, 'ty) BlockUpdates \<Rightarrow> ('v, 'b, 'ty) BlockUpdates \<Rightarrow> int" where
  "Updates_Compare n p =
     (if bu_commitTs n < bu_commitTs p then - 1
      else if bu_commitTs n > bu_commitTs p then 1
      else if bu_commitTs n = UncommitTS then
        (if bu_startTs n < bu_startTs p then - 1 else if bu_startTs n > bu_startTs p then 1 else 0)
      else if bu_nodeType p = NT_Merge then - 1 else 1)"

definition Block_PrepareCommit :: "txn_env \<Rightarrow> ('v, 'b, 'ty) BlockUpdates \<Rightarrow> ('v, 'b, 'ty) BlockUpdates res" where
  "Block_PrepareCommit env n =
     (if bu_commitTs n \<noteq> UncommitTS then Panic
      else (case bu_txn n of None \<Rightarrow> Panic | Some t \<Rightarrow> Ok (n\<lparr>bu_commitTs := CommitTS (env t)\<rparr>)))"

definition Block_ApplyCommit :: "('v, 'b, 'ty) BlockUpdates \<Rightarrow> ('v, 'b, 'ty) BlockUpdates res" where
  "Block_ApplyCommit n = (case bu_txn n of None \<Rightarrow> Panic | Some _ \<Rightarrow> Ok (n\<lparr>bu_txn := None\<rparr>))"

definition Block_TxnCanRead :: "txn_env \<Rightarrow> (u64 \<Rightarrow> TxnStates) \<Rightarrow> u64 option \<Rightarrow> ('v, 'b, 'ty) BlockUpdates \<Rightarrow> bool" where
  "Block_TxnCanRead env later txn n =
     (case txn of
        None \<Rightarrow> True
      | Some r \<Rightarrow>
          let ts = StartTS (env r) in
          (case bu_txn n of
             None \<Rightarrow> bu_commitTs n < ts
           | Some u \<Rightarrow>
               if u = r then True
               else if bu_commitTs n = UncommitTS then False
               else if bu_commitTs n > ts then False
               else GetTxnState True (State (env u)) (later u) \<noteq> TxnStateRollbacked))"

text \<open>Only the first column of the batch is changed, and nothing is returned.\<close>

definition ApplyChanges ::
  "('b, u32) bitmap \<Rightarrow> ('n, u64) bitmap \<Rightarrow> ('v, 'n) Vector list \<Rightarrow> 'b option \<Rightarrow> ('v, 'b, 'ty) BlockUpdates \<Rightarrow> ('v, 'n) Vector list res" where
  "ApplyChanges B N vecs dels n =
     (case (map_of (bu_cols n) 0, vecs) of
        (Some col, v # vs) \<Rightarrow> res_bind (ApplyToColumn B N col v dels) (\<lambda>v'. Ok (v' # vs))
      | _ \<Rightarrow> Panic)"

subsection \<open>Writing and reading\<close>

fun write_cols :: "('b, u32) bitmap \<Rightarrow> ('ty, 'v, 'n) gvec_ops \<Rightarrow> (u16 \<times> ('v, 'b, 'ty) ColumnUpdates) list \<Rightarrow> bytes res" where
  "write_cols B G [] = Ok []"
| "write_cols B G ((colIdx, col) # cs) =
     res_bind (Column_WriteTo B G col) (\<lambda>b. res_bind (write_cols B G cs) (\<lambda>bs. Ok (put_u16 colIdx @ b @ bs)))"

definition Block_WriteTo :: "('b, u32) bitmap \<Rightarrow> ('ty, 'v, 'n) gvec_ops \<Rightarrow> ('v, 'b, 'ty) BlockUpdates \<Rightarrow> bytes res" where
  "Block_WriteTo B G n =
     (case bu_id n of
        None \<Rightarrow> Panic
      | Some i \<Rightarrow>
          let dels = (case localDeletes n of
                        None \<Rightarrow> put_u32 0
                      | Some b \<Rightarrow> put_u32 (word_of_nat (length (bm_ToBytes B b))) @ bm_ToBytes B b)
          in res_bind (write_cols B G (bu_cols n)) (\<lambda>cs.
               Ok (MarshalID i @ dels @ put_u16 (word_of_nat (length (bu_cols n))) @ cs)))"

text \<open>The columns that are read are dropped, and so are the bytes of the deletes.\<close>

fun skip_cols :: "('b, u32) bitmap \<Rightarrow> ('ty, 'v, 'n) gvec_ops \<Rightarrow> nat \<Rightarrow> bytes \<Rightarrow> bytes res" where
  "skip_cols B G 0 bs = Ok bs"
| "skip_cols B G (Suc k) bs =
     res_bind (get_u16 bs) (\<lambda>(colIdx, r1).
     res_bind (Column_ReadFrom B G (NewColumnUpdates B None None) r1) (\<lambda>(col, r2). skip_cols B G k r2))"

definition Block_ReadFrom ::
  "('b, u32) bitmap \<Rightarrow> ('ty, 'v, 'n) gvec_ops \<Rightarrow> ('v, 'b, 'ty) BlockUpdates \<Rightarrow> bytes \<Rightarrow> (('v, 'b, 'ty) BlockUpdates \<times> bytes) res" where
  "Block_ReadFrom B G n bs =
     res_bind (buf_read IDSize bs) (\<lambda>(idbuf, r1).
     res_bind (get_u32 r1) (\<lambda>(deleteCnt, r2).
     res_bind (if deleteCnt \<noteq> 0 then buf_read (unat deleteCnt) r2 else Ok (idbuf, r2)) (\<lambda>(buf, r3).
     res_bind (get_u16 r3) (\<lambda>(colCnt, r4).
     res_bind (skip_cols B G (unat colCnt) r4) (\<lambda>r5. Ok (n\<lparr>bu_id := Some (UnmarshalID idbuf)\<rparr>, r5))))))"

section \<open>The update chain\<close>

text \<open>
  The nodes of the chain live at the addresses of their list nodes; the payload of a list node is
  its address.
\<close>

record ('v, 'b, 'ty) BlockUpdateChain =
  ch_link :: Link
  ch_heap :: "addr dlheap"
  ch_nodes :: "addr \<rightharpoonup> ('v, 'b, 'ty) BlockUpdates"
  ch_meta :: "'ty BlockMeta"
  latestMerge :: "addr option"
  latestCommit :: "addr option"
  ch_free :: addr

definition NewUpdateChain :: "'ty BlockMeta \<Rightarrow> ('v, 'b, 'ty) BlockUpdateChain" where
  "NewUpdateChain meta = \<lparr>ch_link = \<lparr>link_head = None, link_tail = None\<rparr>, ch_heap = Map.empty, ch_nodes = Map.empty,
     ch_meta = meta, latestMerge = None, latestCommit = None, ch_free = 0\<rparr>"

definition node_Compare :: "(addr \<rightharpoonup> ('v, 'b, 'ty) BlockUpdates) \<Rightarrow> addr \<Rightarrow> addr \<Rightarrow> int" where
  "node_Compare ns a b = Updates_Compare (the (ns a)) (the (ns b))"

definition NewBlockUpdateNode ::
  "('v, 'b, 'ty) BlockUpdates \<Rightarrow> ('v, 'b, 'ty) BlockUpdateChain \<Rightarrow> (addr \<times> ('v, 'b, 'ty) BlockUpdateChain) option" where
  "NewBlockUpdateNode u ch =
     (let a = ch_free ch; ns = (ch_nodes ch)(a \<mapsto> u) in
      case Link_Insert (node_Compare ns) a a (ch_link ch) (ch_heap ch) of
        None \<Rightarrow> None
      | Some (l, h) \<Rightarrow> Some (a, ch\<lparr>ch_link := l, ch_heap := h, ch_nodes := ns, ch_free := Suc a\<rparr>))"

definition Chain_UpdateLocked ::
  "addr \<Rightarrow> ('v, 'b, 'ty) BlockUpdateChain \<Rightarrow> ('v, 'b, 'ty) BlockUpdateChain option" where
  "Chain_UpdateLocked a ch =
     (case Link_Update (node_Compare (ch_nodes ch)) a (ch_link ch) (ch_heap ch) of
        None \<Rightarrow> None
      | Some (l, h) \<Rightarrow>
          let ch1 = ch\<lparr>ch_link := l, ch_heap := h\<rparr>
          in Some (if bu_commitTs (the (ch_nodes ch a)) \<noteq> UncommitTS then ch1\<lparr>latestCommit := Some a\<rparr> else ch1))"

definition AddNode ::
  "txn_env \<Rightarrow> u64 option \<Rightarrow> ('v, 'b, 'ty) BlockUpdateChain \<Rightarrow> (addr \<times> ('v, 'b, 'ty) BlockUpdateChain) option" where
  "AddNode env txn ch = NewBlockUpdateNode (NewBlockUpdates env txn (ch_meta ch) None) ch"

definition Node_PrepareCommit ::
  "txn_env \<Rightarrow> addr \<Rightarrow> ('v, 'b, 'ty) BlockUpdateChain \<Rightarrow> ('v, 'b, 'ty) BlockUpdateChain res option" where
  "Node_PrepareCommit env a ch =
     (case Block_PrepareCommit env (the (ch_nodes ch a)) of
        Ok u \<Rightarrow> map_option Ok (Chain_UpdateLocked a (ch\<lparr>ch_nodes := (ch_nodes ch)(a \<mapsto> u)\<rparr>))
      | Err e \<Rightarrow> Some (Err e)
      | Panic \<Rightarrow> Some Panic)"

definition LoopChainLocked ::
  "('v, 'b, 'ty) BlockUpdateChain \<Rightarrow> (('v, 'b, 'ty) BlockUpdates \<Rightarrow> 's \<Rightarrow> bool \<times> 's) \<Rightarrow> bool \<Rightarrow> 's \<Rightarrow> 's option" where
  "LoopChainLocked ch fn reverse s = Link_Loop (ch_heap ch) (ch_link ch) (\<lambda>a. fn (the (ch_nodes ch a))) reverse s"

text \<open>The callback of \<open>AddMergeNode\<close>; the state is the merge so far, or a panic.\<close>

definition merge_visit ::
  "('b, u32) bitmap \<Rightarrow> 'ty BlockMeta \<Rightarrow> ('v, 'b, 'ty) BlockUpdates \<Rightarrow> ('v, 'b, 'ty) BlockUpdates option res
   \<Rightarrow> bool \<times> ('v, 'b, 'ty) BlockUpdates option res" where
  "merge_visit B meta u s =
     (case s of
        Ok merge \<Rightarrow>
          if bu_commitTs u = UncommitTS then (True, Ok merge)
          else
            let m = (case merge of None \<Rightarrow> NewMergeBlockUpdates (bu_commitTs u) meta None | Some m \<Rightarrow> m)
            in (case Block_MergeLocked B u m of
                  Ok m' \<Rightarrow> (\<not> IsMerge u, Ok (Some m'))
                | r \<Rightarrow> (False, Panic))
      | r \<Rightarrow> (False, r))"

definition AddMergeNode ::
  "('b, u32) bitmap \<Rightarrow> ('v, 'b, 'ty) BlockUpdateChain \<Rightarrow> (addr option \<times> ('v, 'b, 'ty) BlockUpdateChain) res option" where
  "AddMergeNode B ch =
     (case LoopChainLocked ch (merge_visit B (ch_meta ch)) False (Ok None) of
        None \<Rightarrow> None
      | Some (Ok None) \<Rightarrow> Some (Ok (None, ch))
      | Some (Ok (Some merge)) \<Rightarrow>
          (case NewBlockUpdateNode merge ch of
             None \<Rightarrow> None
           | Some (a, ch') \<Rightarrow> Some (Ok (Some a, ch'\<lparr>latestMerge := Some a\<rparr>)))
      | Some (Err e) \<Rightarrow> Some (Err e)
      | Some Panic \<Rightarrow> Some Panic)"

text \<open>\<open>GetPayload\<close> on the nil head of an empty chain panics.\<close>

definition FirstNodeLocked :: "('v, 'b, 'ty) BlockUpdateChain \<Rightarrow> addr res" where
  "FirstNodeLocked ch = (case link_head (ch_link ch) of None \<Rightarrow> Panic | Some a \<Rightarrow> Ok a)"

section \<open>Deleting rows\<close>

abbreviation all_deletes :: "('b, u32) bitmap \<Rightarrow> ('v, 'b, 'ty) BlockUpdates \<Rightarrow> u32 set" where
  "all_deletes B n \<equiv> opt_set B (baseDeletes n) \<union> opt_set B (localDeletes n)"

lemma deleted_in_set: "bitmap_laws B \<Longrightarrow> deleted_in B d i \<longleftrightarrow> i \<in> opt_set B d"
  by (simp add: deleted_in_def opt_set_def bitmap_lawsD(3) split: option.split)

lemma unat_Suc_below: "i \<le> e \<Longrightarrow> e \<noteq> (- 1 :: u32) \<Longrightarrow> unat (i + 1) = Suc (unat i)"
proof -
  assume a: "i \<le> e" "e \<noteq> - 1"
  have "unat e < unat (- 1 :: u32)" using a(2) by (metis word_less_nat_alt word_n1_ge word_order.not_eq_extremum)
  then have "unat i + unat (1 :: u32) < 2 ^ 32"
    using a(1) by (simp add: word_le_nat_alt unsigned_minus_1_eq_mask mask_eq_exp_minus_1)
  then show ?thesis by (subst unat_plus_no_wrap) simp_all
qed

lemma delete_scan_ends:
  assumes "e \<noteq> - 1"
  shows "delete_scan B base local i e = Some (\<exists>j. i \<le> j \<and> j \<le> e \<and> (deleted_in B base j \<or> deleted_in B local j))"
proof (induction "Suc (unat e) - unat i" arbitrary: i rule: less_induct)
  case less
  show ?case
  proof (cases "i \<le> e")
    case False
    then show ?thesis by (subst delete_scan.simps) auto
  next
    case True
    have u: "unat (i + 1) = Suc (unat i)" by (rule unat_Suc_below [OF True assms])
    have "delete_scan B base local (i + 1) e
        = Some (\<exists>j. i + 1 \<le> j \<and> j \<le> e \<and> (deleted_in B base j \<or> deleted_in B local j))"
      using True u by (intro less) (simp add: word_le_nat_alt)
    moreover have split: "i \<le> j \<longleftrightarrow> j = i \<or> i + 1 \<le> j" for j
      using u by (auto simp: word_le_nat_alt word_unat_eq_iff)
    moreover have "(\<exists>j. i \<le> j \<and> j \<le> e \<and> (deleted_in B base j \<or> deleted_in B local j))
        \<longleftrightarrow> (deleted_in B base i \<or> deleted_in B local i)
          \<or> (\<exists>j. i + 1 \<le> j \<and> j \<le> e \<and> (deleted_in B base j \<or> deleted_in B local j))"
      using True by (auto simp: split)
    ultimately show ?thesis using True by (subst delete_scan.simps) simp
  qed
qed

lemma delete_scan_result:
  "delete_scan B base local i e = Some y \<Longrightarrow> e = - 1 \<longrightarrow> (\<exists>j. deleted_in B base j \<or> deleted_in B local j)"
  by (erule delete_scan.raw_induct [where P = "\<lambda>B base local i e y. e = - 1 \<longrightarrow> (\<exists>j. deleted_in B base j \<or> deleted_in B local j)", rotated])
    (auto split: if_splits)

text \<open>
  C30. Deleting a range of rows: unless the range ends at the largest row number, the call returns;
  it is refused with a write conflict exactly when some row of the range is already deleted, and otherwise
  adds the rows of the range to the local deletes and changes nothing else.  With the largest row number as
  its end and no deleted row the scan never ends.
\<close>

theorem DeleteLocked_correct:
  assumes "bitmap_laws B"
  shows "(e \<noteq> - 1 \<longrightarrow>
      (if {s..e} \<inter> all_deletes B n \<noteq> {} then DeleteLocked B s e n = Some (Err TxnWWConflictErr)
       else \<exists>d. DeleteLocked B s e n = Some (Ok (n\<lparr>localDeletes := Some d\<rparr>))
         \<and> bm_set B d = opt_set B (localDeletes n) \<union> {s..e}))
    \<and> (all_deletes B n = {} \<longrightarrow> DeleteLocked B s (- 1) n = None)"
proof (intro conjI impI)
  assume e: "e \<noteq> - 1"
  have scan: "delete_scan B (baseDeletes n) (localDeletes n) s e = Some ({s..e} \<inter> all_deletes B n \<noteq> {})"
    unfolding delete_scan_ends [OF e] by (auto simp: deleted_in_set [OF assms])
  define d where "d = bm_addRange B (case localDeletes n of None \<Rightarrow> bm_new B | Some b \<Rightarrow> b) (ucast s) (ucast (e + 1))"
  have "unat (e + 1) = Suc (unat e)" by (rule unat_Suc_below [OF order_refl e])
  then have "bm_set B d = opt_set B (localDeletes n) \<union> {s..e}"
    unfolding d_def bitmap_lawsD(5) [OF assms]
    by (auto simp: opt_set_def bitmap_lawsD(2) [OF assms] word_le_nat_alt less_Suc_eq_le split: option.splits)
  then show "if {s..e} \<inter> all_deletes B n \<noteq> {} then DeleteLocked B s e n = Some (Err TxnWWConflictErr)
      else \<exists>d. DeleteLocked B s e n = Some (Ok (n\<lparr>localDeletes := Some d\<rparr>))
         \<and> bm_set B d = opt_set B (localDeletes n) \<union> {s..e}"
    by (auto simp: DeleteLocked_def scan d_def Let_def)
next
  assume "all_deletes B n = {}"
  then have "delete_scan B (baseDeletes n) (localDeletes n) s (- 1) = None"
    using delete_scan_result [of B "baseDeletes n" "localDeletes n" s "- 1"]
    by (cases "delete_scan B (baseDeletes n) (localDeletes n) s (- 1)") (auto simp: deleted_in_set [OF assms])
  then show "DeleteLocked B s (- 1) n = None" by (simp add: DeleteLocked_def)
qed

definition demo_meta :: "unit BlockMeta" where
  "demo_meta = \<lparr>meta_id = zero_ID, meta_cols = [\<lparr>cd_Name = ''a'', cd_Idx = 0, cd_Type = ()\<rparr>]\<rparr>"

definition demo_block :: "(nat, u32 list, unit) BlockUpdates" where
  "demo_block = NewBlockUpdates demo_env (Some 3) demo_meta (Some [7])"

theorem DeleteLocked_correct_witness:
  "DeleteLocked list_bitmap 5 9 demo_block = Some (Err TxnWWConflictErr)
   \<and> (\<exists>d. DeleteLocked list_bitmap 1 2 demo_block = Some (Ok (demo_block\<lparr>localDeletes := Some d\<rparr>)) \<and> bm_set list_bitmap d = {1..2})
   \<and> DeleteLocked list_bitmap 5 (- 1) (NewEmptyBlockUpdates :: (nat, u32 list, unit) BlockUpdates) = None"
proof -
  have a: "opt_set list_bitmap (baseDeletes demo_block) = {7}" "localDeletes demo_block = None"
    by (simp_all add: demo_block_def NewBlockUpdates_def NewEmptyBlockUpdates_def opt_set_def list_bitmap_def Let_def)
  have b: "{5..9 :: u32} \<inter> {7} \<noteq> {}" "{1..2 :: u32} \<inter> {7} = {}" by auto
  have c: "all_deletes list_bitmap (NewEmptyBlockUpdates :: (nat, u32 list, unit) BlockUpdates) = {}"
    by (simp add: NewEmptyBlockUpdates_def opt_set_def)
  have opt_None: "opt_set list_bitmap (None :: u32 list option) = {}" by (simp add: opt_set_def)
  have n: "(9 :: u32) \<noteq> - 1" "(2 :: u32) \<noteq> - 1" by simp_all
  show ?thesis
    using DeleteLocked_correct [OF list_bitmap_laws, of 9 5 demo_block]
      DeleteLocked_correct [OF list_bitmap_laws, of 2 1 demo_block]
      DeleteLocked_correct [OF list_bitmap_laws, of 2 5 "NewEmptyBlockUpdates :: (nat, u32 list, unit) BlockUpdates"]
    unfolding a c using b n by (simp add: opt_None)
qed

section \<open>Visibility of an update node\<close>



section \<open>The order of the chain\<close>

text \<open>Among the nodes of transactions the comparison is an order as the link asks for; merges are not covered,
  two of them with the same timestamp compare below each other in both directions.\<close>

interpretation upds: payload_order Updates_Compare "\<lambda>n. bu_nodeType n = NT_Normal"
  by unfold_locales (auto simp: Updates_Compare_def split: if_splits)

definition chain_rep :: "('v, 'b, 'ty) BlockUpdateChain \<Rightarrow> addr list \<Rightarrow> bool" where
  "chain_rep ch xs \<longleftrightarrow> link_rep (ch_heap ch) (ch_link ch) xs
     \<and> (\<forall>x \<in> set xs. payload_of (ch_heap ch) x = Some x \<and> ch_nodes ch x \<noteq> None)
     \<and> (\<forall>a. ch_free ch \<le> a \<longrightarrow> ch_heap ch a = None)"

definition node_at :: "('v, 'b, 'ty) BlockUpdateChain \<Rightarrow> addr \<Rightarrow> ('v, 'b, 'ty) BlockUpdates" where
  "node_at ch a = the (ch_nodes ch a)"

lemma payload_of_None: "payload_of h a = None \<longleftrightarrow> h a = None"
  by (simp add: payload_of_def)

lemma chain_rep_free: "chain_rep ch xs \<Longrightarrow> x \<in> set xs \<Longrightarrow> x < ch_free ch"
  by (metis chain_rep_def linorder_not_less option.distinct(1) payload_of_None)

lemma sink_compose: "sink (node_Compare ns) id a xs = sink Updates_Compare (\<lambda>x. the (ns x)) a xs"
  by (simp add: sink_def node_Compare_def)

lemma NewBlockUpdateNode_rep:
  fixes u :: "('v, 'b, 'ty) BlockUpdates"
  assumes "chain_rep ch xs"
  defines "a \<equiv> ch_free ch" and "ns \<equiv> (ch_nodes ch)(ch_free ch \<mapsto> u)"
  shows "\<exists>ch'. NewBlockUpdateNode u ch = Some (a, ch') \<and> chain_rep ch' (sink Updates_Compare (\<lambda>x. the (ns x)) a xs)
    \<and> ch_nodes ch' = ns \<and> ch_meta ch' = ch_meta ch \<and> latestCommit ch' = latestCommit ch"
proof -
  have pay: "payload_of (ch_heap ch) x = Some (id x)" if "x \<in> set xs" for x
    using assms(1) that by (simp add: chain_rep_def)
  have lr: "link_rep (ch_heap ch) (ch_link ch) xs" and fresh: "ch_heap ch a = None"
    using assms(1) by (auto simp: chain_rep_def a_def)
  obtain l h where i: "Link_Insert (node_Compare ns) a a (ch_link ch) (ch_heap ch) = Some (l, h)"
      "link_rep h l (sink (node_Compare ns) (id(a := a)) a xs)" "payload_of h = (payload_of (ch_heap ch))(a \<mapsto> a)"
    using Link_Insert_rep [OF lr fresh pay] by blast
  have id: "id(a := a) = id" by auto
  let ?ch = "ch\<lparr>ch_link := l, ch_heap := h, ch_nodes := ns, ch_free := Suc a\<rparr>"
  have "h b = None" if "Suc a \<le> b" for b
    using assms(1) that by (simp add: payload_of_None [symmetric] i(3)) (simp add: payload_of_None chain_rep_def a_def)
  then have "chain_rep ?ch (sink Updates_Compare (\<lambda>x. the (ns x)) a xs)"
    using assms(1) i(2) [unfolded id sink_compose] by (auto simp: chain_rep_def i(3) ns_def a_def)
  moreover have "NewBlockUpdateNode u ch = Some (a, ?ch)"
    using i(1) by (simp add: NewBlockUpdateNode_def a_def ns_def Let_def)
  ultimately show ?thesis by simp
qed

text \<open>Collecting the nodes with a loop.\<close>

definition chain_list :: "('v, 'b, 'ty) BlockUpdateChain \<Rightarrow> bool \<Rightarrow> ('v, 'b, 'ty) BlockUpdates list option" where
  "chain_list ch reverse = LoopChainLocked ch (\<lambda>u s. (True, s @ [u])) reverse []"

lemma loop_list_collect: "loop_list (\<lambda>a s. (True, s @ [f a])) xs s = s @ map f xs"
  by (induction xs arbitrary: s) auto

lemma LoopChain_rep:
  assumes "chain_rep ch xs"
  shows "LoopChainLocked ch fn False s = Some (loop_list (\<lambda>a. fn (node_at ch a)) xs s)"
  using assms loop_forward [of "ch_heap ch" None xs "\<lambda>a. fn (node_at ch a)" s]
  by (simp add: LoopChainLocked_def Link_Loop_def chain_rep_def link_rep_def dll_def node_at_def [abs_def])


definition demo_chain :: "(nat, u32 list, unit) BlockUpdateChain" where
  "demo_chain = NewUpdateChain demo_meta"

lemma demo_chain_rep: "chain_rep demo_chain []"
  by (simp add: chain_rep_def demo_chain_def NewUpdateChain_def link_rep_def dll_def)


text \<open>
  Preparing the commit of a node that is not at the front of its chain loses the nodes in front of
  it: afterwards a traversal from the head no longer reaches the updates of the transactions that
  started later, although they are still linked backwards from the tail.
\<close>

lemma PrepareCommit_loses_newer:
  assumes "chain_rep ch (pre @ a # post)" and "bu_txn (node_at ch a) = Some t" and "bu_commitTs (node_at ch a) = UncommitTS"
    and "CommitTS (env t) \<noteq> UncommitTS"
  shows "\<exists>ch'. Node_PrepareCommit env a ch = Some (Ok ch') \<and> latestCommit ch' = Some a
    \<and> node_at ch' a = (node_at ch a)\<lparr>bu_commitTs := CommitTS (env t)\<rparr>
    \<and> (let ys = sink Updates_Compare (node_at ch') a post in
       chain_list ch' False = Some (map (node_at ch') ys) \<and> chain_list ch' True = Some (map (node_at ch') (rev (pre @ ys))))"
proof -
  define u where "u = (node_at ch a)\<lparr>bu_commitTs := CommitTS (env t)\<rparr>"
  define ns where "ns = (ch_nodes ch)(a \<mapsto> u)"
  have lr: "link_rep (ch_heap ch) (ch_link ch) (pre @ a # post)" using assms(1) by (simp add: chain_rep_def)
  have pay: "payload_of (ch_heap ch) x = Some (id x)" if "x \<in> set (a # post)" for x
    using assms(1) that by (auto simp: chain_rep_def)
  define ys where "ys = sink (node_Compare ns) id a post"
  obtain h where up: "Link_Update (node_Compare ns) a (ch_link ch) (ch_heap ch)
      = Some (ch_link ch\<lparr>link_head := Some (hd ys), link_tail := last_opt (pre @ ys)\<rparr>, h)"
      "dll h (pre @ ys)"
    unfolding ys_def using Link_Update_eq [OF lr pay] by blast
  define ch' where "ch' = ch\<lparr>ch_nodes := ns, ch_link := ch_link ch\<lparr>link_head := Some (hd ys), link_tail := last_opt (pre @ ys)\<rparr>,
      ch_heap := h, latestCommit := Some a\<rparr>"
  have "Block_PrepareCommit env (node_at ch a) = Ok u" using assms(2,3) by (simp add: Block_PrepareCommit_def u_def)
  then have step: "Node_PrepareCommit env a ch = Some (Ok ch')"
    using up(1) assms(4)
    by (simp add: Node_PrepareCommit_def node_at_def [symmetric] Chain_UpdateLocked_def ns_def [symmetric] ch'_def)
      (simp add: ns_def u_def)
  have na: "node_at ch' = (\<lambda>x. the (ns x))" by (simp add: ch'_def node_at_def fun_eq_iff)
  have ne: "ys \<noteq> []" by (simp add: ys_def sink_nonempty)
  have sg: "seg h (last_opt pre) ys None" "seg h None (pre @ ys) None"
    using up(2) ne by (auto simp: dll_def seg_append last_opt_def hd_opt_def)
  have "chain_list ch' False = Some (map (node_at ch') ys)"
    using loop_forward [OF sg(1), of "\<lambda>x s. (True, s @ [node_at ch' x])" "[]"] ne
    by (simp add: chain_list_def LoopChainLocked_def Link_Loop_def ch'_def node_at_def hd_opt_def loop_list_collect)
  moreover have "chain_list ch' True = Some (map (node_at ch') (rev (pre @ ys)))"
    using loop_backward [OF sg(2), of "\<lambda>x s. (True, s @ [node_at ch' x])" "[]"]
    by (simp add: chain_list_def LoopChainLocked_def Link_Loop_def ch'_def node_at_def loop_list_collect)
  moreover have "node_at ch' a = u" by (simp add: na ns_def)
  ultimately show ?thesis using step unfolding u_def [symmetric]
    by (intro exI [of _ ch']) (simp add: Let_def ys_def sink_compose na [symmetric], simp add: ch'_def)
qed

definition demo_two :: "(nat, u32 list, unit) BlockUpdateChain" where
  "demo_two = demo_chain\<lparr>ch_link := \<lparr>link_head = Some 1, link_tail = Some 0\<rparr>,
     ch_heap := [1 \<mapsto> \<lparr>dl_prev = None, dl_next = Some 0, dl_payload = 1\<rparr>, 0 \<mapsto> \<lparr>dl_prev = Some 1, dl_next = None, dl_payload = 0\<rparr>],
     ch_nodes := [1 \<mapsto> NewBlockUpdates demo_env (Some 5) demo_meta None, 0 \<mapsto> NewBlockUpdates demo_env (Some 3) demo_meta None],
     ch_free := 2\<rparr>"

lemma demo_two_rep: "chain_rep demo_two ([1] @ 0 # [])"
  by (simp add: chain_rep_def demo_two_def demo_chain_def NewUpdateChain_def link_rep_def dll_def allocd_def next_of_def prev_of_def
      payload_of_def last_opt_def)

lemma PrepareCommit_loses_newer_example:
  "\<exists>ch'. Node_PrepareCommit (demo_env(3 := (demo_env 3)\<lparr>CommitTS := 6\<rparr>)) 0 demo_two = Some (Ok ch')
     \<and> chain_list ch' False = Some [node_at ch' 0] \<and> chain_list ch' True = Some [node_at ch' 0, node_at ch' 1]"
proof -
  have n: "bu_txn (node_at demo_two 0) = Some 3" "bu_commitTs (node_at demo_two 0) = UncommitTS"
    by (simp_all add: node_at_def demo_two_def NewBlockUpdates_def NewEmptyBlockUpdates_def Let_def)
  show ?thesis
    using PrepareCommit_loses_newer [OF demo_two_rep n, of "demo_env(3 := (demo_env 3)\<lparr>CommitTS := 6\<rparr>)"]
    by (fastforce simp: UncommitTS_def sink_def Let_def)
qed

section \<open>Merging\<close>

text \<open>The value an update node has for a row of a column.\<close>

definition uval :: "('v, 'b, 'ty) BlockUpdates \<Rightarrow> u16 \<Rightarrow> u32 \<Rightarrow> 'v goval option" where
  "uval u c r = (case map_of (bu_cols u) c of None \<Rightarrow> None | Some col \<Rightarrow> map_of (txnVals col) r)"

definition updates_wf :: "('v, 'b, 'ty) BlockUpdates \<Rightarrow> bool" where
  "updates_wf u \<longleftrightarrow> distinct (map fst (bu_cols u)) \<and> (\<forall>(c, col) \<in> set (bu_cols u). distinct (map fst (txnVals col)))"

definition cols_within :: "'ty BlockMeta \<Rightarrow> ('v, 'b, 'ty) BlockUpdates \<Rightarrow> bool" where
  "cols_within meta u \<longleftrightarrow> (\<forall>c \<in> fst ` set (bu_cols u). unat c < length (meta_cols meta))"

lemma fold_merge_vals:
  "distinct (map fst kvs) \<Longrightarrow> map_of (txnVals (fold (merge_val B) kvs n)) = map_of (txnVals n) ++ map_of kvs"
proof (induction kvs arbitrary: n)
  case (Cons kv kvs)
  then have "map_of kvs (fst kv) = None" by (simp add: map_of_eq_None_iff)
  then show ?case using Cons by (auto simp: merge_val_def update_conv fun_eq_iff map_add_def split: option.splits)
qed simp

lemma Column_Merge_vals:
  "distinct (map fst (txnVals q)) \<Longrightarrow> map_of (txnVals (Column_MergeLocked B q n)) = map_of (txnVals n) ++ map_of (txnVals q)"
  by (simp add: Column_MergeLocked_def fold_merge_vals)

lemma merge_col_ok:
  assumes "bu_meta n = Some meta" and "unat c < length (meta_cols meta)" and "distinct (map fst (txnVals col))"
  shows "\<exists>n'. merge_col B c col n = Ok n' \<and> bu_meta n' = Some meta \<and> localDeletes n' = localDeletes n \<and> bu_commitTs n' = bu_commitTs n
    \<and> bu_nodeType n' = bu_nodeType n
    \<and> (\<forall>c' r. uval n' c' r = (if c' = c then (case map_of (txnVals col) r of Some v \<Rightarrow> Some v | None \<Rightarrow> uval n c r) else uval n c' r))"
proof -
  obtain cur where cur: "get_col B c n = Ok cur" "\<And>r. map_of (txnVals cur) r = uval n c r"
    using assms(1,2) by (cases "map_of (bu_cols n) c") (auto simp: get_col_def uval_def NewColumnUpdates_def)
  then show ?thesis
    using assms by (auto simp: merge_col_def uval_def update_conv Column_Merge_vals map_add_def split: option.splits)
qed

lemma merge_cols_ok:
  assumes "bu_meta n = Some meta" and "distinct (map fst cs)" and "\<forall>c \<in> fst ` set cs. unat c < length (meta_cols meta)"
    and "\<forall>(c, col) \<in> set cs. distinct (map fst (txnVals col))"
  shows "\<exists>n'. merge_cols B cs n = Ok n' \<and> bu_meta n' = Some meta \<and> localDeletes n' = localDeletes n \<and> bu_commitTs n' = bu_commitTs n
    \<and> bu_nodeType n' = bu_nodeType n
    \<and> (\<forall>c r. uval n' c r = (case map_of cs c of
          None \<Rightarrow> uval n c r | Some col \<Rightarrow> (case map_of (txnVals col) r of Some v \<Rightarrow> Some v | None \<Rightarrow> uval n c r)))"
  using assms
proof (induction cs arbitrary: n)
  case (Cons x cs)
  obtain c col where x: "x = (c, col)" by fastforce
  obtain n1 where n1: "merge_col B c col n = Ok n1" "bu_meta n1 = Some meta" "localDeletes n1 = localDeletes n" "bu_commitTs n1 = bu_commitTs n"
      "bu_nodeType n1 = bu_nodeType n"
      "\<forall>c' r. uval n1 c' r = (if c' = c then (case map_of (txnVals col) r of Some v \<Rightarrow> Some v | None \<Rightarrow> uval n c r) else uval n c' r)"
    using merge_col_ok [OF Cons.prems(1), of c col B] Cons.prems x by auto
  obtain n2 where n2: "merge_cols B cs n1 = Ok n2" "bu_meta n2 = Some meta" "localDeletes n2 = localDeletes n1" "bu_commitTs n2 = bu_commitTs n1"
      "bu_nodeType n2 = bu_nodeType n1"
      "\<forall>c r. uval n2 c r = (case map_of cs c of
          None \<Rightarrow> uval n1 c r | Some col \<Rightarrow> (case map_of (txnVals col) r of Some v \<Rightarrow> Some v | None \<Rightarrow> uval n1 c r))"
    using Cons.IH [OF n1(2)] Cons.prems x by auto
  have "map_of cs c = None" using Cons.prems(2) x by (simp add: map_of_eq_None_iff)
  then have "\<forall>c' r. uval n2 c' r = (case map_of (x # cs) c' of
          None \<Rightarrow> uval n c' r | Some col \<Rightarrow> (case map_of (txnVals col) r of Some v \<Rightarrow> Some v | None \<Rightarrow> uval n c' r))"
    using n1(6) n2(6) x by (auto split: option.splits)
  then show ?case using n1(1-5) n2(1-5) x by (intro exI [of _ n2]) simp
qed simp

lemma or_deletes_set:
  "bitmap_laws B \<Longrightarrow> opt_set B (or_deletes B q d) = opt_set B d \<union> opt_set B q"
  by (auto simp: or_deletes_def opt_set_def bitmap_lawsD(2,7) split: option.splits)

text \<open>Merging one node into another: its deletes are added and its values win.\<close>

lemma Block_MergeLocked_ok:
  assumes "bitmap_laws B" and "bu_meta n = Some meta" and "updates_wf q" and "cols_within meta q"
  shows "\<exists>n'. Block_MergeLocked B q n = Ok n' \<and> bu_meta n' = Some meta \<and> bu_commitTs n' = bu_commitTs n \<and> bu_nodeType n' = bu_nodeType n
    \<and> opt_set B (localDeletes n') = opt_set B (localDeletes n) \<union> opt_set B (localDeletes q)
    \<and> (\<forall>c r. uval n' c r = (case uval q c r of Some v \<Rightarrow> Some v | None \<Rightarrow> uval n c r))"
proof -
  let ?n = "n\<lparr>localDeletes := or_deletes B (localDeletes q) (localDeletes n)\<rparr>"
  have "bu_meta ?n = Some meta" "uval ?n = uval n" using assms(2) by (simp_all add: uval_def fun_eq_iff)
  then obtain n' where n': "merge_cols B (bu_cols q) ?n = Ok n'" "bu_meta n' = Some meta" "localDeletes n' = localDeletes ?n"
      "bu_commitTs n' = bu_commitTs ?n" "bu_nodeType n' = bu_nodeType ?n"
      and vals: "\<forall>c r. uval n' c r = (case map_of (bu_cols q) c of
          None \<Rightarrow> uval n c r | Some col \<Rightarrow> (case map_of (txnVals col) r of Some v \<Rightarrow> Some v | None \<Rightarrow> uval n c r))"
    using merge_cols_ok [of ?n meta "bu_cols q" B] assms(3,4) unfolding updates_wf_def cols_within_def by metis
  have "uval n' c r = (case uval q c r of Some v \<Rightarrow> Some v | None \<Rightarrow> uval n c r)" for c r
    using vals [rule_format, of c r] by (cases "map_of (bu_cols q) c") (simp_all add: uval_def [of q])
  then show ?thesis using n' by (intro exI [of _ n']) (simp add: Block_MergeLocked_def or_deletes_set [OF assms(1)])
qed

text \<open>The nodes that \<open>AddMergeNode\<close> merges: the committed ones up to the first merge.\<close>

fun merge_sources :: "('v, 'b, 'ty) BlockUpdates list \<Rightarrow> ('v, 'b, 'ty) BlockUpdates list" where
  "merge_sources [] = []"
| "merge_sources (u # us) =
     (if bu_commitTs u = UncommitTS then merge_sources us else if IsMerge u then [u] else u # merge_sources us)"

text \<open>The value of the last node of a list that has one.\<close>

definition last_value :: "('v, 'b, 'ty) BlockUpdates list \<Rightarrow> u16 \<Rightarrow> u32 \<Rightarrow> 'v goval option" where
  "last_value us c r = foldl (\<lambda>acc u. case uval u c r of Some v \<Rightarrow> Some v | None \<Rightarrow> acc) None us"

lemma merge_loop:
  fixes m :: "('v, 'b, 'ty) BlockUpdates option"
  assumes "bitmap_laws B" and "\<forall>u \<in> set (merge_sources (map f xs)). updates_wf u \<and> cols_within meta u"
    and "\<And>m'. m = Some m' \<Longrightarrow> bu_meta m' = Some meta"
  shows "\<exists>m2. loop_list (\<lambda>a. merge_visit B meta (f a)) xs (Ok m) = Ok m2
    \<and> (merge_sources (map f xs) = [] \<longrightarrow> m2 = m)
    \<and> (merge_sources (map f xs) \<noteq> [] \<longrightarrow> (\<exists>m'. m2 = Some m' \<and> bu_meta m' = Some meta
        \<and> bu_commitTs m' = (case m of None \<Rightarrow> bu_commitTs (hd (merge_sources (map f xs))) | Some m0 \<Rightarrow> bu_commitTs m0)
        \<and> bu_nodeType m' = (case m of None \<Rightarrow> NT_Merge | Some m0 \<Rightarrow> bu_nodeType m0)
        \<and> opt_set B (localDeletes m') = (case m of None \<Rightarrow> {} | Some m0 \<Rightarrow> opt_set B (localDeletes m0))
            \<union> (\<Union>u \<in> set (merge_sources (map f xs)). opt_set B (localDeletes u))
        \<and> (\<forall>c r. uval m' c r = foldl (\<lambda>acc u. case uval u c r of Some v \<Rightarrow> Some v | None \<Rightarrow> acc)
            (case m of None \<Rightarrow> None | Some m0 \<Rightarrow> uval m0 c r) (merge_sources (map f xs)))))"
  using assms(2,3)
proof (induction xs arbitrary: m)
  case (Cons a xs)
  let ?u = "f a"
  show ?case
  proof (cases "bu_commitTs ?u = UncommitTS")
    case True
    then have src: "merge_sources (map f (a # xs)) = merge_sources (map f xs)" by simp
    have loop: "loop_list (\<lambda>a. merge_visit B meta (f a)) (a # xs) (Ok m) = loop_list (\<lambda>a. merge_visit B meta (f a)) xs (Ok m)"
      using True by (simp add: merge_visit_def [of B meta "f a" "Ok m"])
    show ?thesis unfolding loop src by (rule Cons.IH) (use Cons.prems in \<open>simp_all only: src\<close>)
  next
    case False
    define m0 where "m0 = (case m of None \<Rightarrow> NewMergeBlockUpdates (bu_commitTs ?u) meta None | Some m' \<Rightarrow> m')"
    have m0: "bu_meta m0 = Some meta" "bu_commitTs m0 = (case m of None \<Rightarrow> bu_commitTs ?u | Some m' \<Rightarrow> bu_commitTs m')"
      "bu_nodeType m0 = (case m of None \<Rightarrow> NT_Merge | Some m' \<Rightarrow> bu_nodeType m')"
      "opt_set B (localDeletes m0) = (case m of None \<Rightarrow> {} | Some m' \<Rightarrow> opt_set B (localDeletes m'))"
      "\<And>c r. uval m0 c r = (case m of None \<Rightarrow> None | Some m' \<Rightarrow> uval m' c r)"
      using Cons.prems(2)
      by (auto simp: m0_def NewMergeBlockUpdates_def NewEmptyBlockUpdates_def opt_set_def uval_def split: option.splits)
    have "updates_wf ?u" "cols_within meta ?u" using Cons.prems(1) False by (auto split: if_splits)
    then obtain m1 where m1: "Block_MergeLocked B ?u m0 = Ok m1" "bu_meta m1 = Some meta" "bu_commitTs m1 = bu_commitTs m0"
        "bu_nodeType m1 = bu_nodeType m0" "opt_set B (localDeletes m1) = opt_set B (localDeletes m0) \<union> opt_set B (localDeletes ?u)"
        "\<forall>c r. uval m1 c r = (case uval ?u c r of Some v \<Rightarrow> Some v | None \<Rightarrow> uval m0 c r)"
      using Block_MergeLocked_ok [OF assms(1) m0(1)] by blast
    have v: "merge_visit B meta ?u (Ok m) = (\<not> IsMerge ?u, Ok (Some m1))"
      using False m1(1) by (simp add: merge_visit_def m0_def [symmetric] Let_def)
    show ?thesis
    proof (cases "IsMerge ?u")
      case True
      then show ?thesis using v False m0(2-4) m1(1-5) m1(6) [unfolded m0(5)] by (cases m) (auto cong: option.case_cong)
    next
      case nm: False
      have "\<forall>u \<in> set (merge_sources (map f xs)). updates_wf u \<and> cols_within meta u"
        using Cons.prems(1) False nm by simp
      from Cons.IH [OF this, of "Some m1"] m1(2)
      obtain m2 where m2: "loop_list (\<lambda>a. merge_visit B meta (f a)) xs (Ok (Some m1)) = Ok m2"
          "merge_sources (map f xs) = [] \<longrightarrow> m2 = Some m1"
          "merge_sources (map f xs) \<noteq> [] \<longrightarrow> (\<exists>m'. m2 = Some m' \<and> bu_meta m' = Some meta
            \<and> bu_commitTs m' = bu_commitTs m1 \<and> bu_nodeType m' = bu_nodeType m1
            \<and> opt_set B (localDeletes m') = opt_set B (localDeletes m1) \<union> (\<Union>u \<in> set (merge_sources (map f xs)). opt_set B (localDeletes u))
            \<and> (\<forall>c r. uval m' c r = foldl (\<lambda>acc u. case uval u c r of Some v \<Rightarrow> Some v | None \<Rightarrow> acc)
                (uval m1 c r) (merge_sources (map f xs))))"
        by auto
      have src: "merge_sources (map f (a # xs)) = ?u # merge_sources (map f xs)" using False nm by simp
      have loop: "loop_list (\<lambda>a. merge_visit B meta (f a)) (a # xs) (Ok m) = Ok m2" using v nm m2(1) by simp
      obtain m' where "m2 = Some m'" "bu_meta m' = Some meta" "bu_commitTs m' = bu_commitTs m1" "bu_nodeType m' = bu_nodeType m1"
          "opt_set B (localDeletes m') = opt_set B (localDeletes m1) \<union> (\<Union>u \<in> set (merge_sources (map f xs)). opt_set B (localDeletes u))"
          "\<forall>c r. uval m' c r = foldl (\<lambda>acc u. case uval u c r of Some v \<Rightarrow> Some v | None \<Rightarrow> acc) (uval m1 c r) (merge_sources (map f xs))"
        using m2(2,3) m1(2) by (cases "merge_sources (map f xs) = []") auto
      then show ?thesis unfolding loop src using m1(3-5) m1(6) [unfolded m0(5)] m0(2-4) by (cases m) (auto simp: Un_assoc cong: option.case_cong)
    qed
  qed
qed simp

text \<open>
  C29. \<open>AddMergeNode\<close> merges the committed nodes from the head of the chain up to and including the first
  merge: the new node carries the commit time of the newest of them, all their deleted rows, and for
  every row and column the value of the oldest of them that has one.  Without a committed node it
  adds nothing.
\<close>

theorem AddMergeNode_merges:
  fixes ch :: "('v, 'b, 'ty) BlockUpdateChain"
  assumes "bitmap_laws B" and "chain_rep ch xs" and "src = merge_sources (map (node_at ch) xs)"
    and "\<forall>u \<in> set src. updates_wf u \<and> cols_within (ch_meta ch) u"
  shows "(src = [] \<longrightarrow> AddMergeNode B ch = Some (Ok (None, ch)))
    \<and> (src \<noteq> [] \<longrightarrow> (\<exists>a ch'. AddMergeNode B ch = Some (Ok (Some a, ch')) \<and> latestMerge ch' = Some a
        \<and> bu_commitTs (node_at ch' a) = bu_commitTs (hd src) \<and> IsMerge (node_at ch' a)
        \<and> opt_set B (localDeletes (node_at ch' a)) = (\<Union>u \<in> set src. opt_set B (localDeletes u))
        \<and> (\<forall>c r. uval (node_at ch' a) c r = last_value src c r)))"
proof -
  let ?f = "\<lambda>a. merge_visit B (ch_meta ch) (node_at ch a)"
  obtain m2 where m2: "loop_list ?f xs (Ok None) = Ok m2" "src = [] \<longrightarrow> m2 = None"
      "src \<noteq> [] \<longrightarrow> (\<exists>m'. m2 = Some m' \<and> bu_commitTs m' = bu_commitTs (hd src) \<and> bu_nodeType m' = NT_Merge
        \<and> opt_set B (localDeletes m') = (\<Union>u \<in> set src. opt_set B (localDeletes u)) \<and> (\<forall>c r. uval m' c r = last_value src c r))"
    using merge_loop [OF assms(1), of "node_at ch" xs "ch_meta ch" None] assms(3,4) by (auto simp: last_value_def)
  have loop: "LoopChainLocked ch (merge_visit B (ch_meta ch)) False (Ok None) = Some (Ok m2)"
    using LoopChain_rep [OF assms(2), of "merge_visit B (ch_meta ch)" "Ok None"] m2(1) by simp
  show ?thesis
  proof (cases "src = []")
    case True
    then show ?thesis using loop m2(2) by (simp add: AddMergeNode_def)
  next
    case False
    then obtain m' where m': "m2 = Some m'" "bu_commitTs m' = bu_commitTs (hd src)" "bu_nodeType m' = NT_Merge"
        "opt_set B (localDeletes m') = (\<Union>u \<in> set src. opt_set B (localDeletes u))" "\<forall>c r. uval m' c r = last_value src c r"
      using m2(3) by blast
    obtain ch' where ch': "NewBlockUpdateNode m' ch = Some (ch_free ch, ch')" "ch_nodes ch' = (ch_nodes ch)(ch_free ch \<mapsto> m')"
      using NewBlockUpdateNode_rep [OF assms(2)] by blast
    have "AddMergeNode B ch = Some (Ok (Some (ch_free ch), ch'\<lparr>latestMerge := Some (ch_free ch)\<rparr>))"
      using loop m'(1) ch'(1) by (simp add: AddMergeNode_def)
    moreover have "node_at (ch'\<lparr>latestMerge := Some (ch_free ch)\<rparr>) (ch_free ch) = m'" by (simp add: node_at_def ch'(2))
    ultimately show ?thesis using False m'(2-5) by (simp add: IsMerge_def)
  qed
qed

text \<open>Two committed updates of the same row, the newer one first.\<close>

definition demo_versions :: "(nat, u32 list, unit) BlockUpdateChain" where
  "demo_versions = demo_two\<lparr>ch_nodes :=
     [1 \<mapsto> (NewBlockUpdates demo_env None demo_meta None)\<lparr>bu_commitTs := 9,
        bu_cols := [(0, \<lparr>cu_colDef = None, cu_target = None, txnMask = [2], txnVals = [(2, VFix T_int32 90)]\<rparr>)]\<rparr>,
      0 \<mapsto> (NewBlockUpdates demo_env None demo_meta None)\<lparr>bu_commitTs := 4,
        bu_cols := [(0, \<lparr>cu_colDef = None, cu_target = None, txnMask = [2], txnVals = [(2, VFix T_int32 40)]\<rparr>)]\<rparr>]\<rparr>"

theorem AddMergeNode_merges_witness:
  "\<exists>a ch'. AddMergeNode list_bitmap demo_versions = Some (Ok (Some a, ch')) \<and> bu_commitTs (node_at ch' a) = 9
     \<and> uval (node_at ch' a) 0 2 = Some (VFix T_int32 40)"
proof -
  have rep: "chain_rep demo_versions [1, 0]"
    using demo_two_rep by (simp add: chain_rep_def demo_versions_def)
  define src where "src = merge_sources (map (node_at demo_versions) [1, 0])"
  have src: "src = [node_at demo_versions 1, node_at demo_versions 0]"
    by (simp add: src_def node_at_def demo_versions_def IsMerge_def NewBlockUpdates_def NewEmptyBlockUpdates_def UncommitTS_def Let_def)
  have wf: "\<forall>u \<in> set src. updates_wf u \<and> cols_within (ch_meta demo_versions) u"
    by (simp add: src node_at_def demo_versions_def updates_wf_def cols_within_def demo_two_def demo_chain_def NewUpdateChain_def demo_meta_def)
  have v: "last_value src 0 2 = Some (VFix T_int32 40)" "bu_commitTs (hd src) = 9"
    by (simp_all add: src last_value_def uval_def node_at_def demo_versions_def)
  show ?thesis
    using AddMergeNode_merges [OF list_bitmap_laws rep src_def wf] v by (auto simp: src)
qed

lemma Block_write_read:
  assumes "bu_id u = Some i" and "bu_cols u = []" and "\<forall>d. localDeletes u = Some d \<longrightarrow> length (bm_ToBytes B d) < 2 ^ 32"
  shows "\<exists>buf. Block_WriteTo B G u = Ok buf \<and> (\<forall>n bs. Block_ReadFrom B G n (buf @ bs) = Ok (n\<lparr>bu_id := Some i\<rparr>, bs))"
proof (cases "localDeletes u")
  case None
  then have "Block_WriteTo B G u = Ok (MarshalID i @ put_u32 0 @ put_u16 0)"
    using assms by (simp add: Block_WriteTo_def Let_def)
  then show ?thesis by (simp add: Block_ReadFrom_def)
next
  case (Some d)
  define t where "t = bm_ToBytes B d"
  define w :: u32 where "w = word_of_nat (length t)"
  have w: "unat w = length t" using assms(3) Some by (simp add: w_def t_def unat_of_nat)
  have "Block_WriteTo B G u = Ok (MarshalID i @ (put_u32 w @ t) @ put_u16 0)"
    using assms Some by (simp add: Block_WriteTo_def Let_def t_def w_def)
  moreover have "(if w \<noteq> 0 then buf_read (unat w) (t @ put_u16 0 @ bs) else Ok (x, t @ put_u16 0 @ bs))
      = Ok (if w \<noteq> 0 then t else x, put_u16 0 @ bs)" for x bs
    using w by auto
  ultimately show ?thesis by (simp add: Block_ReadFrom_def)
qed

text \<open>
  Reading block updates back from the log returns only the identifier of the block: whatever was
  written, the deleted rows and every column are parsed and thrown away.  In particular the deletes
  of a transaction that only deleted rows are written, read without an error, and lost.
\<close>

lemma Block_ReadFrom_drops:
  assumes "bu_id u = Some i" and "bu_cols u = []" and "localDeletes u = Some d" and "length (bm_ToBytes B d) < 2 ^ 32"
  shows "(\<exists>buf. Block_WriteTo B G u = Ok buf
      \<and> Block_ReadFrom B G NewEmptyBlockUpdates (buf @ bs) = Ok (NewEmptyBlockUpdates\<lparr>bu_id := Some i\<rparr>, bs))
    \<and> (\<forall>n n' ws r. Block_ReadFrom B G n ws = Ok (n', r) \<longrightarrow> bu_cols n' = bu_cols n \<and> localDeletes n' = localDeletes n)"
proof
  show "\<exists>buf. Block_WriteTo B G u = Ok buf
      \<and> Block_ReadFrom B G NewEmptyBlockUpdates (buf @ bs) = Ok (NewEmptyBlockUpdates\<lparr>bu_id := Some i\<rparr>, bs)"
    using Block_write_read [OF assms(1,2), of B G] assms(3,4) by auto
qed (auto simp: Block_ReadFrom_def)

lemma Block_ReadFrom_drops_example:
  "\<exists>buf. Block_WriteTo list_bitmap demo_gvec ((NewBlockUpdates demo_env (Some 3) demo_meta None)\<lparr>localDeletes := Some [4]\<rparr>) = Ok buf
     \<and> Block_ReadFrom list_bitmap demo_gvec NewEmptyBlockUpdates buf = Ok (NewEmptyBlockUpdates\<lparr>bu_id := Some zero_ID\<rparr>, [])"
  using Block_ReadFrom_drops [of "(NewBlockUpdates demo_env (Some 3) demo_meta None)\<lparr>localDeletes := Some [4 :: u32]\<rparr>" zero_ID "[4]"
      list_bitmap demo_gvec "[]"]
  by (auto simp: NewBlockUpdates_def NewEmptyBlockUpdates_def demo_meta_def list_bitmap_def Let_def)

end
