(* ===== verification/Commands.thy ===== *)
theory Commands
  imports Updates Catalog
begin

text \<open>
  The commands a transaction writes to the log: \<^verbatim>\<open>pkg/txn/txnbase/command.go\<close> (pointers,
  delete bitmaps, batches, compositions and the dispatch on the command type),
  \<^verbatim>\<open>pkg/catalog/command.go\<close> (creation and drop of catalog entries),
  \<^verbatim>\<open>pkg/updates/updatecmd.go\<close>, \<^verbatim>\<open>pkg/txn/txnimpl/appendcmd.go\<close> and the command
  collector of \<^verbatim>\<open>pkg/txn/txnimpl/cmdmgr.go\<close>.  An \<open>int16\<close> command type is its 16 bits.
\<close>

section \<open>Command types\<close>

definition CmdPointer :: u16 where "CmdPointer = 0"
definition CmdDeleteBitmap :: u16 where "CmdDeleteBitmap = 1"
definition CmdBatch :: u16 where "CmdBatch = 2"
definition CmdUpdate :: u16 where "CmdUpdate = 4"
definition CmdComposed :: u16 where "CmdComposed = 6"
definition CmdCustomized :: u16 where "CmdCustomized = 7"
definition CmdAppend :: u16 where "CmdAppend = CmdCustomized"
definition CmdCreateDatabase :: u16 where "CmdCreateDatabase = 256"
definition CmdDropDatabase :: u16 where "CmdDropDatabase = 257"
definition CmdCreateTable :: u16 where "CmdCreateTable = 258"
definition CmdDropTable :: u16 where "CmdDropTable = 259"
definition CmdCreateSegment :: u16 where "CmdCreateSegment = 260"
definition CmdDropSegment :: u16 where "CmdDropSegment = 261"
definition CmdCreateBlock :: u16 where "CmdCreateBlock = 262"
definition CmdDropBlock :: u16 where "CmdDropBlock = 263"

lemmas cmd_defs = CmdPointer_def CmdDeleteBitmap_def CmdBatch_def CmdUpdate_def CmdComposed_def CmdCustomized_def CmdAppend_def
  CmdCreateDatabase_def CmdDropDatabase_def CmdCreateTable_def CmdDropTable_def CmdCreateSegment_def CmdDropSegment_def
  CmdCreateBlock_def CmdDropBlock_def

definition entry_types :: "u16 list" where
  "entry_types = [CmdCreateDatabase, CmdDropDatabase, CmdCreateTable, CmdDropTable, CmdCreateSegment, CmdDropSegment,
     CmdCreateBlock, CmdDropBlock]"

section \<open>Commands on catalog entries\<close>

text \<open>
  The pointers of the command to the database, table, segment, block and base entry it is about.
\<close>

record 'ty entryCmd =
  ec_ID :: u32
  ec_db :: "'ty DBEntry option"
  ec_table :: "'ty TableEntry option"
  ec_entry :: "BaseEntry option"
  ec_segment :: "SegmentEntry option"
  ec_block :: "BlockEntry option"
  ec_type :: u16

definition newDBCmd :: "u32 \<Rightarrow> u16 \<Rightarrow> 'ty DBEntry option \<Rightarrow> 'ty entryCmd" where
  "newDBCmd i t d = \<lparr>ec_ID = i, ec_db = d, ec_table = None, ec_entry = map_option db_base d, ec_segment = None, ec_block = None, ec_type = t\<rparr>"

definition newEmptyEntryCmd :: "u16 \<Rightarrow> 'ty entryCmd" where
  "newEmptyEntryCmd t = newDBCmd 0 t None"

definition newTableCmd :: "u32 \<Rightarrow> u16 \<Rightarrow> 'ty DBEntry \<Rightarrow> 'ty TableEntry \<Rightarrow> 'ty entryCmd" where
  "newTableCmd i t d tb = \<lparr>ec_ID = i, ec_db = Some d, ec_table = Some tb, ec_entry = Some (tbl_base tb),
     ec_segment = None, ec_block = None, ec_type = t\<rparr>"

definition newSegmentCmd :: "u32 \<Rightarrow> u16 \<Rightarrow> 'ty DBEntry \<Rightarrow> 'ty TableEntry \<Rightarrow> SegmentEntry \<Rightarrow> 'ty entryCmd" where
  "newSegmentCmd i t d tb sg = \<lparr>ec_ID = i, ec_db = Some d, ec_table = Some tb, ec_entry = Some (seg_base sg),
     ec_segment = Some sg, ec_block = None, ec_type = t\<rparr>"

definition newBlockCmd :: "u32 \<Rightarrow> u16 \<Rightarrow> 'ty DBEntry \<Rightarrow> 'ty TableEntry \<Rightarrow> SegmentEntry \<Rightarrow> BlockEntry \<Rightarrow> 'ty entryCmd" where
  "newBlockCmd i t d tb sg bk = \<lparr>ec_ID = i, ec_db = Some d, ec_table = Some tb, ec_entry = Some (blk_base bk),
     ec_segment = Some sg, ec_block = Some bk, ec_type = t\<rparr>"

text \<open>The part of the encoding that depends on the type; a nil pointer that is followed panics.\<close>

definition entry_body :: "('ty \<Rightarrow> bytes) \<Rightarrow> 'ty entryCmd \<Rightarrow> BaseEntry \<Rightarrow> bytes res" where
  "entry_body encT c e =
     (let t = ec_type c in
      if t = CmdCreateDatabase then
        (case ec_db c of None \<Rightarrow> Panic | Some d \<Rightarrow> Ok (put_u64 (CreateAt e) @ WriteString (db_name d)))
      else if t = CmdCreateTable then
        (case ec_table c of None \<Rightarrow> Panic
         | Some tb \<Rightarrow> Ok (put_u64 (tbl_db tb) @ put_u64 (CreateAt e) @ Schema_Marshal encT (tbl_schema tb)))
      else if t = CmdCreateSegment then
        (case (ec_db c, ec_table c) of
           (Some d, Some tb) \<Rightarrow> Ok (put_u64 (be_ID (db_base d)) @ put_u64 (be_ID (tbl_base tb)) @ put_u64 (CreateAt e))
         | _ \<Rightarrow> Panic)
      else if t = CmdCreateBlock then
        (case (ec_db c, ec_table c, ec_segment c) of
           (Some d, Some tb, Some sg) \<Rightarrow>
             Ok (put_u64 (be_ID (db_base d)) @ put_u64 (be_ID (tbl_base tb)) @ put_u64 (be_ID (seg_base sg)) @ put_u64 (CreateAt e))
         | _ \<Rightarrow> Panic)
      else if t = CmdDropTable then
        (case ec_table c of None \<Rightarrow> Panic | Some tb \<Rightarrow> Ok (put_u64 (tbl_db tb) @ put_u64 (DeleteAt e)))
      else if t = CmdDropDatabase then Ok (put_u64 (DeleteAt e))
      else Ok [])"

definition entryCmd_WriteTo :: "('ty \<Rightarrow> bytes) \<Rightarrow> 'ty entryCmd \<Rightarrow> bytes res" where
  "entryCmd_WriteTo encT c =
     (case ec_entry c of
        None \<Rightarrow> Panic
      | Some e \<Rightarrow> res_bind (entry_body encT c e) (\<lambda>b. Ok (put_u16 (ec_type c) @ put_u32 (ec_ID c) @ put_u64 (be_ID e) @ b)))"

text \<open>Freshly allocated entries; the pointers of a table or segment to its parent and schema are nil.\<close>

definition zero_base :: "u64 \<Rightarrow> BaseEntry" where
  "zero_base i = \<lparr>CurrOp = OpCreate, be_Txn = None, PrevCommit = None, be_ID = i, CreateAt = 0, DeleteAt = 0\<rparr>"

definition blank_db :: "BaseEntry \<Rightarrow> string \<Rightarrow> 'ty DBEntry" where
  "blank_db b nm = \<lparr>db_base = b, db_name = nm, db_dir = empty_dir\<rparr>"

definition blank_table :: "BaseEntry \<Rightarrow> 'ty Schema \<Rightarrow> 'ty TableEntry" where
  "blank_table b s = \<lparr>tbl_base = b, tbl_db = 0, tbl_schema = s, tbl_entries = Map.empty, tbl_link = []\<rparr>"

definition blank_segment :: "BaseEntry \<Rightarrow> SegmentEntry" where
  "blank_segment b = \<lparr>seg_base = b, seg_table = 0, seg_entries = Map.empty, seg_link = [], seg_state = ES_Appendable\<rparr>"

definition entryCmd_ReadFrom :: "nat \<Rightarrow> (bytes \<Rightarrow> 'ty) \<Rightarrow> 'ty entryCmd \<Rightarrow> bytes \<Rightarrow> ('ty entryCmd \<times> bytes) res" where
  "entryCmd_ReadFrom typeSize decT c0 bs =
     res_bind (get_u32 bs) (\<lambda>(i, r1).
     res_bind (get_u64 r1) (\<lambda>(eid, r2).
       let c = c0\<lparr>ec_ID := i\<rparr>; e = zero_base eid; t = ec_type c0 in
       if t = CmdCreateDatabase then
         res_bind (get_u64 r2) (\<lambda>(ts, r3). res_bind (ReadString r3) (\<lambda>(nm, r4).
           let e' = e\<lparr>CreateAt := ts\<rparr> in Ok (c\<lparr>ec_entry := Some e', ec_db := Some (blank_db e' nm)\<rparr>, r4)))
       else if t = CmdCreateTable then
         res_bind (get_u64 r2) (\<lambda>(did, r3). res_bind (get_u64 r3) (\<lambda>(ts, r4).
         res_bind (Schema_ReadFrom typeSize decT zero_Schema r4) (\<lambda>(s, r5).
           let e' = e\<lparr>CreateAt := ts\<rparr>
           in Ok (c\<lparr>ec_entry := Some e', ec_db := Some (blank_db (zero_base did) []), ec_table := Some (blank_table e' s)\<rparr>, r5))))
       else if t = CmdCreateSegment then
         res_bind (get_u64 r2) (\<lambda>(did, r3). res_bind (get_u64 r3) (\<lambda>(tid, r4). res_bind (get_u64 r4) (\<lambda>(ts, r5).
           let e' = e\<lparr>CreateAt := ts\<rparr>
           in Ok (c\<lparr>ec_entry := Some e', ec_db := Some (blank_db (zero_base did) []),
                ec_table := Some (blank_table (zero_base tid) zero_Schema), ec_segment := Some (blank_segment e')\<rparr>, r5))))
       else if t = CmdCreateBlock then
         res_bind (get_u64 r2) (\<lambda>(did, r3). res_bind (get_u64 r3) (\<lambda>(tid, r4). res_bind (get_u64 r4) (\<lambda>(sid, r5).
         res_bind (get_u64 r5) (\<lambda>(ts, r6).
           let e' = e\<lparr>CreateAt := ts\<rparr>
           in Ok (c\<lparr>ec_entry := Some e', ec_db := Some (blank_db (zero_base did) []),
                ec_table := Some (blank_table (zero_base tid) zero_Schema), ec_segment := Some (blank_segment e')\<rparr>, r6)))))
       else if t = CmdDropTable then
         res_bind (get_u64 r2) (\<lambda>(did, r3). res_bind (get_u64 r3) (\<lambda>(ts, r4).
           Ok (c\<lparr>ec_entry := Some (e\<lparr>DeleteAt := ts\<rparr>), ec_db := Some (blank_db (zero_base did) [])\<rparr>, r4)))
       else if t = CmdDropDatabase then
         res_bind (get_u64 r2) (\<lambda>(ts, r3). Ok (c\<lparr>ec_entry := Some (e\<lparr>DeleteAt := ts\<rparr>)\<rparr>, r3))
       else Ok (c\<lparr>ec_entry := Some e\<rparr>, r2)))"

section \<open>All commands\<close>

datatype ('v, 'b, 'ty, 'bat) TxnCmd =
    PointerCmd u32 u64
  | DeleteBitmapCmd 'b
  | BatchCmd "'ty list" "'bat option"
  | ComposedCmd "('v, 'b, 'ty, 'bat) TxnCmd list"
  | UpdateCmd u32 "('v, 'b, 'ty) BlockUpdates"
  | AppendCmd u32 "('v, 'b, 'ty, 'bat) TxnCmd list"
  | EntryCmd "'ty entryCmd"

text \<open>The third-party encodings the commands use.\<close>

record ('v, 'b, 'n, 'ty, 'bat, 'vec) log_ops =
  lo_bm :: "('b, u32) bitmap"
  lo_bmWrite :: "'b \<Rightarrow> bytes"
  lo_bmRead :: "bytes \<Rightarrow> ('b \<times> bytes) res"
  lo_gv :: "('ty, 'v, 'n) gvec_ops"
  lo_bat :: "('bat, 'vec, 'ty) batch_ops"

fun GetType :: "('v, 'b, 'ty, 'bat) TxnCmd \<Rightarrow> u16" where
  "GetType (PointerCmd g l) = CmdPointer"
| "GetType (DeleteBitmapCmd b) = CmdDeleteBitmap"
| "GetType (BatchCmd tys bat) = CmdBatch"
| "GetType (ComposedCmd cs) = CmdComposed"
| "GetType (UpdateCmd i u) = CmdUpdate"
| "GetType (AppendCmd i cs) = CmdAppend"
| "GetType (EntryCmd c) = ec_type c"

definition IsCustomizedCmd :: "('v, 'b, 'ty, 'bat) TxnCmd \<Rightarrow> bool" where
  "IsCustomizedCmd c \<longleftrightarrow> sint (GetType c) \<ge> sint CmdCustomized"

definition PointerCmd_WriteTo :: "u32 \<Rightarrow> u64 \<Rightarrow> bytes res" where
  [simp]: "PointerCmd_WriteTo g l = Ok (put_u16 CmdPointer @ put_u32 g @ put_u64 l)"

definition DeleteBitmapCmd_WriteTo :: "('v, 'b, 'n, 'ty, 'bat, 'vec) log_ops \<Rightarrow> 'b \<Rightarrow> bytes res" where
  [simp]: "DeleteBitmapCmd_WriteTo L b = Ok (put_u16 CmdDeleteBitmap @ lo_bmWrite L b)"

definition BatchCmd_WriteTo :: "('v, 'b, 'n, 'ty, 'bat, 'vec) log_ops \<Rightarrow> 'ty list \<Rightarrow> 'bat option \<Rightarrow> bytes res" where
  [simp]: "BatchCmd_WriteTo L tys bat = res_bind (MarshalBatch (lo_bat L) tys bat) (\<lambda>b. Ok (put_u16 CmdBatch @ b))"

definition UpdateCmd_WriteTo :: "('v, 'b, 'n, 'ty, 'bat, 'vec) log_ops \<Rightarrow> u32 \<Rightarrow> ('v, 'b, 'ty) BlockUpdates \<Rightarrow> bytes res" where
  [simp]: "UpdateCmd_WriteTo L i u = res_bind (Block_WriteTo (lo_bm L) (lo_gv L) u) (\<lambda>b. Ok (put_u16 CmdUpdate @ put_u32 i @ b))"

text \<open>
  A composition writes its type, the number of its commands and the commands, whose bytes are
  \<open>body\<close>; an append command writes its own type and id and then the whole composition.
\<close>

definition ComposedCmd_WriteTo :: "nat \<Rightarrow> bytes res \<Rightarrow> bytes res" where
  [simp]: "ComposedCmd_WriteTo n body = res_bind body (\<lambda>b. Ok (put_u16 CmdComposed @ put_u32 (word_of_nat n) @ b))"

definition AppendCmd_WriteTo :: "u32 \<Rightarrow> nat \<Rightarrow> bytes res \<Rightarrow> bytes res" where
  [simp]: "AppendCmd_WriteTo i n body = res_bind (ComposedCmd_WriteTo n body) (\<lambda>b. Ok (put_u16 CmdAppend @ put_u32 i @ b))"

fun WriteTo :: "('v, 'b, 'n, 'ty, 'bat, 'vec) log_ops \<Rightarrow> ('v, 'b, 'ty, 'bat) TxnCmd \<Rightarrow> bytes res"
  and write_cmds :: "('v, 'b, 'n, 'ty, 'bat, 'vec) log_ops \<Rightarrow> ('v, 'b, 'ty, 'bat) TxnCmd list \<Rightarrow> bytes res" where
  "WriteTo L (PointerCmd g l) = PointerCmd_WriteTo g l"
| "WriteTo L (DeleteBitmapCmd b) = DeleteBitmapCmd_WriteTo L b"
| "WriteTo L (BatchCmd tys bat) = BatchCmd_WriteTo L tys bat"
| "WriteTo L (ComposedCmd cs) = ComposedCmd_WriteTo (length cs) (write_cmds L cs)"
| "WriteTo L (UpdateCmd i u) = UpdateCmd_WriteTo L i u"
| "WriteTo L (AppendCmd i cs) = AppendCmd_WriteTo i (length cs) (write_cmds L cs)"
| "WriteTo L (EntryCmd c) = entryCmd_WriteTo (ty_Encode (lo_bat L)) c"
| "write_cmds L [] = Ok []"
| "write_cmds L (c # cs) = res_bind (WriteTo L c) (\<lambda>b. res_bind (write_cmds L cs) (\<lambda>bs. Ok (b @ bs)))"

text \<open>
  Reading \<open>n\<close> commands one after the other.  Commands nest, so reading recurses; \<open>fuel\<close> bounds the
  nesting depth and \<open>None\<close> says that it was not enough.
\<close>

fun read_cmds :: "(bytes \<Rightarrow> ('c \<times> bytes) res option) \<Rightarrow> nat \<Rightarrow> bytes \<Rightarrow> ('c list \<times> bytes) res option" where
  "read_cmds build 0 bs = Some (Ok ([], bs))"
| "read_cmds build (Suc n) bs =
     (case build bs of
        None \<Rightarrow> None
      | Some (Ok (c, r)) \<Rightarrow>
          (case read_cmds build n r of
             None \<Rightarrow> None
           | Some (Ok (cs, r')) \<Rightarrow> Some (Ok (c # cs, r'))
           | Some (Err e) \<Rightarrow> Some (Err e)
           | Some Panic \<Rightarrow> Some Panic)
      | Some (Err e) \<Rightarrow> Some (Err e)
      | Some Panic \<Rightarrow> Some Panic)"

definition Composed_ReadFrom :: "(bytes \<Rightarrow> ('c \<times> bytes) res option) \<Rightarrow> bytes \<Rightarrow> ('c list \<times> bytes) res option" where
  "Composed_ReadFrom build bs =
     (case get_u32 bs of
        Ok (n, r) \<Rightarrow> read_cmds build (unat n) r
      | Err e \<Rightarrow> Some (Err e)
      | Panic \<Rightarrow> Some Panic)"

definition AppendCmd_ReadFrom :: "(bytes \<Rightarrow> ('c \<times> bytes) res option) \<Rightarrow> bytes \<Rightarrow> ((u32 \<times> 'c list) \<times> bytes) res option" where
  [simp]: "AppendCmd_ReadFrom build bs =
     (case get_u32 bs of
        Ok (i, r) \<Rightarrow> map_option (\<lambda>x. res_bind x (\<lambda>(cs, r'). Ok ((i, cs), r'))) (Composed_ReadFrom build r)
      | Err e \<Rightarrow> Some (Err e)
      | Panic \<Rightarrow> Some Panic)"

definition PointerCmd_ReadFrom :: "bytes \<Rightarrow> ((u32 \<times> u64) \<times> bytes) res" where
  [simp]: "PointerCmd_ReadFrom bs = res_bind (get_u32 bs) (\<lambda>(g, r1). res_bind (get_u64 r1) (\<lambda>(l, r2). Ok ((g, l), r2)))"

definition BatchCmd_ReadFrom :: "('v, 'b, 'n, 'ty, 'bat, 'vec) log_ops \<Rightarrow> bytes \<Rightarrow> (('ty list \<times> 'bat option) \<times> bytes) res" where
  [simp]: "BatchCmd_ReadFrom L bs = res_bind (UnmarshalBatchFrom (lo_bat L) bs) (\<lambda>(tys, bat, r). Ok ((tys, Some bat), r))"

definition UpdateCmd_ReadFrom :: "('v, 'b, 'n, 'ty, 'bat, 'vec) log_ops \<Rightarrow> bytes \<Rightarrow> ((u32 \<times> ('v, 'b, 'ty) BlockUpdates) \<times> bytes) res" where
  [simp]: "UpdateCmd_ReadFrom L bs =
     res_bind (get_u32 bs) (\<lambda>(i, r1).
     res_bind (Block_ReadFrom (lo_bm L) (lo_gv L) NewEmptyBlockUpdates r1) (\<lambda>(u, r2). Ok ((i, u), r2)))"

text \<open>The factory that \<open>GetCmdFactory\<close> finds for a type; it panics on a type that no package has registered.\<close>

datatype cmd_kind = KPointer | KDeleteBitmap | KBatch | KComposed | KUpdate | KAppend | KEntry

definition GetCmdFactory :: "u16 \<Rightarrow> cmd_kind res" where
  [simp]: "GetCmdFactory t =
     (if t = CmdPointer then Ok KPointer
      else if t = CmdDeleteBitmap then Ok KDeleteBitmap
      else if t = CmdBatch then Ok KBatch
      else if t = CmdComposed then Ok KComposed
      else if t = CmdUpdate then Ok KUpdate
      else if t = CmdAppend then Ok KAppend
      else if t \<in> set entry_types then Ok KEntry
      else Panic)"

definition as_cmd :: "('x \<Rightarrow> 'c) \<Rightarrow> ('x \<times> bytes) res \<Rightarrow> ('c \<times> bytes) res" where
  [simp]: "as_cmd mk x = res_bind x (\<lambda>(y, r). Ok (mk y, r))"

lemma as_cmd_bind: "as_cmd mk (res_bind x (\<lambda>(y, r). Ok (f y, r))) = res_bind x (\<lambda>(y, r). Ok (mk (f y), r))"
  by (cases x) auto

fun BuildCommandFrom ::
  "nat \<Rightarrow> ('v, 'b, 'n, 'ty, 'bat, 'vec) log_ops \<Rightarrow> bytes \<Rightarrow> (('v, 'b, 'ty, 'bat) TxnCmd \<times> bytes) res option" where
  "BuildCommandFrom 0 L bs = None"
| "BuildCommandFrom (Suc fuel) L bs =
     (case get_u16 bs of
        Err e \<Rightarrow> Some (Err e)
      | Panic \<Rightarrow> Some Panic
      | Ok (t, r) \<Rightarrow>
          (case GetCmdFactory t of
             Ok KPointer \<Rightarrow> Some (as_cmd (\<lambda>(g, l). PointerCmd g l) (PointerCmd_ReadFrom r))
           | Ok KDeleteBitmap \<Rightarrow> Some (as_cmd DeleteBitmapCmd (lo_bmRead L r))
           | Ok KBatch \<Rightarrow> Some (as_cmd (\<lambda>(tys, bat). BatchCmd tys bat) (BatchCmd_ReadFrom L r))
           | Ok KComposed \<Rightarrow> map_option (as_cmd ComposedCmd) (Composed_ReadFrom (BuildCommandFrom fuel L) r)
           | Ok KUpdate \<Rightarrow> Some (as_cmd (\<lambda>(i, u). UpdateCmd i u) (UpdateCmd_ReadFrom L r))
           | Ok KAppend \<Rightarrow> map_option (as_cmd (\<lambda>(i, cs). AppendCmd i cs)) (AppendCmd_ReadFrom (BuildCommandFrom fuel L) r)
           | Ok KEntry \<Rightarrow>
               Some (as_cmd EntryCmd (entryCmd_ReadFrom (ty_Size (lo_bat L)) (ty_Decode (lo_bat L)) (newEmptyEntryCmd t) r))
           | Err e \<Rightarrow> Some (Err e)
           | Panic \<Rightarrow> Some Panic))"

section \<open>The commands of catalog entries and block updates\<close>

text \<open>The parents that the entry points to are arguments.\<close>

definition DB_MakeCommand :: "u32 \<Rightarrow> 'ty DBEntry \<Rightarrow> ('v, 'b, 'ty, 'bat) TxnCmd" where
  "DB_MakeCommand i d = EntryCmd (newDBCmd i (if CurrOp (db_base d) = OpSoftDelete then CmdDropDatabase else CmdCreateDatabase) (Some d))"

definition Table_MakeCommand :: "u32 \<Rightarrow> 'ty DBEntry \<Rightarrow> 'ty TableEntry \<Rightarrow> ('v, 'b, 'ty, 'bat) TxnCmd" where
  "Table_MakeCommand i d tb =
     EntryCmd (newTableCmd i (if CurrOp (tbl_base tb) = OpSoftDelete then CmdDropTable else CmdCreateTable) d tb)"

definition Segment_MakeCommand :: "u32 \<Rightarrow> 'ty DBEntry \<Rightarrow> 'ty TableEntry \<Rightarrow> SegmentEntry \<Rightarrow> ('v, 'b, 'ty, 'bat) TxnCmd" where
  "Segment_MakeCommand i d tb sg =
     EntryCmd (newSegmentCmd i (if CurrOp (seg_base sg) = OpSoftDelete then CmdDropSegment else CmdCreateSegment) d tb sg)"

definition Block_MakeCommand ::
  "u32 \<Rightarrow> 'ty DBEntry \<Rightarrow> 'ty TableEntry \<Rightarrow> SegmentEntry \<Rightarrow> BlockEntry \<Rightarrow> ('v, 'b, 'ty, 'bat) TxnCmd" where
  "Block_MakeCommand i d tb sg bk =
     EntryCmd (newBlockCmd i (if CurrOp (blk_base bk) = OpSoftDelete then CmdDropBlock else CmdCreateBlock) d tb sg bk)"

definition Updates_MakeCommand :: "u32 \<Rightarrow> ('v, 'b, 'ty) BlockUpdates \<Rightarrow> ('v, 'b, 'ty, 'bat) TxnCmd" where
  "Updates_MakeCommand i u = UpdateCmd i u"

section \<open>Collecting the commands of a transaction\<close>

record ('v, 'b, 'ty, 'bat) commandManager =
  cm_cmd :: "('v, 'b, 'ty, 'bat) TxnCmd list"
  cm_csn :: int
  cm_driver :: bool

definition newCommandManager :: "bool \<Rightarrow> ('v, 'b, 'ty, 'bat) commandManager" where
  "newCommandManager driver = \<lparr>cm_cmd = [], cm_csn = 0, cm_driver = driver\<rparr>"

definition AddCmd :: "('v, 'b, 'ty, 'bat) TxnCmd \<Rightarrow> ('v, 'b, 'ty, 'bat) commandManager \<Rightarrow> ('v, 'b, 'ty, 'bat) commandManager" where
  "AddCmd c m = m\<lparr>cm_cmd := cm_cmd m @ [c], cm_csn := cm_csn m + 1\<rparr>"

text \<open>
  The record handed to the log driver, if there is one; \<open>drv\<close> is the driver.  A command that
  cannot be encoded panics.
\<close>

definition ApplyTxnRecord ::
  "('v, 'b, 'n, 'ty, 'bat, 'vec) log_ops \<Rightarrow> (bytes \<Rightarrow> u64 res) \<Rightarrow> ('v, 'b, 'ty, 'bat) commandManager \<Rightarrow> bytes option res" where
  "ApplyTxnRecord L drv m =
     (if \<not> cm_driver m then Ok None
      else (case WriteTo L (ComposedCmd (cm_cmd m)) of
              Ok buf \<Rightarrow> res_bind (drv buf) (\<lambda>lsn. Ok (Some buf))
            | _ \<Rightarrow> Panic))"

section \<open>What the log keeps of a command\<close>

text \<open>The entry commands whose pointers and lengths the encoder can handle, and what reading one back yields.\<close>

definition entry_ok :: "('ty \<Rightarrow> bytes) \<Rightarrow> nat \<Rightarrow> (bytes \<Rightarrow> 'ty) \<Rightarrow> 'ty entryCmd \<Rightarrow> bool" where
  "entry_ok encT typeSize decT c \<longleftrightarrow>
     ec_type c \<in> set entry_types \<and> ec_entry c \<noteq> None
     \<and> (ec_type c = CmdCreateDatabase \<longrightarrow> (\<exists>d. ec_db c = Some d \<and> length (db_name d) < 2 ^ 16))
     \<and> (ec_type c = CmdCreateTable \<longrightarrow> (\<exists>tb. ec_table c = Some tb \<and> schema_wf (tbl_schema tb)) \<and> type_laws typeSize encT decT)
     \<and> (ec_type c \<in> {CmdCreateSegment, CmdCreateBlock} \<longrightarrow> ec_db c \<noteq> None \<and> ec_table c \<noteq> None)
     \<and> (ec_type c = CmdCreateBlock \<longrightarrow> ec_segment c \<noteq> None)
     \<and> (ec_type c = CmdDropTable \<longrightarrow> ec_table c \<noteq> None)"

definition decoded_entry :: "'ty entryCmd \<Rightarrow> 'ty entryCmd" where
  "decoded_entry c =
     (let t = ec_type c; e = the (ec_entry c); z = zero_base (be_ID e);
          created = z\<lparr>CreateAt := CreateAt e\<rparr>; dropped = z\<lparr>DeleteAt := DeleteAt e\<rparr>;
          d = Some (blank_db (zero_base (be_ID (db_base (the (ec_db c))))) []);
          parent = Some (blank_db (zero_base (tbl_db (the (ec_table c)))) []);
          tb = Some (blank_table (zero_base (be_ID (tbl_base (the (ec_table c))))) zero_Schema);
          n = (newEmptyEntryCmd t)\<lparr>ec_ID := ec_ID c\<rparr>
      in if t = CmdCreateDatabase then n\<lparr>ec_entry := Some created, ec_db := Some (blank_db created (db_name (the (ec_db c))))\<rparr>
         else if t = CmdCreateTable then
           n\<lparr>ec_entry := Some created, ec_db := parent,
             ec_table := Some (blank_table created ((tbl_schema (the (ec_table c)))\<lparr>NameIndex := None\<rparr>))\<rparr>
         else if t = CmdCreateSegment \<or> t = CmdCreateBlock then
           n\<lparr>ec_entry := Some created, ec_db := d, ec_table := tb, ec_segment := Some (blank_segment created)\<rparr>
         else if t = CmdDropTable then n\<lparr>ec_entry := Some dropped, ec_db := parent\<rparr>
         else if t = CmdDropDatabase then n\<lparr>ec_entry := Some dropped\<rparr>
         else n\<lparr>ec_entry := Some z\<rparr>)"

lemma ec_type_empty [simp]: "ec_type (newEmptyEntryCmd t) = t"
  by (simp add: newEmptyEntryCmd_def newDBCmd_def)

lemma entry_write_read:
  assumes "entry_ok encT typeSize decT c"
  shows "\<exists>buf. entryCmd_WriteTo encT c = Ok (put_u16 (ec_type c) @ buf)
     \<and> (\<forall>bs. entryCmd_ReadFrom typeSize decT (newEmptyEntryCmd (ec_type c)) (buf @ bs) = Ok (decoded_entry c, bs))"
proof -
  obtain e where e: "ec_entry c = Some e" and t: "ec_type c \<in> set entry_types"
    using assms by (auto simp: entry_ok_def)
  have nm: "ReadString (WriteString s @ r) = Ok (s, r)" if "length s < 2 ^ 16" for s r
    using that by (rule c_str.dec_enc)
  from t consider "ec_type c = CmdCreateDatabase" | "ec_type c = CmdDropDatabase" | "ec_type c = CmdCreateTable"
    | "ec_type c = CmdDropTable" | "ec_type c = CmdCreateSegment" | "ec_type c = CmdDropSegment"
    | "ec_type c = CmdCreateBlock" | "ec_type c = CmdDropBlock"
    by (auto simp: entry_types_def)
  then show ?thesis
  proof cases
    case 1
    with assms obtain d where "ec_db c = Some d" "length (db_name d) < 2 ^ 16" by (auto simp: entry_ok_def)
    then show ?thesis using 1 e nm
      by (simp add: entryCmd_WriteTo_def entry_body_def entryCmd_ReadFrom_def decoded_entry_def Let_def newEmptyEntryCmd_def newDBCmd_def)
  next
    case 3
    with assms obtain tb where "ec_table c = Some tb" "schema_wf (tbl_schema tb)" "type_laws typeSize encT decT"
      by (auto simp: entry_ok_def)
    then show ?thesis using 3 e
      by (simp add: entryCmd_WriteTo_def entry_body_def entryCmd_ReadFrom_def decoded_entry_def Let_def newEmptyEntryCmd_def newDBCmd_def
          cmd_defs schema_reads_back)
  qed (use assms e in \<open>auto simp: entry_ok_def entryCmd_WriteTo_def entry_body_def entryCmd_ReadFrom_def decoded_entry_def Let_def
         newEmptyEntryCmd_def newDBCmd_def cmd_defs\<close>)
qed

text \<open>
  The commands that can be read back, and what is read.  A batch is rebuilt from its vectors; of
  block updates without column updates only the block id survives; a catalog entry keeps its id
  and the one timestamp of the operation.
\<close>

definition batch_ok :: "('bat, 'vec, 'ty) batch_ops \<Rightarrow> 'ty list \<Rightarrow> 'bat \<Rightarrow> bool" where
  "batch_ok bo types bat \<longleftrightarrow> (\<exists>vecs buf. batch_laws bo types bat vecs \<and> length vecs < 2 ^ 16
     \<and> MarshalBatch bo types (Some bat) = Ok buf \<and> length buf < 2 ^ 32 \<and> bat_New bo (map int [0..<length vecs]) vecs = Ok bat)"

fun readable :: "('v, 'b, 'n, 'ty, 'bat, 'vec) log_ops \<Rightarrow> ('v, 'b, 'ty, 'bat) TxnCmd \<Rightarrow> bool" where
  "readable L (PointerCmd g l) = True"
| "readable L (DeleteBitmapCmd b) = (\<forall>bs. lo_bmRead L (lo_bmWrite L b @ bs) = Ok (b, bs))"
| "readable L (BatchCmd tys bat) = (\<exists>b. bat = Some b \<and> batch_ok (lo_bat L) tys b)"
| "readable L (ComposedCmd cs) = (length cs < 2 ^ 32 \<and> list_all (readable L) cs)"
| "readable L (UpdateCmd i u) =
     (bu_id u \<noteq> None \<and> bu_cols u = [] \<and> (\<forall>d. localDeletes u = Some d \<longrightarrow> length (bm_ToBytes (lo_bm L) d) < 2 ^ 32))"
| "readable L (AppendCmd i cs) = False"
| "readable L (EntryCmd c) = entry_ok (ty_Encode (lo_bat L)) (ty_Size (lo_bat L)) (ty_Decode (lo_bat L)) c"

fun decoded :: "('v, 'b, 'ty, 'bat) TxnCmd \<Rightarrow> ('v, 'b, 'ty, 'bat) TxnCmd" where
  "decoded (ComposedCmd cs) = ComposedCmd (map decoded cs)"
| "decoded (UpdateCmd i u) = UpdateCmd i (NewEmptyBlockUpdates\<lparr>bu_id := bu_id u\<rparr>)"
| "decoded (EntryCmd c) = EntryCmd (decoded_entry c)"
| "decoded (PointerCmd g l) = PointerCmd g l"
| "decoded (DeleteBitmapCmd b) = DeleteBitmapCmd b"
| "decoded (BatchCmd tys bat) = BatchCmd tys bat"
| "decoded (AppendCmd i cs) = AppendCmd i cs"

fun cmd_depth :: "('v, 'b, 'ty, 'bat) TxnCmd \<Rightarrow> nat" where
  "cmd_depth (ComposedCmd cs) = Suc (foldr max (map cmd_depth cs) 0)"
| "cmd_depth c = 1"

lemma foldr_max_le: "foldr max xs (0 :: nat) \<le> n \<longleftrightarrow> (\<forall>x \<in> set xs. x \<le> n)"
  by (induction xs) auto

lemma write_read_cmds:
  assumes "\<And>c. c \<in> set cs \<Longrightarrow> \<exists>buf. WriteTo L c = Ok buf \<and> (\<forall>bs. build (buf @ bs) = Some (Ok (decoded c, bs)))"
  shows "\<exists>buf. write_cmds L cs = Ok buf \<and> (\<forall>bs. read_cmds build (length cs) (buf @ bs) = Some (Ok (map decoded cs, bs)))"
  using assms
proof (induction cs)
  case Nil
  then show ?case by simp
next
  case (Cons c cs)
  obtain b1 where b1: "WriteTo L c = Ok b1" "\<forall>bs. build (b1 @ bs) = Some (Ok (decoded c, bs))"
    using Cons.prems [of c] by auto
  obtain b2 where b2: "write_cmds L cs = Ok b2" "\<forall>bs. read_cmds build (length cs) (b2 @ bs) = Some (Ok (map decoded cs, bs))"
    using Cons by auto
  show ?case using b1 b2 by (intro exI [of _ "b1 @ b2"]) simp
qed

lemma batch_write_read:
  assumes "batch_ok bo tys b"
  shows "\<exists>buf. MarshalBatch bo tys (Some b) = Ok buf \<and> (\<forall>bs. UnmarshalBatchFrom bo (buf @ bs) = Ok (tys, b, bs))"
  using assms batch_reads_back [of bo tys b] by (force simp: batch_ok_def)

lemma cmd_write_read:
  assumes "readable L c" and "cmd_depth c \<le> fuel"
  shows "\<exists>buf. WriteTo L c = Ok buf \<and> (\<forall>bs. BuildCommandFrom fuel L (buf @ bs) = Some (Ok (decoded c, bs)))"
  using assms
proof (induction c arbitrary: fuel rule: decoded.induct)
  case (1 cs)
  then obtain f where f: "fuel = Suc f" by (cases fuel) auto
  have "\<exists>buf. WriteTo L c = Ok buf \<and> (\<forall>bs. BuildCommandFrom f L (buf @ bs) = Some (Ok (decoded c, bs)))" if "c \<in> set cs" for c
    using 1 that by (intro "1.IH") (auto simp: list_all_iff f foldr_max_le)
  from write_read_cmds [OF this] obtain buf where
    "write_cmds L cs = Ok buf" "\<forall>bs. read_cmds (BuildCommandFrom f L) (length cs) (buf @ bs) = Some (Ok (map decoded cs, bs))"
    by auto
  moreover have "unat (word_of_nat (length cs) :: u32) = length cs" using "1.prems" by (simp add: unat_of_nat)
  ultimately show ?case by (simp add: f cmd_defs Composed_ReadFrom_def)
next
  case (2 i u)
  then obtain f m where f: "fuel = Suc f" "bu_id u = Some m" by (cases fuel) auto
  have "\<exists>buf. Block_WriteTo (lo_bm L) (lo_gv L) u = Ok buf
    \<and> (\<forall>n bs. Block_ReadFrom (lo_bm L) (lo_gv L) n (buf @ bs) = Ok (n\<lparr>bu_id := Some m\<rparr>, bs))"
    using 2 f by (intro Block_write_read) auto
  then show ?case by (auto simp: f cmd_defs)
next
  case (3 c)
  then obtain f where f: "fuel = Suc f" by (cases fuel) auto
  have t: "ec_type c \<in> set entry_types" using 3 by (simp add: entry_ok_def)
  then have n: "ec_type c \<notin> {CmdPointer, CmdDeleteBitmap, CmdBatch, CmdComposed, CmdUpdate, CmdAppend}"
    by (auto simp: entry_types_def cmd_defs)
  obtain buf where "entryCmd_WriteTo (ty_Encode (lo_bat L)) c = Ok (put_u16 (ec_type c) @ buf)"
    "\<forall>bs. entryCmd_ReadFrom (ty_Size (lo_bat L)) (ty_Decode (lo_bat L)) (newEmptyEntryCmd (ec_type c)) (buf @ bs) = Ok (decoded_entry c, bs)"
    using entry_write_read 3 by (metis readable.simps(7))
  then show ?case using t n by (simp add: f)
next
  case (6 tys bat)
  then obtain f b where f: "fuel = Suc f" and b: "bat = Some b" "batch_ok (lo_bat L) tys b" by (cases fuel) auto
  from batch_write_read [OF b(2)] show ?case by (auto simp: f b(1) cmd_defs)
qed (auto simp: cmd_defs Suc_le_eq dest!: gr0_implies_Suc)

lemma cm_fold_AddCmd:
  "cm_cmd (fold AddCmd cs m) = cm_cmd m @ cs" "cm_csn (fold AddCmd cs m) = cm_csn m + int (length cs)"
  "cm_driver (fold AddCmd cs m) = cm_driver m"
  by (induction cs arbitrary: m) (simp_all add: AddCmd_def)


definition demo_cols :: "(u8 list, u8, unit) batch_ops" where
  "demo_cols = \<lparr>bat_GetAttrs = (\<lambda>b. map int [0..<length b]), bat_GetVectorByAttr = (\<lambda>b i. Ok (b ! nat i)), bat_Length = (\<lambda>_. 1),
     bat_New = (\<lambda>_ vs. Ok vs), vec_New = (\<lambda>_ _. 0), vec_Marshal = (\<lambda>v. [v]), vec_Unmarshal = (\<lambda>_ bs. hd bs),
     ty_Encode = (\<lambda>_. []), ty_Decode = (\<lambda>_. ()), ty_Size = 0\<rparr>"

definition demo_log :: "(u8, u32 list, unit, unit, u8 list, u8) log_ops" where
  "demo_log = \<lparr>lo_bm = list_bitmap, lo_bmWrite = (\<lambda>b. put_u32 (hd b)),
     lo_bmRead = (\<lambda>bs. res_bind (get_u32 bs) (\<lambda>(x, r). Ok ([x], r))), lo_gv = demo_gvec, lo_bat = demo_cols\<rparr>"

definition demo_cmds :: "(u8, u32 list, unit, u8 list) TxnCmd list" where
  "demo_cmds = [PointerCmd 1 7, BatchCmd [()] (Some [9]), DeleteBitmapCmd [5],
     EntryCmd (newDBCmd 3 CmdCreateDatabase (Some (blank_db (zero_base 8) ''db''))),
     UpdateCmd 4 (NewEmptyBlockUpdates\<lparr>bu_id := Some zero_ID, localDeletes := Some [6]\<rparr>)]"

lemma demo_batch_ok: "batch_ok demo_cols [()] [9]"
  by (simp add: batch_ok_def batch_laws_def demo_cols_def MarshalBatch_def Let_def exI [of _ "[9]"])


section \<open>Append commands cannot be read back\<close>

lemma read_cmds_length: "read_cmds build n bs = Some (Ok (cs, r)) \<Longrightarrow> length cs = n"
  by (induction n arbitrary: bs cs r) (auto split: option.splits res.splits prod.splits)

lemma read_cmds_first_fails: "n > 0 \<Longrightarrow> build bs = Some (Err e) \<Longrightarrow> read_cmds build n bs = Some (Err e)"
  by (cases n) auto

text \<open>The type of the embedded composition and the high half of its count are taken for the count.\<close>

lemma be_bytes_split: "be_bytes (j + k) x = be_bytes j (x div 256 ^ k) @ be_bytes k x"
  by (induction j) (simp_all add: power_add mult.commute [of _ "256 ^ k"] flip: div_mult2_eq)

lemma be_bytes_2: "be_bytes 2 x = [word_of_nat (x div 256), word_of_nat x]"
  by (simp add: numeral_2_eq_2)

lemma count_of_type:
  assumes "n < 2 ^ 16"
  shows "get_u32 (put_u16 CmdComposed @ put_u32 (word_of_nat n) @ bs) = Ok (393216, put_u16 (word_of_nat n) @ bs)"
proof -
  have n: "unat (word_of_nat n :: u32) = n" "unat (word_of_nat n :: u16) = n" using assms by (simp_all add: unat_of_nat)
  have "be_bytes 4 n = be_bytes 2 0 @ be_bytes 2 n" using be_bytes_split [of 2 2 n] assms by simp
  moreover have "be_bytes 4 393216 = be_bytes 2 6 @ be_bytes 2 0"
    using be_bytes_split [of 2 2 393216] by (simp add: be_bytes_2)
  ultimately have "put_u16 CmdComposed @ put_u32 (word_of_nat n) @ bs = put_u32 393216 @ put_u16 (word_of_nat n) @ bs"
    by (simp add: put_u16_def put_u32_def CmdComposed_def n)
  then show ?thesis by (simp only: get_put)
qed

text \<open>
  An append command is written in a form that its own reader does not understand: \<open>WriteTo\<close>
  writes the embedded composition with its type, \<open>ReadFrom\<close> expects the count there and takes
  393216 for it.  With fewer than 65536 commands, whatever bytes follow and however much
  fuel is given, the command read is never the one written, and for an empty append command at the end of
  the log the reader fails with EOF.
\<close>

lemma append_cmd_unreadable:
  assumes "WriteTo L (AppendCmd i cs) = Ok buf" and "length cs < 2 ^ 16"
  shows "BuildCommandFrom fuel L (buf @ bs) \<noteq> Some (Ok (AppendCmd i cs, r))
    \<and> (cs = [] \<longrightarrow> BuildCommandFrom (Suc (Suc fuel)) L buf = Some (Err ErrEOF))"
proof (intro conjI impI)
  obtain b where buf: "buf = put_u16 CmdAppend @ put_u32 i @ put_u16 CmdComposed @ put_u32 (word_of_nat (length cs)) @ b"
    using assms(1) by auto
  have step: "BuildCommandFrom (Suc f) L (buf @ bs)
      = map_option (\<lambda>x. res_bind x (\<lambda>(cs, r2). Ok (AppendCmd i cs, r2)))
          (Composed_ReadFrom (BuildCommandFrom f L) (put_u16 CmdComposed @ put_u32 (word_of_nat (length cs)) @ b @ bs))" for f bs
    by (simp add: buf) (simp add: cmd_defs option.map_comp comp_def as_cmd_bind del: as_cmd_def)
  have len: "length xs = 393216" if "read_cmds build 393216 ys = Some (Ok (xs, r'))" for build ys r' and xs :: "('v, 'b, 'ty, 'bat) TxnCmd list"
    using that by (rule read_cmds_length)
  show "BuildCommandFrom fuel L (buf @ bs) \<noteq> Some (Ok (AppendCmd i cs, r))"
    using assms(2) by (cases fuel) (auto simp: buf step count_of_type Composed_ReadFrom_def dest!: len)
  show "BuildCommandFrom (Suc (Suc fuel)) L buf = Some (Err ErrEOF)" if "cs = []"
  proof -
    have b: "b = []" using assms(1) that by (simp add: buf)
    have "read_cmds (BuildCommandFrom (Suc fuel) L) 393216 (put_u16 0) = Some (Err ErrEOF)"
      by (rule read_cmds_first_fails) (simp_all add: CmdPointer_def get_u32_def read_be_def)
    then show ?thesis using step [of "Suc fuel" "[]"] count_of_type [of 0 "[]"] that b by (simp add: Composed_ReadFrom_def)
  qed
qed

lemma append_cmd_unreadable_example:
  "\<exists>buf. WriteTo demo_log (AppendCmd 2 []) = Ok buf \<and> BuildCommandFrom 5 demo_log (buf @ [0, 0]) \<noteq> Some (Ok (AppendCmd 2 [], [0, 0]))
     \<and> BuildCommandFrom (Suc (Suc 3)) demo_log buf = Some (Err ErrEOF)"
proof -
  obtain buf where b: "WriteTo demo_log (AppendCmd 2 []) = Ok buf" by simp
  have "length ([] :: (u8, u32 list, unit, u8 list) TxnCmd list) < 2 ^ 16" by simp
  from append_cmd_unreadable [OF b this] b show ?thesis by blast
qed

text \<open>The commands of entries whose names and schema are within their bounds can be read back.\<close>

lemma MakeCommand_readable:
  "length (db_name d) < 2 ^ 16 \<Longrightarrow> readable L (DB_MakeCommand i d)"
  "schema_wf (tbl_schema tb) \<Longrightarrow> type_laws (ty_Size (lo_bat L)) (ty_Encode (lo_bat L)) (ty_Decode (lo_bat L)) \<Longrightarrow>
     readable L (Table_MakeCommand i d tb)"
  "readable L (Segment_MakeCommand i d tb sg)" "readable L (Block_MakeCommand i d tb sg bk)"
  by (auto simp: DB_MakeCommand_def Table_MakeCommand_def Segment_MakeCommand_def Block_MakeCommand_def entry_ok_def entry_types_def
      newDBCmd_def newTableCmd_def newSegmentCmd_def newBlockCmd_def cmd_defs)

text \<open>
  The command that creates a block does not say in which segment: once read back, its segment is a
  blank entry with the id of the block, the parent's id is lost and so is the block.
\<close>

lemma create_block_cmd_loses_segment:
  assumes "entryCmd_WriteTo encT (newBlockCmd i CmdCreateBlock d tb sg bk) = Ok (put_u16 CmdCreateBlock @ buf)"
    and "entryCmd_ReadFrom typeSize decT (newEmptyEntryCmd CmdCreateBlock) (buf @ bs) = Ok (c, r)"
  shows "r = bs \<and> ec_block c = None \<and> map_option (\<lambda>s. be_ID (seg_base s)) (ec_segment c) = Some (be_ID (blk_base bk))"
proof -
  have buf: "buf = put_u32 i @ put_u64 (be_ID (blk_base bk)) @ put_u64 (be_ID (db_base d)) @ put_u64 (be_ID (tbl_base tb))
    @ put_u64 (be_ID (seg_base sg)) @ put_u64 (CreateAt (blk_base bk))"
    using assms(1) by (simp add: entryCmd_WriteTo_def entry_body_def newBlockCmd_def cmd_defs)
  show ?thesis using assms(2)
    by (auto simp: buf entryCmd_ReadFrom_def newEmptyEntryCmd_def newDBCmd_def cmd_defs Let_def zero_base_def blank_segment_def)
qed

end
