(* ===== verification/LocalIndex.thy ===== *)
theory LocalIndex
  imports ColUpdates "HOL-Library.AList"
begin

text \<open>
  The primary-key index of the rows that a transaction has inserted into a table
  (\<^verbatim>\<open>pkg/txn/txnimpl/index.go\<close>).  The Go interface \<open>TableIndex\<close> is the locale
  \<open>table_index\<close>, interpreted on \<open>simpleTableIndex\<close>; the lemmas on batches say that
  inserting a column extends the map and that the duplicate check is exact.
\<close>

section \<open>The index\<close>

text \<open>
  The Go map is an association list without duplicate keys; \<open>None\<close> is the nil map that
  \<open>Close\<close> leaves.  Keys are the values of an interface; they are compared by equality (a
  floating-point NaN, which Go does not find equal to itself, is not among the values).  A byte
  slice cannot be hashed: using one as a key panics.
\<close>

record 'v simpleTableIndex =
  si_tree :: "('v goval \<times> u32) list option"

definition hashable :: "'v goval \<Rightarrow> bool" where
  "hashable v = (case v of VBytes _ \<Rightarrow> False | _ \<Rightarrow> True)"

definition tree_of :: "'v simpleTableIndex \<Rightarrow> ('v goval \<times> u32) list" where
  "tree_of idx = (case si_tree idx of None \<Rightarrow> [] | Some t \<Rightarrow> t)"

definition NewSimpleTableIndex :: "'v simpleTableIndex" where
  "NewSimpleTableIndex = \<lparr>si_tree = Some []\<rparr>"

definition Index_Close :: "'v simpleTableIndex \<Rightarrow> 'v simpleTableIndex" where
  "Index_Close idx = idx\<lparr>si_tree := None\<rparr>"

definition Index_Count :: "'v simpleTableIndex \<Rightarrow> nat" where
  "Index_Count idx = length (tree_of idx)"

definition tree_put :: "'v goval \<Rightarrow> u32 \<Rightarrow> 'v simpleTableIndex \<Rightarrow> 'v simpleTableIndex res" where
  "tree_put v row idx = (case si_tree idx of None \<Rightarrow> Panic | Some t \<Rightarrow> Ok (idx\<lparr>si_tree := Some (AList.update v row t)\<rparr>))"

definition Index_Insert :: "'v simpleTableIndex \<Rightarrow> 'v goval \<Rightarrow> u32 \<Rightarrow> 'v simpleTableIndex res" where
  "Index_Insert idx v row =
     (if \<not> hashable v then Panic
      else case map_of (tree_of idx) v of
             Some _ \<Rightarrow> Err ErrDuplicated
           | None \<Rightarrow> tree_put v row idx)"

definition Index_Delete :: "'v simpleTableIndex \<Rightarrow> 'v goval \<Rightarrow> 'v simpleTableIndex res" where
  "Index_Delete idx v =
     (if \<not> hashable v then Panic
      else case map_of (tree_of idx) v of
             None \<Rightarrow> Err ErrNotFound
           | Some _ \<Rightarrow> Ok (idx\<lparr>si_tree := map_option (AList.delete v) (si_tree idx)\<rparr>))"

definition Index_Find :: "'v simpleTableIndex \<Rightarrow> 'v goval \<Rightarrow> u32 res" where
  "Index_Find idx v =
     (if \<not> hashable v then Panic
      else case map_of (tree_of idx) v of None \<Rightarrow> Err ErrNotFound | Some row \<Rightarrow> Ok row)"

section \<open>Columns of keys\<close>

text \<open>
  The key of one row of a byte column is a string with the bytes of the row; slices are taken
  with a capacity equal to their length.
\<close>

definition byte_key :: "Bytes \<Rightarrow> nat \<Rightarrow> 'v goval res" where
  "byte_key d j =
     (if j < length (Offsets d) \<and> j < length (Lengths d) then
        let s = Offsets d ! j; e = s + Lengths d ! j in
        if unat s \<le> unat e \<and> unat e \<le> length (Data d) then Ok (VString (take (unat e - unat s) (drop (unat s) (Data d))))
        else Panic
      else Panic)"

text \<open>
  The keys that a loop over \<open>count\<close> rows from \<open>start\<close> meets, one per iteration; the slicing is
  done once before the loop, the type assertion before it.
\<close>

definition window_keys :: "('v, 'n) Vector \<Rightarrow> nat \<Rightarrow> nat \<Rightarrow> 'v goval res list res" where
  "window_keys col start count =
     (case Typ_Oid col of
        Fix t \<Rightarrow>
          (case vec_Col col of
             CFix t' xs \<Rightarrow>
               if t' = t \<and> start + count \<le> length xs then Ok (map (\<lambda>x. Ok (VFix t x)) (take count (drop start xs))) else Panic
           | CBytes _ \<Rightarrow> Panic)
      | T_unsupported \<Rightarrow> Err VecTypeNotSupportErr
      | _ \<Rightarrow>
          (case vec_Col col of
             CBytes d \<Rightarrow> if start + count \<le> length (Offsets d) then Ok (map (byte_key d) [start..<start + count]) else Panic
           | CFix _ _ \<Rightarrow> Panic))"

fun dedup_loop :: "'v goval list \<Rightarrow> 'v goval res list \<Rightarrow> unit res" where
  "dedup_loop seen [] = Ok ()"
| "dedup_loop seen (k # ks) = res_bind k (\<lambda>v. if v \<in> set seen then Err ErrDuplicated else dedup_loop (v # seen) ks)"

fun put_loop :: "'v goval res list \<Rightarrow> u32 \<Rightarrow> 'v simpleTableIndex \<Rightarrow> 'v simpleTableIndex res" where
  "put_loop [] row idx = Ok idx"
| "put_loop (k # ks) row idx = res_bind k (\<lambda>v. res_bind (tree_put v row idx) (\<lambda>idx'. put_loop ks (row + 1) idx'))"

definition BatchInsert :: "'v simpleTableIndex \<Rightarrow> ('v, 'n) Vector \<Rightarrow> nat \<Rightarrow> nat \<Rightarrow> u32 \<Rightarrow> bool \<Rightarrow> 'v simpleTableIndex res" where
  "BatchInsert idx col start count row dedupCol =
     res_bind (window_keys col start count) (\<lambda>ks.
     res_bind (if dedupCol then dedup_loop [] ks else Ok ()) (\<lambda>_. put_loop ks row idx))"

fun dup_loop :: "'v simpleTableIndex \<Rightarrow> 'v goval res list \<Rightarrow> unit res" where
  "dup_loop idx [] = Ok ()"
| "dup_loop idx (k # ks) =
     res_bind k (\<lambda>v. case map_of (tree_of idx) v of Some _ \<Rightarrow> Err ErrDuplicated | None \<Rightarrow> dup_loop idx ks)"

definition col_len :: "('v, 'n) Vector \<Rightarrow> nat" where
  "col_len col = (case vec_Col col of CFix _ xs \<Rightarrow> length xs | CBytes d \<Rightarrow> length (Offsets d))"

definition BatchDedup :: "'v simpleTableIndex \<Rightarrow> ('v, 'n) Vector \<Rightarrow> unit res" where
  "BatchDedup idx col = res_bind (window_keys col 0 (col_len col)) (dup_loop idx)"

section \<open>The contract of a table index\<close>

text \<open>
  What \<open>TableIndex\<close> promises of its single-key operations, over the partial map \<open>look\<close> from
  keys to rows that it stands for.
\<close>

locale table_index =
  fixes ok :: "'i \<Rightarrow> bool"
    and key :: "'k \<Rightarrow> bool"
    and look :: "'i \<Rightarrow> 'k \<Rightarrow> u32 option"
    and ins :: "'i \<Rightarrow> 'k \<Rightarrow> u32 \<Rightarrow> 'i res"
    and del :: "'i \<Rightarrow> 'k \<Rightarrow> 'i res"
    and fnd :: "'i \<Rightarrow> 'k \<Rightarrow> u32 res"
    and cnt :: "'i \<Rightarrow> nat"
  assumes ins_new: "ok i \<Longrightarrow> key k \<Longrightarrow> look i k = None \<Longrightarrow>
      \<exists>i'. ins i k r = Ok i' \<and> ok i' \<and> look i' = (look i)(k \<mapsto> r)"
    and ins_dup: "ok i \<Longrightarrow> key k \<Longrightarrow> look i k \<noteq> None \<Longrightarrow> ins i k r = Err ErrDuplicated"
    and del_hit: "ok i \<Longrightarrow> key k \<Longrightarrow> look i k \<noteq> None \<Longrightarrow>
      \<exists>i'. del i k = Ok i' \<and> ok i' \<and> look i' = (look i)(k := None)"
    and del_miss: "ok i \<Longrightarrow> key k \<Longrightarrow> look i k = None \<Longrightarrow> del i k = Err ErrNotFound"
    and fnd_look: "ok i \<Longrightarrow> key k \<Longrightarrow> fnd i k = (case look i k of None \<Rightarrow> Err ErrNotFound | Some r \<Rightarrow> Ok r)"
    and cnt_card: "ok i \<Longrightarrow> finite (dom (look i)) \<and> cnt i = card (dom (look i))"
begin

lemma insert_then_find:
  assumes "ok i" and "key k" and "key k'" and "ins i k r = Ok i'"
  shows "ok i' \<and> fnd i' k' = (if k' = k then Ok r else fnd i k') \<and> cnt i' = Suc (cnt i)"
proof -
  have n: "look i k = None" using assms ins_dup by (metis res.distinct(1))
  then have i': "ok i'" "look i' = (look i)(k \<mapsto> r)" using ins_new [OF assms(1,2) n, of r] assms(4) by auto
  have "cnt i' = Suc (cnt i)"
    using cnt_card [OF assms(1)] cnt_card [OF i'(1)] i'(2) n by (simp add: card_insert_if domIff)
  then show ?thesis using assms i' by (simp add: fnd_look)
qed

lemma insert_delete:
  assumes "ok i" and "key k" and "ins i k r = Ok i'"
  shows "\<exists>i''. del i' k = Ok i'' \<and> ok i'' \<and> look i'' = look i"
proof -
  have n: "look i k = None" using assms ins_dup by (metis res.distinct(1))
  then have "ok i'" "look i' = (look i)(k \<mapsto> r)" using ins_new [OF assms(1,2) n, of r] assms(3) by auto
  then show ?thesis using del_hit [of i' k] assms(2) n by (auto simp: fun_upd_idem)
qed

end

definition index_ok :: "'v simpleTableIndex \<Rightarrow> bool" where
  "index_ok idx \<longleftrightarrow> (\<exists>t. si_tree idx = Some t \<and> distinct (map fst t))"

definition index_map :: "'v simpleTableIndex \<Rightarrow> 'v goval \<Rightarrow> u32 option" where
  "index_map idx = map_of (tree_of idx)"

lemma tree_of_simps [simp]:
  "tree_of \<lparr>si_tree = Some t\<rparr> = t" "tree_of (idx\<lparr>si_tree := Some t\<rparr>) = t" "si_tree idx = Some t \<Longrightarrow> tree_of idx = t"
  by (simp_all add: tree_of_def)

lemma card_dom_map_of: "distinct (map fst t) \<Longrightarrow> card (dom (map_of t)) = length t"
  by (metis dom_map_of_conv_image_fst distinct_card list.set_map length_map)

interpretation tidx: table_index "index_ok :: 'v simpleTableIndex \<Rightarrow> bool" hashable index_map Index_Insert Index_Delete Index_Find Index_Count
proof
  fix i :: "'v simpleTableIndex" and k :: "'v goval" and r
  assume i: "index_ok i" and k: "hashable k"
  obtain t where t: "si_tree i = Some t" "distinct (map fst t)" using i by (auto simp: index_ok_def)
  show "\<exists>i'. Index_Insert i k r = Ok i' \<and> index_ok i' \<and> index_map i' = (index_map i)(k \<mapsto> r)" if "index_map i k = None"
    using that t k by (auto simp: Index_Insert_def tree_put_def index_map_def index_ok_def update_conv' distinct_update)
  show "\<exists>i'. Index_Delete i k = Ok i' \<and> index_ok i' \<and> index_map i' = (index_map i)(k := None)" if "index_map i k \<noteq> None"
    using that t k by (auto simp: Index_Delete_def index_map_def index_ok_def delete_conv' distinct_delete)
  show "Index_Insert i k r = Err ErrDuplicated" if "index_map i k \<noteq> None"
    using that k by (auto simp: Index_Insert_def index_map_def)
  show "Index_Delete i k = Err ErrNotFound" if "index_map i k = None"
    using that k by (auto simp: Index_Delete_def index_map_def)
  show "Index_Find i k = (case index_map i k of None \<Rightarrow> Err ErrNotFound | Some r \<Rightarrow> Ok r)"
    using k by (auto simp: Index_Find_def index_map_def)
next
  fix i :: "'v simpleTableIndex"
  assume "index_ok i"
  then show "finite (dom (index_map i)) \<and> Index_Count i = card (dom (index_map i))"
    by (auto simp: index_ok_def index_map_def Index_Count_def card_dom_map_of finite_dom_map_of)
qed

section \<open>Inserting and checking columns\<close>

text \<open>\<open>vec_holds col ks\<close>: the rows of \<open>col\<close> are well formed and their keys are \<open>ks\<close>.\<close>

definition vec_holds :: "('v, 'n) Vector \<Rightarrow> 'v goval list \<Rightarrow> bool" where
  "vec_holds col ks \<longleftrightarrow>
     (\<exists>t xs. Typ_Oid col = Fix t \<and> vec_Col col = CFix t xs \<and> ks = map (VFix t) xs)
     \<or> (\<exists>d rows. is_bytes_oid (Typ_Oid col) \<and> vec_Col col = CBytes d \<and> bytes_rep rows (length rows) d \<and> ks = map VString rows)"

lemma byte_key_rep:
  assumes "bytes_rep rows (length rows) d" and "j < length rows"
  shows "byte_key d j = Ok (VString (rows ! j))"
proof -
  have l: "length (Offsets d) = length rows" "length (Lengths d) = length rows" "Data d = concat rows"
    using assms(1) by (simp_all add: bytes_rep_def)
  note at = bytes_rep_at [OF assms]
  have "take (length (rows ! j)) (drop (offset_at rows j) (concat rows)) = rows ! j"
    by (subst concat_at [OF assms(2)]) (simp add: offset_at_def)
  then show ?thesis using assms(2) l at by (simp add: byte_key_def Let_def)
qed

lemma window_keys_holds:
  assumes "vec_holds col ks" and "start + count \<le> length ks"
  shows "window_keys col start count = Ok (map Ok (take count (drop start ks)))"
proof -
  consider (fixed) t xs where "Typ_Oid col = Fix t" "vec_Col col = CFix t xs" "ks = map (VFix t) xs"
    | (str) d rows where "is_bytes_oid (Typ_Oid col)" "vec_Col col = CBytes d" "bytes_rep rows (length rows) d" "ks = map VString rows"
    using assms(1) by (auto simp: vec_holds_def)
  then show ?thesis
  proof cases
    case fixed
    then show ?thesis using assms(2) by (simp add: window_keys_def take_map drop_map)
  next
    case c: (str d rows)
    have "map (byte_key d) [start..<start + count] = map (\<lambda>j. Ok (VString (rows ! j))) [start..<start + count]"
      using assms(2) c by (intro map_cong) (auto intro: byte_key_rep)
    also have "\<dots> = map Ok (take count (drop start ks))"
      using assms(2) c(4) by (intro nth_equalityI) auto
    finally show ?thesis using c assms(2) by (auto simp: window_keys_def bytes_rep_def)
  qed
qed

lemma col_len_holds: "vec_holds col ks \<Longrightarrow> col_len col = length ks"
  by (auto simp: vec_holds_def col_len_def bytes_rep_def)

lemma dedup_loop_iff:
  "dedup_loop seen (map Ok ks) = (if distinct ks \<and> set ks \<inter> set seen = {} then Ok () else Err ErrDuplicated)"
  by (induction ks arbitrary: seen) auto

lemma dup_loop_iff: "dup_loop idx (map Ok ks) = (if \<exists>k \<in> set ks. index_map idx k \<noteq> None then Err ErrDuplicated else Ok ())"
  by (induction ks) (auto simp: index_map_def split: option.splits)

lemma put_loop_ok:
  assumes "index_ok idx"
  shows "\<exists>idx'. put_loop (map Ok ks) row idx = Ok idx' \<and> index_ok idx'
    \<and> index_map idx' = (index_map idx)(ks [\<mapsto>] map (\<lambda>i. row + word_of_nat i) [0..<length ks])"
  using assms
proof (induction ks arbitrary: row idx)
  case Nil
  then show ?case by simp
next
  case (Cons k ks)
  obtain t where t: "si_tree idx = Some t" "distinct (map fst t)" using Cons.prems by (auto simp: index_ok_def)
  define i where "i = idx\<lparr>si_tree := Some (AList.update k row t)\<rparr>"
  have p: "tree_put k row idx = Ok i" "index_ok i" "index_map i = (index_map idx)(k \<mapsto> row)"
    using t by (simp_all add: tree_put_def i_def index_ok_def index_map_def update_conv' distinct_update)
  have "map (\<lambda>i. row + word_of_nat i) [0..<length (k # ks)] = row # map (\<lambda>i. (row + 1) + word_of_nat i) [0..<length ks]"
    by (simp add: upt_conv_Cons map_Suc_upt [symmetric] ac_simps del: upt_Suc)
  moreover obtain idx' where "put_loop (map Ok ks) (row + 1) i = Ok idx'" "index_ok idx'"
      "index_map idx' = (index_map i)(ks [\<mapsto>] map (\<lambda>i. (row + 1) + word_of_nat i) [0..<length ks])"
    using Cons.IH [OF p(2), of "row + 1"] by auto
  ultimately show ?case by (intro exI [of _ idx']) (simp add: p del: upt_Suc)
qed

text \<open>
  C32. The primary-key index is exact.  Inserting the rows \<open>start .. start + count - 1\<close> of a
  well-formed column (fixed-size or byte strings) fails with a duplicate error exactly when the
  caller asks for the check and two of the inserted keys are equal; otherwise the map is extended by
  each key with its row number (counted from \<open>row\<close>, the last one for a repeated key), and a later
  \<open>BatchDedup\<close> of any column reports a duplicate exactly when one of its keys was inserted
  now or before.
\<close>

theorem index_batch_exact:
  assumes "index_ok idx" and "vec_holds col ks" and "start + count \<le> length ks" and "vec_holds col2 ks2"
    and "new = take count (drop start ks)"
  shows "if dedup \<and> \<not> distinct new then BatchInsert idx col start count row dedup = Err ErrDuplicated
     else \<exists>idx'. BatchInsert idx col start count row dedup = Ok idx' \<and> index_ok idx'
       \<and> index_map idx' = (index_map idx)(new [\<mapsto>] map (\<lambda>i. row + word_of_nat i) [0..<count])
       \<and> BatchDedup idx' col2
         = (if \<exists>k \<in> set ks2. k \<in> set new \<or> k \<in> dom (index_map idx) then Err ErrDuplicated else Ok ())"
proof -
  have n: "length new = count" using assms(3,5) by simp
  have w: "window_keys col start count = Ok (map Ok new)" using window_keys_holds [OF assms(2,3)] assms(5) by simp
  have w2: "window_keys col2 0 (col_len col2) = Ok (map Ok ks2)"
    using window_keys_holds [OF assms(4), of 0 "length ks2"] col_len_holds [OF assms(4)] by simp
  obtain idx' where i: "put_loop (map Ok new) row idx = Ok idx'" "index_ok idx'"
      "index_map idx' = (index_map idx)(new [\<mapsto>] map (\<lambda>i. row + word_of_nat i) [0..<count])"
    using put_loop_ok [OF assms(1), of new row] n by auto
  have "index_map idx' k \<noteq> None \<longleftrightarrow> k \<in> set new \<or> k \<in> dom (index_map idx)" for k
    using arg_cong [OF i(3), of dom] n by (auto simp: domIff [symmetric])
  then show ?thesis using i by (simp add: BatchInsert_def BatchDedup_def w w2 dedup_loop_iff dup_loop_iff)
qed

theorem index_batch_exact_witness:
  "\<exists>idx'. BatchInsert NewSimpleTableIndex
       (\<lparr>Typ_Oid = T_char, vec_Col = CBytes \<lparr>Data = [1, 2, 2], Offsets = [0, 1], Lengths = [1, 2]\<rparr>, vec_Np = None\<rparr> :: (u8, unit) Vector)
       0 2 5 True = Ok idx'
     \<and> index_map idx' (VString [2, 2]) = Some 6
     \<and> BatchDedup idx' (\<lparr>Typ_Oid = T_char, vec_Col = CBytes \<lparr>Data = [2, 2], Offsets = [0], Lengths = [2]\<rparr>, vec_Np = None\<rparr> :: (u8, unit) Vector)
       = Err ErrDuplicated"
proof -
  let ?col = "\<lparr>Typ_Oid = T_char, vec_Col = CBytes \<lparr>Data = [1, 2, 2], Offsets = [0, 1], Lengths = [1, 2]\<rparr>, vec_Np = None\<rparr> :: (u8, unit) Vector"
  let ?col2 = "\<lparr>Typ_Oid = T_char, vec_Col = CBytes \<lparr>Data = [2, 2], Offsets = [0], Lengths = [2]\<rparr>, vec_Np = None\<rparr> :: (u8, unit) Vector"
  have "vec_holds ?col [VString [1], VString [2, 2]]"
    by (auto simp: vec_holds_def bytes_rep_def less_Suc_eq offset_at_def intro!: exI [of _ "[[1], [2, 2]]"])
  moreover have "vec_holds ?col2 [VString [2, 2]]"
    by (auto simp: vec_holds_def bytes_rep_def offset_at_def intro!: exI [of _ "[[2, 2]]"])
  moreover have "index_ok (NewSimpleTableIndex :: u8 simpleTableIndex)" by (simp add: NewSimpleTableIndex_def index_ok_def)
  ultimately show ?thesis
    using index_batch_exact [of "NewSimpleTableIndex :: u8 simpleTableIndex" ?col "[VString [1], VString [2, 2]]" 0 2 ?col2 "[VString [2, 2]]"
        "[VString [1], VString [2, 2]]" True 5]
    by (auto simp: upt_rec)
qed

text \<open>
  The single-key operations are those of a partial map: an inserted key is found with its row, and
  deleting it restores the map.  A byte slice as a key panics in every operation.
\<close>

lemma index_single_key:
  assumes "index_ok idx" and "hashable k" and "Index_Insert idx k r = Ok idx'"
  shows "Index_Find idx' k = Ok r \<and> Index_Count idx' = Suc (Index_Count idx)
    \<and> (\<exists>idx''. Index_Delete idx' k = Ok idx'' \<and> index_map idx'' = index_map idx)"
  using tidx.insert_then_find [OF assms(1,2,2,3)] tidx.insert_delete [OF assms] by auto

lemma byte_slice_key_panics:
  "Index_Insert idx (VBytes b) r = Panic" "Index_Delete idx (VBytes b) = Panic" "Index_Find idx (VBytes b) = Panic"
  by (simp_all add: Index_Insert_def Index_Delete_def Index_Find_def hashable_def)

end
