(* ===== verification/InsertNode.thy ===== *)
theory InsertNode
  imports Commands LocalIndex
begin

text \<open>
  The nodes that buffer the rows a transaction inserts into a table
  (\<^verbatim>\<open>pkg/txn/txnimpl/node.go\<close>): appending a part of a batch, deleting and reading rows,
  writing the node to the log when it is unloaded and reading it back, and the command of the node.  Column
  vectors are containers of another repository; their operations are the argument \<open>col_ops\<close>,
  with the laws \<open>col_laws\<close>.  The batch that a node builds has the attributes 0, 1, ... with one
  vector each: it is the list of its vectors.
\<close>

section \<open>Column vectors\<close>

text \<open>
  \<open>co_AppendVector v src off\<close> appends rows of \<open>src\<close> from \<open>off\<close> on and returns how many;
  \<open>co_Window v s e\<close> is a copy of the rows \<open>s .. e - 1\<close>; \<open>co_Oid\<close>, \<open>co_cap\<close> and \<open>co_rows\<close> are the type,
  the capacity and the content of a vector, which the code does not read.
\<close>

record ('vec, 'v, 'n) col_ops =
  co_New :: "Oid \<Rightarrow> u64 \<Rightarrow> 'vec"
  co_AppendVector :: "'vec \<Rightarrow> ('v, 'n) Vector \<Rightarrow> nat \<Rightarrow> ('vec \<times> nat) res"
  co_Length :: "'vec \<Rightarrow> nat"
  co_GetValue :: "'vec \<Rightarrow> nat \<Rightarrow> 'v goval res"
  co_Window :: "'vec \<Rightarrow> nat \<Rightarrow> nat \<Rightarrow> ('v, 'n) Vector"
  co_Oid :: "'vec \<Rightarrow> Oid"
  co_cap :: "'vec \<Rightarrow> nat"
  co_rows :: "'vec \<Rightarrow> 'v goval list"

text \<open>A row of a byte column is read as a byte slice.\<close>

definition as_value :: "'v goval \<Rightarrow> 'v goval" where
  "as_value k = (case k of VString b \<Rightarrow> VBytes b | _ \<Rightarrow> k)"

definition col_fits :: "Oid \<Rightarrow> 'v goval list \<Rightarrow> bool" where
  "col_fits t ks \<longleftrightarrow> (\<exists>vec :: ('v, unit) Vector. Typ_Oid vec = t \<and> vec_holds vec ks)"

definition col_laws :: "('vec, 'v, 'n) col_ops \<Rightarrow> bool" where
  "col_laws O' \<longleftrightarrow>
     (\<forall>t c. co_rows O' (co_New O' t c) = [] \<and> co_cap O' (co_New O' t c) = unat c \<and> co_Oid O' (co_New O' t c) = t)
     \<and> (\<forall>v. co_Length O' v = length (co_rows O' v))
     \<and> (\<forall>v src ks off. Typ_Oid src = co_Oid O' v \<and> vec_holds src ks \<and> off < length ks \<longrightarrow>
          (\<exists>v' k. co_AppendVector O' v src off = Ok (v', k) \<and> k = min (co_cap O' v - length (co_rows O' v)) (length ks - off)
             \<and> co_rows O' v' = co_rows O' v @ take k (drop off ks) \<and> co_cap O' v' = co_cap O' v \<and> co_Oid O' v' = co_Oid O' v))
     \<and> (\<forall>v i. i < length (co_rows O' v) \<longrightarrow> co_GetValue O' v i = Ok (as_value (co_rows O' v ! i)))
     \<and> (\<forall>v s e. s \<le> e \<and> e \<le> length (co_rows O' v) \<and> col_fits (co_Oid O' v) (take (e - s) (drop s (co_rows O' v))) \<longrightarrow>
          Typ_Oid (co_Window O' v s e) = co_Oid O' v \<and> vec_holds (co_Window O' v s e) (take (e - s) (drop s (co_rows O' v))))"

section \<open>Insert nodes\<close>

definition MaxNodeRows :: u32 where "MaxNodeRows = 10000"
definition GroupUC :: u32 where "GroupUC = 11"

datatype NodeState = TransientNode | PersistNode

record appendInfo =
  ai_seq :: u32
  srcOff :: u32
  srcLen :: u32
  ai_dest :: ID
  destOff :: u32
  destLen :: u32

record ('vec, 'b) insertNode =
  in_data :: "'vec list option"
  in_lsn :: u64
  in_typ :: NodeState
  in_deletes :: "'b option"
  in_rows :: u32
  in_appends :: "appendInfo list"

definition NewInsertNode :: "('vec, 'b) insertNode" where
  "NewInsertNode = \<lparr>in_data = None, in_lsn = 0, in_typ = PersistNode, in_deletes = None, in_rows = 0, in_appends = []\<rparr>"

definition AddApplyInfo :: "u32 \<Rightarrow> u32 \<Rightarrow> u32 \<Rightarrow> u32 \<Rightarrow> ID \<Rightarrow> ('vec, 'b) insertNode \<Rightarrow> ('vec, 'b) insertNode" where
  "AddApplyInfo so sl do' dl dest n =
     n\<lparr>in_appends := in_appends n
        @ [\<lparr>ai_seq = word_of_nat (length (in_appends n)), srcOff = so, srcLen = sl, ai_dest = dest, destOff = do', destLen = dl\<rparr>]\<rparr>"

definition IsTransient :: "('vec, 'b) insertNode \<Rightarrow> bool" where
  "IsTransient n \<longleftrightarrow> in_typ n = TransientNode"

definition ToTransient :: "('vec, 'b) insertNode \<Rightarrow> ('vec, 'b) insertNode" where
  "ToTransient n = n\<lparr>in_typ := TransientNode\<rparr>"

definition PrepareAppend :: "nat \<Rightarrow> u32 \<Rightarrow> ('vec, 'b) insertNode \<Rightarrow> u32" where
  "PrepareAppend len offset n =
     (let left = word_of_nat len - offset; nodeLeft = MaxNodeRows - in_rows n
      in if left \<le> nodeLeft then left else nodeLeft)"

definition GetSpace :: "('vec, 'b) insertNode \<Rightarrow> u32" where
  "GetSpace n = MaxNodeRows - in_rows n"

text \<open>
  The loop over the columns of a node without data: every column gets a new vector.  The returned
  count is the one of the last column.
\<close>

fun app_new :: "('vec, 'v, 'n) col_ops \<Rightarrow> nat \<Rightarrow> nat \<Rightarrow> ('v, 'n) Vector list \<Rightarrow> ('vec list \<times> nat) res" where
  "app_new O' off cnt [] = Ok ([], cnt)"
| "app_new O' off cnt (d # ds) =
     res_bind (co_AppendVector O' (co_New O' (Typ_Oid d) (ucast MaxNodeRows)) d off) (\<lambda>(v, k).
     res_bind (app_new O' off k ds) (\<lambda>(vs, c). Ok (v # vs, c)))"

text \<open>
  The loop over the columns of a node with data; the vectors are changed in place, so the columns
  before a failing one keep their rows.
\<close>

fun app_cols ::
  "('vec, 'v, 'n) col_ops \<Rightarrow> nat \<Rightarrow> u32 \<Rightarrow> nat \<Rightarrow> 'vec list \<Rightarrow> ('v, 'n) Vector list \<Rightarrow> 'vec list \<times> u32 \<times> nat res" where
  "app_cols O' off rows cnt [] ds = ([], rows, Ok cnt)"
| "app_cols O' off rows cnt (v # vs) [] = (v # vs, rows, Panic)"
| "app_cols O' off rows cnt (v # vs) (d # ds) =
     (case co_AppendVector O' v d off of
        Ok (v', k) \<Rightarrow>
          (let (vs', rows', r) = app_cols O' off (word_of_nat (co_Length O' v')) k vs ds in (v' # vs', rows', r))
      | Err e \<Rightarrow> (v # vs, rows, Err e)
      | Panic \<Rightarrow> (v # vs, rows, Panic))"

definition batch_len :: "('vec, 'v, 'n) col_ops \<Rightarrow> 'vec list \<Rightarrow> nat" where
  "batch_len O' vecs = (case vecs of [] \<Rightarrow> 0 | v # _ \<Rightarrow> co_Length O' v)"

definition Node_Append ::
  "('vec, 'v, 'n) col_ops \<Rightarrow> ('v, 'n) Vector list \<Rightarrow> u32 \<Rightarrow> ('vec, 'b) insertNode \<Rightarrow> ('vec, 'b) insertNode \<times> u32 res" where
  "Node_Append O' data offset n =
     (case in_data n of
        None \<Rightarrow>
          (case app_new O' (unat offset) 0 data of
             Ok (vecs, cnt) \<Rightarrow> (n\<lparr>in_data := Some vecs, in_rows := word_of_nat (batch_len O' vecs)\<rparr>, Ok (word_of_nat cnt))
           | Err e \<Rightarrow> (n, Err e)
           | Panic \<Rightarrow> (n, Panic))
      | Some vecs \<Rightarrow>
          (let (vecs', rows, r) = app_cols O' (unat offset) (in_rows n) 0 vecs data
           in (n\<lparr>in_data := Some vecs', in_rows := rows\<rparr>, res_bind r (\<lambda>c. Ok (word_of_nat c)))))"

definition Node_GetValue :: "('vec, 'v, 'n) col_ops \<Rightarrow> nat \<Rightarrow> u32 \<Rightarrow> ('vec, 'b) insertNode \<Rightarrow> 'v goval res" where
  "Node_GetValue O' col row n =
     (case in_data n of
        None \<Rightarrow> Panic
      | Some vecs \<Rightarrow> if col < length vecs then co_GetValue O' (vecs ! col) (unat row) else Err (ErrOther 0))"

definition Node_RangeDelete :: "('b, u32) bitmap \<Rightarrow> u32 \<Rightarrow> u32 \<Rightarrow> ('vec, 'b) insertNode \<Rightarrow> ('vec, 'b) insertNode" where
  "Node_RangeDelete B start end n =
     (let d = (case in_deletes n of None \<Rightarrow> bm_new B | Some d \<Rightarrow> d)
      in n\<lparr>in_deletes := Some (bm_addRange B d (ucast start) (ucast end + 1))\<rparr>)"

definition IsRowDeleted :: "('b, u32) bitmap \<Rightarrow> u32 \<Rightarrow> ('vec, 'b) insertNode \<Rightarrow> bool" where
  "IsRowDeleted B row n = (case in_deletes n of None \<Rightarrow> False | Some d \<Rightarrow> bm_contains B d row)"

definition Node_Window :: "('vec, 'v, 'n) col_ops \<Rightarrow> u32 \<Rightarrow> u32 \<Rightarrow> ('vec, 'b) insertNode \<Rightarrow> ('v, 'n) Vector list res" where
  "Node_Window O' start end n =
     (case in_data n of
        None \<Rightarrow> Panic
      | Some vecs \<Rightarrow> Ok (map (\<lambda>v. co_Window O' v (unat start) (unat end + 1)) vecs))"

section \<open>Unloading, loading and the command of a node\<close>

text \<open>
  The log driver: appending an entry to a group returns its sequence number, loading one returns
  the payload.  \<open>tys\<close> are the column types of the table's schema.
\<close>

record 'd driver =
  dr_Append :: "'d \<Rightarrow> u32 \<Rightarrow> bytes \<Rightarrow> (u64 \<times> 'd) res"
  dr_Load :: "'d \<Rightarrow> u32 \<Rightarrow> u64 \<Rightarrow> bytes res"

definition makeLogEntry :: "('v, 'b, 'n, 'ty, 'vec list, 'vec) log_ops \<Rightarrow> 'ty list \<Rightarrow> ('vec, 'b) insertNode \<Rightarrow> bytes res" where
  "makeLogEntry L tys n = (case WriteTo L (BatchCmd tys (in_data n)) of Ok buf \<Rightarrow> Ok buf | _ \<Rightarrow> Panic)"

definition execUnload ::
  "('v, 'b, 'n, 'ty, 'vec list, 'vec) log_ops \<Rightarrow> 'd driver \<Rightarrow> 'ty list \<Rightarrow> 'd \<Rightarrow> ('vec, 'b) insertNode
     \<Rightarrow> (bytes option \<times> 'd \<times> ('vec, 'b) insertNode) res" where
  "execUnload L D tys d n =
     (if IsTransient n \<or> in_lsn n \<noteq> 0 \<or> in_data n = None then Ok (None, d, n)
      else res_bind (makeLogEntry L tys n) (\<lambda>buf.
        case dr_Append D d GroupUC buf of
          Ok (lsn, d') \<Rightarrow> Ok (Some buf, d', n\<lparr>in_lsn := lsn\<rparr>)
        | _ \<Rightarrow> Panic))"

text \<open>The loaded command must be a batch; \<open>fuel\<close> bounds the nesting of the decoder.\<close>

definition OnLoad ::
  "nat \<Rightarrow> ('v, 'b, 'n, 'ty, 'vec list, 'vec) log_ops \<Rightarrow> 'd driver \<Rightarrow> 'd \<Rightarrow> ('vec, 'b) insertNode \<Rightarrow> ('vec, 'b) insertNode res option" where
  "OnLoad fuel L D d n =
     (if IsTransient n \<or> in_lsn n = 0 then Some (Ok n)
      else case dr_Load D d GroupUC (in_lsn n) of
             Ok buf \<Rightarrow>
               (case (BuildCommandFrom fuel L buf :: (('v, 'b, 'ty, 'vec list) TxnCmd \<times> bytes) res option) of
                  Some (Ok (BatchCmd _ bat, _)) \<Rightarrow> Some (Ok (n\<lparr>in_data := bat\<rparr>))
                | None \<Rightarrow> None
                | _ \<Rightarrow> Some Panic)
           | _ \<Rightarrow> Some Panic)"

definition Node_MakeCommand ::
  "('v, 'b, 'n, 'ty, 'vec list, 'vec) log_ops \<Rightarrow> 'd driver \<Rightarrow> 'ty list \<Rightarrow> u32 \<Rightarrow> bool \<Rightarrow> 'd \<Rightarrow> ('vec, 'b) insertNode
     \<Rightarrow> (('v, 'b, 'ty, 'vec list) TxnCmd option \<times> bytes option \<times> 'd \<times> ('vec, 'b) insertNode) res" where
  "Node_MakeCommand L D tys i forceFlush d n =
     (if in_data n = None then Ok (None, None, d, n)
      else res_bind (if in_lsn n = 0 \<and> forceFlush then execUnload L D tys d n else Ok (None, d, n)) (\<lambda>(entry, d', n').
        let first = (if in_lsn n' = 0 then BatchCmd tys (in_data n') else PointerCmd GroupUC (in_lsn n'));
            dels = (case in_deletes n' of None \<Rightarrow> [] | Some b \<Rightarrow> [DeleteBitmapCmd b])
        in Ok (Some (AppendCmd i (first # dels)), entry, d', n')))"

section \<open>Lemmas: appending to a node\<close>

lemma unat_MaxNodeRows [simp]: "unat MaxNodeRows = 10000" "unat (ucast MaxNodeRows :: u64) = 10000"
  by (simp_all add: MaxNodeRows_def)

lemma unat_word_of_nat_u32: "m < 2 ^ 32 \<Longrightarrow> unat (word_of_nat m :: u32) = m"
  by (simp add: unat_of_nat)

text \<open>A vector of a node: made for a full node, of the column's type, and holding the column.\<close>

definition vec_ok :: "('vec, 'v, 'n) col_ops \<Rightarrow> Oid \<Rightarrow> 'vec \<Rightarrow> 'v goval list \<Rightarrow> bool" where
  "vec_ok O' t v c \<longleftrightarrow> co_Oid O' v = t \<and> co_cap O' v = 10000 \<and> co_rows O' v = c"

text \<open>\<open>node_ok\<close>: the columns of a node have one length, at most that of a full node, which is its row count.\<close>

definition node_ok :: "('vec, 'v, 'n) col_ops \<Rightarrow> Oid list \<Rightarrow> ('vec, 'b) insertNode \<Rightarrow> 'v goval list list \<Rightarrow> bool" where
  "node_ok O' ts n cols \<longleftrightarrow>
     length cols = length ts \<and> (\<forall>c \<in> set cols. length c = unat (in_rows n)) \<and> unat (in_rows n) \<le> 10000
     \<and> (case in_data n of
          None \<Rightarrow> in_rows n = 0
        | Some vecs \<Rightarrow> length vecs = length ts \<and> (\<forall>i < length ts. vec_ok O' (ts ! i) (vecs ! i) (cols ! i)))"

text \<open>A batch of columns of given types with \<open>len\<close> rows.\<close>

definition batch_holds :: "Oid list \<Rightarrow> ('v, 'n) Vector list \<Rightarrow> nat \<Rightarrow> 'v goval list list \<Rightarrow> bool" where
  "batch_holds ts data len cols \<longleftrightarrow>
     length data = length ts \<and> length cols = length ts
     \<and> (\<forall>i < length ts. Typ_Oid (data ! i) = ts ! i \<and> vec_holds (data ! i) (cols ! i) \<and> length (cols ! i) = len)"

lemma batch_holds_Cons:
  "batch_holds (t # ts) data len cols \<longleftrightarrow>
     (\<exists>d ds c cs. data = d # ds \<and> cols = c # cs \<and> Typ_Oid d = t \<and> vec_holds d c \<and> length c = len \<and> batch_holds ts ds len cs)"
  by (cases data; cases cols) (auto simp: batch_holds_def All_less_Suc2)

lemma co_AppendVector_ok:
  assumes "col_laws O'" and "vec_ok O' (Typ_Oid src) v c" and "vec_holds src ks" and "off < length ks"
    and "k = min (10000 - length c) (length ks - off)"
  shows "\<exists>v'. co_AppendVector O' v src off = Ok (v', k) \<and> vec_ok O' (Typ_Oid src) v' (c @ take k (drop off ks)) \<and> co_Length O' v' = length c + k"
proof -
  have "Typ_Oid src = co_Oid O' v" "co_cap O' v = 10000" "co_rows O' v = c" using assms(2) by (simp_all add: vec_ok_def)
  then obtain v' where "co_AppendVector O' v src off = Ok (v', k)" "co_rows O' v' = c @ take k (drop off ks)"
      "co_cap O' v' = 10000" "co_Oid O' v' = Typ_Oid src"
    using assms(1,3-5) unfolding col_laws_def by metis
  moreover have "co_Length O' v' = length c + k" using assms(1,5) calculation(2) by (simp add: col_laws_def)
  ultimately show ?thesis by (simp add: vec_ok_def)
qed

lemma co_New_ok: "col_laws O' \<Longrightarrow> vec_ok O' t (co_New O' t (ucast MaxNodeRows)) []"
  by (simp add: col_laws_def vec_ok_def)

lemma app_new_ok:
  assumes "col_laws O'" and "batch_holds ts data len cols" and "off < len" and "k = min 10000 (len - off)"
  shows "\<exists>vecs. app_new O' off cnt data = Ok (vecs, if ts = [] then cnt else k) \<and> length vecs = length ts
    \<and> (\<forall>i < length ts. vec_ok O' (ts ! i) (vecs ! i) (take k (drop off (cols ! i))) \<and> co_Length O' (vecs ! i) = k)"
  using assms(2)
proof (induction ts arbitrary: data cols cnt)
  case Nil
  then show ?case by (simp add: batch_holds_def)
next
  case (Cons t ts)
  then obtain d ds c cs where e: "data = d # ds" "cols = c # cs" "Typ_Oid d = t" "vec_holds d c" "length c = len" "batch_holds ts ds len cs"
    by (auto simp: batch_holds_Cons)
  have "\<exists>v'. co_AppendVector O' (co_New O' (Typ_Oid d) (ucast MaxNodeRows)) d off = Ok (v', k)
      \<and> vec_ok O' (Typ_Oid d) v' ([] @ take k (drop off c)) \<and> co_Length O' v' = length ([] :: 'b goval list) + k"
    using assms(1,3,4) e by (intro co_AppendVector_ok co_New_ok) auto
  then obtain v' where v': "co_AppendVector O' (co_New O' t (ucast MaxNodeRows)) d off = Ok (v', k)"
      "vec_ok O' t v' (take k (drop off c))" "co_Length O' v' = k"
    using e(3) by auto
  obtain vs where "app_new O' off k ds = Ok (vs, k)" "length vs = length ts"
      "\<forall>i < length ts. vec_ok O' (ts ! i) (vs ! i) (take k (drop off (cs ! i))) \<and> co_Length O' (vs ! i) = k"
    using Cons.IH [OF e(6), of k] by auto
  then show ?case using v' e(1-3) by (auto simp: All_less_Suc2)
qed

lemma app_cols_ok:
  assumes "col_laws O'" and "batch_holds ts data len cols" and "off < len" and "k = min (10000 - r) (len - off)"
    and "length vecs = length ts" and "length old = length ts"
    and "\<forall>i < length ts. vec_ok O' (ts ! i) (vecs ! i) (old ! i) \<and> length (old ! i) = r"
  shows "\<exists>vecs'. app_cols O' off rows cnt vecs data = (vecs', if ts = [] then rows else word_of_nat (r + k), Ok (if ts = [] then cnt else k))
    \<and> length vecs' = length ts \<and> (\<forall>i < length ts. vec_ok O' (ts ! i) (vecs' ! i) (old ! i @ take k (drop off (cols ! i))))"
  using assms(2,5-)
proof (induction ts arbitrary: data cols cnt rows vecs old)
  case Nil
  then show ?case by (simp add: batch_holds_def)
next
  case (Cons t ts)
  then obtain d ds c cs where e: "data = d # ds" "cols = c # cs" "Typ_Oid d = t" "vec_holds d c" "length c = len" "batch_holds ts ds len cs"
    by (auto simp: batch_holds_Cons)
  obtain v vs o' os where v: "vecs = v # vs" "old = o' # os" using Cons.prems(2,3) by (cases vecs; cases old) auto
  have "\<exists>v'. co_AppendVector O' v d off = Ok (v', k)
      \<and> vec_ok O' (Typ_Oid d) v' (o' @ take k (drop off c)) \<and> co_Length O' v' = length o' + k"
    using assms(1,3,4) e v Cons.prems(4) by (intro co_AppendVector_ok) (auto simp: All_less_Suc2)
  then obtain v' where v': "co_AppendVector O' v d off = Ok (v', k)" "vec_ok O' t v' (o' @ take k (drop off c))" "co_Length O' v' = r + k"
    using e(3) v Cons.prems(4) by (auto simp: All_less_Suc2)
  obtain vs' where "app_cols O' off (word_of_nat (r + k)) k vs ds = (vs', word_of_nat (r + k), Ok k)" "length vs' = length ts"
      "\<forall>i < length ts. vec_ok O' (ts ! i) (vs' ! i) (os ! i @ take k (drop off (cs ! i)))"
    using Cons.IH [OF e(6), of vs os "word_of_nat (r + k)" k] Cons.prems v by (auto simp: All_less_Suc2)
  then show ?case using v' e(1-3) v by (auto simp: All_less_Suc2)
qed

text \<open>
  Appending to a node: as many rows as fit, the same ones in every column; the row count stays that of the columns.
\<close>

lemma Node_Append_ok:
  assumes "col_laws O'" and "node_ok O' ts n cols" and "batch_holds ts data len new" and "ts \<noteq> []"
    and "unat offset < len" and "k = min (10000 - unat (in_rows n)) (len - unat offset)"
  shows "\<exists>n'. Node_Append O' data offset n = (n', Ok (word_of_nat k)) \<and> unat (in_rows n') = unat (in_rows n) + k
    \<and> node_ok O' ts n' (map2 (\<lambda>c d. c @ take k (drop (unat offset) d)) cols new)
    \<and> n' = n\<lparr>in_data := in_data n', in_rows := in_rows n'\<rparr>"
proof -
  have nk: "length cols = length ts" "\<forall>c \<in> set cols. length c = unat (in_rows n)" "unat (in_rows n) \<le> 10000"
    using assms(2) by (simp_all add: node_ok_def)
  have new: "length new = length ts" "\<forall>i < length ts. length (new ! i) = len" using assms(3) by (simp_all add: batch_holds_def)
  let ?cols = "map2 (\<lambda>c d. c @ take k (drop (unat offset) d)) cols new"
  have cols: "?cols ! i = cols ! i @ take k (drop (unat offset) (new ! i))" if "i < length ts" for i
    using that nk(1) new(1) by simp
  have lens: "\<forall>c \<in> set ?cols. length c = unat (in_rows n) + k"
    using nk(1,2) new assms(6) by (fastforce simp: in_set_conv_nth)
  have k: "unat (in_rows n) + k \<le> 10000" using nk(3) assms(6) by simp
  have w: "unat (word_of_nat (unat (in_rows n) + k) :: u32) = unat (in_rows n) + k"
    using k by (intro unat_word_of_nat_u32) simp
  have main: ?thesis
    if a: "Node_Append O' data offset n = (n\<lparr>in_data := Some vecs, in_rows := word_of_nat (unat (in_rows n) + k)\<rparr>, Ok (word_of_nat k))"
      and l: "length vecs = length ts" and v: "\<And>i. i < length ts \<Longrightarrow> vec_ok O' (ts ! i) (vecs ! i) (?cols ! i)" for vecs
  proof -
    let ?n = "n\<lparr>in_data := Some vecs, in_rows := word_of_nat (unat (in_rows n) + k)\<rparr>"
    have r: "unat (in_rows ?n) = unat (in_rows n) + k" using w by simp
    have "node_ok O' ts ?n ?cols"
      unfolding node_ok_def r using lens k l v nk(1) new(1) by simp
    then show ?thesis using a r by (intro exI [of _ ?n]) simp
  qed
  show ?thesis
  proof (cases "in_data n")
    case None
    then have r0: "in_rows n = 0" using assms(2) by (simp add: node_ok_def)
    have k0: "k = min 10000 (len - unat offset)" using assms(6) r0 by simp
    obtain vecs where vecs: "app_new O' (unat offset) 0 data = Ok (vecs, k)" "length vecs = length ts"
        "\<forall>i < length ts. vec_ok O' (ts ! i) (vecs ! i) (take k (drop (unat offset) (new ! i))) \<and> co_Length O' (vecs ! i) = k"
      using app_new_ok [OF assms(1,3,5) k0, of 0] assms(4) by auto
    have z: "cols ! i = []" if "i < length ts" for i using that nk(1,2) r0 by (simp add: all_set_conv_all_nth)
    have "batch_len O' vecs = k" using vecs(2,3) assms(4) by (cases vecs; cases ts) (auto simp: batch_len_def)
    then show ?thesis by (intro main) (use None vecs r0 in \<open>auto simp: Node_Append_def cols z\<close>)
  next
    case (Some vecs)
    then have v: "length vecs = length ts" "\<forall>i < length ts. vec_ok O' (ts ! i) (vecs ! i) (cols ! i)"
      using assms(2) by (simp_all add: node_ok_def)
    have "\<forall>i < length ts. vec_ok O' (ts ! i) (vecs ! i) (cols ! i) \<and> length (cols ! i) = unat (in_rows n)"
      using v(2) nk(1,2) by (simp add: all_set_conv_all_nth)
    from app_cols_ok [OF assms(1,3,5,6) v(1) nk(1) this, of "in_rows n" 0]
    obtain vecs' where vecs': "app_cols O' (unat offset) (in_rows n) 0 vecs data = (vecs', word_of_nat (unat (in_rows n) + k), Ok k)"
        "length vecs' = length ts" "\<forall>i < length ts. vec_ok O' (ts ! i) (vecs' ! i) (cols ! i @ take k (drop (unat offset) (new ! i)))"
      using assms(4) by auto
    show ?thesis by (intro main [of vecs']) (use Some vecs' in \<open>auto simp: Node_Append_def cols\<close>)
  qed
qed

section \<open>Lemmas: reading and deleting rows\<close>

lemma Node_GetValue_ok:
  assumes "col_laws O'" and "node_ok O' ts n cols" and "i < length ts" and "unat row < unat (in_rows n)"
  shows "Node_GetValue O' i row n = Ok (as_value (cols ! i ! unat row))"
proof -
  obtain vecs where v: "in_data n = Some vecs" using assms(2,4) by (auto simp: node_ok_def split: option.splits)
  then have "length vecs = length ts" "co_rows O' (vecs ! i) = cols ! i" "length (cols ! i) = unat (in_rows n)"
    using assms(2,3) by (auto simp: node_ok_def vec_ok_def)
  then show ?thesis using v assms(1,3,4) by (simp add: Node_GetValue_def col_laws_def)
qed

lemma Node_Window_ok:
  assumes "col_laws O'" and "node_ok O' ts n cols" and "unat s \<le> unat e" and "unat e < unat (in_rows n)"
    and "\<forall>i < length ts. col_fits (ts ! i) (take (unat e + 1 - unat s) (drop (unat s) (cols ! i)))"
  shows "\<exists>data. Node_Window O' s e n = Ok data
    \<and> batch_holds ts data (unat e + 1 - unat s) (map (\<lambda>c. take (unat e + 1 - unat s) (drop (unat s) c)) cols)"
proof -
  obtain vecs where v: "in_data n = Some vecs" using assms(2,4) by (auto simp: node_ok_def split: option.splits)
  then have o: "length vecs = length ts" "length cols = length ts"
      "\<forall>i < length ts. co_Oid O' (vecs ! i) = ts ! i \<and> co_rows O' (vecs ! i) = cols ! i \<and> length (cols ! i) = unat (in_rows n)"
    using assms(2) by (auto simp: node_ok_def vec_ok_def)
  have "Typ_Oid (co_Window O' (vecs ! i) (unat s) (unat e + 1)) = ts ! i
      \<and> vec_holds (co_Window O' (vecs ! i) (unat s) (unat e + 1)) (take (unat e + 1 - unat s) (drop (unat s) (cols ! i)))"
    if "i < length ts" for i
    using assms(1,3-5) o(3) that unfolding col_laws_def by (metis Suc_eq_plus1 Suc_leI le_SucI)
  then show ?thesis using v o assms(3,4) by (auto simp: Node_Window_def batch_holds_def)
qed

lemma IsRowDeleted_RangeDelete:
  assumes "bitmap_laws B"
  shows "IsRowDeleted B r (Node_RangeDelete B s e n) \<longleftrightarrow> IsRowDeleted B r n \<or> (unat s \<le> unat r \<and> unat r \<le> unat e)"
proof -
  have "unat (ucast s :: u64) = unat s" "unat (ucast e + 1 :: u64) = unat e + 1"
    using unat_less_width [of e] by (simp_all add: unat_ucast_up unat_plus_no_wrap)
  then show ?thesis using assms
    by (auto simp: IsRowDeleted_def Node_RangeDelete_def Let_def bitmap_laws_def split: option.splits)
qed

lemma Node_RangeDelete_frame [simp]:
  "in_data (Node_RangeDelete B s e n) = in_data n" "in_rows (Node_RangeDelete B s e n) = in_rows n"
  "node_ok O' ts (Node_RangeDelete B s e n) cols = node_ok O' ts n cols"
  by (simp_all add: Node_RangeDelete_def Let_def node_ok_def cong: option.case_cong)

section \<open>A node survives being unloaded\<close>

text \<open>What the log driver promises of one append: a sequence number other than 0 under which the payload can be loaded.\<close>

definition driver_laws :: "'d driver \<Rightarrow> bool" where
  "driver_laws D \<longleftrightarrow> (\<forall>d g buf. \<exists>lsn d'. dr_Append D d g buf = Ok (lsn, d') \<and> lsn \<noteq> 0 \<and> dr_Load D d' g lsn = Ok buf)"

text \<open>
  C33. Unloading an insert node writes its rows to the log and loading brings them back: for a node with data
  that the batch encoding can represent, \<open>execUnload\<close> hands one entry to the driver and keeps its sequence
  number; after that, whatever the memory of the node has become, \<open>OnLoad\<close> restores exactly the vectors it had, and
  unloading again writes nothing.
\<close>

theorem insert_node_reload:
  assumes "driver_laws D" and "in_data n = Some vecs" and "batch_ok (lo_bat L) tys vecs" and "in_typ n = PersistNode" and "in_lsn n = 0"
  shows "\<exists>buf d' n'. execUnload L D tys d n = Ok (Some buf, d', n') \<and> in_lsn n' \<noteq> 0
     \<and> OnLoad (Suc fuel) L D d' (n'\<lparr>in_data := lost\<rparr>) = Some (Ok n')
     \<and> execUnload L D tys d' n' = Ok (None, d', n')"
proof -
  have "readable L (BatchCmd tys (Some vecs))" "cmd_depth (BatchCmd tys (Some vecs)) \<le> Suc fuel"
    using assms(3) by simp_all
  from cmd_write_read [OF this] obtain buf where buf: "WriteTo L (BatchCmd tys (Some vecs)) = Ok buf"
      "BuildCommandFrom (Suc fuel) L (buf @ []) = Some (Ok (BatchCmd tys (Some vecs), []))"
    by (auto simp del: WriteTo.simps BuildCommandFrom.simps append_Nil2)
  obtain lsn d' where d': "dr_Append D d GroupUC buf = Ok (lsn, d')" "lsn \<noteq> 0" "dr_Load D d' GroupUC lsn = Ok buf"
    using assms(1) unfolding driver_laws_def by metis
  have "execUnload L D tys d n = Ok (Some buf, d', n\<lparr>in_lsn := lsn\<rparr>)"
    using assms(2,4,5) buf(1) d' by (simp add: execUnload_def makeLogEntry_def IsTransient_def del: WriteTo.simps)
  moreover have "OnLoad (Suc fuel) L D d' (n\<lparr>in_lsn := lsn, in_data := lost\<rparr>) = Some (Ok (n\<lparr>in_lsn := lsn\<rparr>))"
    using assms(2,4) buf(2) d' by (simp add: OnLoad_def IsTransient_def del: BuildCommandFrom.simps)
  ultimately show ?thesis using d'(2) assms(2)
    by (intro exI [of _ buf] exI [of _ d'] exI [of _ "n\<lparr>in_lsn := lsn\<rparr>"]) (simp add: execUnload_def)
qed

text \<open>A driver that keeps every entry, and a node with one row.\<close>

definition demo_driver :: "bytes list driver" where
  "demo_driver = \<lparr>dr_Append = (\<lambda>d g buf. Ok (word_of_nat (length d mod (2 ^ 64 - 1)) + 1, buf # d)), dr_Load = (\<lambda>d g l. Ok (hd d))\<rparr>"

lemma demo_driver_laws: "driver_laws demo_driver"
proof -
  have "word_of_nat (m mod (2 ^ 64 - 1)) + 1 \<noteq> (0 :: u64)" for m
  proof -
    have "unat (word_of_nat (m mod (2 ^ 64 - 1)) + 1 :: u64) = m mod (2 ^ 64 - 1) + 1"
    proof -
      have "m mod (2 ^ 64 - 1) < 2 ^ 64 - 1" by (intro mod_less_divisor) simp
      then show ?thesis by (subst unat_plus_no_wrap) (simp_all add: unat_of_nat)
    qed
    then show ?thesis by (metis Suc_eq_plus1 nat.distinct(1) unat_0)
  qed
  then show ?thesis by (auto simp: driver_laws_def demo_driver_def)
qed

theorem insert_node_reload_witness:
  "\<exists>buf d' n'. execUnload demo_log demo_driver [()] [] (NewInsertNode\<lparr>in_data := Some [9], in_rows := 1\<rparr>) = Ok (Some buf, d', n')
     \<and> OnLoad 1 demo_log demo_driver d' (n'\<lparr>in_data := None\<rparr>) = Some (Ok n')"
  using insert_node_reload [OF demo_driver_laws, of "NewInsertNode\<lparr>in_data := Some [9 :: u8], in_rows := 1\<rparr>" "[9]" demo_log "[()]" "[]" 0 None]
    demo_batch_ok
  by (auto simp: NewInsertNode_def demo_log_def)

end
