(* ===== verification/LocalTable.thy ===== *)
theory LocalTable
  imports InsertNode
begin

text \<open>
  The rows that a transaction has inserted into a table and not yet committed
  (\<^verbatim>\<open>pkg/txn/txnimpl/table.go\<close>): a list of insert nodes of 10000 rows, the primary-key
  index and the row count.  Appending splits a batch over nodes; deleting, updating and reading go through the physical
  position of a row.  The buffer manager the nodes live in is the one of another repository: its
  answers to \<open>Expand\<close> are an argument.
\<close>

section \<open>The local part of a transaction table\<close>

record ('vec, 'b, 'v) txnTable =
  tt_inodes :: "('vec, 'b) insertNode list"
  tt_appendable :: "nat option"
  tt_index :: "'v simpleTableIndex"
  tt_rows :: u32

definition newLocal :: "('vec, 'b, 'v) txnTable" where
  "newLocal = \<lparr>tt_inodes = [], tt_appendable = None, tt_index = NewSimpleTableIndex, tt_rows = 0\<rparr>"

text \<open>The pinned node is the new last one; closing the handle of the former one only unpins it.\<close>

definition registerInsertNode :: "('vec, 'b, 'v, 'z) txnTable_scheme \<Rightarrow> ('vec, 'b, 'v, 'z) txnTable_scheme" where
  "registerInsertNode tbl =
     tbl\<lparr>tt_inodes := tt_inodes tbl @ [NewInsertNode], tt_appendable := Some (length (tt_inodes tbl))\<rparr>"

text \<open>
  The loop of \<open>Append\<close>.  \<open>ex k size\<close> is the answer of \<open>Expand\<close> in the \<open>k\<close>-th iteration: an
  error, or room for the append, which then runs.  The loop declares its own \<open>err\<close>, so that only the
  error of \<open>n.Append\<close>, which the closure assigns to the outer variable, is returned.  \<open>fuel\<close> bounds
  the number of iterations; \<open>None\<close> says that it was not enough.
\<close>

fun append_loop ::
  "nat \<Rightarrow> ('vec, 'v, 'n) col_ops \<Rightarrow> (Oid \<Rightarrow> u32) \<Rightarrow> (nat \<Rightarrow> u64 \<Rightarrow> go_error option) \<Rightarrow> nat \<Rightarrow> ('v, 'n) Vector list
     \<Rightarrow> nat \<Rightarrow> u32 \<Rightarrow> ('vec, 'b, 'v, 'z) txnTable_scheme \<Rightarrow> (('vec, 'b, 'v, 'z) txnTable_scheme \<times> unit res) option" where
  "append_loop 0 O' tySize ex pk data it offset tbl = None"
| "append_loop (Suc fuel) O' tySize ex pk data it offset tbl =
     (case (tt_appendable tbl, data) of
        (Some p, d # _) \<Rightarrow>
          (let n = tt_inodes tbl ! p; len = word_of_nat (col_len d);
               toAppend = PrepareAppend (col_len d) offset n
           in case ex it (EstimateSize (map (\<lambda>v. tySize (Typ_Oid v)) data) toAppend) of
                Some e \<Rightarrow> Some (tbl, Ok ())
              | None \<Rightarrow>
                  (let (n', r) = Node_Append O' data offset n;
                       tbl1 = tbl\<lparr>tt_inodes := (tt_inodes tbl)[p := n']\<rparr>
                   in case r of
                        Err e \<Rightarrow> Some (tbl1, Err e)
                      | Panic \<Rightarrow> Some (tbl1, Panic)
                      | Ok appended \<Rightarrow>
                          (case (if pk < length data then BatchInsert (tt_index tbl1) (data ! pk) (unat offset) (unat appended) (tt_rows tbl1) False
                                 else Panic) of
                             Err e \<Rightarrow> Some (tbl1, Ok ())
                           | Panic \<Rightarrow> Some (tbl1, Panic)
                           | Ok idx \<Rightarrow>
                               (let tbl2 = tbl1\<lparr>tt_index := idx, tt_rows := tt_rows tbl1 + appended\<rparr>;
                                    tbl3 = (if GetSpace n' = 0 then registerInsertNode tbl2 else tbl2)
                                in if offset + appended \<ge> len then Some (tbl3, Ok ())
                                   else append_loop fuel O' tySize ex pk data (Suc it) (offset + appended) tbl3))))
      | _ \<Rightarrow> Some (tbl, Panic))"

definition Table_Append ::
  "nat \<Rightarrow> ('vec, 'v, 'n) col_ops \<Rightarrow> (Oid \<Rightarrow> u32) \<Rightarrow> (nat \<Rightarrow> u64 \<Rightarrow> go_error option) \<Rightarrow> nat \<Rightarrow> ('v, 'n) Vector list
     \<Rightarrow> ('vec, 'b, 'v, 'z) txnTable_scheme \<Rightarrow> (('vec, 'b, 'v, 'z) txnTable_scheme \<times> unit res) option" where
  "Table_Append fuel O' tySize ex pk data tbl =
     append_loop fuel O' tySize ex pk data 0 0 (if tt_appendable tbl = None then registerInsertNode tbl else tbl)"

definition GetLocalPhysicalAxis :: "u32 \<Rightarrow> nat \<times> u32" where
  "GetLocalPhysicalAxis row = (unat row div unat MaxNodeRows, row mod MaxNodeRows)"

definition put_node :: "nat \<Rightarrow> ('vec, 'b) insertNode \<Rightarrow> ('vec, 'b, 'v, 'z) txnTable_scheme \<Rightarrow> ('vec, 'b, 'v, 'z) txnTable_scheme" where
  "put_node i n tbl = tbl\<lparr>tt_inodes := (tt_inodes tbl)[i := n]\<rparr>"

definition delete_in :: "('b, u32) bitmap \<Rightarrow> nat \<Rightarrow> u32 \<Rightarrow> u32 \<Rightarrow> ('vec, 'b, 'v, 'z) txnTable_scheme \<Rightarrow> ('vec, 'b, 'v, 'z) txnTable_scheme res" where
  "delete_in B i s e tbl =
     (if i < length (tt_inodes tbl) then Ok (put_node i (Node_RangeDelete B s e (tt_inodes tbl ! i)) tbl) else Panic)"

fun delete_between :: "('b, u32) bitmap \<Rightarrow> nat list \<Rightarrow> ('vec, 'b, 'v, 'z) txnTable_scheme \<Rightarrow> ('vec, 'b, 'v, 'z) txnTable_scheme res" where
  "delete_between B [] tbl = Ok tbl"
| "delete_between B (i # is) tbl = res_bind (delete_in B i 0 MaxNodeRows tbl) (delete_between B is)"

definition RangeDeleteLocalRows ::
  "('b, u32) bitmap \<Rightarrow> u32 \<Rightarrow> u32 \<Rightarrow> ('vec, 'b, 'v, 'z) txnTable_scheme \<Rightarrow> ('vec, 'b, 'v, 'z) txnTable_scheme res" where
  "RangeDeleteLocalRows B start end tbl =
     (let (first, firstOffset) = GetLocalPhysicalAxis start; (lst, lastOffset) = GetLocalPhysicalAxis end
      in if lst = first then delete_in B first firstOffset lastOffset tbl
         else res_bind (delete_in B first firstOffset (MaxNodeRows - 1) tbl) (\<lambda>t1.
              res_bind (delete_in B lst 0 lastOffset t1) (\<lambda>t2.
                if lst > first + 1 then delete_between B [first + 1..<lst] t2 else Ok t2)))"

definition IsLocalDeleted :: "('b, u32) bitmap \<Rightarrow> u32 \<Rightarrow> ('vec, 'b, 'v, 'z) txnTable_scheme \<Rightarrow> bool res" where
  "IsLocalDeleted B row tbl =
     (let (npos, noffset) = GetLocalPhysicalAxis row
      in if npos < length (tt_inodes tbl) then Ok (IsRowDeleted B noffset (tt_inodes tbl ! npos)) else Panic)"

definition UpdateLocalValue ::
  "nat \<Rightarrow> ('vec, 'v, 'n) col_ops \<Rightarrow> ('b, u32) bitmap \<Rightarrow> (Oid \<Rightarrow> u32) \<Rightarrow> (nat \<Rightarrow> u64 \<Rightarrow> go_error option) \<Rightarrow> nat
     \<Rightarrow> u32 \<Rightarrow> u16 \<Rightarrow> 'v goval \<Rightarrow> ('vec, 'b, 'v, 'z) txnTable_scheme \<Rightarrow> (('vec, 'b, 'v, 'z) txnTable_scheme \<times> unit res) option" where
  "UpdateLocalValue fuel O' B tySize ex pk row col val tbl =
     (let (npos, noffset) = GetLocalPhysicalAxis row
      in if npos < length (tt_inodes tbl) then
           (case Node_Window O' noffset noffset (tt_inodes tbl ! npos) of
              Err e \<Rightarrow> Some (tbl, Err e)
            | Panic \<Rightarrow> Some (tbl, Panic)
            | Ok window \<Rightarrow>
                Table_Append fuel O' tySize ex pk window
                  (put_node npos (Node_RangeDelete B noffset noffset (tt_inodes tbl ! npos)) tbl))
         else Some (tbl, Panic))"

definition Table_Rows :: "('vec, 'b, 'v, 'z) txnTable_scheme \<Rightarrow> u32" where
  "Table_Rows tbl =
     (let cnt = length (tt_inodes tbl)
      in if cnt = 0 then 0 else (word_of_nat cnt - 1) * MaxNodeRows + in_rows (last (tt_inodes tbl)))"

definition BatchDedupLocalByCol :: "('v, 'n) Vector \<Rightarrow> ('vec, 'b, 'v, 'z) txnTable_scheme \<Rightarrow> unit res" where
  "BatchDedupLocalByCol col tbl = BatchDedup (tt_index tbl) col"

definition BatchDedupLocal :: "nat \<Rightarrow> ('v, 'n) Vector list \<Rightarrow> ('vec, 'b, 'v, 'z) txnTable_scheme \<Rightarrow> unit res" where
  "BatchDedupLocal pk bat tbl = (if pk < length bat then BatchDedupLocalByCol (bat ! pk) tbl else Panic)"

definition GetLocalValue :: "('vec, 'v, 'n) col_ops \<Rightarrow> u32 \<Rightarrow> u16 \<Rightarrow> ('vec, 'b, 'v, 'z) txnTable_scheme \<Rightarrow> 'v goval res" where
  "GetLocalValue O' row col tbl =
     (let (npos, noffset) = GetLocalPhysicalAxis row
      in if npos < length (tt_inodes tbl) then Node_GetValue O' (unat col) noffset (tt_inodes tbl ! npos) else Panic)"

section \<open>The invariant of the local rows\<close>

text \<open>
  \<open>local_ok O' ts tbl cols\<close>: the table holds the columns \<open>cols\<close> in nodes of 10000 rows, all full but the last
  one, which is the pinned one and has room.
\<close>

definition chunk :: "nat \<Rightarrow> 'a list \<Rightarrow> 'a list" where
  "chunk j c = take 10000 (drop (j * 10000) c)"

definition local_ok :: "('vec, 'v, 'n) col_ops \<Rightarrow> Oid list \<Rightarrow> ('vec, 'b, 'v, 'z) txnTable_scheme \<Rightarrow> 'v goval list list \<Rightarrow> bool" where
  "local_ok O' ts tbl cols \<longleftrightarrow>
     length cols = length ts \<and> (\<forall>c \<in> set cols. length c = unat (tt_rows tbl)) \<and> index_ok (tt_index tbl)
     \<and> (if tt_inodes tbl = [] then tt_rows tbl = 0 \<and> tt_appendable tbl = None
        else tt_appendable tbl = Some (length (tt_inodes tbl) - 1) \<and> length (tt_inodes tbl) = unat (tt_rows tbl) div 10000 + 1
          \<and> (\<forall>j < length (tt_inodes tbl). node_ok O' ts (tt_inodes tbl ! j) (map (chunk j) cols)))"

lemma length_chunk: "length (chunk j c) = min 10000 (length c - j * 10000)"
  by (simp add: chunk_def)

lemma chunk_append_before: "(Suc j) * 10000 \<le> length c \<Longrightarrow> chunk j (c @ xs) = chunk j c"
  by (simp add: chunk_def)

lemma chunk_append_last:
  "j * 10000 \<le> length c \<Longrightarrow> length c + length xs \<le> Suc j * 10000 \<Longrightarrow> chunk j (c @ xs) = chunk j c @ xs"
  by (simp add: chunk_def)

lemma chunk_behind: "length c \<le> j * 10000 \<Longrightarrow> chunk j c = []"
  by (simp add: chunk_def)

lemma newLocal_ok: "local_ok O' ts newLocal (replicate (length ts) [])"
  by (simp add: local_ok_def newLocal_def index_ok_def NewSimpleTableIndex_def)

lemma NewInsertNode_ok: "length cols = length ts \<Longrightarrow> \<forall>c \<in> set cols. c = [] \<Longrightarrow> node_ok O' ts NewInsertNode cols"
  by (simp add: node_ok_def NewInsertNode_def)

section \<open>Lemmas: appending\<close>

lemma map_upds_split:
  "length xs = length us \<Longrightarrow> m(xs @ ys [\<mapsto>] us @ vs) = (m(xs [\<mapsto>] us))(ys [\<mapsto>] vs)"
  by (induction xs us arbitrary: m rule: list_induct2) simp_all

lemma word_rows:
  "unat (a :: u32) + n < 2 ^ 32 \<Longrightarrow> unat (a + word_of_nat n) = unat a + n"
  by (simp add: unat_plus_no_wrap unat_of_nat)

lemma batch_index_keys:
  assumes "batch_holds ts data len new" and "pk < length ts" and "index_ok idx" and "off + k \<le> len"
  shows "\<exists>idx'. BatchInsert idx (data ! pk) off k row False = Ok idx' \<and> index_ok idx'
    \<and> index_map idx' = (index_map idx)(take k (drop off (new ! pk)) [\<mapsto>] map (\<lambda>i. row + word_of_nat i) [0..<k])"
proof -
  have v: "vec_holds (data ! pk) (new ! pk)" "length (new ! pk) = len" using assms(1,2) by (simp_all add: batch_holds_def)
  have "window_keys (data ! pk) off k = Ok (map Ok (take k (drop off (new ! pk))))"
    using assms(4) v by (intro window_keys_holds) simp_all
  then show ?thesis
    using put_loop_ok [OF assms(3), of "take k (drop off (new ! pk))" row] assms(4) v(2) by (simp add: BatchInsert_def)
qed

text \<open>One iteration: \<open>k\<close> rows go to the last node, and a full node gets a successor.\<close>

definition grown :: "nat \<Rightarrow> nat \<Rightarrow> 'a list list \<Rightarrow> 'a list list \<Rightarrow> 'a list list" where
  "grown off k cols new = map2 (\<lambda>c d. c @ take k (drop off d)) cols new"

lemma length_grown:
  assumes "length cols = length new" and "\<forall>c \<in> set cols. length c = N" and "\<forall>d \<in> set new. length d = len" and "off + k \<le> len"
  shows "\<forall>c \<in> set (grown off k cols new). length c = N + k" and "length (grown off k cols new) = length cols"
  using assms by (auto simp: grown_def all_set_conv_all_nth)

lemma append_step:
  fixes tbl :: "('vec, 'b, 'v, 'z) txnTable_scheme"
  assumes laws: "col_laws O'" and inv: "local_ok O' ts tbl cols" and "tt_inodes tbl \<noteq> []"
    and data: "batch_holds ts data len new" and pk: "pk < length ts"
    and off: "unat offset < len" and fit: "unat (tt_rows tbl) + (len - unat offset) < 2 ^ 32"
    and n: "n = last (tt_inodes tbl)" and k: "k = min (10000 - unat (in_rows n)) (len - unat offset)"
  shows "\<exists>n' idx'. Node_Append O' data offset n = (n', Ok (word_of_nat k)) \<and> 0 < k
     \<and> BatchInsert (tt_index tbl) (data ! pk) (unat offset) k (tt_rows tbl) False = Ok idx'
     \<and> index_map idx' = (index_map (tt_index tbl))(take k (drop (unat offset) (new ! pk)) [\<mapsto>] map (\<lambda>i. tt_rows tbl + word_of_nat i) [0..<k])
     \<and> local_ok O' ts
          (let tbl2 = tbl\<lparr>tt_inodes := (tt_inodes tbl)[length (tt_inodes tbl) - 1 := n'], tt_index := idx', tt_rows := tt_rows tbl + word_of_nat k\<rparr>
           in if GetSpace n' = 0 then registerInsertNode tbl2 else tbl2) (grown (unat offset) k cols new)"
proof -
  define N where "N = unat (tt_rows tbl)"
  define q where "q = N div 10000"
  have cols: "length cols = length ts" "\<forall>c \<in> set cols. length c = N" and nodes: "length (tt_inodes tbl) = q + 1"
      "\<forall>j < q + 1. node_ok O' ts (tt_inodes tbl ! j) (map (chunk j) cols)" and idx: "index_ok (tt_index tbl)" and ap: "tt_appendable tbl = Some q"
    using inv assms(3) by (auto simp: local_ok_def N_def q_def)
  have n_eq: "n = tt_inodes tbl ! q" using n nodes(1) assms(3) by (simp add: last_conv_nth)
  have ts: "ts \<noteq> []" using pk by auto
  have nk: "node_ok O' ts n (map (chunk q) cols)" using nodes n_eq by simp
  have Nq: "q * 10000 \<le> N" "N < Suc q * 10000"
    using div_mult_mod_eq [of N 10000] mod_less_divisor [of 10000 N] unfolding q_def by simp_all
  have r: "unat (in_rows n) = N - q * 10000"
  proof -
    obtain c where "c \<in> set cols" using cols(1) ts by (cases cols) auto
    then have "length (chunk q c) = unat (in_rows n)" using nk by (auto simp: node_ok_def)
    then show ?thesis using \<open>c \<in> set cols\<close> cols(2) Nq by (simp add: length_chunk)
  qed
  have kpos: "0 < k" using k off r Nq by simp
  have kle: "unat offset + k \<le> len" "N + k \<le> Suc q * 10000" using k off r Nq by simp_all
  obtain n' where n': "Node_Append O' data offset n = (n', Ok (word_of_nat k))" "unat (in_rows n') = unat (in_rows n) + k"
      "node_ok O' ts n' (grown (unat offset) k (map (chunk q) cols) new)"
    using Node_Append_ok [OF laws nk data ts off k] by (auto simp: grown_def)
  obtain idx' where idx': "BatchInsert (tt_index tbl) (data ! pk) (unat offset) k (tt_rows tbl) False = Ok idx'" "index_ok idx'"
      "index_map idx' = (index_map (tt_index tbl))(take k (drop (unat offset) (new ! pk)) [\<mapsto>] map (\<lambda>i. tt_rows tbl + word_of_nat i) [0..<k])"
    using batch_index_keys [OF data pk idx kle(1)] by blast
  have new: "length new = length ts" "\<forall>d \<in> set new. length d = len"
    using data by (auto simp: batch_holds_def in_set_conv_nth)
  note g = length_grown [OF _ cols(2) new(2) kle(1)]
  have rows: "unat (tt_rows tbl + word_of_nat k) = N + k" using fit kle(1) by (subst word_rows) (auto simp: N_def)
  have ch_last: "map (chunk q) (grown (unat offset) k cols new) = grown (unat offset) k (map (chunk q) cols) new"
  proof (rule nth_equalityI)
    fix i assume "i < length (map (chunk q) (grown (unat offset) k cols new))"
    then have i: "i < length ts" using cols new by (simp add: grown_def)
    then have "length (cols ! i) = N" "length (new ! i) = len" using cols new by simp_all
    then show "map (chunk q) (grown (unat offset) k cols new) ! i = grown (unat offset) k (map (chunk q) cols) new ! i"
      using i cols(1) new(1) Nq kle by (simp add: grown_def chunk_append_last)
  qed (simp add: grown_def cols new)
  have ch_before: "map (chunk j) (grown (unat offset) k cols new) = map (chunk j) cols" if "j < q" for j
  proof (rule nth_equalityI)
    fix i assume "i < length (map (chunk j) (grown (unat offset) k cols new))"
    then have i: "i < length ts" using cols new by (simp add: grown_def)
    have "Suc j * 10000 \<le> N" using that Nq(1) by (metis Suc_leI le_trans mult_le_mono1)
    then show "map (chunk j) (grown (unat offset) k cols new) ! i = map (chunk j) cols ! i"
      using i cols new(1) by (simp add: grown_def chunk_append_before)
  qed (simp add: grown_def cols new)
  let ?tbl2 = "tbl\<lparr>tt_inodes := (tt_inodes tbl)[length (tt_inodes tbl) - 1 := n'], tt_index := idx', tt_rows := tt_rows tbl + word_of_nat k\<rparr>"
  have old: "node_ok O' ts ((tt_inodes tbl)[q := n'] ! j) (map (chunk j) (grown (unat offset) k cols new))" if "j < q + 1" for j
    using that nodes n'(3) ch_last ch_before [of j] by (cases "j = q") auto
  have full: "GetSpace n' = 0 \<longleftrightarrow> N + k = Suc q * 10000"
  proof -
    have "GetSpace n' = 0 \<longleftrightarrow> in_rows n' = MaxNodeRows" by (auto simp: GetSpace_def)
    also have "\<dots> \<longleftrightarrow> unat (in_rows n') = unat MaxNodeRows" by (rule word_unat_eq_iff)
    finally show ?thesis using n'(2) r Nq by auto
  qed
  have "local_ok O' ts (if GetSpace n' = 0 then registerInsertNode ?tbl2 else ?tbl2) (grown (unat offset) k cols new)"
  proof (cases "GetSpace n' = 0")
    case True
    then have N': "(N + k) div 10000 = q + 1" "N + k = Suc q * 10000" using full by auto
    have "node_ok O' ts NewInsertNode (map (chunk (Suc q)) (grown (unat offset) k cols new))"
      using g cols(1) new(1) N'(2) by (intro NewInsertNode_ok) (auto simp: chunk_behind)
    then have "node_ok O' ts (((tt_inodes tbl)[q := n'] @ [NewInsertNode]) ! j) (map (chunk j) (grown (unat offset) k cols new))"
      if "j < q + 2" for j
      using that old [of j] nodes(1) by (cases "j = Suc q") (auto simp: nth_append)
    then show ?thesis using True rows g cols(1) new(1) idx'(2) nodes(1) N'(1)
      by (simp add: local_ok_def registerInsertNode_def)
  next
    case False
    then have "(N + k) div 10000 = q" using full kle(2) Nq by (auto intro: div_nat_eqI)
    then show ?thesis using False rows g cols(1) new(1) idx'(2) nodes(1) old ap assms(3)
      by (simp add: local_ok_def)
  qed
  then show ?thesis using n'(1) kpos idx'(1,3) by (auto simp: Let_def)
qed

lemma grown_grown:
  assumes "length cols = length new"
  shows "grown (off + k) m (grown off k cols new) new = grown off (k + m) cols new"
  using assms by (intro nth_equalityI) (auto simp: grown_def take_add drop_drop add.commute)

lemma keys_split:
  assumes "length ks = len" and "off + k \<le> len"
  shows "(m(take k (drop off ks) [\<mapsto>] map (\<lambda>i. r + word_of_nat i) [0..<k]))
      (drop (off + k) ks [\<mapsto>] map (\<lambda>i. (r + word_of_nat k) + word_of_nat i) [0..<len - (off + k)])
    = m(drop off ks [\<mapsto>] map (\<lambda>i. r + (word_of_nat i :: u32)) [0..<len - off])"
proof -
  have "drop off ks = take k (drop off ks) @ drop (off + k) ks" by (metis append_take_drop_id drop_drop add.commute)
  moreover have "[0..<len - off] = [0..<k] @ map (\<lambda>i. i + k) [0..<len - (off + k)]"
  proof -
    have "len - off = k + (len - (off + k))" using assms(2) by simp
    then show ?thesis by (simp only: upt_add_eq_append [of 0 k] map_add_upt) (simp add: add.commute)
  qed
  ultimately show ?thesis using assms
    by (simp add: map_upds_split [symmetric] ac_simps comp_def)
qed

lemma append_loop_ok:
  fixes tbl :: "('vec, 'b, 'v, 'z) txnTable_scheme"
  assumes "col_laws O'" and "batch_holds ts data len new" and "pk < length ts" and "\<And>k size. ex k size = None"
    and "local_ok O' ts tbl cols" and "tt_inodes tbl \<noteq> []" and "unat offset < len" and "unat (tt_rows tbl) + (len - unat offset) < 2 ^ 32"
    and "len < 2 ^ 32" and "len - unat offset \<le> fuel"
  shows "\<exists>tbl'. append_loop fuel O' tySize ex pk data it offset tbl = Some (tbl', Ok ())
    \<and> local_ok O' ts tbl' (grown (unat offset) (len - unat offset) cols new)
    \<and> index_map (tt_index tbl')
        = (index_map (tt_index tbl))(drop (unat offset) (new ! pk) [\<mapsto>] map (\<lambda>i. tt_rows tbl + word_of_nat i) [0..<len - unat offset])
    \<and> unat (tt_rows tbl') = unat (tt_rows tbl) + (len - unat offset) \<and> tt_inodes tbl' \<noteq> []"
  using assms(5-)
proof (induction fuel arbitrary: it offset tbl cols)
  case 0
  then show ?case by simp
next
  case (Suc fuel)
  define n where "n = last (tt_inodes tbl)"
  define k where "k = min (10000 - unat (in_rows n)) (len - unat offset)"
  obtain n' idx' where st: "Node_Append O' data offset n = (n', Ok (word_of_nat k))" "0 < k"
      "BatchInsert (tt_index tbl) (data ! pk) (unat offset) k (tt_rows tbl) False = Ok idx'"
      "index_map idx' = (index_map (tt_index tbl))(take k (drop (unat offset) (new ! pk)) [\<mapsto>] map (\<lambda>i. tt_rows tbl + word_of_nat i) [0..<k])"
      "local_ok O' ts
          (let tbl2 = tbl\<lparr>tt_inodes := (tt_inodes tbl)[length (tt_inodes tbl) - 1 := n'], tt_index := idx', tt_rows := tt_rows tbl + word_of_nat k\<rparr>
           in if GetSpace n' = 0 then registerInsertNode tbl2 else tbl2) (grown (unat offset) k cols new)"
    using append_step [OF assms(1) Suc.prems(1,2) assms(2,3) Suc.prems(3,4) n_def k_def] by blast
  define tbl3 where "tbl3 =
      (let tbl2 = tbl\<lparr>tt_inodes := (tt_inodes tbl)[length (tt_inodes tbl) - 1 := n'], tt_index := idx', tt_rows := tt_rows tbl + word_of_nat k\<rparr>
       in if GetSpace n' = 0 then registerInsertNode tbl2 else tbl2)"
  have t3: "tt_index tbl3 = idx'" "tt_rows tbl3 = tt_rows tbl + word_of_nat k" "tt_inodes tbl3 \<noteq> []" "local_ok O' ts tbl3 (grown (unat offset) k cols new)"
    using st(5) Suc.prems(2) by (simp_all add: tbl3_def Let_def registerInsertNode_def)
  have kle: "unat offset + k \<le> len" using Suc.prems(3) by (simp add: k_def)
  obtain d ds where d: "data = d # ds" "length data = length ts" "length (new ! pk) = len" "length new = length ts"
    using assms(2,3) by (cases data) (auto simp: batch_holds_def)
  have "0 < length ts" using assms(3) by auto
  then have "vec_holds (data ! 0) (new ! 0)" "length (new ! 0) = len" using assms(2) unfolding batch_holds_def by blast+
  then have cl: "col_len d = len" using d(1) by (simp add: col_len_holds)
  have ap: "tt_appendable tbl = Some (length (tt_inodes tbl) - 1)" "tt_inodes tbl ! (length (tt_inodes tbl) - 1) = n"
    using Suc.prems(1,2) by (simp_all add: local_ok_def n_def last_conv_nth)
  have wk: "unat (word_of_nat k :: u32) = k" using kle Suc.prems(5) by (simp add: unat_of_nat)
  have ok: "unat (offset + word_of_nat k) = unat offset + k" using kle Suc.prems(5) by (intro word_rows) simp
  have step: "append_loop (Suc fuel) O' tySize ex pk data it offset tbl =
      (if offset + word_of_nat k \<ge> word_of_nat len then Some (tbl3, Ok ())
       else append_loop fuel O' tySize ex pk data (Suc it) (offset + word_of_nat k) tbl3)"
    using st(1,3) ap assms(3,4) d cl wk by (simp add: tbl3_def Let_def)
  have cmp: "offset + word_of_nat k \<ge> word_of_nat len \<longleftrightarrow> unat offset + k = len"
    using ok kle Suc.prems(5) by (auto simp: word_le_nat_alt unat_of_nat)
  have rows: "unat (tt_rows tbl3) = unat (tt_rows tbl) + k"
    unfolding t3(2) using Suc.prems(4) kle by (intro word_rows) simp
  show ?case
  proof (cases "unat offset + k = len")
    case True
    then have keq: "len - unat offset = k" by simp
    have "append_loop (Suc fuel) O' tySize ex pk data it offset tbl = Some (tbl3, Ok ())"
      using step cmp True by (simp only: if_True simp_thms)
    moreover have "take k (drop (unat offset) (new ! pk)) = drop (unat offset) (new ! pk)" using d(3) keq by simp
    ultimately show ?thesis using t3 rows st(4) by (simp only: keq) auto
  next
    case False
    have "\<exists>tbl'. append_loop fuel O' tySize ex pk data (Suc it) (offset + word_of_nat k) tbl3 = Some (tbl', Ok ())
      \<and> local_ok O' ts tbl' (grown (unat (offset + word_of_nat k)) (len - unat (offset + word_of_nat k)) (grown (unat offset) k cols new) new)
      \<and> index_map (tt_index tbl') = (index_map (tt_index tbl3))
          (drop (unat (offset + word_of_nat k)) (new ! pk) [\<mapsto>] map (\<lambda>i. tt_rows tbl3 + word_of_nat i) [0..<len - unat (offset + word_of_nat k)])
      \<and> unat (tt_rows tbl') = unat (tt_rows tbl3) + (len - unat (offset + word_of_nat k)) \<and> tt_inodes tbl' \<noteq> []"
      using False t3 ok rows kle st(2) Suc.prems(4-) by (intro Suc.IH) auto
    moreover have "grown (unat offset + k) (len - (unat offset + k)) (grown (unat offset) k cols new) new = grown (unat offset) (len - unat offset) cols new"
      using grown_grown [of cols new "unat offset" k "len - (unat offset + k)"] Suc.prems(1) d kle by (simp add: local_ok_def)
    moreover have "\<not> offset + word_of_nat k \<ge> word_of_nat len" using cmp False by simp
    ultimately show ?thesis
      using step rows kle keys_split [OF d(3) kle, of "index_map (tt_index tbl)" "tt_rows tbl"]
      by (auto simp: ok t3(1,2) st(4))
  qed
qed

section \<open>Lemmas: reading rows\<close>

lemma axis_simps:
  "fst (GetLocalPhysicalAxis row) = unat row div 10000" "unat (snd (GetLocalPhysicalAxis row)) = unat row mod 10000"
  by (simp_all add: GetLocalPhysicalAxis_def unat_mod_distrib)

lemma local_node:
  assumes "local_ok O' ts tbl cols" and "r < unat (tt_rows tbl)"
  shows "r div 10000 < length (tt_inodes tbl)" "node_ok O' ts (tt_inodes tbl ! (r div 10000)) (map (chunk (r div 10000)) cols)"
proof -
  have ne: "tt_inodes tbl \<noteq> []" using assms by (auto simp: local_ok_def)
  have "r div 10000 \<le> unat (tt_rows tbl) div 10000" using assms(2) by (intro div_le_mono) simp
  then show l: "r div 10000 < length (tt_inodes tbl)" using assms(1) ne by (auto simp: local_ok_def)
  then show "node_ok O' ts (tt_inodes tbl ! (r div 10000)) (map (chunk (r div 10000)) cols)"
    using assms(1) ne by (auto simp: local_ok_def)
qed

lemma node_rows:
  assumes "local_ok O' ts tbl cols" and "ts \<noteq> []" and "j < length (tt_inodes tbl)"
  shows "unat (in_rows (tt_inodes tbl ! j)) = min 10000 (unat (tt_rows tbl) - j * 10000)"
proof -
  have ne: "tt_inodes tbl \<noteq> []" using assms(3) by auto
  obtain c where c: "c \<in> set cols" "length c = unat (tt_rows tbl)" using assms(1,2) by (cases cols) (auto simp: local_ok_def)
  have "node_ok O' ts (tt_inodes tbl ! j) (map (chunk j) cols)" using assms(1,3) ne by (auto simp: local_ok_def)
  then show ?thesis using c by (auto simp: node_ok_def length_chunk)
qed

lemma GetLocalValue_ok:
  assumes "col_laws O'" and "local_ok O' ts tbl cols" and "unat row < unat (tt_rows tbl)" and "unat col < length ts"
  shows "GetLocalValue O' row col tbl = Ok (as_value (cols ! unat col ! unat row))"
proof -
  let ?q = "unat row div 10000" and ?m = "unat row mod 10000"
  have ts: "ts \<noteq> []" using assms(4) by auto
  note n = local_node [OF assms(2,3)]
  have qm: "unat row = ?q * 10000 + ?m" "?m < 10000" by simp_all
  have rows: "?m < unat (in_rows (tt_inodes tbl ! ?q))"
    using node_rows [OF assms(2) ts n(1)] assms(3) qm by linarith
  have "cols ! unat col \<in> set cols" using assms(2,4) by (simp add: local_ok_def)
  then have len: "length (cols ! unat col) = unat (tt_rows tbl)" "unat col < length cols" using assms(2,4) by (auto simp: local_ok_def)
  have "chunk ?q (cols ! unat col) ! ?m = cols ! unat col ! unat row"
    using len assms(3) qm unfolding chunk_def by (subst nth_take, simp, subst nth_drop) (auto simp: ac_simps)
  moreover have "Node_GetValue O' (unat col) (snd (GetLocalPhysicalAxis row)) (tt_inodes tbl ! ?q)
      = Ok (as_value (map (chunk ?q) cols ! unat col ! unat (snd (GetLocalPhysicalAxis row))))"
    using assms(1,4) n(2) rows by (intro Node_GetValue_ok) (simp_all add: axis_simps)
  ultimately show ?thesis using n(1) len(2) by (simp add: GetLocalValue_def case_prod_beta axis_simps Let_def)
qed

lemma word_nat_id: "word_of_nat (unat (x :: u32)) = x"
  by simp

lemma Table_Rows_ok:
  assumes "local_ok O' ts tbl cols" and "ts \<noteq> []"
  shows "Table_Rows tbl = tt_rows tbl"
proof (cases "tt_inodes tbl = []")
  case True
  then show ?thesis using assms by (simp add: local_ok_def Table_Rows_def)
next
  case False
  define q where "q = unat (tt_rows tbl) div 10000"
  have l: "length (tt_inodes tbl) = q + 1" using assms(1) False by (simp add: local_ok_def q_def)
  then have "unat (in_rows (last (tt_inodes tbl))) = unat (tt_rows tbl) mod 10000"
    using node_rows [OF assms, of q] False div_mult_mod_eq [of "unat (tt_rows tbl)" 10000] mod_less_divisor [of 10000 "unat (tt_rows tbl)"]
    unfolding q_def [symmetric] by (simp add: last_conv_nth)
  then have "in_rows (last (tt_inodes tbl)) = word_of_nat (unat (tt_rows tbl) mod 10000)" by (metis word_nat_id)
  then have "Table_Rows tbl = word_of_nat (q * 10000 + unat (tt_rows tbl) mod 10000)"
    using False l by (simp add: Table_Rows_def MaxNodeRows_def)
  also have "\<dots> = tt_rows tbl" unfolding q_def by (simp only: div_mult_mod_eq word_nat_id)
  finally show ?thesis .
qed

lemma grown_all: "length cols = length new \<Longrightarrow> \<forall>d \<in> set new. length d = len \<Longrightarrow> grown 0 len cols new = map2 (@) cols new"
  by (intro nth_equalityI) (auto simp: grown_def)

lemma Table_Append_ok:
  fixes tbl :: "('vec, 'b, 'v, 'z) txnTable_scheme"
  assumes "col_laws O'" and "local_ok O' ts tbl cols" and "batch_holds ts data len new" and "pk < length ts" and "0 < len"
    and "unat (tt_rows tbl) + len < 2 ^ 32" and "\<And>k size. ex k size = None" and "len \<le> fuel"
  shows "\<exists>tbl'. Table_Append fuel O' tySize ex pk data tbl = Some (tbl', Ok ()) \<and> local_ok O' ts tbl' (map2 (@) cols new)
     \<and> unat (tt_rows tbl') = unat (tt_rows tbl) + len \<and> Table_Rows tbl' = tt_rows tbl'
     \<and> index_map (tt_index tbl') = (index_map (tt_index tbl))(new ! pk [\<mapsto>] map (\<lambda>i. tt_rows tbl + word_of_nat i) [0..<len])
     \<and> (\<forall>row col. unat row < unat (tt_rows tbl') \<and> unat col < length ts \<longrightarrow>
          GetLocalValue O' row col tbl' = Ok (as_value ((cols ! unat col @ new ! unat col) ! unat row)))"
proof -
  have ts: "ts \<noteq> []" using assms(4) by auto
  have new: "length new = length ts" "\<forall>d \<in> set new. length d = len" "length cols = length ts"
    using assms(2,3) by (auto simp: batch_holds_def local_ok_def in_set_conv_nth)
  define tbl0 where "tbl0 = (if tt_appendable tbl = None then registerInsertNode tbl else tbl)"
  have empty: "tt_appendable tbl = None \<Longrightarrow> tt_inodes tbl = [] \<and> tt_rows tbl = 0" and ne: "tt_appendable tbl \<noteq> None \<Longrightarrow> tt_inodes tbl \<noteq> []"
    using assms(2) by (cases "tt_inodes tbl = []"; simp add: local_ok_def)+
  have t0: "tt_inodes tbl0 \<noteq> []" "tt_rows tbl0 = tt_rows tbl" "tt_index tbl0 = tt_index tbl"
    using ne by (simp_all add: tbl0_def registerInsertNode_def)
  have inv0: "local_ok O' ts tbl0 cols"
  proof (cases "tt_appendable tbl")
    case None
    have "node_ok O' ts NewInsertNode (map (chunk 0) cols)"
      using empty [OF None] assms(2) by (intro NewInsertNode_ok) (simp_all add: local_ok_def chunk_def)
    then show ?thesis using None empty [OF None] assms(2) by (simp add: tbl0_def local_ok_def registerInsertNode_def)
  qed (use assms(2) in \<open>simp add: tbl0_def\<close>)
  obtain tbl' where t': "append_loop fuel O' tySize ex pk data 0 0 tbl0 = Some (tbl', Ok ())" "local_ok O' ts tbl' (grown 0 len cols new)"
      "index_map (tt_index tbl') = (index_map (tt_index tbl))(new ! pk [\<mapsto>] map (\<lambda>i. tt_rows tbl + word_of_nat i) [0..<len])"
      "unat (tt_rows tbl') = unat (tt_rows tbl) + len"
    using append_loop_ok [where ex = ex and offset = 0 and it = 0 and tySize = tySize, OF assms(1,3,4,7) inv0 t0(1)] assms(5,6,8) t0(2,3)
    by auto
  have cols': "map2 (@) cols new ! i = cols ! i @ new ! i" if "i < length ts" for i using that new by simp
  have g: "local_ok O' ts tbl' (map2 (@) cols new)" using t'(2) grown_all [of cols new len] new by simp
  then show ?thesis
    using t' Table_Rows_ok [OF g ts] GetLocalValue_ok [OF assms(1) g] cols'
    by (intro exI [of _ tbl']) (auto simp: Table_Append_def tbl0_def simp del: append_loop.simps)
qed

text \<open>
  C13. Inserting a batch into the local rows of a transaction.  From a table that holds the columns
  \<open>cols\<close>, appending a non-empty batch of well-formed columns, when the buffer manager has room and
  the table stays below \<open>2 ^ 32\<close> rows, always returns (the number of rows bounds the iterations) without an error; the
  table then holds every column followed by the new rows, split over nodes of 10000 rows, the row counts agree,
  every row of every column can be read back, and the primary-key index maps each new key to its row number.
\<close>

theorem local_append_correct:
  fixes tbl :: "('vec, 'b, 'v, 'z) txnTable_scheme"
  assumes "col_laws O'" and "local_ok O' ts tbl cols" and "batch_holds ts data len new" and "pk < length ts" and "0 < len"
    and "unat (tt_rows tbl) + len < 2 ^ 32" and "\<And>k size. ex k size = None" and "len \<le> fuel"
  shows "\<exists>tbl'. Table_Append fuel O' tySize ex pk data tbl = Some (tbl', Ok ()) \<and> local_ok O' ts tbl' (map2 (@) cols new)
     \<and> unat (tt_rows tbl') = unat (tt_rows tbl) + len \<and> Table_Rows tbl' = tt_rows tbl'
     \<and> index_map (tt_index tbl') = (index_map (tt_index tbl))(new ! pk [\<mapsto>] map (\<lambda>i. tt_rows tbl + word_of_nat i) [0..<len])
     \<and> (\<forall>row col. unat row < unat (tt_rows tbl') \<and> unat col < length ts \<longrightarrow>
          GetLocalValue O' row col tbl' = Ok (as_value ((cols ! unat col @ new ! unat col) ! unat row)))"
  using assms by (rule Table_Append_ok)

text \<open>Columns as lists: an instance of the vector operations.\<close>

definition keys_of :: "('v, 'n) Vector \<Rightarrow> 'v goval list" where
  "keys_of vec = (case window_keys vec 0 (col_len vec) of Ok rs \<Rightarrow> map (\<lambda>r. case r of Ok k \<Rightarrow> k | _ \<Rightarrow> VNil) rs | _ \<Rightarrow> [])"

definition mk_vec :: "Oid \<Rightarrow> 'v goval list \<Rightarrow> ('v, 'n) Vector" where
  "mk_vec t ks =
     (case t of
        Fix f \<Rightarrow> \<lparr>Typ_Oid = t, vec_Col = CFix f [x. VFix _ x \<leftarrow> ks], vec_Np = None\<rparr>
      | _ \<Rightarrow> (let rows = [b. VString b \<leftarrow> ks] in
          \<lparr>Typ_Oid = t, vec_Col = CBytes \<lparr>Data = concat rows, Offsets = map (\<lambda>j. word_of_nat (offset_at rows j)) [0..<length rows],
             Lengths = map (\<lambda>r. word_of_nat (length r)) rows\<rparr>, vec_Np = None\<rparr>))"

definition list_cols :: "(Oid \<times> nat \<times> 'v goval list, 'v, 'n) col_ops" where
  "list_cols =
     \<lparr>co_New = (\<lambda>t c. (t, unat c, [])),
      co_AppendVector = (\<lambda>(t, c, rows) src off.
        let ks = keys_of src; k = min (c - length rows) (length ks - off) in Ok ((t, c, rows @ take k (drop off ks)), k)),
      co_Length = (\<lambda>(t, c, rows). length rows),
      co_GetValue = (\<lambda>(t, c, rows) i. if i < length rows then Ok (as_value (rows ! i)) else Err (ErrOther 0)),
      co_Window = (\<lambda>(t, c, rows) s e. mk_vec t (take (e - s) (drop s rows))),
      co_Oid = fst, co_cap = fst \<circ> snd, co_rows = snd \<circ> snd\<rparr>"

lemma keys_of_holds: "vec_holds vec ks \<Longrightarrow> keys_of vec = ks"
  by (simp add: keys_of_def window_keys_holds col_len_holds comp_def)

lemma mk_vec_holds:
  fixes ks :: "'v goval list"
  assumes "col_fits t ks"
  shows "Typ_Oid (mk_vec t ks :: ('v, 'n) Vector) = t \<and> vec_holds (mk_vec t ks :: ('v, 'n) Vector) ks"
proof -
  obtain vec :: "('v, unit) Vector" where v: "Typ_Oid vec = t" "vec_holds vec ks" using assms by (auto simp: col_fits_def)
  then consider (fixed) f xs where "t = Fix f" "ks = map (VFix f) xs"
    | (str) d rows where "is_bytes_oid t" "bytes_rep rows (length rows) d" "ks = map VString rows"
    by (auto simp: vec_holds_def)
  then show ?thesis
  proof cases
    case fixed
    have "[x. VFix _ x \<leftarrow> map (VFix f) xs] = xs" by (induction xs) auto
    then show ?thesis using fixed by (simp add: mk_vec_def vec_holds_def)
  next
    case str
    have "[b. VString b \<leftarrow> map VString rows :: 'v goval list] = rows" by (induction rows) auto
    then have "(mk_vec t ks :: ('v, 'n) Vector) = \<lparr>Typ_Oid = t, vec_Col = CBytes \<lparr>Data = concat rows,
        Offsets = map (\<lambda>j. word_of_nat (offset_at rows j)) [0..<length rows], Lengths = map (\<lambda>r. word_of_nat (length r)) rows\<rparr>, vec_Np = None\<rparr>"
      using str by (auto simp: mk_vec_def Let_def)
    then show ?thesis using str by (auto simp: vec_holds_def bytes_rep_def)
  qed
qed

lemma list_cols_laws: "col_laws list_cols"
  unfolding col_laws_def list_cols_def by (auto simp: Let_def keys_of_holds mk_vec_holds)

abbreviation ucols :: "(Oid \<times> nat \<times> u8 goval list, u8, unit) col_ops" where
  "ucols \<equiv> list_cols"

definition demo_keys :: "u8 list \<Rightarrow> (u8, unit) Vector" where
  "demo_keys xs = \<lparr>Typ_Oid = Fix T_uint8, vec_Col = CFix T_uint8 xs, vec_Np = None\<rparr>"

lemma demo_keys_batch: "batch_holds [Fix T_uint8] [demo_keys xs] (length xs) [map (VFix T_uint8) xs]"
  by (simp add: batch_holds_def demo_keys_def vec_holds_def)

theorem local_append_correct_witness:
  "\<exists>tbl'. Table_Append 2 ucols (\<lambda>_. 1) (\<lambda>_ _. None) 0 [demo_keys [7, 8]] (newLocal :: (_, u32 list, u8) txnTable) = Some (tbl', Ok ())
     \<and> Table_Rows tbl' = 2 \<and> GetLocalValue ucols 1 0 tbl' = Ok (VFix T_uint8 8)
     \<and> index_map (tt_index tbl') (VFix T_uint8 8) = Some 1"
proof -
  let ?tbl = "newLocal :: (Oid \<times> nat \<times> u8 goval list, u32 list, u8) txnTable"
  have "local_ok ucols [Fix T_uint8] ?tbl [[]]" using newLocal_ok [of ucols "[Fix T_uint8]"] by simp
  note w = local_append_correct [where ex = "\<lambda>_ _. None" and fuel = 2 and tySize = "\<lambda>_. 1" and pk = 0,
      OF list_cols_laws this demo_keys_batch [of "[7, 8]"]]
  have r: "unat (tt_rows ?tbl) = 0" by (simp add: newLocal_def)
  obtain tbl' where t: "Table_Append 2 ucols (\<lambda>_. 1) (\<lambda>_ _. None) 0 [demo_keys [7, 8]] ?tbl = Some (tbl', Ok ())"
      "unat (tt_rows tbl') = Suc (Suc 0)" "Table_Rows tbl' = tt_rows tbl'"
      "index_map (tt_index tbl') = (index_map (tt_index ?tbl))(map (VFix T_uint8) [7, 8] [\<mapsto>] map (\<lambda>i. tt_rows ?tbl + word_of_nat i) [0..<Suc (Suc 0)])"
      "GetLocalValue ucols 1 0 tbl' = Ok (VFix T_uint8 8)"
    using w by (auto simp: r as_value_def)
  have "tt_rows tbl' = 2" using t(2) by (simp add: word_unat_eq_iff)
  then show ?thesis using t(1,3-)
    by (intro exI [of _ tbl']) (simp add: newLocal_def)
qed

text \<open>
  When the buffer manager refuses to expand the node, the append is lost silently: the rows of the batch are not
  inserted, the index does not know them, and yet \<open>Append\<close> returns no error, because the loop tests an
  \<open>err\<close> of its own that shadows the one it returns.
\<close>

lemma append_refused_silently:
  assumes "local_ok O' ts tbl cols" and "data \<noteq> []" and "\<And>k size. ex k size = Some e"
  shows "\<exists>tbl'. Table_Append (Suc fuel) O' tySize ex pk data tbl = Some (tbl', Ok ()) \<and> tt_rows tbl' = tt_rows tbl \<and> tt_index tbl' = tt_index tbl"
proof -
  obtain d ds where d: "data = d # ds" using assms(2) by (cases data) auto
  show ?thesis using assms(3) by (cases "tt_appendable tbl") (simp_all add: Table_Append_def d registerInsertNode_def Let_def)
qed

lemma append_refused_silently_example:
  "\<exists>tbl'. Table_Append 1 ucols (\<lambda>_. 1) (\<lambda>_ _. Some ErrNoEnoughSpace) 0 [demo_keys [7, 8]] (newLocal :: (_, u32 list, u8) txnTable) = Some (tbl', Ok ())
     \<and> tt_rows tbl' = 0"
  using append_refused_silently [where tbl = "newLocal :: (_, u32 list, u8) txnTable" and fuel = 0 and O' = ucols and ex = "\<lambda>_ _. Some ErrNoEnoughSpace"
      and data = "[demo_keys [7, 8]]" and pk = 0 and tySize = "\<lambda>_. 1", OF newLocal_ok [of ucols "[Fix T_uint8]"]]
  by (auto simp: newLocal_def)

section \<open>Lemmas: deleting rows\<close>

definition deleted_at :: "('b, u32) bitmap \<Rightarrow> ('vec, 'b, 'v, 'z) txnTable_scheme \<Rightarrow> nat \<Rightarrow> u32 \<Rightarrow> bool" where
  "deleted_at B tbl i o' \<longleftrightarrow> i < length (tt_inodes tbl) \<and> IsRowDeleted B o' (tt_inodes tbl ! i)"

text \<open>What a deletion may change: only the delete bitmaps of the nodes.\<close>

definition same_but_deletes :: "('vec, 'b, 'v, 'z) txnTable_scheme \<Rightarrow> ('vec, 'b, 'v, 'z) txnTable_scheme \<Rightarrow> bool" where
  "same_but_deletes t t' \<longleftrightarrow>
     (\<exists>ns. t' = t\<lparr>tt_inodes := ns\<rparr> \<and> list_all2 (\<lambda>n n'. \<exists>x. n' = n\<lparr>in_deletes := x\<rparr>) (tt_inodes t) ns)"

lemma deletes_id: "\<exists>x. n = n\<lparr>in_deletes := x\<rparr>"
  by (intro exI [of _ "in_deletes n"]) simp

lemma same_but_deletes_refl: "same_but_deletes t t"
  unfolding same_but_deletes_def by (intro exI [of _ "tt_inodes t"]) (simp add: list_all2_same deletes_id)

lemma same_but_deletes_trans:
  assumes "same_but_deletes t t'" and "same_but_deletes t' t''"
  shows "same_but_deletes t t''"
proof -
  obtain ns ms where n: "t' = t\<lparr>tt_inodes := ns\<rparr>" "t'' = t\<lparr>tt_inodes := ms\<rparr>"
      "list_all2 (\<lambda>n n'. \<exists>x. n' = n\<lparr>in_deletes := x\<rparr>) (tt_inodes t) ns" "list_all2 (\<lambda>n n'. \<exists>x. n' = n\<lparr>in_deletes := x\<rparr>) ns ms"
    using assms by (auto simp: same_but_deletes_def)
  have "list_all2 (\<lambda>n n'. \<exists>x. n' = n\<lparr>in_deletes := x\<rparr>) (tt_inodes t) ms"
    by (rule list_all2_trans [OF _ n(3,4)]) auto
  then show ?thesis using n(2) by (auto simp: same_but_deletes_def)
qed

lemma node_ok_deletes: "node_ok O' ts (n\<lparr>in_deletes := x\<rparr>) cols = node_ok O' ts n cols"
  by (simp add: node_ok_def cong: option.case_cong)

lemma local_ok_deletes:
  assumes "local_ok O' ts t cols" and "same_but_deletes t t'"
  shows "local_ok O' ts t' cols"
proof -
  obtain ns where n: "t' = t\<lparr>tt_inodes := ns\<rparr>" "list_all2 (\<lambda>n n'. \<exists>x. n' = n\<lparr>in_deletes := x\<rparr>) (tt_inodes t) ns"
    using assms(2) by (auto simp: same_but_deletes_def)
  have l: "length ns = length (tt_inodes t)" using n(2) by (simp add: list_all2_lengthD)
  have "node_ok O' ts (ns ! j) c = node_ok O' ts (tt_inodes t ! j) c" if "j < length (tt_inodes t)" for j c
    using list_all2_nthD [OF n(2) that] by (auto simp: node_ok_deletes)
  moreover have "ns = [] \<longleftrightarrow> tt_inodes t = []" using l by auto
  ultimately show ?thesis using assms(1) n(1) l by (cases "tt_inodes t = []") (simp_all add: local_ok_def)
qed

lemma same_put_node:
  fixes tbl :: "('vec, 'b, 'v, 'z) txnTable_scheme"
  shows "same_but_deletes tbl (put_node i (Node_RangeDelete B s e (tt_inodes tbl ! i)) tbl)"
proof -
  have "\<exists>x. Node_RangeDelete B s e n = n\<lparr>in_deletes := x\<rparr>" for n :: "('vec, 'b) insertNode"
    by (auto simp: Node_RangeDelete_def Let_def)
  then have "\<exists>x. (tt_inodes tbl)[i := Node_RangeDelete B s e (tt_inodes tbl ! i)] ! j = (tt_inodes tbl ! j)\<lparr>in_deletes := x\<rparr>"
    if "j < length (tt_inodes tbl)" for j
    using that by (cases "j = i") (simp_all add: deletes_id)
  then show ?thesis
    unfolding same_but_deletes_def
    by (intro exI [of _ "(tt_inodes tbl)[i := Node_RangeDelete B s e (tt_inodes tbl ! i)]"])
      (simp add: put_node_def list_all2_conv_all_nth)
qed

lemma delete_in_ok:
  fixes tbl :: "('vec, 'b, 'v, 'z) txnTable_scheme"
  assumes "bitmap_laws B" and "i < length (tt_inodes tbl)"
  shows "\<exists>t'. delete_in B i s e tbl = Ok t' \<and> same_but_deletes tbl t'
    \<and> (\<forall>j o'. deleted_at B t' j o' \<longleftrightarrow> deleted_at B tbl j o' \<or> (j = i \<and> unat s \<le> unat o' \<and> unat o' \<le> unat e))"
proof -
  let ?t = "put_node i (Node_RangeDelete B s e (tt_inodes tbl ! i)) tbl"
  have "deleted_at B ?t j o' \<longleftrightarrow> deleted_at B tbl j o' \<or> (j = i \<and> unat s \<le> unat o' \<and> unat o' \<le> unat e)" for j o'
    using assms(2) IsRowDeleted_RangeDelete [OF assms(1)] by (auto simp: deleted_at_def put_node_def nth_list_update)
  then show ?thesis using assms(2) same_put_node by (auto simp: delete_in_def)
qed

lemma same_nodes: "same_but_deletes t t' \<Longrightarrow> length (tt_inodes t') = length (tt_inodes t)"
  by (auto simp: same_but_deletes_def list_all2_lengthD)

lemma delete_between_ok:
  fixes tbl :: "('vec, 'b, 'v, 'z) txnTable_scheme"
  assumes "bitmap_laws B" and "\<forall>i \<in> set is. i < length (tt_inodes tbl)"
  shows "\<exists>t'. delete_between B is tbl = Ok t' \<and> same_but_deletes tbl t'
    \<and> (\<forall>j o'. deleted_at B t' j o' \<longleftrightarrow> deleted_at B tbl j o' \<or> (j \<in> set is \<and> unat o' \<le> 10000))"
  using assms(2)
proof (induction "is" arbitrary: tbl)
  case Nil
  then show ?case by (simp add: same_but_deletes_refl)
next
  case (Cons i "is")
  have "i < length (tt_inodes tbl)" using Cons.prems by simp
  from delete_in_ok [OF assms(1) this, of 0 MaxNodeRows] obtain t1 where t1: "delete_in B i 0 MaxNodeRows tbl = Ok t1" "same_but_deletes tbl t1"
      "\<forall>j o'. deleted_at B t1 j o' \<longleftrightarrow> deleted_at B tbl j o' \<or> (j = i \<and> unat o' \<le> 10000)"
    by auto
  have "\<forall>i \<in> set is. i < length (tt_inodes t1)" using Cons.prems same_nodes [OF t1(2)] by simp
  from Cons.IH [OF this] obtain t2 where "delete_between B is t1 = Ok t2" "same_but_deletes t1 t2"
      "\<forall>j o'. deleted_at B t2 j o' \<longleftrightarrow> deleted_at B t1 j o' \<or> (j \<in> set is \<and> unat o' \<le> 10000)"
    by blast
  then show ?case using t1 same_but_deletes_trans [OF t1(2)] by auto
qed

text \<open>A full node has the offsets 0 to 9999; a node between the first and the last one gets one more.\<close>

lemma middle_delete_overshoots:
  "bitmap_laws B \<Longrightarrow> IsRowDeleted B MaxNodeRows (Node_RangeDelete B 0 MaxNodeRows n)"
  by (simp add: IsRowDeleted_RangeDelete)

lemma IsLocalDeleted_at:
  assumes "unat r div 10000 < length (tt_inodes tbl)"
  shows "IsLocalDeleted B r tbl = Ok (deleted_at B tbl (unat r div 10000) (snd (GetLocalPhysicalAxis r)))"
  using assms by (simp add: IsLocalDeleted_def deleted_at_def case_prod_beta axis_simps Let_def)

text \<open>The position of a row orders as the row number does.\<close>

lemma axis_le: "x \<le> y \<longleftrightarrow> x div 10000 < y div 10000 \<or> (x div 10000 = y div 10000 \<and> x mod 10000 \<le> y mod 10000)" for x y :: nat
proof -
  have "a * 10000 + c \<le> b * 10000 + d \<longleftrightarrow> a < b \<or> a = b \<and> c \<le> d" if "c < 10000" "d < 10000" for a b c d :: nat
    using that by (cases a b rule: linorder_cases) linarith+
  from this [of "x mod 10000" "y mod 10000" "x div 10000" "y div 10000"] show ?thesis by simp
qed

lemma axis_same:
  fixes s r e :: nat
  assumes "s div 10000 = e div 10000"
  shows "r div 10000 = s div 10000 \<and> s mod 10000 \<le> r mod 10000 \<and> r mod 10000 \<le> e mod 10000 \<longleftrightarrow> s \<le> r \<and> r \<le> e"
  unfolding axis_le [of s r] axis_le [of r e] assms by auto

lemma axis_between:
  fixes s r e :: nat
  assumes "s div 10000 < e div 10000" and "i = r div 10000" and "o' = r mod 10000"
  shows "(i = s div 10000 \<and> s mod 10000 \<le> o') \<or> (i = e div 10000 \<and> o' \<le> e mod 10000) \<or> (s div 10000 < i \<and> i < e div 10000)
    \<longleftrightarrow> s \<le> r \<and> r \<le> e"
proof -
  have gen: "(i = a \<and> c \<le> o') \<or> (i = b \<and> o' \<le> d) \<or> (a < i \<and> i < b) \<longleftrightarrow> (a < i \<or> a = i \<and> c \<le> o') \<and> (i < b \<or> i = b \<and> o' \<le> d)"
    if "a < b" for a b c d i o' :: nat
    using that by auto
  show ?thesis unfolding axis_le [of s r] axis_le [of r e] assms(2,3) by (rule gen [OF assms(1)])
qed

text \<open>
  C14. Deleting a range of local rows.  For \<open>start \<le> end\<close> within the table, \<open>RangeDeleteLocalRows\<close> returns, whether
  the range lies in one node or spans several, keeps all rows and the index, and afterwards exactly
  the rows of the range and those deleted before count as deleted.
\<close>

theorem local_delete_correct:
  fixes tbl :: "('vec, 'b, 'v, 'z) txnTable_scheme"
  assumes "bitmap_laws B" and "local_ok O' ts tbl cols" and "start \<le> end" and "end < tt_rows tbl"
  shows "\<exists>tbl'. RangeDeleteLocalRows B start end tbl = Ok tbl' \<and> local_ok O' ts tbl' cols \<and> tt_rows tbl' = tt_rows tbl
     \<and> (\<forall>r. r < tt_rows tbl \<longrightarrow> (\<exists>b. IsLocalDeleted B r tbl = Ok b \<and> IsLocalDeleted B r tbl' = Ok (b \<or> (start \<le> r \<and> r \<le> end))))"
proof -
  let ?f = "unat start div 10000" and ?l = "unat end div 10000"
  have un: "unat start \<le> unat end" "unat end < unat (tt_rows tbl)" using assms(3,4) by (simp_all add: word_le_nat_alt word_less_nat_alt)
  have len: "?f < length (tt_inodes tbl)" "?l < length (tt_inodes tbl)" using local_node(1) [OF assms(2)] un by simp_all
  have ax: "GetLocalPhysicalAxis r = (unat r div 10000, snd (GetLocalPhysicalAxis r))" for r
    by (metis axis_simps(1) prod.collapse)
  have last: "unat (MaxNodeRows - 1) = 9999" by (simp add: MaxNodeRows_def)
  have "\<exists>t'. RangeDeleteLocalRows B start end tbl = Ok t' \<and> same_but_deletes tbl t'
      \<and> (\<forall>r. deleted_at B t' (unat r div 10000) (snd (GetLocalPhysicalAxis r))
           \<longleftrightarrow> deleted_at B tbl (unat r div 10000) (snd (GetLocalPhysicalAxis r)) \<or> (unat start \<le> unat r \<and> unat r \<le> unat end))"
  proof (cases "?l = ?f")
    case True
    obtain t' where t': "delete_in B ?f (snd (GetLocalPhysicalAxis start)) (snd (GetLocalPhysicalAxis end)) tbl = Ok t'" "same_but_deletes tbl t'"
        "\<forall>j o'. deleted_at B t' j o' \<longleftrightarrow> deleted_at B tbl j o' \<or> (j = ?f \<and> unat start mod 10000 \<le> unat o' \<and> unat o' \<le> unat end mod 10000)"
      using delete_in_ok [OF assms(1) len(1), of "snd (GetLocalPhysicalAxis start)" "snd (GetLocalPhysicalAxis end)"] unfolding axis_simps by blast
    have "RangeDeleteLocalRows B start end tbl = Ok t'"
      using t'(1) True ax [of start] ax [of "end"] by (simp add: RangeDeleteLocalRows_def case_prod_beta axis_simps)
    moreover have "(unat r div 10000 = ?f \<and> unat start mod 10000 \<le> unat r mod 10000 \<and> unat r mod 10000 \<le> unat end mod 10000)
        \<longleftrightarrow> unat start \<le> unat r \<and> unat r \<le> unat end" for r
      using axis_same [OF True [symmetric]] by blast
    ultimately show ?thesis using t'(2,3) by (auto simp: axis_simps)
  next
    case False
    then have lt: "?f < ?l" using un(1) axis_le [of "unat start" "unat end"] by simp
    obtain t1 where t1: "delete_in B ?f (snd (GetLocalPhysicalAxis start)) (MaxNodeRows - 1) tbl = Ok t1" "same_but_deletes tbl t1"
        "\<forall>j o'. deleted_at B t1 j o' \<longleftrightarrow> deleted_at B tbl j o' \<or> (j = ?f \<and> unat start mod 10000 \<le> unat o' \<and> unat o' \<le> 9999)"
      using delete_in_ok [OF assms(1) len(1), of "snd (GetLocalPhysicalAxis start)" "MaxNodeRows - 1"] unfolding axis_simps last by blast
    have len1: "?l < length (tt_inodes t1)" using len(2) same_nodes [OF t1(2)] by simp
    obtain t2 where t2: "delete_in B ?l 0 (snd (GetLocalPhysicalAxis end)) t1 = Ok t2" "same_but_deletes t1 t2"
        "\<forall>j o'. deleted_at B t2 j o' \<longleftrightarrow> deleted_at B t1 j o' \<or> (j = ?l \<and> unat (0 :: u32) \<le> unat o' \<and> unat o' \<le> unat end mod 10000)"
      using delete_in_ok [OF assms(1) len1, of 0 "snd (GetLocalPhysicalAxis end)"] unfolding axis_simps by blast
    have "\<forall>i \<in> set [?f + 1..<?l]. i < length (tt_inodes t2)" using len1 same_nodes [OF t2(2)] by auto
    from delete_between_ok [OF assms(1) this] obtain t3 where t3: "delete_between B [?f + 1..<?l] t2 = Ok t3" "same_but_deletes t2 t3"
        "\<forall>j o'. deleted_at B t3 j o' \<longleftrightarrow> deleted_at B t2 j o' \<or> (j \<in> set [?f + 1..<?l] \<and> unat o' \<le> 10000)"
      by blast
    have "RangeDeleteLocalRows B start end tbl = Ok t3"
      using t1(1) t2(1) t3(1) False lt ax [of start] ax [of "end"]
      by (cases "?l > ?f + 1") (auto simp: RangeDeleteLocalRows_def case_prod_beta axis_simps)
    moreover have "same_but_deletes tbl t3" using same_but_deletes_trans t1(2) t2(2) t3(2) by blast
    moreover have "deleted_at B t3 (unat r div 10000) (snd (GetLocalPhysicalAxis r))
        \<longleftrightarrow> deleted_at B tbl (unat r div 10000) (snd (GetLocalPhysicalAxis r)) \<or> (unat start \<le> unat r \<and> unat r \<le> unat end)" for r
    proof -
      have "unat r mod 10000 \<le> 9999" "unat r mod 10000 \<le> 10000" using mod_less_divisor [of 10000 "unat r"] by linarith+
      then show ?thesis
        unfolding axis_between [OF lt refl refl, of "unat r", symmetric] using t1(3) t2(3) t3(3) by (simp only: axis_simps set_upt) auto
    qed
    ultimately show ?thesis by blast
  qed
  then obtain t' where t': "RangeDeleteLocalRows B start end tbl = Ok t'" "same_but_deletes tbl t'"
      "\<forall>r. deleted_at B t' (unat r div 10000) (snd (GetLocalPhysicalAxis r))
           \<longleftrightarrow> deleted_at B tbl (unat r div 10000) (snd (GetLocalPhysicalAxis r)) \<or> (unat start \<le> unat r \<and> unat r \<le> unat end)"
    by blast
  have "tt_rows t' = tt_rows tbl" using t'(2) by (auto simp: same_but_deletes_def)
  moreover have "\<exists>b. IsLocalDeleted B r tbl = Ok b \<and> IsLocalDeleted B r t' = Ok (b \<or> (start \<le> r \<and> r \<le> end))" if "r < tt_rows tbl" for r
  proof -
    have l: "unat r div 10000 < length (tt_inodes tbl)" using local_node(1) [OF assms(2)] that by (simp add: word_less_nat_alt)
    then have "unat r div 10000 < length (tt_inodes t')" using same_nodes [OF t'(2)] by simp
    with l show ?thesis using t'(3) by (simp add: IsLocalDeleted_at word_le_nat_alt)
  qed
  ultimately show ?thesis using t'(1) local_ok_deletes [OF assms(2) t'(2)] by blast
qed

definition demo_local :: "(Oid \<times> nat \<times> u8 goval list, u32 list, u8) txnTable" where
  "demo_local = \<lparr>tt_inodes = [NewInsertNode\<lparr>in_data := Some [(Fix T_uint8, 10000, map (VFix T_uint8) [7, 8, 9])], in_rows := 3\<rparr>],
     tt_appendable = Some 0, tt_index = NewSimpleTableIndex, tt_rows = 3\<rparr>"

lemma demo_local_ok: "local_ok ucols [Fix T_uint8] demo_local [map (VFix T_uint8) [7, 8, 9]]"
  by (simp add: local_ok_def demo_local_def node_ok_def vec_ok_def chunk_def list_cols_def index_ok_def NewSimpleTableIndex_def NewInsertNode_def)

theorem local_delete_correct_witness:
  "\<exists>tbl'. RangeDeleteLocalRows list_bitmap 0 1 demo_local = Ok tbl' \<and> IsLocalDeleted list_bitmap 1 tbl' = Ok True
     \<and> IsLocalDeleted list_bitmap 2 tbl' = Ok False"
proof -
  have d: "IsLocalDeleted list_bitmap 1 demo_local = Ok False" "IsLocalDeleted list_bitmap 2 demo_local = Ok False"
    by (simp_all add: IsLocalDeleted_def GetLocalPhysicalAxis_def demo_local_def IsRowDeleted_def NewInsertNode_def)
  have "tt_rows demo_local = 3" by (simp add: demo_local_def)
  with local_delete_correct [OF list_bitmap_laws demo_local_ok, of 0 1] obtain tbl' where
    t: "RangeDeleteLocalRows list_bitmap 0 1 demo_local = Ok tbl'"
      "\<forall>r. r < 3 \<longrightarrow> (\<exists>b. IsLocalDeleted list_bitmap r demo_local = Ok b \<and> IsLocalDeleted list_bitmap r tbl' = Ok (b \<or> (0 \<le> r \<and> r \<le> 1)))"
    by auto
  show ?thesis using t(1) spec [OF t(2), of 1] spec [OF t(2), of 2] d by (auto simp: word_le_nat_alt)
qed

text \<open>
  Updating a value of a local row does not update it: \<open>UpdateLocalValue\<close> appends a copy of the row, and in every
  column, the updated one included, the appended row has the value of the old row, whatever value the
  caller passed.
\<close>

lemma update_local_ignores_value:
  fixes tbl :: "('vec, 'b, 'v, 'z) txnTable_scheme"
  assumes "col_laws O'" and "local_ok O' ts tbl cols" and "row < tt_rows tbl" and "pk < length ts"
    and "\<forall>i < length ts. col_fits (ts ! i) [cols ! i ! unat row]"
    and "unat (tt_rows tbl) + 1 < 2 ^ 32" and "\<And>k size. ex k size = None" and "0 < fuel"
  shows "\<exists>tbl'. UpdateLocalValue fuel O' B tySize ex pk row col val tbl = Some (tbl', Ok ())
     \<and> unat (tt_rows tbl') = unat (tt_rows tbl) + 1
     \<and> (\<forall>c. unat c < length ts \<longrightarrow> GetLocalValue O' (tt_rows tbl) c tbl' = GetLocalValue O' row c tbl)"
proof -
  let ?q = "unat row div 10000" and ?m = "unat row mod 10000" and ?o = "snd (GetLocalPhysicalAxis row)"
  have r: "unat row < unat (tt_rows tbl)" using assms(3) by (simp add: word_less_nat_alt)
  have ts: "ts \<noteq> []" using assms(4) by auto
  note n = local_node [OF assms(2) r]
  have qm: "unat row = ?q * 10000 + ?m" "?m < 10000" by simp_all
  have cols: "length cols = length ts" "\<And>i. i < length ts \<Longrightarrow> length (cols ! i) = unat (tt_rows tbl)"
    using assms(2) by (auto simp: local_ok_def)
  have one: "take 1 (drop ?m (chunk ?q c)) = [c ! unat row]" if "length c = unat (tt_rows tbl)" for c :: "'v goval list"
  proof -
    have "drop (?q * 10000 + ?m) c = c ! unat row # drop (Suc (unat row)) c"
      using that r qm(1) by (metis Cons_nth_drop_Suc)
    moreover have "take 1 (drop ?m (chunk ?q c)) = take (min 1 (10000 - ?m)) (drop (?q * 10000 + ?m) c)"
      by (simp add: chunk_def drop_take add.commute)
    ultimately show ?thesis using qm(2) by simp
  qed
  have w: "map (\<lambda>c. take (unat ?o + 1 - unat ?o) (drop (unat ?o) c)) (map (chunk ?q) cols) = map (\<lambda>c. [c ! unat row]) cols"
    using one cols by (intro nth_equalityI) (simp_all add: axis_simps)
  have "\<forall>i < length ts. col_fits (ts ! i) (take (unat ?o + 1 - unat ?o) (drop (unat ?o) (map (chunk ?q) cols ! i)))"
    using one cols assms(5) by (simp add: axis_simps)
  moreover have "unat ?o < unat (in_rows (tt_inodes tbl ! ?q))"
  proof -
    have "?m < min 10000 (unat (tt_rows tbl) - ?q * 10000)" using r qm by linarith
    then show ?thesis using node_rows [OF assms(2) ts n(1)] by (simp add: axis_simps)
  qed
  ultimately obtain data where data: "Node_Window O' ?o ?o (tt_inodes tbl ! ?q) = Ok data"
      "batch_holds ts data 1 (map (\<lambda>c. [c ! unat row]) cols)"
    using Node_Window_ok [OF assms(1) n(2), of ?o ?o] unfolding w by auto
  let ?tbl = "put_node ?q (Node_RangeDelete B ?o ?o (tt_inodes tbl ! ?q)) tbl"
  have inv: "local_ok O' ts ?tbl cols" by (rule local_ok_deletes [OF assms(2) same_put_node])
  have rows: "tt_rows ?tbl = tt_rows tbl" by (simp add: put_node_def)
  have "\<exists>tbl'. Table_Append fuel O' tySize ex pk data ?tbl = Some (tbl', Ok ()) \<and> local_ok O' ts tbl' (map2 (@) cols (map (\<lambda>c. [c ! unat row]) cols))
     \<and> unat (tt_rows tbl') = unat (tt_rows ?tbl) + 1 \<and> Table_Rows tbl' = tt_rows tbl'
     \<and> index_map (tt_index tbl') = (index_map (tt_index ?tbl))(map (\<lambda>c. [c ! unat row]) cols ! pk [\<mapsto>] map (\<lambda>i. tt_rows ?tbl + word_of_nat i) [0..<1])
     \<and> (\<forall>r c. unat r < unat (tt_rows tbl') \<and> unat c < length ts \<longrightarrow>
          GetLocalValue O' r c tbl' = Ok (as_value ((cols ! unat c @ map (\<lambda>c. [c ! unat row]) cols ! unat c) ! unat r)))"
    using assms(4,6-8) rows by (intro Table_Append_ok [OF assms(1) inv data(2)]) auto
  then obtain tbl' where t': "Table_Append fuel O' tySize ex pk data ?tbl = Some (tbl', Ok ())" "unat (tt_rows tbl') = unat (tt_rows tbl) + 1"
      "\<And>r c. unat r < unat (tt_rows tbl') \<Longrightarrow> unat c < length ts \<Longrightarrow>
          GetLocalValue O' r c tbl' = Ok (as_value ((cols ! unat c @ map (\<lambda>c. [c ! unat row]) cols ! unat c) ! unat r))"
    unfolding rows by blast
  have "GetLocalValue O' (tt_rows tbl) c tbl' = GetLocalValue O' row c tbl" if "unat c < length ts" for c
  proof -
    have "GetLocalValue O' (tt_rows tbl) c tbl' = Ok (as_value (cols ! unat c ! unat row))"
      using t'(3) [of "tt_rows tbl" c] t'(2) that cols by (simp add: nth_append)
    then show ?thesis using GetLocalValue_ok [OF assms(1,2) r that] by simp
  qed
  moreover have "UpdateLocalValue fuel O' B tySize ex pk row col val tbl = Some (tbl', Ok ())"
    using n(1) data(1) t'(1) by (simp add: UpdateLocalValue_def case_prod_beta axis_simps Let_def)
  ultimately show ?thesis using t'(2) by blast
qed

lemma update_local_ignores_value_example:
  "\<exists>tbl'. UpdateLocalValue 1 ucols list_bitmap (\<lambda>_. 1) (\<lambda>_ _. None) 0 1 0 (VFix T_uint8 5) demo_local = Some (tbl', Ok ())
     \<and> GetLocalValue ucols 3 0 tbl' = Ok (VFix T_uint8 8)"
proof -
  have f: "col_fits (Fix T_uint8) [VFix T_uint8 (8 :: u8)]"
    unfolding col_fits_def
    by (rule exI [of _ "\<lparr>Typ_Oid = Fix T_uint8, vec_Col = CFix T_uint8 [8], vec_Np = None\<rparr>"]) (simp add: vec_holds_def)
  have g: "GetLocalValue ucols 1 0 demo_local = Ok (VFix T_uint8 8)"
    by (simp add: GetLocalValue_def GetLocalPhysicalAxis_def demo_local_def Node_GetValue_def NewInsertNode_def list_cols_def as_value_def MaxNodeRows_def)
  have r: "tt_rows demo_local = 3" by (simp add: demo_local_def)
  show ?thesis
    using update_local_ignores_value [where fuel = 1 and B = list_bitmap and tySize = "\<lambda>_. 1" and ex = "\<lambda>_ _. None" and pk = 0 and row = 1
        and col = 0 and val = "VFix T_uint8 5", OF list_cols_laws demo_local_ok] f g r
    by (auto simp: word_less_nat_alt dest: spec [of _ 0])
qed

end
