(* ===== verification/DataTables.thy ===== *)
theory DataTables
  imports WarChecker LocalTable
begin

text \<open>
  The data of appendable blocks, segments and tables (\<^verbatim>\<open>pkg/tables\<close>: \<^verbatim>\<open>node.go\<close>,
  \<^verbatim>\<open>block.go\<close>, \<^verbatim>\<open>segment.go\<close>, \<^verbatim>\<open>table.go\<close>,
  \<^verbatim>\<open>appender.go\<close>): a table keeps a current segment, a segment a current block, and appending asks the
  table for an appender and learns which entry has to be created when there is none.  The pointers from catalog entries to
  their data objects are maps from identifiers; the buffer manager (of another repository) and the block
  files are not represented: a block in memory has its rows and columns.
\<close>

section \<open>Appendable nodes\<close>

record 'vec appendableNode =
  an_id :: ID
  an_data :: "'vec list option"
  an_rows :: u32

definition newNode :: "BlockEntry \<Rightarrow> 'vec appendableNode" where
  "newNode bk = \<lparr>an_id = Block_AsCommonID bk, an_data = None, an_rows = 0\<rparr>"

definition AN_Rows :: "bool \<Rightarrow> 'vec appendableNode \<Rightarrow> u32" where
  "AN_Rows coarse n = (if coarse then an_rows n else 0)"

definition AN_PrepareAppend :: "u32 \<Rightarrow> u32 \<Rightarrow> 'vec appendableNode \<Rightarrow> u32" where
  "AN_PrepareAppend maxRows rows n =
     (let left = maxRows - an_rows n in if left = 0 then 0 else if rows > left then left else rows)"

text \<open>
  \<open>an_id\<close> is \<open>meta.AsCommonID()\<close>.  A batch is a list of named vectors.  For every column of the node the vectors with the name of that column are
  appended; a node with more columns than the schema indexes it out of range.
\<close>

fun append_named :: "('vec, 'v, 'n) col_ops \<Rightarrow> string \<Rightarrow> nat \<Rightarrow> (string \<times> ('v, 'n) Vector) list \<Rightarrow> 'vec \<Rightarrow> 'vec res" where
  "append_named O' nm off [] v = Ok v"
| "append_named O' nm off ((a, d) # bat) v =
     (if a = nm then res_bind (co_AppendVector O' v d off) (\<lambda>(v', k). append_named O' nm off bat v')
      else append_named O' nm off bat v)"

fun append_all :: "('vec, 'v, 'n) col_ops \<Rightarrow> nat \<Rightarrow> (string \<times> ('v, 'n) Vector) list \<Rightarrow> string list \<Rightarrow> 'vec list \<Rightarrow> 'vec list res" where
  "append_all O' off bat names [] = Ok []"
| "append_all O' off bat [] (v # vs) = (if bat = [] then Ok (v # vs) else Panic)"
| "append_all O' off bat (nm # names) (v # vs) =
     res_bind (append_named O' nm off bat v) (\<lambda>v'. res_bind (append_all O' off bat names vs) (\<lambda>vs'. Ok (v' # vs')))"

definition AN_ApplyAppend ::
  "('vec, 'v, 'n) col_ops \<Rightarrow> string list \<Rightarrow> u32 \<Rightarrow> (string \<times> ('v, 'n) Vector) list \<Rightarrow> u32 \<Rightarrow> u32 \<Rightarrow> 'vec appendableNode
     \<Rightarrow> (u32 \<times> 'vec appendableNode) res" where
  "AN_ApplyAppend O' names maxRows bat offset len n =
     (let vecs = (case an_data n of
                    None \<Rightarrow> map (\<lambda>(a, d). co_New O' (Typ_Oid d) (ucast maxRows)) bat
                  | Some vs \<Rightarrow> vs);
          from = an_rows n
      in res_bind (append_all O' (unat offset) bat names vecs) (\<lambda>vecs'.
           Ok (from, n\<lparr>an_data := Some vecs', an_rows := an_rows n + len\<rparr>)))"

section \<open>Blocks, segments and tables\<close>

text \<open>
  The data objects of one table: the current segment of the table, the current block of every
  segment, and the node of every appendable block.
\<close>

record 'vec tableData =
  td_aSeg :: "u64 option"
  td_aBlk :: "u64 \<rightharpoonup> u64"
  td_nodes :: "u64 \<rightharpoonup> 'vec appendableNode"

definition newTable :: "'vec tableData" where
  "newTable = \<lparr>td_aSeg = None, td_aBlk = Map.empty, td_nodes = Map.empty\<rparr>"

text \<open>A block that is not appendable gets no node.\<close>

definition newBlock :: "BlockEntry \<Rightarrow> 'vec tableData \<Rightarrow> 'vec tableData" where
  "newBlock bk T = (if Block_IsAppendable bk then T\<lparr>td_nodes := (td_nodes T)(be_ID (blk_base bk) \<mapsto> newNode bk)\<rparr> else T)"

definition newSegment :: "SegmentEntry \<Rightarrow> 'vec tableData \<Rightarrow> 'vec tableData" where
  "newSegment sg T =
     (case LastAppendableBlock sg of
        None \<Rightarrow> T\<lparr>td_aBlk := (td_aBlk T)(be_ID (seg_base sg) := None)\<rparr>
      | Some bk \<Rightarrow> newBlock bk (T\<lparr>td_aBlk := (td_aBlk T)(be_ID (seg_base sg) \<mapsto> be_ID (blk_base bk))\<rparr>))"

definition DataBlock_IsAppendable :: "u32 \<Rightarrow> BlockEntry \<Rightarrow> 'vec tableData \<Rightarrow> bool res" where
  "DataBlock_IsAppendable maxRows bk T =
     (if \<not> Block_IsAppendable bk then Ok False
      else case td_nodes T (be_ID (blk_base bk)) of
             None \<Rightarrow> Panic
           | Some n \<Rightarrow> Ok (AN_Rows True n \<noteq> maxRows))"

definition DataBlock_Rows :: "u64 \<Rightarrow> BlockEntry \<Rightarrow> bool \<Rightarrow> 'vec tableData \<Rightarrow> int res" where
  "DataBlock_Rows fileRows bk coarse T =
     (if Block_IsAppendable bk then
        (case td_nodes T (be_ID (blk_base bk)) of None \<Rightarrow> Panic | Some n \<Rightarrow> Ok (uint (AN_Rows coarse n)))
      else Ok (uint fileRows))"

text \<open>An appender is the identifier of its block.\<close>

definition MakeAppender :: "u32 \<Rightarrow> BlockEntry \<Rightarrow> 'vec tableData \<Rightarrow> u64 res" where
  "MakeAppender maxRows bk T =
     res_bind (DataBlock_IsAppendable maxRows bk T) (\<lambda>a. if a then Ok (be_ID (blk_base bk)) else Err ErrNotAppendable)"

text \<open>The entry of the current block of a segment.\<close>

definition active_block :: "SegmentEntry \<Rightarrow> 'vec tableData \<Rightarrow> BlockEntry option" where
  "active_block sg T = (case td_aBlk T (be_ID (seg_base sg)) of None \<Rightarrow> None | Some b \<Rightarrow> seg_entries sg b)"

definition Seg_IsAppendable :: "'ty Schema \<Rightarrow> SegmentEntry \<Rightarrow> 'vec tableData \<Rightarrow> bool res" where
  "Seg_IsAppendable sc sg T =
     (if \<not> Segment_IsAppendable sg then Ok False
      else res_bind (case active_block sg T of None \<Rightarrow> Ok False | Some bk \<Rightarrow> DataBlock_IsAppendable (BlockMaxRows sc) bk T) (\<lambda>a.
        Ok (a \<or> GetAppendableBlockCnt sg < unat (SegmentMaxBlocks sc))))"

definition Seg_GetAppender :: "'ty Schema \<Rightarrow> SegmentEntry \<Rightarrow> 'vec tableData \<Rightarrow> u64 res" where
  "Seg_GetAppender sc sg T =
     (case active_block sg T of
        None \<Rightarrow> if \<not> Segment_IsAppendable sg then Err ErrAppendableSegmentNotFound else Err ErrAppendableBlockNotFound
      | Some bk \<Rightarrow>
          (case MakeAppender (BlockMaxRows sc) bk T of
             Err e \<Rightarrow>
               if GetAppendableBlockCnt sg \<ge> unat (SegmentMaxBlocks sc) then Err ErrAppendableSegmentNotFound
               else Err ErrAppendableBlockNotFound
           | r \<Rightarrow> r))"

definition Seg_SetAppender :: "'ty Schema \<Rightarrow> SegmentEntry \<Rightarrow> u64 \<Rightarrow> 'vec tableData \<Rightarrow> (u64 \<times> 'vec tableData) res" where
  "Seg_SetAppender sc sg blkId T =
     (case GetBlockEntryByID blkId sg of
        Ok bk \<Rightarrow>
          (let T' = T\<lparr>td_aBlk := (td_aBlk T)(be_ID (seg_base sg) \<mapsto> blkId)\<rparr>
           in res_bind (MakeAppender (BlockMaxRows sc) bk T') (\<lambda>a. Ok (a, T')))
      | _ \<Rightarrow> Panic)"

definition HasAppendableSegment :: "'ty TableEntry \<Rightarrow> 'vec tableData \<Rightarrow> bool res" where
  "HasAppendableSegment t T =
     (case td_aSeg T of
        None \<Rightarrow> Ok False
      | Some s \<Rightarrow> (case tbl_entries t s of None \<Rightarrow> Panic | Some sg \<Rightarrow> Seg_IsAppendable (tbl_schema t) sg T))"

text \<open>The identifier that comes with the answer is the one of the current segment.\<close>

definition GetAppender :: "'ty TableEntry \<Rightarrow> 'vec tableData \<Rightarrow> u64 res" where
  "GetAppender t T =
     (case td_aSeg T of
        None \<Rightarrow> Err ErrAppendableSegmentNotFound
      | Some s \<Rightarrow> (case tbl_entries t s of None \<Rightarrow> Panic | Some sg \<Rightarrow> Seg_GetAppender (tbl_schema t) sg T))"

definition setAppendableSegment :: "'ty TableEntry \<Rightarrow> u64 \<Rightarrow> 'vec tableData \<Rightarrow> 'vec tableData res" where
  "setAppendableSegment t i T = (case GetSegmentByID i t of Ok sg \<Rightarrow> Ok (T\<lparr>td_aSeg := Some i\<rparr>) | _ \<Rightarrow> Panic)"

definition SetAppender :: "'ty TableEntry \<Rightarrow> u64 \<Rightarrow> u64 \<Rightarrow> 'vec tableData \<Rightarrow> (u64 \<times> 'vec tableData) res" where
  "SetAppender t sid bid T =
     (let again = (\<lambda>T. case td_aSeg T of
                          None \<Rightarrow> Panic
                        | Some s \<Rightarrow> (case tbl_entries t s of None \<Rightarrow> Panic | Some sg \<Rightarrow> Seg_SetAppender (tbl_schema t) sg bid T))
      in if td_aSeg T = None \<or> td_aSeg T \<noteq> Some sid then
           res_bind (setAppendableSegment t sid T) (\<lambda>T1.
             case GetAppender t T1 of
               Ok a \<Rightarrow> Ok (a, T1)
             | Err e \<Rightarrow> again T1
             | Panic \<Rightarrow> Panic)
         else again T)"

section \<open>Applying the rows of an insert node\<close>

text \<open>
  \<open>applyAppendInode\<close> of \<^verbatim>\<open>pkg/txn/txnimpl/table.go\<close>.  What the transaction table changes when it
  creates entries: the catalog entry of the table, the identifiers still to be allocated, the data of the table, the identifiers of the
  created segments and blocks, and the conflict checker; the loop also changes the node (its apply records).
\<close>

record ('ty, 'a, 'vec) tableMeta =
  as_table :: "'ty TableEntry"
  as_alloc :: "'a IDAlloctor"
  as_data :: "'vec tableData"
  as_csegs :: "u64 list"
  as_cblks :: "(u64 \<times> u64) list"
  as_checker :: warChecker

record ('ty, 'a, 'vec, 'b) applyState = "('ty, 'a, 'vec) tableMeta" +
  as_node :: "('vec, 'b) insertNode"

text \<open>\<open>CreateSegment\<close> and \<open>CreateBlock\<close> of the transaction table, with the data objects that the factories make.\<close>

definition apply_CreateSegment ::
  "('a \<Rightarrow> u64 \<times> 'a) \<Rightarrow> txn_env \<Rightarrow> u64 \<Rightarrow> ('ty, 'a, 'vec, 'z) tableMeta_scheme \<Rightarrow> u64 \<times> ('ty, 'a, 'vec, 'z) tableMeta_scheme" where
  "apply_CreateSegment al env r S =
     (case CreateSegment al env (Some r) ES_Appendable (as_table S) (as_alloc S) of
        (sg, t', x') \<Rightarrow>
          (be_ID (seg_base sg),
           S\<lparr>as_table := t', as_alloc := x', as_data := newSegment sg (as_data S), as_csegs := as_csegs S @ [be_ID (seg_base sg)],
             as_checker := readTableVar t' (as_checker S)\<rparr>))"

definition apply_CreateBlock ::
  "('a \<Rightarrow> u64 \<times> 'a) \<Rightarrow> txn_env \<Rightarrow> u64 \<Rightarrow> u64 \<Rightarrow> ('ty, 'a, 'vec, 'z) tableMeta_scheme \<Rightarrow> (u64 \<times> ('ty, 'a, 'vec, 'z) tableMeta_scheme) res" where
  "apply_CreateBlock al env r sid S =
     (case GetSegmentByID sid (as_table S) of
        Ok sg \<Rightarrow>
          (case CreateBlock al env (Some r) ES_Appendable sg (as_alloc S) of
             (bk, sg', x') \<Rightarrow>
               (let t' = (as_table S)\<lparr>tbl_entries := (tbl_entries (as_table S))(sid \<mapsto> sg')\<rparr>
                in Ok (be_ID (blk_base bk),
                     S\<lparr>as_table := t', as_alloc := x', as_data := newBlock bk (as_data S), as_cblks := as_cblks S @ [(sid, be_ID (blk_base bk))],
                       as_checker := readSegmentVar t' sg' (as_checker S)\<rparr>)))
      | Err e \<Rightarrow> Err e
      | Panic \<Rightarrow> Panic)"

text \<open>
  The appender that one iteration uses: a new block that is made the current one, or the answer of
  the table; a creation that fails panics.
\<close>

definition block_appender ::
  "('a \<Rightarrow> u64 \<times> 'a) \<Rightarrow> txn_env \<Rightarrow> u64 \<Rightarrow> u64 \<Rightarrow> ('ty, 'a, 'vec, 'b) applyState \<Rightarrow> (u64 \<times> ('ty, 'a, 'vec, 'b) applyState) res" where
  "block_appender al env r sid S =
     (case apply_CreateBlock al env r sid S of
        Ok (bid, S1) \<Rightarrow>
          (case SetAppender (as_table S1) sid bid (as_data S1) of
             Ok (a, T) \<Rightarrow> Ok (a, S1\<lparr>as_data := T\<rparr>)
           | _ \<Rightarrow> Panic)
      | _ \<Rightarrow> Panic)"

definition obtain_appender ::
  "('a \<Rightarrow> u64 \<times> 'a) \<Rightarrow> txn_env \<Rightarrow> u64 \<Rightarrow> ('ty, 'a, 'vec, 'b) applyState \<Rightarrow> (u64 \<times> ('ty, 'a, 'vec, 'b) applyState) res" where
  "obtain_appender al env r S =
     (case GetAppender (as_table S) (as_data S) of
        Ok a \<Rightarrow> Ok (a, S)
      | Err e \<Rightarrow>
          if e = ErrAppendableSegmentNotFound then (case apply_CreateSegment al env r S of (sid, S1) \<Rightarrow> block_appender al env r sid S1)
          else if e = ErrAppendableBlockNotFound then block_appender al env r (the (td_aSeg (as_data S))) S
          else Panic
      | Panic \<Rightarrow> Panic)"

fun apply_loop ::
  "nat \<Rightarrow> ('vec, 'v, 'n) col_ops \<Rightarrow> ('a \<Rightarrow> u64 \<times> 'a) \<Rightarrow> txn_env \<Rightarrow> u64 \<Rightarrow> u32 \<Rightarrow> ('ty, 'a, 'vec, 'b) applyState
     \<Rightarrow> ('ty, 'a, 'vec, 'b) applyState res option" where
  "apply_loop 0 O' al env r appended S = None"
| "apply_loop (Suc fuel) O' al env r appended S =
     (if \<not> appended < in_rows (as_node S) then Some (Ok S)
      else case obtain_appender al env r S of
             Ok (bid, S1) \<Rightarrow>
               (case td_nodes (as_data S1) bid of
                  None \<Rightarrow> Some Panic
                | Some n \<Rightarrow>
                    (let maxRows = BlockMaxRows (tbl_schema (as_table S1)); names = map cd_Name (ColDefs (tbl_schema (as_table S1)));
                         toAppend = AN_PrepareAppend maxRows (in_rows (as_node S1) - appended) n
                     in case Node_Window O' 0 (toAppend - 1) (as_node S1) of
                          Ok vecs \<Rightarrow>
                            (case AN_ApplyAppend O' names maxRows (zip names vecs) 0 toAppend n of
                               Ok (from, n') \<Rightarrow>
                                 (let S2 = S1\<lparr>as_data := (as_data S1)\<lparr>td_nodes := (td_nodes (as_data S1))(bid \<mapsto> n')\<rparr>,
                                              as_node := AddApplyInfo appended toAppend from toAppend (an_id n') (as_node S1)\<rparr>
                                  in if appended + toAppend = in_rows (as_node S2) then Some (Ok S2)
                                     else apply_loop fuel O' al env r (appended + toAppend) S2)
                             | _ \<Rightarrow> Some Panic)
                        | _ \<Rightarrow> Some Panic))
           | _ \<Rightarrow> Some Panic)"

definition applyAppendInode ::
  "nat \<Rightarrow> ('vec, 'v, 'n) col_ops \<Rightarrow> ('a \<Rightarrow> u64 \<times> 'a) \<Rightarrow> txn_env \<Rightarrow> u64 \<Rightarrow> ('ty, 'a, 'vec, 'b) applyState
     \<Rightarrow> ('ty, 'a, 'vec, 'b) applyState res option" where
  "applyAppendInode fuel O' al env r S = apply_loop fuel O' al env r 0 S"


section \<open>Lemmas: appending to a block\<close>

lemma col_fits_take:
  assumes "col_fits t ks"
  shows "col_fits t (take m ks)"
proof -
  from assms consider (fixed) f xs where "t = Fix f" "ks = map (VFix f) xs"
    | (str) d rows where "is_bytes_oid t" "bytes_rep rows (length rows) d" "ks = map VString rows"
    by (auto simp: col_fits_def vec_holds_def)
  then show ?thesis
  proof cases
    case fixed
    then show ?thesis unfolding col_fits_def
      by (intro exI [of _ "\<lparr>Typ_Oid = t, vec_Col = CFix f (take m xs), vec_Np = None\<rparr>"]) (auto simp: vec_holds_def take_map)
  next
    case str
    let ?r = "take m rows"
    have "length (concat ?r) \<le> length (concat (?r @ drop m rows))" by (simp only: concat_append length_append)
    then have "length (concat ?r) < 2 ^ 32" using str(2) by (simp add: bytes_rep_def)
    then show ?thesis using str unfolding col_fits_def
      by (intro exI [of _ "\<lparr>Typ_Oid = t, vec_Col = CBytes \<lparr>Data = concat ?r, Offsets = map (\<lambda>j. word_of_nat (offset_at ?r j)) [0..<length ?r],
          Lengths = map (\<lambda>r. word_of_nat (length r)) ?r\<rparr>, vec_Np = None\<rparr>"])
        (auto simp: vec_holds_def bytes_rep_def take_map)
  qed
qed

lemma col_fits_drop:
  assumes "col_fits t ks"
  shows "col_fits t (drop m ks)"
proof -
  from assms consider (fixed) f xs where "t = Fix f" "ks = map (VFix f) xs"
    | (str) d rows where "is_bytes_oid t" "bytes_rep rows (length rows) d" "ks = map VString rows"
    by (auto simp: col_fits_def vec_holds_def)
  then show ?thesis
  proof cases
    case fixed
    then show ?thesis unfolding col_fits_def
      by (intro exI [of _ "\<lparr>Typ_Oid = t, vec_Col = CFix f (drop m xs), vec_Np = None\<rparr>"]) (auto simp: vec_holds_def drop_map)
  next
    case str
    let ?r = "drop m rows"
    have "length (concat ?r) \<le> length (concat (take m rows @ ?r))" by (simp only: concat_append length_append)
    then have "length (concat ?r) < 2 ^ 32" using str(2) by (simp add: bytes_rep_def)
    then show ?thesis using str unfolding col_fits_def
      by (intro exI [of _ "\<lparr>Typ_Oid = t, vec_Col = CBytes \<lparr>Data = concat ?r, Offsets = map (\<lambda>j. word_of_nat (offset_at ?r j)) [0..<length ?r],
          Lengths = map (\<lambda>r. word_of_nat (length r)) ?r\<rparr>, vec_Np = None\<rparr>"])
        (auto simp: vec_holds_def bytes_rep_def drop_map)
  qed
qed

text \<open>The columns of a block in memory, and its invariant: all columns have its row count, which the schema bounds.\<close>

definition bn_cols :: "('vec, 'v, 'n) col_ops \<Rightarrow> nat \<Rightarrow> 'vec appendableNode \<Rightarrow> 'v goval list list" where
  "bn_cols O' w n = (case an_data n of None \<Rightarrow> replicate w [] | Some vecs \<Rightarrow> map (co_rows O') vecs)"

definition bn_ok :: "('vec, 'v, 'n) col_ops \<Rightarrow> Oid list \<Rightarrow> nat \<Rightarrow> 'vec appendableNode \<Rightarrow> bool" where
  "bn_ok O' ts K n \<longleftrightarrow>
     unat (an_rows n) \<le> K
     \<and> (case an_data n of
          None \<Rightarrow> an_rows n = 0
        | Some vecs \<Rightarrow> length vecs = length ts
            \<and> (\<forall>i < length ts. co_Oid O' (vecs ! i) = ts ! i \<and> co_cap O' (vecs ! i) = K \<and> length (co_rows O' (vecs ! i)) = unat (an_rows n)))"

lemma newNode_ok [simp]: "bn_ok O' ts K (newNode bk)" "bn_cols O' w (newNode bk) = replicate w []"
    "an_rows (newNode bk) = 0" "an_id (newNode bk) = Block_AsCommonID bk"
  by (simp_all add: bn_ok_def bn_cols_def newNode_def)

lemma bn_cols_length: "bn_ok O' ts K n \<Longrightarrow> i < length ts \<Longrightarrow> length (bn_cols O' (length ts) n ! i) = unat (an_rows n)"
  by (auto simp: bn_ok_def bn_cols_def split: option.splits)

lemma append_named_other: "nm \<notin> set names \<Longrightarrow> append_named O' nm off (zip names ds) v = Ok v"
proof (induction names arbitrary: ds)
  case (Cons a names)
  then show ?case by (cases ds) auto
qed simp

lemma append_named_at:
  assumes "distinct names" and "length ds = length names" and "i < length names"
  shows "append_named O' (names ! i) off (zip names ds) v = res_bind (co_AppendVector O' v (ds ! i) off) (\<lambda>(v', k). Ok v')"
  using assms
proof (induction names arbitrary: ds i)
  case (Cons a names)
  then obtain d ds' where ds: "ds = d # ds'" by (cases ds) auto
  show ?case
  proof (cases i)
    case 0
    have "append_named O' a off (zip names ds') v' = Ok v'" for v' using Cons.prems(1) by (intro append_named_other) simp
    then show ?thesis using 0 ds by simp
  next
    case (Suc j)
    then have "(a # names) ! i \<noteq> a" using Cons.prems(1,3) by (auto simp: in_set_conv_nth)
    then show ?thesis using Suc ds Cons.IH [of ds' j] Cons.prems by simp
  qed
qed simp

lemma append_all_ok:
  assumes "length ns = length vs" and "length vs = length vs'"
    and "\<And>i. i < length vs \<Longrightarrow> append_named O' (ns ! i) off bat (vs ! i) = Ok (vs' ! i)"
  shows "append_all O' off bat ns vs = Ok vs'"
  using assms
proof (induction ns vs vs' rule: list_induct3)
  case (Cons n ns v vs v' vs')
  have "append_named O' n off bat v = Ok v'" using Cons.prems [of 0] by simp
  moreover have "append_all O' off bat ns vs = Ok vs'" using Cons.prems [of "Suc i" for i] by (intro Cons.IH) auto
  ultimately show ?case by simp
qed simp

lemma append_cols_exist:
  assumes "col_laws O'" and "batch_holds ts data len cols" and "0 < len" and "distinct names" and "length names = length ts"
    and "length vs = length ts" and "R + len \<le> K"
    and "\<forall>i < length ts. co_Oid O' (vs ! i) = ts ! i \<and> co_cap O' (vs ! i) = K \<and> length (co_rows O' (vs ! i)) = R"
  shows "\<exists>vs'. append_all O' 0 (zip names data) names vs = Ok vs' \<and> length vs' = length ts
    \<and> (\<forall>i < length ts. co_Oid O' (vs' ! i) = ts ! i \<and> co_cap O' (vs' ! i) = K \<and> co_rows O' (vs' ! i) = co_rows O' (vs ! i) @ cols ! i)"
proof -
  have "\<exists>v'. append_named O' (names ! i) 0 (zip names data) (vs ! i) = Ok v'
      \<and> co_Oid O' v' = ts ! i \<and> co_cap O' v' = K \<and> co_rows O' v' = co_rows O' (vs ! i) @ cols ! i" if i: "i < length ts" for i
  proof -
    have d: "Typ_Oid (data ! i) = co_Oid O' (vs ! i)" "vec_holds (data ! i) (cols ! i)" "length (cols ! i) = len" "length data = length names"
      using assms(2,5,8) i by (simp_all add: batch_holds_def)
    then obtain v' k where v': "co_AppendVector O' (vs ! i) (data ! i) 0 = Ok (v', k)"
        "k = min (co_cap O' (vs ! i) - length (co_rows O' (vs ! i))) (length (cols ! i) - 0)"
        "co_rows O' v' = co_rows O' (vs ! i) @ take k (drop 0 (cols ! i))" "co_cap O' v' = co_cap O' (vs ! i)" "co_Oid O' v' = co_Oid O' (vs ! i)"
      using assms(1,3) unfolding col_laws_def by metis
    moreover have "k = len" using v'(2) d(3) assms(7,8) i by simp
    ultimately show ?thesis using append_named_at [where O' = O', OF assms(4) d(4)] i assms(5,8) d(3) by (intro exI [of _ v']) simp
  qed
  then obtain f where f: "\<And>i. i < length ts \<Longrightarrow> append_named O' (names ! i) 0 (zip names data) (vs ! i) = Ok (f i)
      \<and> co_Oid O' (f i) = ts ! i \<and> co_cap O' (f i) = K \<and> co_rows O' (f i) = co_rows O' (vs ! i) @ cols ! i" by metis
  have "append_all O' 0 (zip names data) names vs = Ok (map f [0..<length ts])"
    using f assms(5,6) by (intro append_all_ok) simp_all
  then show ?thesis using f by (intro exI [of _ "map f [0..<length ts]"]) simp
qed

lemma AN_ApplyAppend_ok:
  assumes "col_laws O'" and "bn_ok O' ts (unat maxRows) n" and "batch_holds ts data (unat k) cols" and "0 < unat k"
    and "unat (an_rows n) + unat k \<le> unat maxRows" and "distinct names" and "length names = length ts"
  shows "\<exists>n'. AN_ApplyAppend O' names maxRows (zip names data) 0 k n = Ok (an_rows n, n') \<and> bn_ok O' ts (unat maxRows) n'
    \<and> an_id n' = an_id n \<and> unat (an_rows n') = unat (an_rows n) + unat k
    \<and> (\<forall>i < length ts. bn_cols O' (length ts) n' ! i = bn_cols O' (length ts) n ! i @ cols ! i)"
proof -
  let ?vs = "case an_data n of None \<Rightarrow> map (\<lambda>(a, d). co_New O' (Typ_Oid d) (ucast maxRows)) (zip names data) | Some vs \<Rightarrow> vs"
  have d: "length data = length ts" "length cols = length ts" "\<And>i. i < length ts \<Longrightarrow> Typ_Oid (data ! i) = ts ! i \<and> length (cols ! i) = unat k"
    using assms(3) by (simp_all add: batch_holds_def)
  have vs: "length ?vs = length ts" "\<forall>i < length ts. co_Oid O' (?vs ! i) = ts ! i \<and> co_cap O' (?vs ! i) = unat maxRows
      \<and> length (co_rows O' (?vs ! i)) = unat (an_rows n) \<and> co_rows O' (?vs ! i) = bn_cols O' (length ts) n ! i"
    using assms(1,2,7) d by (auto simp: bn_ok_def bn_cols_def col_laws_def unat_ucast_up split: option.splits)
  obtain vs' where v': "append_all O' 0 (zip names data) names ?vs = Ok vs'" "length vs' = length ts"
      "\<forall>i < length ts. co_Oid O' (vs' ! i) = ts ! i \<and> co_cap O' (vs' ! i) = unat maxRows \<and> co_rows O' (vs' ! i) = co_rows O' (?vs ! i) @ cols ! i"
    using append_cols_exist [OF assms(1,3,4,6,7) vs(1) assms(5)] vs(2) by blast
  have u: "unat (an_rows n + k) = unat (an_rows n) + unat k"
    using assms(5) unat_less_width [of maxRows] by (intro unat_plus_no_wrap) simp
  let ?n = "n\<lparr>an_data := Some vs', an_rows := an_rows n + k\<rparr>"
  have "AN_ApplyAppend O' names maxRows (zip names data) 0 k n = Ok (an_rows n, ?n)"
    using v'(1) by (simp add: AN_ApplyAppend_def Let_def)
  moreover have "bn_ok O' ts (unat maxRows) ?n"
    using v'(2,3) vs(2) d(3) u assms(5) bn_cols_length [OF assms(2)] by (simp add: bn_ok_def)
  moreover have "\<forall>i < length ts. bn_cols O' (length ts) ?n ! i = bn_cols O' (length ts) n ! i @ cols ! i"
    using v'(2,3) vs(2) by (simp add: bn_cols_def)
  ultimately show ?thesis using u by auto
qed


section \<open>Lemmas: appenders\<close>

text \<open>
  The invariant of a segment and its data: the entry list has exactly the blocks, their number is
  bounded by the schema, every appendable block has its node, and the current block is one of them; a segment without
  current block has no appendable one.  \<open>hi\<close> bounds the block identifiers.
\<close>

definition seg_ok :: "('vec, 'v, 'n) col_ops \<Rightarrow> Oid list \<Rightarrow> 'ty Schema \<Rightarrow> nat \<Rightarrow> 'vec tableData \<Rightarrow> SegmentEntry \<Rightarrow> bool" where
  "seg_ok O' ts sc hi T sg \<longleftrightarrow>
     set (seg_link sg) = dom (seg_entries sg) \<and> distinct (seg_link sg) \<and> GetAppendableBlockCnt sg \<le> unat (SegmentMaxBlocks sc)
     \<and> (\<forall>b bk. seg_entries sg b = Some bk \<longrightarrow>
          be_ID (blk_base bk) = b \<and> unat b \<le> hi
          \<and> (Block_IsAppendable bk \<longrightarrow>
               (\<exists>n. td_nodes T b = Some n \<and> bn_ok O' ts (unat (BlockMaxRows sc)) n \<and> an_id n = Block_AsCommonID bk)))
     \<and> (case td_aBlk T (be_ID (seg_base sg)) of None \<Rightarrow> GetAppendableBlockCnt sg = 0 | Some b \<Rightarrow> seg_entries sg b \<noteq> None)"

definition td_ok ::
  "('vec, 'v, 'n) col_ops \<Rightarrow> Oid list \<Rightarrow> ('a \<Rightarrow> u64) \<Rightarrow> 'ty TableEntry \<Rightarrow> 'a IDAlloctor \<Rightarrow> 'vec tableData \<Rightarrow> bool" where
  "td_ok O' ts cur t x T \<longleftrightarrow>
     (\<forall>s sg. tbl_entries t s = Some sg \<longrightarrow>
        be_ID (seg_base sg) = s \<and> unat s \<le> unat (cur (segAlloc x)) \<and> seg_ok O' ts (tbl_schema t) (unat (cur (blkAlloc x))) T sg)
     \<and> (\<forall>s. td_aSeg T = Some s \<longrightarrow> tbl_entries t s \<noteq> None)
     \<and> (\<forall>b n. td_nodes T b = Some n \<longrightarrow> unat b \<le> unat (cur (blkAlloc x)))"

text \<open>The invariant of a segment survives new nodes and appends to nodes of other blocks.\<close>

lemma seg_ok_nodes:
  assumes "seg_ok O' ts sc hi T sg" and "hi \<le> hi'" and "td_aBlk T' (be_ID (seg_base sg)) = td_aBlk T (be_ID (seg_base sg))"
    and "\<And>b n. td_nodes T b = Some n \<Longrightarrow> bn_ok O' ts (unat (BlockMaxRows sc)) n
      \<Longrightarrow> \<exists>n'. td_nodes T' b = Some n' \<and> bn_ok O' ts (unat (BlockMaxRows sc)) n' \<and> an_id n' = an_id n"
  shows "seg_ok O' ts sc hi' T' sg"
proof -
  have "be_ID (blk_base bk) = b \<and> unat b \<le> hi'
      \<and> (Block_IsAppendable bk \<longrightarrow> (\<exists>n. td_nodes T' b = Some n \<and> bn_ok O' ts (unat (BlockMaxRows sc)) n \<and> an_id n = Block_AsCommonID bk))"
    if "seg_entries sg b = Some bk" for b bk
  proof -
    have "be_ID (blk_base bk) = b \<and> unat b \<le> hi
        \<and> (Block_IsAppendable bk \<longrightarrow> (\<exists>n. td_nodes T b = Some n \<and> bn_ok O' ts (unat (BlockMaxRows sc)) n \<and> an_id n = Block_AsCommonID bk))"
      using assms(1) that by (simp add: seg_ok_def)
    then show ?thesis using assms(2,4) by (metis le_trans)
  qed
  then show ?thesis using assms(1,3) by (simp add: seg_ok_def)
qed

text \<open>A block that is not full, with its node.\<close>

definition open_block :: "('vec, 'v, 'n) col_ops \<Rightarrow> Oid list \<Rightarrow> nat \<Rightarrow> 'vec tableData \<Rightarrow> u64 \<Rightarrow> 'vec appendableNode \<Rightarrow> bool" where
  "open_block O' ts K T b n \<longleftrightarrow> td_nodes T b = Some n \<and> bn_ok O' ts K n \<and> unat (an_rows n) < K \<and> BlockID (an_id n) = b"

lemma MakeAppender_cases:
  assumes "seg_ok O' ts sc hi T sg" and "seg_entries sg b = Some bk"
  shows "(\<exists>n. MakeAppender (BlockMaxRows sc) bk T = Ok b \<and> open_block O' ts (unat (BlockMaxRows sc)) T b n)
    \<or> MakeAppender (BlockMaxRows sc) bk T = Err ErrNotAppendable"
proof (cases "Block_IsAppendable bk")
  case True
  then obtain n where n: "be_ID (blk_base bk) = b" "td_nodes T b = Some n" "bn_ok O' ts (unat (BlockMaxRows sc)) n" "an_id n = Block_AsCommonID bk"
    using assms unfolding seg_ok_def by blast
  have "unat (an_rows n) \<le> unat (BlockMaxRows sc)" using n(3) by (simp add: bn_ok_def)
  then have "an_rows n \<noteq> BlockMaxRows sc \<Longrightarrow> unat (an_rows n) < unat (BlockMaxRows sc)"
    by (simp add: le_less word_unat_eq_iff)
  then show ?thesis using True n
    by (auto simp: MakeAppender_def DataBlock_IsAppendable_def AN_Rows_def open_block_def Block_AsCommonID_def zero_ID_def)
next
  case False
  then show ?thesis by (simp add: MakeAppender_def DataBlock_IsAppendable_def)
qed

text \<open>The answer of the table: an appender with room, or which entry is missing.\<close>

lemma GetAppender_cases:
  assumes ok: "td_ok O' ts cur t x T" and M: "0 < unat (SegmentMaxBlocks (tbl_schema t))"
  shows "(\<exists>b n. GetAppender t T = Ok b \<and> open_block O' ts (unat (BlockMaxRows (tbl_schema t))) T b n)
    \<or> GetAppender t T = Err ErrAppendableSegmentNotFound
    \<or> (\<exists>s sg. GetAppender t T = Err ErrAppendableBlockNotFound \<and> td_aSeg T = Some s \<and> tbl_entries t s = Some sg
         \<and> GetAppendableBlockCnt sg < unat (SegmentMaxBlocks (tbl_schema t)))"
proof (cases "td_aSeg T")
  case None
  then show ?thesis by (simp add: GetAppender_def)
next
  case (Some s)
  then obtain sg where sg: "tbl_entries t s = Some sg" "be_ID (seg_base sg) = s"
      "seg_ok O' ts (tbl_schema t) (unat (cur (blkAlloc x))) T sg"
    using ok unfolding td_ok_def by blast
  have g: "GetAppender t T = Seg_GetAppender (tbl_schema t) sg T" using Some sg by (simp add: GetAppender_def)
  show ?thesis
  proof (cases "td_aBlk T s")
    case None
    then have "active_block sg T = None" "GetAppendableBlockCnt sg = 0" using sg by (simp_all add: active_block_def seg_ok_def)
    then show ?thesis using g Some sg M by (auto simp: Seg_GetAppender_def)
  next
    case b: (Some b)
    then obtain bk where bk: "seg_entries sg b = Some bk" "active_block sg T = Some bk" using sg by (auto simp: active_block_def seg_ok_def)
    show ?thesis using MakeAppender_cases [OF sg(3) bk(1)] g Some sg bk by (auto simp: Seg_GetAppender_def)
  qed
qed


text \<open>A new segment: fresh, appendable and empty.\<close>

lemma apply_CreateSegment_ok:
  assumes al: "id_source al cur" and ok: "td_ok O' ts cur (as_table S) (as_alloc S) (as_data S)"
    and hi: "unat (cur (segAlloc (as_alloc S))) < 2 ^ 64 - 1"
  shows "\<exists>sid S1 sg. apply_CreateSegment al env r S = (sid, S1) \<and> td_ok O' ts cur (as_table S1) (as_alloc S1) (as_data S1)
    \<and> tbl_entries (as_table S1) sid = Some sg \<and> GetAppendableBlockCnt sg = 0 \<and> td_aBlk (as_data S1) sid = None
    \<and> td_nodes (as_data S1) = td_nodes (as_data S) \<and> as_node S1 = as_node S \<and> tbl_schema (as_table S1) = tbl_schema (as_table S)
    \<and> blkAlloc (as_alloc S1) = blkAlloc (as_alloc S) \<and> unat (cur (segAlloc (as_alloc S1))) = unat (cur (segAlloc (as_alloc S))) + 1"
proof -
  obtain i a' where a: "al (segAlloc (as_alloc S)) = (i, a')" by force
  note f = next_fresh [OF al a hi]
  have u: "unat i = unat (cur (segAlloc (as_alloc S))) + 1"
    using id_source.alloc_id [OF al, of "segAlloc (as_alloc S)"] a hi by (simp add: unat_plus_no_wrap)
  have new: "tbl_entries (as_table S) i = None"
  proof (rule ccontr)
    assume "tbl_entries (as_table S) i \<noteq> None"
    then have "unat i \<le> unat (cur (segAlloc (as_alloc S)))" using ok unfolding td_ok_def by blast
    then show False using f(2) by simp
  qed
  let ?sg = "\<lparr>seg_base = new_base i (Some r), seg_table = be_ID (tbl_base (as_table S)), seg_entries = Map.empty, seg_link = [], seg_state = ES_Appendable\<rparr>"
  let ?S = "S\<lparr>as_table := Table_addEntryLocked env ?sg (as_table S), as_alloc := (as_alloc S)\<lparr>segAlloc := a'\<rparr>,
      as_data := (as_data S)\<lparr>td_aBlk := (td_aBlk (as_data S))(i := None)\<rparr>, as_csegs := as_csegs S @ [i],
      as_checker := readTableVar (Table_addEntryLocked env ?sg (as_table S)) (as_checker S)\<rparr>"
  have id: "be_ID (new_base i (Some r)) = i" by (simp add: new_base_def)
  have c: "GetAppendableBlockCnt ?sg = 0" by (simp add: GetAppendableBlockCnt_def)
  have "apply_CreateSegment al env r S = (i, ?S)"
    by (simp add: apply_CreateSegment_def CreateSegment_def NewSegmentEntry_def IDA_NextSegment_def a newSegment_def LastAppendableBlock_def id)
  moreover have "td_ok O' ts cur (as_table ?S) (as_alloc ?S) (as_data ?S)"
  proof -
    have "seg_ok O' ts (tbl_schema (as_table S)) (unat (cur (blkAlloc (as_alloc S)))) (as_data ?S) sg \<and> unat s \<le> unat i \<and> be_ID (seg_base sg) = s"
      if "tbl_entries (as_table S) s = Some sg" for s sg
    proof -
      have "s \<noteq> i" using that new by auto
      then show ?thesis using that ok f(2) unfolding td_ok_def seg_ok_def by fastforce
    qed
    moreover have "seg_ok O' ts (tbl_schema (as_table S)) (unat (cur (blkAlloc (as_alloc S)))) (as_data ?S) ?sg"
      using c id by (simp add: seg_ok_def)
    ultimately show ?thesis using ok f(1) id by (auto simp: td_ok_def Table_addEntryLocked_def Let_def)
  qed
  ultimately show ?thesis using u f(1) c id by (intro exI [of _ i] exI [of _ ?S] exI [of _ ?sg]) (simp add: Table_addEntryLocked_def Let_def)
qed


text \<open>A new block in a segment that is not full: it becomes the current one, and is empty.\<close>

lemma appendable_count_card:
  "distinct (seg_link sg) \<Longrightarrow> GetAppendableBlockCnt sg = card {i \<in> set (seg_link sg). Block_IsAppendable (the (seg_entries sg i))}"
  unfolding GetAppendableBlockCnt_eq by (subst distinct_card [symmetric]) (auto intro: arg_cong [where f = card])

lemma appendable_count_add:
  assumes "set (seg_link sg) = dom (seg_entries sg)" and "distinct (seg_link sg)" and "seg_entries sg (be_ID (blk_base bk)) = None"
    and "Block_IsAppendable bk"
  shows "GetAppendableBlockCnt (Segment_addEntryLocked env bk sg) = GetAppendableBlockCnt sg + 1"
proof -
  define i where "i = be_ID (blk_base bk)"
  let ?sg = "Segment_addEntryLocked env bk sg"
  have i: "i \<notin> set (seg_link sg)" "i \<notin> dom (seg_entries sg)" using assms(1,3) by (auto simp: i_def)
  have l: "set (seg_link ?sg) = insert i (set (seg_link sg))" "distinct (seg_link ?sg)" "seg_entries ?sg = (seg_entries sg)(i \<mapsto> bk)"
    using i assms(2) by (simp_all add: Segment_addEntryLocked_def Let_def i_def)
  have "{j \<in> set (seg_link ?sg). Block_IsAppendable (the (seg_entries ?sg j))}
      = insert i {j \<in> set (seg_link sg). Block_IsAppendable (the (seg_entries sg j))}"
    using l i assms(4) by auto
  then show ?thesis using i(1) by (simp add: appendable_count_card [OF l(2)] appendable_count_card [OF assms(2)])
qed

lemma block_appender_ok:
  fixes S :: "('ty, 'a, 'vec, 'b) applyState"
  assumes al: "id_source al cur" and ok: "td_ok O' ts cur (as_table S) (as_alloc S) (as_data S)"
    and hi: "unat (cur (blkAlloc (as_alloc S))) < 2 ^ 64 - 1" and sg: "tbl_entries (as_table S) sid = Some sg"
    and M: "GetAppendableBlockCnt sg < unat (SegmentMaxBlocks (tbl_schema (as_table S)))" and K: "0 < unat (BlockMaxRows (tbl_schema (as_table S)))"
    and cur_seg: "td_aSeg (as_data S) = Some sid \<or> td_aBlk (as_data S) sid = None"
  shows "\<exists>b n S2. block_appender al env r sid S = Ok (b, S2) \<and> td_ok O' ts cur (as_table S2) (as_alloc S2) (as_data S2)
    \<and> open_block O' ts (unat (BlockMaxRows (tbl_schema (as_table S)))) (as_data S2) b n \<and> td_nodes (as_data S) \<subseteq>\<^sub>m td_nodes (as_data S2)
    \<and> as_node S2 = as_node S \<and> tbl_schema (as_table S2) = tbl_schema (as_table S)
    \<and> segAlloc (as_alloc S2) = segAlloc (as_alloc S) \<and> unat (cur (blkAlloc (as_alloc S2))) = unat (cur (blkAlloc (as_alloc S))) + 1"
proof -
  obtain i a' where a: "al (blkAlloc (as_alloc S)) = (i, a')" by force
  note f = next_fresh [OF al a hi]
  have u: "unat i = unat (cur (blkAlloc (as_alloc S))) + 1"
    using id_source.alloc_id [OF al, of "blkAlloc (as_alloc S)"] a hi by (simp add: unat_plus_no_wrap)
  have so: "be_ID (seg_base sg) = sid" "seg_ok O' ts (tbl_schema (as_table S)) (unat (cur (blkAlloc (as_alloc S)))) (as_data S) sg"
    using ok sg by (auto simp: td_ok_def)
  have newn: "td_nodes (as_data S) i = None" using ok f(2) unfolding td_ok_def by (meson leD option.exhaust)
  have newb: "seg_entries sg' i = None" if "tbl_entries (as_table S) s = Some sg'" for s sg'
    using ok f(2) that unfolding td_ok_def seg_ok_def by (meson leD option.exhaust)
  define bk where "bk = \<lparr>blk_base = new_base i (Some r), blk_segment = sid, blk_table = seg_table sg, blk_state = ES_Appendable\<rparr>"
  have bk: "be_ID (blk_base bk) = i" "Block_IsAppendable bk" "BlockID (Block_AsCommonID bk) = i"
    by (simp_all add: bk_def new_base_def Block_IsAppendable_def Block_AsCommonID_def zero_ID_def)
  define sg' where "sg' = Segment_addEntryLocked env bk sg"
  have sg': "seg_entries sg' = (seg_entries sg)(i \<mapsto> bk)" "seg_base sg' = seg_base sg" "set (seg_link sg') = insert i (set (seg_link sg))"
      "distinct (seg_link sg')" "GetAppendableBlockCnt sg' = GetAppendableBlockCnt sg + 1"
  proof -
    have "i \<notin> set (seg_link sg)" using so(2) newb [OF sg] by (auto simp: seg_ok_def)
    then show "distinct (seg_link sg')" using so(2) bk by (simp add: sg'_def Segment_addEntryLocked_def Let_def seg_ok_def)
    show "GetAppendableBlockCnt sg' = GetAppendableBlockCnt sg + 1"
      using so(2) newb [OF sg] bk by (simp add: sg'_def appendable_count_add seg_ok_def)
  qed (simp_all add: sg'_def Segment_addEntryLocked_def Let_def bk)
  let ?t = "(as_table S)\<lparr>tbl_entries := (tbl_entries (as_table S))(sid \<mapsto> sg')\<rparr>"
  let ?T = "(as_data S)\<lparr>td_aSeg := Some sid, td_aBlk := (td_aBlk (as_data S))(sid \<mapsto> i), td_nodes := (td_nodes (as_data S))(i \<mapsto> newNode bk)\<rparr>"
  let ?S = "S\<lparr>as_table := ?t, as_alloc := (as_alloc S)\<lparr>blkAlloc := a'\<rparr>, as_data := newBlock bk (as_data S), as_cblks := as_cblks S @ [(sid, i)],
      as_checker := readSegmentVar ?t sg' (as_checker S)\<rparr>"
  have cb: "apply_CreateBlock al env r sid S = Ok (i, ?S)"
    using sg so(1) bk(1) by (simp add: apply_CreateBlock_def GetSegmentByID_def CreateBlock_def NewBlockEntry_def IDA_NextBlock_def a bk_def [symmetric] sg'_def Let_def)
  have mk: "MakeAppender (BlockMaxRows (tbl_schema (as_table S))) bk T = Ok i" if "td_nodes T i = Some (newNode bk)" for T :: "'vec tableData"
  proof -
    have "BlockMaxRows (tbl_schema (as_table S)) \<noteq> 0" using K by auto
    then show ?thesis using that bk by (simp add: MakeAppender_def DataBlock_IsAppendable_def AN_Rows_def)
  qed
  have nb: "newBlock bk (as_data S) = (as_data S)\<lparr>td_nodes := (td_nodes (as_data S))(i \<mapsto> newNode bk)\<rparr>" using bk by (simp add: newBlock_def)
  have set: "SetAppender ?t sid i (newBlock bk (as_data S)) = Ok (i, ?T)"
  proof (cases "td_aSeg (as_data S) = Some sid")
    case True
    then show ?thesis using so(1) sg' mk by (simp add: SetAppender_def nb Seg_SetAppender_def GetBlockEntryByID_def Let_def)
  next
    case False
    then have none: "td_aBlk (as_data S) sid = None" using cur_seg by simp
    have "\<exists>e. GetAppender ?t ((newBlock bk (as_data S))\<lparr>td_aSeg := Some sid\<rparr>) = Err e"
      using none so(1) sg' by (simp add: GetAppender_def Seg_GetAppender_def active_block_def nb)
    then show ?thesis using False so(1) sg' mk
      by (auto simp: SetAppender_def nb Seg_SetAppender_def GetBlockEntryByID_def setAppendableSegment_def GetSegmentByID_def Let_def)
  qed
  have "td_ok O' ts cur ?t ((as_alloc S)\<lparr>blkAlloc := a'\<rparr>) ?T"
  proof -
    have grow: "\<exists>n'. td_nodes ?T b = Some n' \<and> bn_ok O' ts (unat (BlockMaxRows (tbl_schema (as_table S)))) n' \<and> an_id n' = an_id n"
      if "td_nodes (as_data S) b = Some n" "bn_ok O' ts (unat (BlockMaxRows (tbl_schema (as_table S)))) n" for b n
      using that newn by auto
    have old: "be_ID (seg_base sx) = s \<and> unat s \<le> unat (cur (segAlloc (as_alloc S)))
        \<and> seg_ok O' ts (tbl_schema (as_table S)) (unat i) ?T sx" if "tbl_entries (as_table S) s = Some sx" "s \<noteq> sid" for s sx
    proof -
      have sx: "be_ID (seg_base sx) = s" "unat s \<le> unat (cur (segAlloc (as_alloc S)))"
          "seg_ok O' ts (tbl_schema (as_table S)) (unat (cur (blkAlloc (as_alloc S)))) (as_data S) sx"
        using ok that(1) unfolding td_ok_def by blast+
      have "seg_ok O' ts (tbl_schema (as_table S)) (unat i) ?T sx"
        using sx(1) that(2) u grow by (intro seg_ok_nodes [OF sx(3)]) simp_all
      then show ?thesis using sx by simp
    qed
    have "seg_ok O' ts (tbl_schema (as_table S)) (unat i) ?T sg'"
    proof -
      have "be_ID (blk_base bx) = b \<and> unat b \<le> unat i
          \<and> (Block_IsAppendable bx \<longrightarrow> (\<exists>n. td_nodes ?T b = Some n \<and> bn_ok O' ts (unat (BlockMaxRows (tbl_schema (as_table S)))) n \<and> an_id n = Block_AsCommonID bx))"
        if "seg_entries sg' b = Some bx" for b bx
      proof (cases "b = i")
        case True
        then show ?thesis using that sg'(1) bk(1) by auto
      next
        case False
        then have "seg_entries sg b = Some bx" using that sg'(1) by simp
        then have "be_ID (blk_base bx) = b \<and> unat b \<le> unat (cur (blkAlloc (as_alloc S)))
            \<and> (Block_IsAppendable bx \<longrightarrow>
                 (\<exists>n. td_nodes (as_data S) b = Some n \<and> bn_ok O' ts (unat (BlockMaxRows (tbl_schema (as_table S)))) n \<and> an_id n = Block_AsCommonID bx))"
          using so(2) unfolding seg_ok_def by blast
        then show ?thesis using u False by simp
      qed
      then show ?thesis using sg' so M by (auto simp: seg_ok_def)
    qed
    then show ?thesis using old ok sg so f(1) sg' u by (auto simp: td_ok_def split: if_splits)
  qed
  then show ?thesis using cb set u f(1) bk K newn
    by (intro exI [of _ i] exI [of _ "newNode bk"] exI [of _ "?S\<lparr>as_data := ?T\<rparr>"])
      (auto simp: block_appender_def open_block_def map_le_def)
qed


lemma obtain_appender_ok:
  fixes S :: "('ty, 'a, 'vec, 'b) applyState"
  assumes al: "id_source al cur" and ok: "td_ok O' ts cur (as_table S) (as_alloc S) (as_data S)"
    and hi: "unat (cur (segAlloc (as_alloc S))) < 2 ^ 64 - 1" "unat (cur (blkAlloc (as_alloc S))) < 2 ^ 64 - 1"
    and M: "0 < unat (SegmentMaxBlocks (tbl_schema (as_table S)))" and K: "0 < unat (BlockMaxRows (tbl_schema (as_table S)))"
  shows "\<exists>b n S1. obtain_appender al env r S = Ok (b, S1) \<and> td_ok O' ts cur (as_table S1) (as_alloc S1) (as_data S1)
    \<and> open_block O' ts (unat (BlockMaxRows (tbl_schema (as_table S)))) (as_data S1) b n \<and> td_nodes (as_data S) \<subseteq>\<^sub>m td_nodes (as_data S1)
    \<and> as_node S1 = as_node S \<and> tbl_schema (as_table S1) = tbl_schema (as_table S)
    \<and> unat (cur (segAlloc (as_alloc S1))) \<le> unat (cur (segAlloc (as_alloc S))) + 1
    \<and> unat (cur (blkAlloc (as_alloc S1))) \<le> unat (cur (blkAlloc (as_alloc S))) + 1"
  using GetAppender_cases [OF ok M]
proof (elim disjE)
  assume "\<exists>b n. GetAppender (as_table S) (as_data S) = Ok b \<and> open_block O' ts (unat (BlockMaxRows (tbl_schema (as_table S)))) (as_data S) b n"
  then show ?thesis using ok by (auto simp: obtain_appender_def)
next
  assume "\<exists>s sg. GetAppender (as_table S) (as_data S) = Err ErrAppendableBlockNotFound \<and> td_aSeg (as_data S) = Some s
      \<and> tbl_entries (as_table S) s = Some sg \<and> GetAppendableBlockCnt sg < unat (SegmentMaxBlocks (tbl_schema (as_table S)))"
  then obtain s sg where s: "GetAppender (as_table S) (as_data S) = Err ErrAppendableBlockNotFound" "td_aSeg (as_data S) = Some s"
      "tbl_entries (as_table S) s = Some sg" "GetAppendableBlockCnt sg < unat (SegmentMaxBlocks (tbl_schema (as_table S)))" by blast
  have "td_aSeg (as_data S) = Some s \<or> td_aBlk (as_data S) s = None" using s(2) by simp
  from block_appender_ok [OF al ok hi(2) s(3,4) K this, of env r] show ?thesis using s(1,2)
    by (auto simp: obtain_appender_def)
next
  assume e: "GetAppender (as_table S) (as_data S) = Err ErrAppendableSegmentNotFound"
  obtain sid S1 sg where c: "apply_CreateSegment al env r S = (sid, S1)" "td_ok O' ts cur (as_table S1) (as_alloc S1) (as_data S1)"
      "tbl_entries (as_table S1) sid = Some sg" "GetAppendableBlockCnt sg = 0" "td_aBlk (as_data S1) sid = None"
      "td_nodes (as_data S1) = td_nodes (as_data S)" "as_node S1 = as_node S" "tbl_schema (as_table S1) = tbl_schema (as_table S)"
      "blkAlloc (as_alloc S1) = blkAlloc (as_alloc S)" "unat (cur (segAlloc (as_alloc S1))) = unat (cur (segAlloc (as_alloc S))) + 1"
    using apply_CreateSegment_ok [OF al ok hi(1)] by blast
  have "\<exists>b n S2. block_appender al env r sid S1 = Ok (b, S2) \<and> td_ok O' ts cur (as_table S2) (as_alloc S2) (as_data S2)
    \<and> open_block O' ts (unat (BlockMaxRows (tbl_schema (as_table S1)))) (as_data S2) b n \<and> td_nodes (as_data S1) \<subseteq>\<^sub>m td_nodes (as_data S2)
    \<and> as_node S2 = as_node S1 \<and> tbl_schema (as_table S2) = tbl_schema (as_table S1)
    \<and> segAlloc (as_alloc S2) = segAlloc (as_alloc S1) \<and> unat (cur (blkAlloc (as_alloc S2))) = unat (cur (blkAlloc (as_alloc S1))) + 1"
    using hi(2) M K c(4,5,8,9) by (intro block_appender_ok [OF al c(2) _ c(3)]) simp_all
  then show ?thesis using e c by (auto simp: obtain_appender_def)
qed

section \<open>Lemmas: the apply loop\<close>

text \<open>
  The records of the loop are consecutive parts of the node, \<open>covers a infos b\<close>; the rows of
  a record are in its destination, \<open>placed\<close>; and blocks only grow, \<open>grows\<close>.
\<close>

fun covers :: "nat \<Rightarrow> appendInfo list \<Rightarrow> nat \<Rightarrow> bool" where
  "covers a [] b \<longleftrightarrow> a = b"
| "covers a (i # is) b \<longleftrightarrow> unat (srcOff i) = a \<and> 0 < unat (srcLen i) \<and> destLen i = srcLen i \<and> covers (a + unat (srcLen i)) is b"

definition placed :: "('vec, 'v, 'n) col_ops \<Rightarrow> nat \<Rightarrow> 'v goval list list \<Rightarrow> 'vec tableData \<Rightarrow> appendInfo \<Rightarrow> bool" where
  "placed O' w cols T i \<longleftrightarrow>
     (\<exists>n. td_nodes T (BlockID (ai_dest i)) = Some n
        \<and> (\<forall>j < w. unat (destOff i) + unat (destLen i) \<le> length (bn_cols O' w n ! j)
             \<and> take (unat (destLen i)) (drop (unat (destOff i)) (bn_cols O' w n ! j)) = take (unat (srcLen i)) (cols ! j)))"

definition grows :: "('vec, 'v, 'n) col_ops \<Rightarrow> nat \<Rightarrow> 'vec tableData \<Rightarrow> 'vec tableData \<Rightarrow> bool" where
  "grows O' w T T' \<longleftrightarrow>
     (\<forall>b n. td_nodes T b = Some n \<longrightarrow> (\<exists>n'. td_nodes T' b = Some n' \<and> (\<forall>j < w. \<exists>xs. bn_cols O' w n' ! j = bn_cols O' w n ! j @ xs)))"

lemma grows_le: "td_nodes T \<subseteq>\<^sub>m td_nodes T' \<Longrightarrow> grows O' w T T'"
  by (auto simp: grows_def map_le_def dom_def)

lemma grows_trans: "grows O' w T1 T2 \<Longrightarrow> grows O' w T2 T3 \<Longrightarrow> grows O' w T1 T3"
  unfolding grows_def by (metis append_assoc)

lemma placed_grows:
  assumes "placed O' w cols T i" and "grows O' w T T'"
  shows "placed O' w cols T' i"
proof -
  obtain n where n: "td_nodes T (BlockID (ai_dest i)) = Some n"
      "\<And>j. j < w \<Longrightarrow> unat (destOff i) + unat (destLen i) \<le> length (bn_cols O' w n ! j)
         \<and> take (unat (destLen i)) (drop (unat (destOff i)) (bn_cols O' w n ! j)) = take (unat (srcLen i)) (cols ! j)"
    using assms(1) by (auto simp: placed_def)
  obtain n' where n': "td_nodes T' (BlockID (ai_dest i)) = Some n'" "\<And>j. j < w \<Longrightarrow> \<exists>xs. bn_cols O' w n' ! j = bn_cols O' w n ! j @ xs"
    using assms(2) n(1) unfolding grows_def by blast
  have "unat (destOff i) + unat (destLen i) \<le> length (bn_cols O' w n' ! j)
      \<and> take (unat (destLen i)) (drop (unat (destOff i)) (bn_cols O' w n' ! j)) = take (unat (srcLen i)) (cols ! j)" if "j < w" for j
    using n(2) [OF that] n'(2) [OF that] by auto
  then show ?thesis using n'(1) by (auto simp: placed_def)
qed


lemma td_ok_append:
  assumes "td_ok O' ts cur t x T" and "td_nodes T b = Some n" and "bn_ok O' ts (unat (BlockMaxRows (tbl_schema t))) n'" and "an_id n' = an_id n"
  shows "td_ok O' ts cur t x (T\<lparr>td_nodes := (td_nodes T)(b \<mapsto> n')\<rparr>)"
proof -
  let ?T = "T\<lparr>td_nodes := (td_nodes T)(b \<mapsto> n')\<rparr>"
  have "be_ID (seg_base sg) = s \<and> unat s \<le> unat (cur (segAlloc x)) \<and> seg_ok O' ts (tbl_schema t) (unat (cur (blkAlloc x))) ?T sg"
    if "tbl_entries t s = Some sg" for s sg
  proof -
    have sg: "be_ID (seg_base sg) = s" "unat s \<le> unat (cur (segAlloc x))" "seg_ok O' ts (tbl_schema t) (unat (cur (blkAlloc x))) T sg"
      using assms(1) that unfolding td_ok_def by blast+
    have "seg_ok O' ts (tbl_schema t) (unat (cur (blkAlloc x))) ?T sg"
      using assms(2-4) by (intro seg_ok_nodes [OF sg(3)]) auto
    then show ?thesis using sg by simp
  qed
  then show ?thesis using assms(1,2) by (auto simp: td_ok_def)
qed

lemma PrepareAppend_min:
  assumes "unat (an_rows n) < unat maxRows"
  shows "unat (AN_PrepareAppend maxRows rows n) = min (unat maxRows - unat (an_rows n)) (unat rows)"
proof -
  have "unat (maxRows - an_rows n) = unat maxRows - unat (an_rows n)" using assms by (simp add: unat_sub_if')
  moreover from this have "maxRows - an_rows n \<noteq> 0" using assms by auto
  ultimately show ?thesis by (simp add: AN_PrepareAppend_def Let_def word_less_nat_alt min_def)
qed

lemma Window_prefix:
  assumes "col_laws O'" and "node_ok O' ts n cols" and "0 < unat k" and "unat k \<le> unat (in_rows n)" and "\<forall>i < length ts. col_fits (ts ! i) (cols ! i)"
  shows "\<exists>data. Node_Window O' 0 (k - 1) n = Ok data \<and> batch_holds ts data (unat k) (map (take (unat k)) cols)"
proof -
  have u: "unat (k - 1) = unat k - 1" using assms(3) by (simp add: unat_sub_if')
  then have "unat (k - 1) + 1 = unat k" using assms(3) by simp
  moreover have "\<forall>i < length ts. col_fits (ts ! i) (take (unat (k - 1) + 1 - unat (0 :: u32)) (drop (unat (0 :: u32)) (cols ! i)))"
    using assms(5) col_fits_take by auto
  ultimately show ?thesis using Node_Window_ok [OF assms(1,2), of 0 "k - 1"] assms(3,4) u by simp
qed

text \<open>One iteration: an appender with room takes as many rows as it can, and its block gets the first rows of the node.\<close>

definition apply_piece ::
  "('vec, 'v, 'n) col_ops \<Rightarrow> Oid list \<Rightarrow> 'v goval list list \<Rightarrow> u32 \<Rightarrow> ('ty, 'a, 'vec, 'b) applyState \<Rightarrow> ('ty, 'a, 'vec, 'b) applyState
     \<Rightarrow> appendInfo \<Rightarrow> bool" where
  "apply_piece O' ts cols appended S S' i \<longleftrightarrow>
     in_appends (as_node S') = in_appends (as_node S) @ [i] \<and> srcOff i = appended \<and> 0 < unat (srcLen i) \<and> destLen i = srcLen i
     \<and> unat appended + unat (srcLen i) \<le> unat (in_rows (as_node S))
     \<and> in_rows (as_node S') = in_rows (as_node S) \<and> in_data (as_node S') = in_data (as_node S)
     \<and> tbl_schema (as_table S') = tbl_schema (as_table S)
     \<and> grows O' (length ts) (as_data S) (as_data S') \<and> placed O' (length ts) cols (as_data S') i"

lemma apply_iteration:
  fixes S :: "('ty, 'a, 'vec, 'b) applyState"
  defines "names \<equiv> map cd_Name (ColDefs (tbl_schema (as_table S)))"
  assumes laws: "col_laws O'" and al: "id_source al cur" and ok: "td_ok O' ts cur (as_table S) (as_alloc S) (as_data S)"
    and node: "node_ok O' ts (as_node S) cols" and fits: "\<forall>i < length ts. col_fits (ts ! i) (cols ! i)"
    and hi: "unat (cur (segAlloc (as_alloc S))) < 2 ^ 64 - 1" "unat (cur (blkAlloc (as_alloc S))) < 2 ^ 64 - 1"
    and M: "0 < unat (SegmentMaxBlocks (tbl_schema (as_table S)))" and K: "0 < unat (BlockMaxRows (tbl_schema (as_table S)))"
    and nm: "distinct names" "length names = length ts" and less: "unat appended < unat (in_rows (as_node S))"
  shows "\<exists>S' i. apply_loop (Suc fuel) O' al env r appended S
       = (if appended + srcLen i = in_rows (as_node S) then Some (Ok S') else apply_loop fuel O' al env r (appended + srcLen i) S')
     \<and> apply_piece O' ts cols appended S S' i \<and> td_ok O' ts cur (as_table S') (as_alloc S') (as_data S')
     \<and> unat (cur (segAlloc (as_alloc S'))) \<le> unat (cur (segAlloc (as_alloc S))) + 1
     \<and> unat (cur (blkAlloc (as_alloc S'))) \<le> unat (cur (blkAlloc (as_alloc S))) + 1"
proof -
  define maxRows where "maxRows = BlockMaxRows (tbl_schema (as_table S))"
  obtain b n S1 where a: "obtain_appender al env r S = Ok (b, S1)" "td_ok O' ts cur (as_table S1) (as_alloc S1) (as_data S1)"
      "open_block O' ts (unat maxRows) (as_data S1) b n" "td_nodes (as_data S) \<subseteq>\<^sub>m td_nodes (as_data S1)"
      "as_node S1 = as_node S" "tbl_schema (as_table S1) = tbl_schema (as_table S)"
      "unat (cur (segAlloc (as_alloc S1))) \<le> unat (cur (segAlloc (as_alloc S))) + 1"
      "unat (cur (blkAlloc (as_alloc S1))) \<le> unat (cur (blkAlloc (as_alloc S))) + 1"
    using obtain_appender_ok [OF al ok hi M K, of env r] unfolding maxRows_def by blast
  have n: "td_nodes (as_data S1) b = Some n" "bn_ok O' ts (unat maxRows) n" "unat (an_rows n) < unat maxRows" "BlockID (an_id n) = b"
    using a(3) by (simp_all add: open_block_def)
  define k where "k = AN_PrepareAppend maxRows (in_rows (as_node S) - appended) n"
  have left: "unat (in_rows (as_node S) - appended) = unat (in_rows (as_node S)) - unat appended" using less by (simp add: unat_sub_if')
  have k: "0 < unat k" "unat (an_rows n) + unat k \<le> unat maxRows" "unat appended + unat k \<le> unat (in_rows (as_node S))"
    using PrepareAppend_min [OF n(3), of "in_rows (as_node S) - appended"] left less n(3) by (simp_all add: k_def)
  obtain data where d: "Node_Window O' 0 (k - 1) (as_node S) = Ok data" "batch_holds ts data (unat k) (map (take (unat k)) cols)"
    using Window_prefix [OF laws node k(1) _ fits] k(3) by auto
  obtain n' where n': "AN_ApplyAppend O' names maxRows (zip names data) 0 k n = Ok (an_rows n, n')" "bn_ok O' ts (unat maxRows) n'"
      "an_id n' = an_id n" "unat (an_rows n') = unat (an_rows n) + unat k"
      "\<forall>i < length ts. bn_cols O' (length ts) n' ! i = bn_cols O' (length ts) n ! i @ map (take (unat k)) cols ! i"
    using AN_ApplyAppend_ok [OF laws n(2) d(2) k(1,2) nm] by blast
  define i where "i = \<lparr>ai_seq = word_of_nat (length (in_appends (as_node S))), srcOff = appended, srcLen = k, ai_dest = an_id n', destOff = an_rows n, destLen = k\<rparr>"
  let ?T = "(as_data S1)\<lparr>td_nodes := (td_nodes (as_data S1))(b \<mapsto> n')\<rparr>"
  let ?S = "S1\<lparr>as_data := ?T, as_node := AddApplyInfo appended k (an_rows n) k (an_id n') (as_node S)\<rparr>"
  have step: "apply_loop (Suc fuel) O' al env r appended S
      = (if appended + srcLen i = in_rows (as_node S) then Some (Ok ?S) else apply_loop fuel O' al env r (appended + srcLen i) ?S)"
    using less a(1,5,6) n(1) n'(1) d(1)
    by (simp add: word_less_nat_alt k_def [symmetric] maxRows_def [symmetric] names_def [symmetric] Let_def i_def AddApplyInfo_def)
  have g: "grows O' (length ts) (as_data S1) ?T"
    using n(1) n'(5) by (auto simp: grows_def)
  have "placed O' (length ts) cols ?T i"
  proof -
    have "length cols = length ts" "\<And>j. j < length ts \<Longrightarrow> length (cols ! j) = unat (in_rows (as_node S))" using node by (auto simp: node_ok_def)
    then show ?thesis using n n' k(3) bn_cols_length [OF n(2)] by (auto simp: placed_def i_def)
  qed
  then have "apply_piece O' ts cols appended S ?S i"
    using grows_trans [OF grows_le [OF a(4)] g] k a(5,6) by (simp add: apply_piece_def i_def AddApplyInfo_def)
  moreover have "td_ok O' ts cur (as_table S1) (as_alloc S1) ?T"
    using td_ok_append [OF a(2) n(1) _ n'(3)] n'(2) a(6) by (simp add: maxRows_def)
  ultimately show ?thesis using step a(7,8) by (intro exI [of _ ?S] exI [of _ i]) simp
qed


text \<open>What the loop leaves alone, and how many identifiers it may use.\<close>

definition apply_frame :: "('a \<Rightarrow> u64) \<Rightarrow> nat \<Rightarrow> ('ty, 'a, 'vec, 'b) applyState \<Rightarrow> ('ty, 'a, 'vec, 'b) applyState \<Rightarrow> bool" where
  "apply_frame cur k S S' \<longleftrightarrow>
     in_rows (as_node S') = in_rows (as_node S) \<and> in_data (as_node S') = in_data (as_node S) \<and> tbl_schema (as_table S') = tbl_schema (as_table S)
     \<and> unat (cur (segAlloc (as_alloc S'))) \<le> unat (cur (segAlloc (as_alloc S))) + k
     \<and> unat (cur (blkAlloc (as_alloc S'))) \<le> unat (cur (blkAlloc (as_alloc S))) + k"

lemma apply_loop_ok:
  fixes S :: "('ty, 'a, 'vec, 'b) applyState"
  assumes laws: "col_laws O'" and al: "id_source al cur" and fits: "\<forall>i < length ts. col_fits (ts ! i) (cols ! i)"
  shows "td_ok O' ts cur (as_table S) (as_alloc S) (as_data S) \<Longrightarrow> node_ok O' ts (as_node S) cols
    \<Longrightarrow> 0 < unat (SegmentMaxBlocks (tbl_schema (as_table S))) \<Longrightarrow> 0 < unat (BlockMaxRows (tbl_schema (as_table S)))
    \<Longrightarrow> distinct (map cd_Name (ColDefs (tbl_schema (as_table S)))) \<Longrightarrow> length (ColDefs (tbl_schema (as_table S))) = length ts
    \<Longrightarrow> unat appended \<le> unat (in_rows (as_node S)) \<Longrightarrow> unat (in_rows (as_node S)) - unat appended < fuel
    \<Longrightarrow> unat (cur (segAlloc (as_alloc S))) + (unat (in_rows (as_node S)) - unat appended) < 2 ^ 64
    \<Longrightarrow> unat (cur (blkAlloc (as_alloc S))) + (unat (in_rows (as_node S)) - unat appended) < 2 ^ 64
    \<Longrightarrow> \<exists>S' infos. apply_loop fuel O' al env r appended S = Some (Ok S')
      \<and> in_appends (as_node S') = in_appends (as_node S) @ infos \<and> covers (unat appended) infos (unat (in_rows (as_node S)))
      \<and> (\<forall>i \<in> set infos. placed O' (length ts) cols (as_data S') i) \<and> grows O' (length ts) (as_data S) (as_data S')
      \<and> td_ok O' ts cur (as_table S') (as_alloc S') (as_data S')
      \<and> apply_frame cur (unat (in_rows (as_node S)) - unat appended) S S'"
proof (induction fuel arbitrary: appended S)
  case (Suc fuel)
  have refl: "grows O' (length ts) (as_data S') (as_data S')" for S' :: "('ty, 'a, 'vec, 'b) applyState" by (intro grows_le) simp
  show ?case
  proof (cases "unat appended < unat (in_rows (as_node S))")
    case False
    then have "unat appended = unat (in_rows (as_node S))" using Suc.prems(7) by simp
    then show ?thesis using False Suc.prems(1) refl [of S]
      by (intro exI [of _ S] exI [of _ "[]"]) (simp add: word_less_nat_alt apply_frame_def)
  next
    case True
    have hi: "unat (cur (segAlloc (as_alloc S))) < 2 ^ 64 - 1" "unat (cur (blkAlloc (as_alloc S))) < 2 ^ 64 - 1"
      using True Suc.prems(9,10) by linarith+
    have nm: "length (map cd_Name (ColDefs (tbl_schema (as_table S)))) = length ts" using Suc.prems(6) by simp
    obtain S1 i where i: "apply_loop (Suc fuel) O' al env r appended S
         = (if appended + srcLen i = in_rows (as_node S) then Some (Ok S1) else apply_loop fuel O' al env r (appended + srcLen i) S1)"
        "apply_piece O' ts cols appended S S1 i" "td_ok O' ts cur (as_table S1) (as_alloc S1) (as_data S1)"
        "unat (cur (segAlloc (as_alloc S1))) \<le> unat (cur (segAlloc (as_alloc S))) + 1"
        "unat (cur (blkAlloc (as_alloc S1))) \<le> unat (cur (blkAlloc (as_alloc S))) + 1"
      using apply_iteration [OF laws al Suc.prems(1,2) fits hi Suc.prems(3,4,5) nm True, of fuel env r] by blast
    have p: "in_appends (as_node S1) = in_appends (as_node S) @ [i]" "srcOff i = appended" "0 < unat (srcLen i)" "destLen i = srcLen i"
        "unat appended + unat (srcLen i) \<le> unat (in_rows (as_node S))" "in_rows (as_node S1) = in_rows (as_node S)"
        "in_data (as_node S1) = in_data (as_node S)" "tbl_schema (as_table S1) = tbl_schema (as_table S)"
        "grows O' (length ts) (as_data S) (as_data S1)" "placed O' (length ts) cols (as_data S1) i"
      using i(2) by (simp_all add: apply_piece_def)
    have u: "unat (appended + srcLen i) = unat appended + unat (srcLen i)"
      using p(5) unat_less_width [of "in_rows (as_node S)"] by (intro unat_plus_no_wrap) simp
    show ?thesis
    proof (cases "appended + srcLen i = in_rows (as_node S)")
      case True
      then have "unat appended + unat (srcLen i) = unat (in_rows (as_node S))" using u by simp
      then have "apply_frame cur (unat (in_rows (as_node S)) - unat appended) S S1"
        using i(4,5) p(3,6-8) unfolding apply_frame_def by (simp; linarith)
      then show ?thesis using True \<open>unat appended + unat (srcLen i) = unat (in_rows (as_node S))\<close> i(1,3) p
        by (intro exI [of _ S1] exI [of _ "[i]"]) simp
    next
      case False
      have node: "node_ok O' ts (as_node S1) cols" using Suc.prems(2) p(6,7) by (simp add: node_ok_def cong: option.case_cong)
      have "\<exists>S' infos. apply_loop fuel O' al env r (appended + srcLen i) S1 = Some (Ok S')
          \<and> in_appends (as_node S') = in_appends (as_node S1) @ infos \<and> covers (unat (appended + srcLen i)) infos (unat (in_rows (as_node S1)))
          \<and> (\<forall>i \<in> set infos. placed O' (length ts) cols (as_data S') i) \<and> grows O' (length ts) (as_data S1) (as_data S')
          \<and> td_ok O' ts cur (as_table S') (as_alloc S') (as_data S')
          \<and> apply_frame cur (unat (in_rows (as_node S1)) - unat (appended + srcLen i)) S1 S'"
        by (rule Suc.IH) (use Suc.prems(3-10) i(3-5) node p(3,5) in \<open>simp_all add: u p(6,8)\<close>)
      then obtain S' infos where s: "apply_loop fuel O' al env r (appended + srcLen i) S1 = Some (Ok S')"
          "in_appends (as_node S') = in_appends (as_node S1) @ infos" "covers (unat (appended + srcLen i)) infos (unat (in_rows (as_node S1)))"
          "\<forall>i \<in> set infos. placed O' (length ts) cols (as_data S') i" "grows O' (length ts) (as_data S1) (as_data S')"
          "td_ok O' ts cur (as_table S') (as_alloc S') (as_data S')"
          "apply_frame cur (unat (in_rows (as_node S1)) - unat (appended + srcLen i)) S1 S'" by blast
      have "apply_frame cur (unat (in_rows (as_node S)) - unat appended) S S'"
        using s(7) p(3,5-8) i(4,5) u unfolding apply_frame_def by (simp; linarith)
      moreover have "placed O' (length ts) cols (as_data S') i" using placed_grows [OF p(10) s(5)] .
      ultimately show ?thesis using False i(1) s p(1-4,6) u grows_trans [OF p(9) s(5)]
        by (intro exI [of _ S'] exI [of _ "i # infos"]) simp
    qed
  qed
qed simp

section \<open>Applying an insert node to the table\<close>



definition demo_table :: "unit TableEntry" where
  "demo_table = \<lparr>tbl_base = new_base 1 None, tbl_db = 1,
     tbl_schema = zero_Schema\<lparr>ColDefs := [\<lparr>cd_Name = ''a'', cd_Idx = 0, cd_Type = ()\<rparr>], BlockMaxRows := 2, SegmentMaxBlocks := 1\<rparr>,
     tbl_entries = Map.empty, tbl_link = []\<rparr>"

definition demo_apply :: "(unit, IdAlloctor, Oid \<times> nat \<times> u8 goval list, u32 list) applyState" where
  "demo_apply = \<lparr>as_table = demo_table, as_alloc = NewIDAllocator \<lparr>alloc_id = 0\<rparr>, as_data = newTable,
     as_csegs = [], as_cblks = [], as_checker = newWarChecker 5, as_node = hd (tt_inodes demo_local)\<rparr>"


end
