(* ===== verification/TxnStore.thy ===== *)
theory TxnStore
  imports DataTables
begin

text \<open>
  The store of a transaction (\<^verbatim>\<open>pkg/txn/txnimpl/store.go\<close>) and the part of the transaction tables that
  takes part in the commit (\<^verbatim>\<open>table.go\<close>): it creates and drops databases and tables in the shared catalog, keeps
  a transaction table for every table it touches, and carries out the phases of a commit or a rollback.  Entries are referred to by the path of
  identifiers that leads to them; the Go map of tables is iterated in an order that is an argument.  The tables of one store share its
  conflict checker.
\<close>

section \<open>Calls that change the shared state\<close>

type_synonym ('w, 'x) act = "'w \<Rightarrow> 'x res \<times> 'w"

text \<open>An error or a panic of the first call ends the sequence.\<close>

definition act_bind :: "('w, 'x) act \<Rightarrow> ('x \<Rightarrow> ('w, 'y) act) \<Rightarrow> ('w, 'y) act" where
  "act_bind m f w = (case m w of (Ok x, w') \<Rightarrow> f x w' | (Err e, w') \<Rightarrow> (Err e, w') | (Panic, w') \<Rightarrow> (Panic, w'))"

fun for_each :: "('i \<Rightarrow> ('w, unit) act) \<Rightarrow> 'i list \<Rightarrow> ('w, unit) act" where
  "for_each f [] w = (Ok (), w)"
| "for_each f (i # is) w = act_bind (f i) (\<lambda>_. for_each f is) w"

section \<open>Paths to entries\<close>

datatype path = PDB u64 | PTbl u64 u64 | PSeg u64 u64 u64 | PBlk u64 u64 u64 u64

definition upd_map :: "'k \<Rightarrow> ('x \<Rightarrow> 'x) \<Rightarrow> ('k \<rightharpoonup> 'x) \<Rightarrow> ('k \<rightharpoonup> 'x)" where
  "upd_map k f m = m(k := map_option f (m k))"

definition upd_entry :: "u64 \<Rightarrow> ('e \<Rightarrow> 'e) \<Rightarrow> 'e dir \<Rightarrow> 'e dir" where
  "upd_entry i f d = d\<lparr>entries := upd_map i f (entries d)\<rparr>"

definition table_at :: "u64 \<Rightarrow> u64 \<Rightarrow> ('ty, 'a) Catalog \<Rightarrow> 'ty TableEntry option" where
  "table_at d t c = Option.bind (entries (cat_dir c) d) (\<lambda>db. entries (db_dir db) t)"

definition table_upd :: "u64 \<Rightarrow> u64 \<Rightarrow> ('ty TableEntry \<Rightarrow> 'ty TableEntry) \<Rightarrow> ('ty, 'a) Catalog \<Rightarrow> ('ty, 'a) Catalog" where
  "table_upd d t f c = c\<lparr>cat_dir := upd_entry d (db_dir_update (upd_entry t f)) (cat_dir c)\<rparr>"

fun base_at :: "path \<Rightarrow> ('ty, 'a) Catalog \<Rightarrow> BaseEntry option" where
  "base_at (PDB d) c = map_option db_base (entries (cat_dir c) d)"
| "base_at (PTbl d t) c = map_option tbl_base (table_at d t c)"
| "base_at (PSeg d t s) c = Option.bind (table_at d t c) (\<lambda>tb. map_option seg_base (tbl_entries tb s))"
| "base_at (PBlk d t s b) c =
     Option.bind (table_at d t c) (\<lambda>tb. Option.bind (tbl_entries tb s) (\<lambda>sg. map_option blk_base (seg_entries sg b)))"

fun base_upd :: "(BaseEntry \<Rightarrow> BaseEntry) \<Rightarrow> path \<Rightarrow> ('ty, 'a) Catalog \<Rightarrow> ('ty, 'a) Catalog" where
  "base_upd f (PDB d) c = c\<lparr>cat_dir := upd_entry d (db_base_update f) (cat_dir c)\<rparr>"
| "base_upd f (PTbl d t) c = table_upd d t (tbl_base_update f) c"
| "base_upd f (PSeg d t s) c = table_upd d t (tbl_entries_update (upd_map s (seg_base_update f))) c"
| "base_upd f (PBlk d t s b) c =
     table_upd d t (tbl_entries_update (upd_map s (seg_entries_update (upd_map b (blk_base_update f))))) c"

section \<open>The store\<close>

text \<open>
  The transaction table: its local rows, the database of its entry, whether it created or dropped the entry (the entries it is given
  are always its own), the segments and blocks it created, its update nodes and log entries.
\<close>

record ('vec, 'b, 'v, 'ty) tableTxn = "('vec, 'b, 'v) txnTable" +
  tt_db :: u64
  tt_createEntry :: bool
  tt_dropEntry :: bool
  tt_csegs :: "u64 list"
  tt_cblks :: "(u64 \<times> u64) list"
  tt_updateNodes :: "(ID \<times> ('v, 'b, 'ty) BlockUpdates) list"
  tt_logs :: "bytes list"

definition newTxnTable :: "u64 \<Rightarrow> ('vec, 'b, 'v, 'ty) tableTxn" where
  "newTxnTable d =
     \<lparr>tt_inodes = [], tt_appendable = None, tt_index = NewSimpleTableIndex, tt_rows = 0, tt_db = d, tt_createEntry = False, tt_dropEntry = False,
      tt_csegs = [], tt_cblks = [], tt_updateNodes = [], tt_logs = []\<rparr>"

text \<open>The conflict checker comes with the database of the first table.\<close>

record ('vec, 'b, 'v, 'ty) txnStore =
  ts_txn :: u64
  ts_tables :: "u64 \<rightharpoonup> ('vec, 'b, 'v, 'ty) tableTxn"
  ts_database :: "u64 option"
  ts_createEntry :: "u64 option"
  ts_dropEntry :: "u64 option"
  ts_cmdMgr :: "('v, 'b, 'ty, 'vec list) commandManager"
  ts_logs :: "bytes list"
  ts_warChecker :: "(u64 \<times> warChecker) option"
  ts_dataFactory :: bool

definition newStore :: "bool \<Rightarrow> bool \<Rightarrow> u64 \<Rightarrow> ('vec, 'b, 'v, 'ty) txnStore" where
  "newStore driver factory txn =
     \<lparr>ts_txn = txn, ts_tables = Map.empty, ts_database = None, ts_createEntry = None, ts_dropEntry = None,
      ts_cmdMgr = newCommandManager driver, ts_logs = [], ts_warChecker = None, ts_dataFactory = factory\<rparr>"

text \<open>The catalog, the data objects of its tables, the log driver and the store.\<close>

record ('ty, 'a, 'vec, 'b, 'v, 'd) world =
  w_cat :: "('ty, 'a) Catalog"
  w_data :: "u64 \<rightharpoonup> 'vec tableData"
  w_drv :: 'd
  w_store :: "('vec, 'b, 'v, 'ty) txnStore"

definition upd_table :: "u64 \<Rightarrow> (('vec, 'b, 'v, 'ty) tableTxn \<Rightarrow> ('vec, 'b, 'v, 'ty) tableTxn) \<Rightarrow> ('ty, 'a, 'vec, 'b, 'v, 'd) world \<Rightarrow> ('ty, 'a, 'vec, 'b, 'v, 'd) world" where
  "upd_table i f w = w_store_update (ts_tables_update (upd_map i f)) w"

definition upd_checker :: "(warChecker \<Rightarrow> warChecker) \<Rightarrow> ('ty, 'a, 'vec, 'b, 'v, 'd) world \<Rightarrow> ('ty, 'a, 'vec, 'b, 'v, 'd) world" where
  "upd_checker f w = w_store_update (ts_warChecker_update (map_option (map_prod id f))) w"

definition set_database :: "u64 option \<Rightarrow> ('ty, 'a, 'vec, 'b, 'v, 'd) world \<Rightarrow> ('ty, 'a, 'vec, 'b, 'v, 'd) world" where
  "set_database d w = w_store_update (ts_database_update (\<lambda>_. d)) w"

definition put_db :: "'ty DBEntry \<Rightarrow> ('ty, 'a, 'vec, 'b, 'v, 'd) world \<Rightarrow> ('ty, 'a, 'vec, 'b, 'v, 'd) world" where
  "put_db d w = w_cat_update (cat_dir_update (put_entry (be_ID (db_base d)) d)) w"

section \<open>Databases\<close>

definition checkDatabase :: "string \<Rightarrow> (('ty, 'a, 'vec, 'b, 'v, 'd) world, unit) act" where
  "checkDatabase nm w =
     (case ts_database (w_store w) of
        None \<Rightarrow> (Ok (), w)
      | Some i \<Rightarrow>
          (case entries (cat_dir (w_cat w)) i of
             None \<Rightarrow> (Panic, w)
           | Some d \<Rightarrow> (if db_name d \<noteq> nm then Err ErrTxnDifferentDatabase else Ok (), w)))"

definition GetDatabase :: "txn_env \<Rightarrow> (u64 \<Rightarrow> TxnStates) \<Rightarrow> string \<Rightarrow> (('ty, 'a, 'vec, 'b, 'v, 'd) world, u64) act" where
  "GetDatabase env later nm =
     act_bind (checkDatabase nm) (\<lambda>_ w.
       case GetDBEntry env later nm (ts_txn (w_store w)) (w_cat w) of
         Ok d \<Rightarrow> (Ok (be_ID (db_base d)), set_database (Some (be_ID (db_base d))) w)
       | Err e \<Rightarrow> (Err e, w)
       | Panic \<Rightarrow> (Panic, w))"

text \<open>An error of \<open>GetDatabase\<close> leaves the store without a database.\<close>

definition UseDatabase :: "txn_env \<Rightarrow> (u64 \<Rightarrow> TxnStates) \<Rightarrow> string \<Rightarrow> (('ty, 'a, 'vec, 'b, 'v, 'd) world, unit) act" where
  "UseDatabase env later nm =
     act_bind (checkDatabase nm) (\<lambda>_ w.
       case GetDatabase env later nm w of
         (Ok i, w') \<Rightarrow> (Ok (), set_database (Some i) w')
       | (Err e, w') \<Rightarrow> (Err e, set_database None w')
       | (Panic, w') \<Rightarrow> (Panic, w'))"

definition CreateDatabase :: "('a \<Rightarrow> u64 \<times> 'a) \<Rightarrow> txn_env \<Rightarrow> string \<Rightarrow> (('ty, 'a, 'vec, 'b, 'v, 'd) world, u64) act" where
  "CreateDatabase al env nm w =
     (if ts_database (w_store w) \<noteq> None then (Err ErrTxnDifferentDatabase, w)
      else case CreateDBEntry al env nm (Some (ts_txn (w_store w))) (w_cat w) of
             Ok (None, d, c) \<Rightarrow>
               (let i = be_ID (db_base d)
                in (Ok i, set_database (Some i) (w_store_update (ts_createEntry_update (\<lambda>_. Some i)) (w\<lparr>w_cat := c\<rparr>))))
           | Ok (Some e, d, c) \<Rightarrow> (Err e, w\<lparr>w_cat := c\<rparr>)
           | Err e \<Rightarrow> (Err e, w)
           | Panic \<Rightarrow> (Panic, w))"

definition DropDatabase :: "txn_env \<Rightarrow> (u64 \<Rightarrow> TxnStates) \<Rightarrow> string \<Rightarrow> (('ty, 'a, 'vec, 'b, 'v, 'd) world, u64) act" where
  "DropDatabase env later nm =
     act_bind (checkDatabase nm) (\<lambda>_ w.
       case DropDBEntry env later nm (ts_txn (w_store w)) (w_cat w) of
         Ok (d, c) \<Rightarrow>
           (let i = be_ID (db_base d)
            in (Ok i, set_database (Some i) (w_store_update (ts_dropEntry_update (\<lambda>_. Some i)) (w\<lparr>w_cat := c\<rparr>))))
       | Err e \<Rightarrow> (Err e, w)
       | Panic \<Rightarrow> (Panic, w))"

section \<open>Tables, segments and blocks\<close>

text \<open>\<open>store.database.GetMeta()\<close>; without a database it panics.\<close>

definition store_db :: "(('ty, 'a, 'vec, 'b, 'v, 'd) world, 'ty DBEntry) act" where
  "store_db w =
     (case ts_database (w_store w) of
        None \<Rightarrow> (Panic, w)
      | Some i \<Rightarrow> (case entries (cat_dir (w_cat w)) i of None \<Rightarrow> (Panic, w) | Some d \<Rightarrow> (Ok d, w)))"

definition getOrSetTable :: "u64 \<Rightarrow> (('ty, 'a, 'vec, 'b, 'v, 'd) world, ('vec, 'b, 'v, 'ty) tableTxn) act" where
  "getOrSetTable i w =
     (case ts_tables (w_store w) i of
        Some tbl \<Rightarrow> (Ok tbl, w)
      | None \<Rightarrow>
          act_bind store_db (\<lambda>d w.
            case GetTableEntryByID i d of
              Ok tb \<Rightarrow>
                (let tbl = newTxnTable (tbl_db tb); s = w_store w
                 in (Ok tbl, w\<lparr>w_store := s\<lparr>ts_tables := (ts_tables s)(i \<mapsto> tbl),
                       ts_warChecker := (case ts_warChecker s of None \<Rightarrow> Some (tbl_db tb, newWarChecker (ts_txn s)) | Some c \<Rightarrow> Some c)\<rparr>\<rparr>))
            | Err e \<Rightarrow> (Err e, w)
            | Panic \<Rightarrow> (Panic, w)) w)"

text \<open>A second entry of the same kind is a logic error.\<close>

definition SetCreateEntry :: "u64 \<Rightarrow> 'ty DBEntry \<Rightarrow> (('ty, 'a, 'vec, 'b, 'v, 'd) world, unit) act" where
  "SetCreateEntry i d w =
     (case ts_tables (w_store w) i of
        None \<Rightarrow> (Panic, w)
      | Some tbl \<Rightarrow>
          if tt_createEntry tbl then (Panic, w)
          else (Ok (), upd_checker (readDBVar d) (upd_table i (tt_createEntry_update (\<lambda>_. True)) w)))"

definition SetDropEntry :: "u64 \<Rightarrow> 'ty DBEntry \<Rightarrow> (('ty, 'a, 'vec, 'b, 'v, 'd) world, unit) act" where
  "SetDropEntry i d w =
     (case ts_tables (w_store w) i of
        None \<Rightarrow> (Panic, w)
      | Some tbl \<Rightarrow>
          if tt_dropEntry tbl then (Panic, w)
          else (Ok (), upd_checker (readDBVar d) (upd_table i (tt_dropEntry_update (\<lambda>_. True)) w)))"

definition CreateRelation :: "('a \<Rightarrow> u64 \<times> 'a) \<Rightarrow> txn_env \<Rightarrow> 'ty Schema \<Rightarrow> (('ty, 'a, 'vec, 'b, 'v, 'd) world, u64) act" where
  "CreateRelation al env schema =
     act_bind store_db (\<lambda>d w.
       case CreateTableEntry al env schema (Some (ts_txn (w_store w))) d (cat_alloc (w_cat w)) of
         Ok (er, tb, d', x) \<Rightarrow>
           (let i = be_ID (tbl_base tb); w1 = put_db d' (w_cat_update (cat_alloc_update (\<lambda>_. x)) w);
                w2 = (if ts_dataFactory (w_store w) then w_data_update (\<lambda>m. m(i \<mapsto> newTable)) w1 else w1)
            in case er of
                 Some e \<Rightarrow> (Err e, w2)
               | None \<Rightarrow> act_bind (getOrSetTable i) (\<lambda>_. act_bind (SetCreateEntry i d') (\<lambda>_ w. (Ok i, w))) w2)
       | Err e \<Rightarrow> (Err e, w)
       | Panic \<Rightarrow> (Panic, w))"

definition DropRelationByName :: "txn_env \<Rightarrow> (u64 \<Rightarrow> TxnStates) \<Rightarrow> string \<Rightarrow> (('ty, 'a, 'vec, 'b, 'v, 'd) world, u64) act" where
  "DropRelationByName env later nm =
     act_bind store_db (\<lambda>d w.
       case DropTableEntry env later nm (ts_txn (w_store w)) d of
         Ok (tb, d') \<Rightarrow>
           (let i = be_ID (tbl_base tb)
            in act_bind (getOrSetTable i) (\<lambda>_. act_bind (SetDropEntry i d') (\<lambda>_ w. (Ok i, w))) (put_db d' w))
       | Err e \<Rightarrow> (Err e, w)
       | Panic \<Rightarrow> (Panic, w))"

definition GetRelationByName :: "txn_env \<Rightarrow> (u64 \<Rightarrow> TxnStates) \<Rightarrow> string \<Rightarrow> (('ty, 'a, 'vec, 'b, 'v, 'd) world, u64) act" where
  "GetRelationByName env later nm =
     act_bind store_db (\<lambda>d w. (res_bind (GetTableEntry env later nm (ts_txn (w_store w)) d) (\<lambda>tb. Ok (be_ID (tbl_base tb))), w))"

text \<open>
  What a transaction table works on: its entry, the allocator, the data of the table, its lists and the checker; without a data factory no
  data object is kept.
\<close>

definition table_view :: "u64 \<Rightarrow> ('ty, 'a, 'vec, 'b, 'v, 'd) world \<Rightarrow> ('ty, 'a, 'vec) tableMeta res" where
  "table_view i w =
     (case (ts_tables (w_store w) i, ts_warChecker (w_store w)) of
        (Some tbl, Some (_, c)) \<Rightarrow>
          (case table_at (tt_db tbl) i (w_cat w) of
             None \<Rightarrow> Panic
           | Some tb \<Rightarrow>
               Ok \<lparr>as_table = tb, as_alloc = cat_alloc (w_cat w), as_data = (case w_data w i of None \<Rightarrow> newTable | Some T \<Rightarrow> T),
                   as_csegs = tt_csegs tbl, as_cblks = tt_cblks tbl, as_checker = c\<rparr>)
      | _ \<Rightarrow> Panic)"

definition table_back :: "u64 \<Rightarrow> ('ty, 'a, 'vec, 'z) tableMeta_scheme \<Rightarrow> ('ty, 'a, 'vec, 'b, 'v, 'd) world \<Rightarrow> ('ty, 'a, 'vec, 'b, 'v, 'd) world" where
  "table_back i S w =
     (let d = (case ts_tables (w_store w) i of None \<Rightarrow> 0 | Some tbl \<Rightarrow> tt_db tbl);
          c = table_upd d i (\<lambda>_. as_table S) ((w_cat w)\<lparr>cat_alloc := as_alloc S\<rparr>)
      in upd_checker (\<lambda>_. as_checker S)
           (upd_table i (\<lambda>tbl. tbl\<lparr>tt_csegs := as_csegs S, tt_cblks := as_cblks S\<rparr>)
             (w\<lparr>w_cat := c, w_data := upd_map i (\<lambda>_. as_data S) (w_data w)\<rparr>)))"

definition Table_CreateSegment :: "('a \<Rightarrow> u64 \<times> 'a) \<Rightarrow> txn_env \<Rightarrow> u64 \<Rightarrow> (('ty, 'a, 'vec, 'b, 'v, 'd) world, u64) act" where
  "Table_CreateSegment al env i w =
     (case table_view i w of
        Ok S \<Rightarrow> (case apply_CreateSegment al env (ts_txn (w_store w)) S of (sid, S') \<Rightarrow> (Ok sid, table_back i S' w))
      | Err e \<Rightarrow> (Err e, w)
      | Panic \<Rightarrow> (Panic, w))"

definition Table_CreateBlock :: "('a \<Rightarrow> u64 \<times> 'a) \<Rightarrow> txn_env \<Rightarrow> u64 \<Rightarrow> u64 \<Rightarrow> (('ty, 'a, 'vec, 'b, 'v, 'd) world, u64) act" where
  "Table_CreateBlock al env i sid w =
     (case res_bind (table_view i w) (apply_CreateBlock al env (ts_txn (w_store w)) sid) of
        Ok (bid, S') \<Rightarrow> (Ok bid, table_back i S' w)
      | Err e \<Rightarrow> (Err e, w)
      | Panic \<Rightarrow> (Panic, w))"

definition Store_CreateSegment :: "('a \<Rightarrow> u64 \<times> 'a) \<Rightarrow> txn_env \<Rightarrow> u64 \<Rightarrow> (('ty, 'a, 'vec, 'b, 'v, 'd) world, u64) act" where
  "Store_CreateSegment al env tid = act_bind (getOrSetTable tid) (\<lambda>_. Table_CreateSegment al env tid)"

definition Store_CreateBlock :: "('a \<Rightarrow> u64 \<times> 'a) \<Rightarrow> txn_env \<Rightarrow> u64 \<Rightarrow> u64 \<Rightarrow> (('ty, 'a, 'vec, 'b, 'v, 'd) world, u64) act" where
  "Store_CreateBlock al env tid sid = act_bind (getOrSetTable tid) (\<lambda>_. Table_CreateBlock al env tid sid)"

section \<open>Rows\<close>

text \<open>\<open>fuel\<close> bounds the loop of \<open>Append\<close>; a table that the store does not have is a nil interface.\<close>

definition Store_Append ::
  "nat \<Rightarrow> ('vec, 'v, 'n) col_ops \<Rightarrow> (Oid \<Rightarrow> u32) \<Rightarrow> (nat \<Rightarrow> u64 \<Rightarrow> go_error option) \<Rightarrow> u64 \<Rightarrow> ('v, 'n) Vector list
     \<Rightarrow> ('ty, 'a, 'vec, 'b, 'v, 'd) world \<Rightarrow> (unit res \<times> ('ty, 'a, 'vec, 'b, 'v, 'd) world) option" where
  "Store_Append fuel O' tySize ex i data w =
     (case getOrSetTable i w of
        (Ok tbl, w') \<Rightarrow>
          if tt_dropEntry tbl then Some (Err ErrNotFound, w')
          else (case table_at (tt_db tbl) i (w_cat w') of
                  None \<Rightarrow> Some (Panic, w')
                | Some tb \<Rightarrow>
                    (case Table_Append fuel O' tySize ex (unat (PrimaryKey (tbl_schema tb))) data tbl of
                       None \<Rightarrow> None
                     | Some (tbl', r) \<Rightarrow> Some (r, upd_table i (\<lambda>_. tbl') w')))
      | (Err e, w') \<Rightarrow> Some (Err e, w')
      | (Panic, w') \<Rightarrow> Some (Panic, w'))"

definition Store_RangeDeleteLocalRows :: "('b, u32) bitmap \<Rightarrow> u64 \<Rightarrow> u32 \<Rightarrow> u32 \<Rightarrow> (('ty, 'a, 'vec, 'b, 'v, 'd) world, unit) act" where
  "Store_RangeDeleteLocalRows B i start end w =
     (case ts_tables (w_store w) i of
        None \<Rightarrow> (Panic, w)
      | Some tbl \<Rightarrow>
          (case RangeDeleteLocalRows B start end tbl of
             Ok tbl' \<Rightarrow> (Ok (), upd_table i (\<lambda>_. tbl') w)
           | Err e \<Rightarrow> (Err e, w)
           | Panic \<Rightarrow> (Panic, w)))"

definition Store_UpdateLocalValue ::
  "nat \<Rightarrow> ('vec, 'v, 'n) col_ops \<Rightarrow> ('b, u32) bitmap \<Rightarrow> (Oid \<Rightarrow> u32) \<Rightarrow> (nat \<Rightarrow> u64 \<Rightarrow> go_error option) \<Rightarrow> u64 \<Rightarrow> u32 \<Rightarrow> u16 \<Rightarrow> 'v goval
     \<Rightarrow> ('ty, 'a, 'vec, 'b, 'v, 'd) world \<Rightarrow> (unit res \<times> ('ty, 'a, 'vec, 'b, 'v, 'd) world) option" where
  "Store_UpdateLocalValue fuel O' B tySize ex i row col val w =
     (case ts_tables (w_store w) i of
        None \<Rightarrow> Some (Panic, w)
      | Some tbl \<Rightarrow>
          (case table_at (tt_db tbl) i (w_cat w) of
             None \<Rightarrow> Some (Panic, w)
           | Some tb \<Rightarrow>
               (case UpdateLocalValue fuel O' B tySize ex (unat (PrimaryKey (tbl_schema tb))) row col val tbl of
                  None \<Rightarrow> None
                | Some (tbl', r) \<Rightarrow> Some (r, upd_table i (\<lambda>_. tbl') w))))"

definition Table_AddUpdateNode :: "('v, 'b, 'ty) BlockUpdates \<Rightarrow> ('vec, 'b, 'v, 'ty) tableTxn \<Rightarrow> ('vec, 'b, 'v, 'ty) tableTxn res" where
  "Table_AddUpdateNode u tbl =
     (case bu_id u of
        None \<Rightarrow> Panic
      | Some k \<Rightarrow> if map_of (tt_updateNodes tbl) k \<noteq> None then Err ErrDuplicateNode else Ok (tbl\<lparr>tt_updateNodes := (k, u) # tt_updateNodes tbl\<rparr>))"

definition Store_AddUpdateNode :: "u64 \<Rightarrow> ('v, 'b, 'ty) BlockUpdates \<Rightarrow> (('ty, 'a, 'vec, 'b, 'v, 'd) world, unit) act" where
  "Store_AddUpdateNode i u w =
     (case ts_tables (w_store w) i of
        None \<Rightarrow> (Panic, w)
      | Some tbl \<Rightarrow>
          (case Table_AddUpdateNode u tbl of
             Ok tbl' \<Rightarrow> (Ok (), upd_table i (\<lambda>_. tbl') w)
           | Err e \<Rightarrow> (Err e, w)
           | Panic \<Rightarrow> (Panic, w)))"

section \<open>The phases of a commit\<close>

text \<open>
  Before the commit, the rows of every insert node are applied to the table; \<open>ps\<close> are the positions of the nodes.  A table without data
  object fails on the first row.
\<close>

fun pre_nodes ::
  "nat \<Rightarrow> ('vec, 'v, 'n) col_ops \<Rightarrow> ('a \<Rightarrow> u64 \<times> 'a) \<Rightarrow> txn_env \<Rightarrow> u64 \<Rightarrow> nat list
     \<Rightarrow> ('ty, 'a, 'vec, 'b, 'v, 'd) world \<Rightarrow> (unit res \<times> ('ty, 'a, 'vec, 'b, 'v, 'd) world) option" where
  "pre_nodes fuel O' al env i [] w = Some (Ok (), w)"
| "pre_nodes fuel O' al env i (p # ps) w =
     (case (ts_tables (w_store w) i, table_view i w) of
        (Some tbl, Ok S) \<Rightarrow>
          (let n = tt_inodes tbl ! p
           in if w_data w i = None \<and> in_rows n \<noteq> 0 then Some (Panic, w)
              else case applyAppendInode fuel O' al env (ts_txn (w_store w)) (tableMeta.extend S (applyState.fields n)) of
                     None \<Rightarrow> None
                   | Some (Ok S') \<Rightarrow> pre_nodes fuel O' al env i ps (table_back i S' (upd_table i (put_node p (as_node S')) w))
                   | Some _ \<Rightarrow> Some (Panic, w))
      | _ \<Rightarrow> Some (Panic, w))"

definition Table_PreCommit ::
  "nat \<Rightarrow> ('vec, 'v, 'n) col_ops \<Rightarrow> ('a \<Rightarrow> u64 \<times> 'a) \<Rightarrow> txn_env \<Rightarrow> u64
     \<Rightarrow> ('ty, 'a, 'vec, 'b, 'v, 'd) world \<Rightarrow> (unit res \<times> ('ty, 'a, 'vec, 'b, 'v, 'd) world) option" where
  "Table_PreCommit fuel O' al env i w =
     (case ts_tables (w_store w) i of
        None \<Rightarrow> Some (Panic, w)
      | Some tbl \<Rightarrow> pre_nodes fuel O' al env i [0..<length (tt_inodes tbl)] w)"

text \<open>\<open>is\<close> lists the identifiers of the tables in the order of the iteration over the map.\<close>

fun Store_PreCommit ::
  "nat \<Rightarrow> ('vec, 'v, 'n) col_ops \<Rightarrow> ('a \<Rightarrow> u64 \<times> 'a) \<Rightarrow> txn_env \<Rightarrow> u64 list
     \<Rightarrow> ('ty, 'a, 'vec, 'b, 'v, 'd) world \<Rightarrow> (unit res \<times> ('ty, 'a, 'vec, 'b, 'v, 'd) world) option" where
  "Store_PreCommit fuel O' al env [] w = Some (Ok (), w)"
| "Store_PreCommit fuel O' al env (i # is) w =
     (case Table_PreCommit fuel O' al env i w of
        None \<Rightarrow> None
      | Some (Ok _, w') \<Rightarrow> Store_PreCommit fuel O' al env is w'
      | Some (_, w') \<Rightarrow> Some (Panic, w'))"

text \<open>The entries that a transaction table prepares and applies, in this order.\<close>

definition table_paths :: "u64 \<Rightarrow> ('vec, 'b, 'v, 'ty) tableTxn \<Rightarrow> path list" where
  "table_paths i tbl =
     (if tt_createEntry tbl \<or> tt_dropEntry tbl then [PTbl (tt_db tbl) i] else [])
     @ map (PSeg (tt_db tbl) i) (tt_csegs tbl) @ map (\<lambda>(s, b). PBlk (tt_db tbl) i s b) (tt_cblks tbl)"

text \<open>A table entry that was created and dropped at the same time is left alone, with all that belongs to it.\<close>

definition table_phase :: "(BaseEntry \<Rightarrow> BaseEntry) \<Rightarrow> u64 \<Rightarrow> (('ty, 'a, 'vec, 'b, 'v, 'd) world, unit) act" where
  "table_phase f i w =
     (case ts_tables (w_store w) i of
        None \<Rightarrow> (Panic, w)
      | Some tbl \<Rightarrow>
          (case table_at (tt_db tbl) i (w_cat w) of
             None \<Rightarrow> (Panic, w)
           | Some tb \<Rightarrow>
               if CreateAndDropInSameTxn (tbl_base tb) then (Ok (), w)
               else (Ok (), w\<lparr>w_cat := fold (base_upd f) (table_paths i tbl) (w_cat w)\<rparr>)))"

definition Table_PrepareCommit :: "txn_env \<Rightarrow> u64 \<Rightarrow> (('ty, 'a, 'vec, 'b, 'v, 'd) world, unit) act" where
  "Table_PrepareCommit env = table_phase (PrepareCommit env)"

definition Table_ApplyCommit :: "u64 \<Rightarrow> (('ty, 'a, 'vec, 'b, 'v, 'd) world, unit) act" where
  "Table_ApplyCommit = table_phase ApplyCommit"

text \<open>Collecting commands: the number of a command is the number of commands before it.\<close>

definition add_cmd :: "(u32 \<Rightarrow> ('v, 'b, 'ty, 'bat) TxnCmd) \<Rightarrow> ('v, 'b, 'ty, 'bat) commandManager \<Rightarrow> ('v, 'b, 'ty, 'bat) commandManager" where
  "add_cmd mk m = AddCmd (mk (word_of_int (cm_csn m))) m"

text \<open>Every node but the last one is flushed to the log.\<close>

fun collect_nodes ::
  "('v, 'b, 'n, 'ty, 'vec list, 'vec) log_ops \<Rightarrow> 'd driver \<Rightarrow> 'ty list \<Rightarrow> ('vec, 'b) insertNode list \<Rightarrow> 'd
     \<Rightarrow> ('v, 'b, 'ty, 'vec list) commandManager
     \<Rightarrow> (('vec, 'b) insertNode list \<times> bytes list \<times> 'd \<times> ('v, 'b, 'ty, 'vec list) commandManager) res" where
  "collect_nodes L D tys [] d m = Ok ([], [], d, m)"
| "collect_nodes L D tys (n # ns) d m =
     (case Node_MakeCommand L D tys (word_of_int (cm_csn m)) (ns \<noteq> []) d n of
        Ok (cmd, entry, d', n') \<Rightarrow>
          res_bind (collect_nodes L D tys ns d' (case cmd of None \<Rightarrow> m | Some c \<Rightarrow> AddCmd c m)) (\<lambda>(ns', logs, d'', m').
            Ok (ToTransient n' # ns', (case entry of None \<Rightarrow> logs | Some e \<Rightarrow> e # logs), d'', m'))
      | _ \<Rightarrow> Panic)"

definition CollectCmd ::
  "('v, 'b, 'n, 'ty, 'vec list, 'vec) log_ops \<Rightarrow> 'd driver \<Rightarrow> u64 \<Rightarrow> (('ty, 'a, 'vec, 'b, 'v, 'd) world, unit) act" where
  "CollectCmd L D i w =
     (case ts_tables (w_store w) i of
        None \<Rightarrow> (Panic, w)
      | Some tbl \<Rightarrow>
          (case (entries (cat_dir (w_cat w)) (tt_db tbl), table_at (tt_db tbl) i (w_cat w)) of
             (Some db, Some tb) \<Rightarrow>
               (let sgs = (\<lambda>s. the (tbl_entries tb s));
                    m1 = fold (\<lambda>s. add_cmd (\<lambda>k. Segment_MakeCommand k db tb (sgs s))) (tt_csegs tbl) (ts_cmdMgr (w_store w));
                    m2 = fold (\<lambda>(s, b). add_cmd (\<lambda>k. Block_MakeCommand k db tb (sgs s) (the (seg_entries (sgs s) b)))) (tt_cblks tbl) m1
                in case collect_nodes L D (map cd_Type (ColDefs (tbl_schema tb))) (tt_inodes tbl) (w_drv w) m2 of
                     Ok (ns, logs, d, m) \<Rightarrow>
                       (Ok (), upd_table i (\<lambda>tbl. tbl\<lparr>tt_inodes := ns, tt_logs := tt_logs tbl @ logs\<rparr>)
                          (w_store_update (ts_cmdMgr_update (\<lambda>_. m)) (w\<lparr>w_drv := d\<rparr>)))
                   | _ \<Rightarrow> (Panic, w))
           | _ \<Rightarrow> (Panic, w)))"

definition GroupC :: u32 where "GroupC = 10"

text \<open>
  \<open>warChecker.check()\<close>; \<open>order\<close> is the order of the keys.
\<close>

definition store_check :: "txn_env \<Rightarrow> (u64 \<Rightarrow> TxnStates) \<Rightarrow> (bytes list \<Rightarrow> bytes list) \<Rightarrow> (('ty, 'a, 'vec, 'b, 'v, 'd) world, unit) act" where
  "store_check env later order w =
     (case ts_warChecker (w_store w) of
        None \<Rightarrow> (Ok (), w)
      | Some (d, c) \<Rightarrow> (check env later (entries (cat_dir (w_cat w)) d) order c, w))"

definition opt_path :: "u64 option \<Rightarrow> path list" where
  "opt_path e = (case e of None \<Rightarrow> [] | Some i \<Rightarrow> [PDB i])"

text \<open>The command of the database entry: the created one, else the dropped one.\<close>

definition collect_db :: "(('ty, 'a, 'vec, 'b, 'v, 'd) world, unit) act" where
  "collect_db w =
     (case (case ts_createEntry (w_store w) of None \<Rightarrow> ts_dropEntry (w_store w) | Some i \<Rightarrow> Some i) of
        None \<Rightarrow> (Ok (), w)
      | Some i \<Rightarrow>
          (case entries (cat_dir (w_cat w)) i of
             None \<Rightarrow> (Panic, w)
           | Some d \<Rightarrow> (Ok (), w_store_update (ts_cmdMgr_update (add_cmd (\<lambda>k. DB_MakeCommand k d))) w)))"

text \<open>The record of the transaction is appended to the log; failing to encode or append it panics.\<close>

definition log_record ::
  "('v, 'b, 'n, 'ty, 'vec list, 'vec) log_ops \<Rightarrow> 'd driver \<Rightarrow> (('ty, 'a, 'vec, 'b, 'v, 'd) world, unit) act" where
  "log_record L D w =
     (case ApplyTxnRecord L (\<lambda>buf. res_bind (dr_Append D (w_drv w) GroupC buf) (\<lambda>(lsn, d). Ok lsn)) (ts_cmdMgr (w_store w)) of
        Ok (Some buf) \<Rightarrow>
          (case dr_Append D (w_drv w) GroupC buf of
             Ok (lsn, d) \<Rightarrow> (Ok (), w_store_update (ts_logs_update (\<lambda>l. l @ [buf])) (w\<lparr>w_drv := d\<rparr>))
           | _ \<Rightarrow> (Panic, w))
      | Ok None \<Rightarrow> (Ok (), w)
      | _ \<Rightarrow> (Panic, w))"

text \<open>
  \<open>is\<close> and \<open>js\<close> are the orders of the two iterations over the tables.  No step behind the check returns an error:
  it succeeds or panics.
\<close>

definition Store_PrepareCommit ::
  "('v, 'b, 'n, 'ty, 'vec list, 'vec) log_ops \<Rightarrow> 'd driver \<Rightarrow> txn_env \<Rightarrow> (u64 \<Rightarrow> TxnStates) \<Rightarrow> (bytes list \<Rightarrow> bytes list)
     \<Rightarrow> u64 list \<Rightarrow> u64 list \<Rightarrow> (('ty, 'a, 'vec, 'b, 'v, 'd) world, unit) act" where
  "Store_PrepareCommit L D env later order is js =
     act_bind (store_check env later order) (\<lambda>_.
     act_bind (\<lambda>w. (Ok (), w\<lparr>w_cat := fold (base_upd (PrepareCommit env)) (opt_path (ts_createEntry (w_store w))) (w_cat w)\<rparr>)) (\<lambda>_.
     act_bind (for_each (Table_PrepareCommit env) is) (\<lambda>_.
     act_bind (\<lambda>w. (Ok (), w\<lparr>w_cat := fold (base_upd (PrepareCommit env)) (opt_path (ts_dropEntry (w_store w))) (w_cat w)\<rparr>)) (\<lambda>_.
     act_bind collect_db (\<lambda>_.
     act_bind (for_each (CollectCmd L D) js) (\<lambda>_.
       log_record L D))))))"

text \<open>The log entries are waited for and freed, then the created database and the tables are applied.\<close>

definition Store_ApplyCommit :: "u64 list \<Rightarrow> (('ty, 'a, 'vec, 'b, 'v, 'd) world, unit) act" where
  "Store_ApplyCommit is =
     act_bind (\<lambda>w. (Ok (), w\<lparr>w_cat := fold (base_upd ApplyCommit) (opt_path (ts_createEntry (w_store w))) (w_cat w)\<rparr>)) (\<lambda>_.
       for_each Table_ApplyCommit is)"

section \<open>Rollback\<close>

definition Table_PrepareRollback :: "u64 \<Rightarrow> (('ty, 'a, 'vec, 'b, 'v, 'd) world, unit) act" where
  "Table_PrepareRollback i w =
     (case ts_tables (w_store w) i of
        None \<Rightarrow> (Panic, w)
      | Some tbl \<Rightarrow>
          act_bind (\<lambda>w. if \<not> tt_createEntry tbl then (Ok (), w)
             else case (entries (cat_dir (w_cat w)) (tt_db tbl), table_at (tt_db tbl) i (w_cat w)) of
                    (Some db, Some tb) \<Rightarrow>
                      (case DB_RemoveEntry tb db of
                         Ok db' \<Rightarrow> (Ok (), w_cat_update (cat_dir_update (put_entry (tt_db tbl) db')) w)
                       | Err e \<Rightarrow> (Err e, w)
                       | Panic \<Rightarrow> (Panic, w))
                  | _ \<Rightarrow> (Panic, w))
            (\<lambda>_ w. (Ok (), if tt_createEntry tbl \<or> tt_dropEntry tbl then w_cat_update (base_upd PrepareRollback (PTbl (tt_db tbl) i)) w else w)) w)"

text \<open>With a dropped database the entry of a created one is used, which is nil.\<close>

definition Store_PrepareRollback :: "u64 list \<Rightarrow> (('ty, 'a, 'vec, 'b, 'v, 'd) world, unit) act" where
  "Store_PrepareRollback is =
     act_bind (\<lambda>w.
       case ts_createEntry (w_store w) of
         Some i \<Rightarrow>
           (case entries (cat_dir (w_cat w)) i of
              None \<Rightarrow> (Panic, w)
            | Some d \<Rightarrow>
                (case Catalog_RemoveEntry d (w_cat w) of
                   Ok c \<Rightarrow> (Ok (), w\<lparr>w_cat := c\<rparr>)
                 | Err e \<Rightarrow> (Err e, w)
                 | Panic \<Rightarrow> (Panic, w)))
       | None \<Rightarrow> (if ts_dropEntry (w_store w) \<noteq> None then Panic else Ok (), w))
     (\<lambda>_. for_each Table_PrepareRollback is)"

section \<open>Lemmas: entries by path\<close>

lemma upd_map_apply [simp]: "upd_map k f m k' = (if k' = k then map_option f (m k) else m k')"
  by (simp add: upd_map_def)

lemma table_at_upd:
  "table_at d' t' (table_upd d t f c) = (if d' = d \<and> t' = t then map_option f (table_at d t c) else table_at d' t' c)"
  by (auto simp: table_at_def table_upd_def upd_entry_def split: Option.bind_splits)

lemma entries_table_upd:
  "map_option db_base (entries (cat_dir (table_upd d t f c)) i) = map_option db_base (entries (cat_dir c) i)"
  by (auto simp: table_upd_def upd_entry_def option.map_comp comp_def)

lemma table_at_db_upd: "table_at d t (c\<lparr>cat_dir := upd_entry i (db_base_update f) (cat_dir c)\<rparr>) = table_at d t c"
  by (auto simp: table_at_def upd_entry_def split: Option.bind_splits)

lemma entries_upd_entry [simp]: "entries (upd_entry i f d) = upd_map i f (entries d)"
  by (simp add: upd_entry_def)

lemma base_at_upd: "base_at p (base_upd f q c) = (if p = q then map_option f (base_at p c) else base_at p c)"
proof (cases q)
  case (PDB i)
  then show ?thesis by (cases p) (auto simp: table_at_db_upd option.map_comp comp_def)
next
  case (PTbl d t)
  then show ?thesis by (cases p) (auto simp: entries_table_upd table_at_upd option.map_comp comp_def split: Option.bind_splits)
next
  case (PSeg d t s)
  then show ?thesis by (cases p) (auto simp: entries_table_upd table_at_upd option.map_comp comp_def split: Option.bind_splits)
next
  case (PBlk d t s b)
  then show ?thesis by (cases p) (auto simp: entries_table_upd table_at_upd option.map_comp comp_def split: Option.bind_splits)
qed

text \<open>An idempotent change of many entries.\<close>

lemma base_at_fold:
  assumes "\<And>b. f (f b) = f b"
  shows "base_at p (fold (base_upd f) ps c) = (if p \<in> set ps then map_option f (base_at p c) else base_at p c)"
  by (induction ps arbitrary: c) (auto simp: base_at_upd option.map_comp comp_def assms)

lemma PrepareCommit_idem [simp]: "PrepareCommit env (PrepareCommit env b) = PrepareCommit env b"
  by (simp add: PrepareCommit_def Let_def)

lemma ApplyCommit_idem [simp]: "ApplyCommit (ApplyCommit b) = ApplyCommit b"
  by (simp add: ApplyCommit_def)

section \<open>Lemmas: the phases\<close>

text \<open>What a transaction table has written.\<close>

definition owns :: "u64 \<Rightarrow> ('vec, 'b, 'v, 'ty) tableTxn \<Rightarrow> path \<Rightarrow> bool" where
  "owns i tbl p =
     (case p of
        PDB d \<Rightarrow> False
      | PTbl d t \<Rightarrow> d = tt_db tbl \<and> t = i \<and> (tt_createEntry tbl \<or> tt_dropEntry tbl)
      | PSeg d t s \<Rightarrow> d = tt_db tbl \<and> t = i \<and> s \<in> set (tt_csegs tbl)
      | PBlk d t s b \<Rightarrow> d = tt_db tbl \<and> t = i \<and> (s, b) \<in> set (tt_cblks tbl))"

lemma owns_table_paths: "owns i tbl p \<longleftrightarrow> p \<in> set (table_paths i tbl)"
  by (auto simp: owns_def table_paths_def split: path.splits if_splits)

text \<open>The entries that a phase changes: those of the tables whose entry was not created and dropped at once.\<close>

definition phase_paths :: "('ty, 'a, 'vec, 'b, 'v, 'd) world \<Rightarrow> u64 list \<Rightarrow> path set" where
  "phase_paths w is =
     {p. \<exists>i tbl b. i \<in> set is \<and> ts_tables (w_store w) i = Some tbl \<and> base_at (PTbl (tt_db tbl) i) (w_cat w) = Some b
        \<and> \<not> CreateAndDropInSameTxn b \<and> owns i tbl p}"

lemmas phase_paths_alt = phase_paths_def [unfolded owns_table_paths]

definition tables_there :: "('ty, 'a, 'vec, 'b, 'v, 'd) world \<Rightarrow> u64 list \<Rightarrow> bool" where
  "tables_there w is \<longleftrightarrow>
     distinct is \<and> (\<forall>i \<in> set is. \<exists>tbl. ts_tables (w_store w) i = Some tbl \<and> base_at (PTbl (tt_db tbl) i) (w_cat w) \<noteq> None)"

lemma table_path_own: "PTbl d j \<in> set (table_paths i tbl) \<Longrightarrow> j = i"
  by (auto simp: table_paths_def split: if_splits)

lemma table_phase_ok:
  assumes "ts_tables (w_store w) i = Some tbl" and "base_at (PTbl (tt_db tbl) i) (w_cat w) = Some b" and "\<And>b. f (f b) = f b"
  shows "\<exists>c. table_phase f i w = (Ok (), w\<lparr>w_cat := c\<rparr>)
    \<and> (\<forall>p. base_at p c = (if \<not> CreateAndDropInSameTxn b \<and> p \<in> set (table_paths i tbl) then map_option f (base_at p (w_cat w)) else base_at p (w_cat w)))"
proof -
  obtain tb where tb: "table_at (tt_db tbl) i (w_cat w) = Some tb" "tbl_base tb = b" using assms(2) by auto
  show ?thesis
  proof (cases "CreateAndDropInSameTxn b")
    case True
    then have "table_phase f i w = (Ok (), w)" using tb assms(1) by (simp add: table_phase_def)
    then show ?thesis using True by (intro exI [of _ "w_cat w"]) simp
  next
    case False
    let ?c = "fold (base_upd f) (table_paths i tbl) (w_cat w)"
    have "table_phase f i w = (Ok (), w\<lparr>w_cat := ?c\<rparr>)" using False tb assms(1) by (simp add: table_phase_def)
    then show ?thesis using False base_at_fold [OF assms(3), where ps = "table_paths i tbl" and c = "w_cat w"] by (intro exI [of _ ?c]) simp
  qed
qed

lemma for_each_phase:
  assumes "\<And>b. f (f b) = f b" and "tables_there w is"
  shows "\<exists>c. for_each (table_phase f) is w = (Ok (), w\<lparr>w_cat := c\<rparr>)
    \<and> (\<forall>p. base_at p c = (if p \<in> phase_paths w is then map_option f (base_at p (w_cat w)) else base_at p (w_cat w)))"
  using assms(2)
proof (induction "is" arbitrary: w)
  case Nil
  then show ?case by (intro exI [of _ "w_cat w"]) (simp add: phase_paths_alt)
next
  case (Cons i "is")
  obtain tbl b where t: "ts_tables (w_store w) i = Some tbl" "base_at (PTbl (tt_db tbl) i) (w_cat w) = Some b"
    using Cons.prems by (auto simp: tables_there_def)
  obtain c1 where c1: "table_phase f i w = (Ok (), w\<lparr>w_cat := c1\<rparr>)"
      "\<And>p. base_at p c1 = (if \<not> CreateAndDropInSameTxn b \<and> p \<in> set (table_paths i tbl) then map_option f (base_at p (w_cat w)) else base_at p (w_cat w))"
    using table_phase_ok [OF t assms(1)] by blast
  have i: "i \<notin> set is" using Cons.prems by (simp add: tables_there_def)
  have same: "base_at (PTbl d j) c1 = base_at (PTbl d j) (w_cat w)" if "j \<in> set is" for d j
    using c1(2) [of "PTbl d j"] that i table_path_own by auto
  have "tables_there (w\<lparr>w_cat := c1\<rparr>) is"
    using Cons.prems same by (auto simp: tables_there_def simp del: base_at.simps)
  from Cons.IH [OF this] obtain c where c: "for_each (table_phase f) is (w\<lparr>w_cat := c1\<rparr>) = (Ok (), w\<lparr>w_cat := c\<rparr>)"
      "\<And>p. base_at p c = (if p \<in> phase_paths (w\<lparr>w_cat := c1\<rparr>) is then map_option f (base_at p c1) else base_at p c1)"
    by auto
  have ph: "phase_paths (w\<lparr>w_cat := c1\<rparr>) is = phase_paths w is"
    using same by (auto simp: phase_paths_alt simp del: base_at.simps)
  have split: "phase_paths w (i # is) = phase_paths w is \<union> (if CreateAndDropInSameTxn b then {} else set (table_paths i tbl))"
    using t by (auto simp: phase_paths_alt simp del: base_at.simps)
  have "base_at p c = (if p \<in> phase_paths w (i # is) then map_option f (base_at p (w_cat w)) else base_at p (w_cat w))" for p
    using c(2) [of p] c1(2) [of p] unfolding ph split by (auto simp: option.map_comp comp_def assms(1))
  moreover have "for_each (table_phase f) (i # is) w = (Ok (), w\<lparr>w_cat := c\<rparr>)" using c1(1) c(1) by (simp add: act_bind_def)
  ultimately show ?case by blast
qed

text \<open>Writing the log changes neither the catalog nor what the transaction tables have created.\<close>

definition tbl_meta :: "('vec, 'b, 'v, 'ty) tableTxn \<Rightarrow> u64 \<times> bool \<times> bool \<times> u64 list \<times> (u64 \<times> u64) list" where
  "tbl_meta tbl = (tt_db tbl, tt_createEntry tbl, tt_dropEntry tbl, tt_csegs tbl, tt_cblks tbl)"

definition same_meta :: "('ty, 'a, 'vec, 'b, 'v, 'd) world \<Rightarrow> ('ty, 'a, 'vec, 'b, 'v, 'd) world \<Rightarrow> bool" where
  "same_meta w w' \<longleftrightarrow>
     w_cat w' = w_cat w \<and> ts_createEntry (w_store w') = ts_createEntry (w_store w) \<and> ts_dropEntry (w_store w') = ts_dropEntry (w_store w)
     \<and> (\<forall>i. map_option tbl_meta (ts_tables (w_store w') i) = map_option tbl_meta (ts_tables (w_store w) i))"

lemma same_meta_refl [simp]: "same_meta w w"
  by (simp add: same_meta_def)

lemma same_meta_trans: "same_meta w1 w2 \<Longrightarrow> same_meta w2 w3 \<Longrightarrow> same_meta w1 w3"
  by (simp add: same_meta_def)

lemma same_meta_table:
  assumes "same_meta w w'" and "ts_tables (w_store w') i = Some tbl'"
  shows "\<exists>tbl. ts_tables (w_store w) i = Some tbl \<and> tt_db tbl' = tt_db tbl \<and> table_paths i tbl' = table_paths i tbl"
proof -
  have m: "map_option tbl_meta (ts_tables (w_store w') i) = map_option tbl_meta (ts_tables (w_store w) i)"
    using assms(1) unfolding same_meta_def by blast
  show ?thesis
  proof (cases "ts_tables (w_store w) i")
    case None
    then show ?thesis using m assms(2) by simp
  next
    case (Some tbl)
    then have "tbl_meta tbl' = tbl_meta tbl" using m assms(2) by simp
    then show ?thesis using Some by (simp add: tbl_meta_def table_paths_def)
  qed
qed

lemma same_meta_sym: "same_meta w w' \<Longrightarrow> same_meta w' w"
  by (simp add: same_meta_def)

lemma phase_paths_le:
  assumes "same_meta w w'"
  shows "phase_paths w' is \<subseteq> phase_paths w is"
  unfolding phase_paths_alt using same_meta_table [OF assms] assms
  by (force simp: same_meta_def simp del: base_at.simps)

lemma same_meta_phase:
  assumes "same_meta w w'"
  shows "phase_paths w' is = phase_paths w is" and "tables_there w is \<Longrightarrow> tables_there w' is"
proof -
  show "phase_paths w' is = phase_paths w is"
    using phase_paths_le [OF assms] phase_paths_le [OF same_meta_sym [OF assms]] by blast
  show "tables_there w' is" if there: "tables_there w is"
    unfolding tables_there_def
  proof (intro conjI ballI)
    show "distinct is" using there by (simp add: tables_there_def)
    fix i assume "i \<in> set is"
    then obtain tbl where t: "ts_tables (w_store w) i = Some tbl" "base_at (PTbl (tt_db tbl) i) (w_cat w) \<noteq> None"
      using there unfolding tables_there_def by blast
    from same_meta_table [OF same_meta_sym [OF assms] t(1)] obtain tbl' where
      "ts_tables (w_store w') i = Some tbl'" "tt_db tbl = tt_db tbl'" by blast
    then show "\<exists>tbl. ts_tables (w_store w') i = Some tbl \<and> base_at (PTbl (tt_db tbl) i) (w_cat w') \<noteq> None"
      using t(2) assms unfolding same_meta_def by metis
  qed
qed

lemma collect_meta: "same_meta w (snd (CollectCmd L D i w))"
  by (auto simp: CollectCmd_def same_meta_def upd_table_def tbl_meta_def Let_def split: option.splits res.splits)

lemma for_each_meta:
  assumes "\<And>i w. same_meta w (snd (f i w))"
  shows "same_meta w (snd (for_each f is w))"
proof (induction "is" arbitrary: w)
  case (Cons i "is")
  obtain r w1 where f: "f i w = (r, w1)" by force
  have "same_meta w w1" using assms [of w i] f by simp
  then show ?case using f Cons.IH [of w1] by (cases r) (auto simp: act_bind_def intro: same_meta_trans)
qed simp

lemma log_meta:
  "same_meta w (snd (collect_db w))" "same_meta w (snd (log_record L D w))"
  by (auto simp: collect_db_def log_record_def same_meta_def split: option.splits res.splits)

lemma logging_meta:
  assumes "act_bind collect_db (\<lambda>_. act_bind (for_each (CollectCmd L D) js) (\<lambda>_. log_record L D)) w = (r, w')"
  shows "same_meta w w'" and "\<nexists>e. r = Err e"
proof -
  obtain r1 w1 where 1: "collect_db w = (r1, w1)" by force
  obtain r2 w2 where 2: "for_each (CollectCmd L D) js w1 = (r2, w2)" by force
  obtain r3 w3 where 3: "log_record L D w2 = (r3, w3)" by force
  have m: "same_meta w w1" "same_meta w1 w2" "same_meta w2 w3"
    using log_meta(1) [of w] log_meta(2) [of w2 L D] for_each_meta [of "CollectCmd L D", OF collect_meta, of w1 js] 1 2 3 by simp_all
  have c: "\<nexists>e. fst (CollectCmd L D i w) = Err e" for i w
    by (auto simp: CollectCmd_def Let_def split: option.splits res.splits)
  have "\<nexists>e. fst (for_each (CollectCmd L D) js w) = Err e" for w
  proof (induction js arbitrary: w)
    case (Cons j js)
    obtain r w' where "CollectCmd L D j w = (r, w')" by force
    then show ?case using c [of j w] Cons.IH [of w'] by (cases r) (simp_all add: act_bind_def)
  qed simp
  from this [of w1] have "\<nexists>e. r2 = Err e" using 2 by simp
  moreover have "\<nexists>e. r1 = Err e" "\<nexists>e. r3 = Err e"
    using 1 3 by (auto simp: collect_db_def log_record_def split: option.splits res.splits)
  moreover have "(r, w') \<in> {(r1, w1), (r2, w2), (r3, w3), (Panic, w1), (Panic, w2)}"
    using assms 1 2 3 calculation by (cases r1; cases r2) (auto simp: act_bind_def)
  ultimately show "same_meta w w'" "\<nexists>e. r = Err e" using m same_meta_trans by blast+
qed

lemma opt_path_phase:
  assumes "\<And>d j. base_at (PTbl d j) c = base_at (PTbl d j) (w_cat w)"
  shows "phase_paths (w\<lparr>w_cat := c\<rparr>) is = phase_paths w is" and "tables_there (w\<lparr>w_cat := c\<rparr>) is = tables_there w is"
  using assms by (simp_all add: phase_paths_alt tables_there_def del: base_at.simps)

lemma opt_path_base:
  "base_at p (fold (base_upd f) (opt_path e) c) = (if p \<in> set (opt_path e) then map_option f (base_at p c) else base_at p c)"
  by (cases e) (simp_all add: opt_path_def base_at_upd del: base_upd.simps base_at.simps)

lemma opt_path_PTbl [simp]: "PTbl d j \<notin> set (opt_path e)"
  by (simp add: opt_path_def split: option.splits)

text \<open>The entries that a prepared commit has stamped.\<close>

definition prepared :: "('ty, 'a, 'vec, 'b, 'v, 'd) world \<Rightarrow> u64 list \<Rightarrow> path set" where
  "prepared w is = set (opt_path (ts_createEntry (w_store w))) \<union> phase_paths w is \<union> set (opt_path (ts_dropEntry (w_store w)))"

lemma Store_PrepareCommit_cases:
  assumes "tables_there w is"
  shows "(\<exists>e. Store_PrepareCommit L D env later order is js w = (Err e, w))
    \<or> (\<exists>w1. Store_PrepareCommit L D env later order is js w = (Panic, w1))
    \<or> (\<exists>w1 c. Store_PrepareCommit L D env later order is js w = (Ok (), w1) \<and> same_meta (w\<lparr>w_cat := c\<rparr>) w1
         \<and> (\<forall>p. base_at p c = (if p \<in> prepared w is then map_option (PrepareCommit env) (base_at p (w_cat w)) else base_at p (w_cat w))))"
proof -
  let ?c0 = "fold (base_upd (PrepareCommit env)) (opt_path (ts_createEntry (w_store w))) (w_cat w)"
  have c0: "phase_paths (w\<lparr>w_cat := ?c0\<rparr>) is = phase_paths w is" "tables_there (w\<lparr>w_cat := ?c0\<rparr>) is"
    using opt_path_phase [of ?c0 w] assms by (simp_all add: opt_path_base del: base_at.simps)
  obtain c1 where c1: "for_each (Table_PrepareCommit env) is (w\<lparr>w_cat := ?c0\<rparr>) = (Ok (), w\<lparr>w_cat := c1\<rparr>)"
      "\<And>p. base_at p c1 = (if p \<in> phase_paths w is then map_option (PrepareCommit env) (base_at p ?c0) else base_at p ?c0)"
    using for_each_phase [of "PrepareCommit env", OF _ c0(2)] unfolding Table_PrepareCommit_def c0(1) by auto
  define c where "c = fold (base_upd (PrepareCommit env)) (opt_path (ts_dropEntry (w_store w))) c1"
  have c: "base_at p c = (if p \<in> prepared w is then map_option (PrepareCommit env) (base_at p (w_cat w)) else base_at p (w_cat w))" for p
    unfolding c_def prepared_def by (auto simp: opt_path_base c1(2) option.map_comp comp_def simp del: base_at.simps)
  obtain r w1 where log: "act_bind collect_db (\<lambda>_. act_bind (for_each (CollectCmd L D) js) (\<lambda>_. log_record L D)) (w\<lparr>w_cat := c\<rparr>) = (r, w1)"
    by force
  note m = logging_meta [OF log]
  obtain rc where rc: "store_check env later order w = (rc, w)"
    by (cases "ts_warChecker (w_store w)") (auto simp: store_check_def case_prod_beta)
  have "Store_PrepareCommit L D env later order is js w = (case rc of Ok _ \<Rightarrow> (r, w1) | Err e \<Rightarrow> (Err e, w) | Panic \<Rightarrow> (Panic, w))"
    using rc c1(1) log by (cases rc) (simp_all add: Store_PrepareCommit_def act_bind_def c_def)
  then show ?thesis using m c by (cases rc; cases r) auto
qed

text \<open>The entries of a commit whose table was not created and dropped by it.\<close>

definition live_paths :: "txn_env \<Rightarrow> ('ty, 'a, 'vec, 'b, 'v, 'd) world \<Rightarrow> u64 list \<Rightarrow> path set" where
  "live_paths env w is =
     set (opt_path (ts_createEntry (w_store w)))
     \<union> {p. \<exists>i tbl b. i \<in> set is \<and> ts_tables (w_store w) i = Some tbl \<and> base_at (PTbl (tt_db tbl) i) (w_cat w) = Some b
          \<and> \<not> CreateAndDropInSameTxn b \<and> \<not> ((tt_createEntry tbl \<or> tt_dropEntry tbl) \<and> CreateAndDropInSameTxn (PrepareCommit env b)) \<and> owns i tbl p}"

lemmas live_paths_alt = live_paths_def [unfolded owns_table_paths]

lemma live_prepared: "live_paths env w is \<subseteq> prepared w is"
  by (auto simp: live_paths_alt prepared_def phase_paths_alt simp del: base_at.simps)

text \<open>After the preparation the second phase finds exactly the live entries.\<close>

lemma phase_after_prepare:
  assumes "\<And>p. base_at p c = (if p \<in> prepared w is then map_option (PrepareCommit env) (base_at p (w_cat w)) else base_at p (w_cat w))"
    and "set is' = set is"
  shows "set (opt_path (ts_createEntry (w_store w))) \<union> phase_paths (w\<lparr>w_cat := c\<rparr>) is' = live_paths env w is"
proof -
  have b: "base_at (PTbl (tt_db tbl) i) c = map_option (if (tt_createEntry tbl \<or> tt_dropEntry tbl) then PrepareCommit env else id) (Some b)"
    if "i \<in> set is" "ts_tables (w_store w) i = Some tbl" "base_at (PTbl (tt_db tbl) i) (w_cat w) = Some b" "\<not> CreateAndDropInSameTxn b" for i tbl b
  proof -
    have "PTbl (tt_db tbl) i \<in> prepared w is \<longleftrightarrow> tt_createEntry tbl \<or> tt_dropEntry tbl"
    proof
      assume "PTbl (tt_db tbl) i \<in> prepared w is"
      then obtain j tbl' where j: "ts_tables (w_store w) j = Some tbl'" "PTbl (tt_db tbl) i \<in> set (table_paths j tbl')"
        by (auto simp: prepared_def phase_paths_alt simp del: base_at.simps)
      then have "j = i" using table_path_own by metis
      then show "tt_createEntry tbl \<or> tt_dropEntry tbl" using j that(2) by (auto simp: table_paths_def split: if_splits)
    next
      assume "tt_createEntry tbl \<or> tt_dropEntry tbl"
      then have "PTbl (tt_db tbl) i \<in> set (table_paths i tbl)" by (simp add: table_paths_def)
      then show "PTbl (tt_db tbl) i \<in> prepared w is" using that by (auto simp: prepared_def phase_paths_alt simp del: base_at.simps)
    qed
    then show ?thesis using assms(1) [of "PTbl (tt_db tbl) i"] that(3) by (simp del: base_at.simps)
  qed
  have dead: "\<exists>b'. base_at (PTbl (tt_db tbl) i) c = Some b' \<and> CreateAndDropInSameTxn b'"
    if "i \<in> set is" "ts_tables (w_store w) i = Some tbl" "base_at (PTbl (tt_db tbl) i) (w_cat w) = Some b" "CreateAndDropInSameTxn b" for i tbl b
  proof -
    have "PTbl (tt_db tbl) i \<notin> phase_paths w is"
    proof
      assume "PTbl (tt_db tbl) i \<in> phase_paths w is"
      then obtain j tbl' b' where j: "ts_tables (w_store w) j = Some tbl'" "base_at (PTbl (tt_db tbl') j) (w_cat w) = Some b'"
          "\<not> CreateAndDropInSameTxn b'" "PTbl (tt_db tbl) i \<in> set (table_paths j tbl')"
        by (auto simp: phase_paths_alt simp del: base_at.simps)
      then have "j = i" using table_path_own by metis
      then show False using j that(2-4) by (simp del: base_at.simps)
    qed
    then have "PTbl (tt_db tbl) i \<notin> prepared w is" by (simp add: prepared_def)
    then show ?thesis using assms(1) [of "PTbl (tt_db tbl) i"] that(3,4) by (simp del: base_at.simps)
  qed
  have "phase_paths (w\<lparr>w_cat := c\<rparr>) is'
      = {p. \<exists>i tbl b. i \<in> set is \<and> ts_tables (w_store w) i = Some tbl \<and> base_at (PTbl (tt_db tbl) i) (w_cat w) = Some b
          \<and> \<not> CreateAndDropInSameTxn b \<and> \<not> ((tt_createEntry tbl \<or> tt_dropEntry tbl) \<and> CreateAndDropInSameTxn (PrepareCommit env b)) \<and> p \<in> set (table_paths i tbl)}"
    (is "?A = ?B")
  proof
    show "?B \<subseteq> ?A"
    proof
      fix p assume "p \<in> ?B"
      then obtain i tbl b' where i: "i \<in> set is" "ts_tables (w_store w) i = Some tbl" "base_at (PTbl (tt_db tbl) i) (w_cat w) = Some b'"
          "\<not> CreateAndDropInSameTxn b'" "\<not> ((tt_createEntry tbl \<or> tt_dropEntry tbl) \<and> CreateAndDropInSameTxn (PrepareCommit env b'))" "p \<in> set (table_paths i tbl)"
        by blast
      then show "p \<in> ?A" using b [OF i(1-4)] assms(2) unfolding phase_paths_alt
        by (cases "tt_createEntry tbl \<or> tt_dropEntry tbl") (auto simp del: base_at.simps)
    qed
    show "?A \<subseteq> ?B"
    proof
      fix p assume "p \<in> ?A"
      then obtain i tbl b1 where i: "i \<in> set is" "ts_tables (w_store w) i = Some tbl" "base_at (PTbl (tt_db tbl) i) c = Some b1"
          "\<not> CreateAndDropInSameTxn b1" "p \<in> set (table_paths i tbl)"
        using assms(2) by (auto simp: phase_paths_alt simp del: base_at.simps)
      obtain b0 where b0: "base_at (PTbl (tt_db tbl) i) (w_cat w) = Some b0"
        using i(3) assms(1) [of "PTbl (tt_db tbl) i"] by (auto split: if_splits simp del: base_at.simps)
      have nd: "\<not> CreateAndDropInSameTxn b0" using dead [OF i(1,2) b0] i(3,4) by auto
      then have "\<not> ((tt_createEntry tbl \<or> tt_dropEntry tbl) \<and> CreateAndDropInSameTxn (PrepareCommit env b0))"
        using b [OF i(1,2) b0 nd] i(3,4) by (auto simp del: base_at.simps)
      then show "p \<in> ?B" using i b0 nd by blast
    qed
  qed
  then show ?thesis by (simp add: live_paths_alt)
qed

lemma Store_ApplyCommit_ok:
  assumes "tables_there w is"
  shows "\<exists>c. Store_ApplyCommit is w = (Ok (), w\<lparr>w_cat := c\<rparr>)
    \<and> (\<forall>p. base_at p c = (if p \<in> set (opt_path (ts_createEntry (w_store w))) \<union> phase_paths w is then map_option ApplyCommit (base_at p (w_cat w))
         else base_at p (w_cat w)))"
proof -
  let ?c0 = "fold (base_upd ApplyCommit) (opt_path (ts_createEntry (w_store w))) (w_cat w)"
  have c0: "phase_paths (w\<lparr>w_cat := ?c0\<rparr>) is = phase_paths w is" "tables_there (w\<lparr>w_cat := ?c0\<rparr>) is"
    using opt_path_phase [of ?c0 w] assms by (simp_all add: opt_path_base del: base_at.simps)
  obtain c where c: "for_each Table_ApplyCommit is (w\<lparr>w_cat := ?c0\<rparr>) = (Ok (), w\<lparr>w_cat := c\<rparr>)"
      "\<And>p. base_at p c = (if p \<in> phase_paths w is then map_option ApplyCommit (base_at p ?c0) else base_at p ?c0)"
    using for_each_phase [of ApplyCommit, OF _ c0(2)] unfolding Table_ApplyCommit_def c0(1) by auto
  have "base_at p c = (if p \<in> set (opt_path (ts_createEntry (w_store w))) \<union> phase_paths w is then map_option ApplyCommit (base_at p (w_cat w))
      else base_at p (w_cat w))" for p
    by (auto simp: c(2) opt_path_base option.map_comp comp_def simp del: base_at.simps)
  then show ?thesis using c(1) by (intro exI [of _ c]) (simp add: Store_ApplyCommit_def act_bind_def)
qed

text \<open>An entry that its transaction has created and that is not yet stamped.\<close>

definition created_by :: "u64 \<Rightarrow> BaseEntry \<Rightarrow> bool" where
  "created_by t b \<longleftrightarrow> CurrOp b = OpCreate \<and> be_Txn b = Some t \<and> CreateAt b = 0 \<and> DeleteAt b = 0"

lemma commit_visible:
  assumes "created_by t b" and "CommitTS (env t) \<noteq> 0"
  shows "TxnCanRead env' later' (Some r) (ApplyCommit (PrepareCommit env b)) \<longleftrightarrow> CommitTS (env t) \<le> StartTS (env' r)"
  using assms
  by (auto simp: created_by_def TxnCanRead_def ApplyCommit_def PrepareCommit_def HasActiveTxn_def CreateAfter_def DeleteBefore_def Let_def not_less)

section \<open>What a commit publishes\<close>

lemma commit_cases:
  fixes w :: "('ty, 'a, 'vec, 'b, 'v, 'd) world"
  assumes "tables_there w is" and "set is = dom (ts_tables (w_store w))" and "distinct is'" and "set is' = set is"
  shows "case Store_PrepareCommit L D env later order is js w of
      (Err e, w1) \<Rightarrow> w1 = w
    | (Panic, w1) \<Rightarrow> True
    | (Ok _, w1) \<Rightarrow>
        \<exists>w2. Store_ApplyCommit is' w1 = (Ok (), w2)
          \<and> (\<forall>p. p \<notin> prepared w is \<longrightarrow> base_at p (w_cat w2) = base_at p (w_cat w))
          \<and> (\<forall>p b. p \<in> live_paths env w is \<and> base_at p (w_cat w) = Some b \<longrightarrow>
               base_at p (w_cat w2) = Some (ApplyCommit (PrepareCommit env b))
               \<and> (\<forall>t. created_by t b \<and> CommitTS (env t) \<noteq> 0 \<longrightarrow>
                    (\<forall>env' later' r. TxnCanRead env' later' (Some r) (ApplyCommit (PrepareCommit env b)) \<longleftrightarrow> CommitTS (env t) \<le> StartTS (env' r))))
          \<and> (\<forall>d b. ts_dropEntry (w_store w) = Some d \<and> ts_createEntry (w_store w) \<noteq> Some d \<and> base_at (PDB d) (w_cat w) = Some b \<longrightarrow>
               base_at (PDB d) (w_cat w2) = Some (PrepareCommit env b))"
  using Store_PrepareCommit_cases [OF assms(1), of L D env later order js]
proof (elim disjE exE conjE)
  fix w1 c
  assume ok: "Store_PrepareCommit L D env later order is js w = (Ok (), w1)" and m: "same_meta (w\<lparr>w_cat := c\<rparr>) w1"
    and c: "\<forall>p. base_at p c = (if p \<in> prepared w is then map_option (PrepareCommit env) (base_at p (w_cat w)) else base_at p (w_cat w))"
  have live: "set (opt_path (ts_createEntry (w_store w))) \<union> phase_paths (w\<lparr>w_cat := c\<rparr>) is' = live_paths env w is"
    using c assms(4) by (intro phase_after_prepare) blast+
  have cat: "w_cat w1 = c" "ts_createEntry (w_store w1) = ts_createEntry (w_store w)" using m by (simp_all add: same_meta_def)
  have "tables_there (w\<lparr>w_cat := c\<rparr>) is'"
  proof -
    have "base_at p c \<noteq> None" if "base_at p (w_cat w) \<noteq> None" for p using c that by simp
    then show ?thesis using assms(1,3,4) by (fastforce simp: tables_there_def simp del: base_at.simps)
  qed
  from Store_ApplyCommit_ok [OF same_meta_phase(2) [OF m this]] obtain c2 where c2: "Store_ApplyCommit is' w1 = (Ok (), w1\<lparr>w_cat := c2\<rparr>)"
      "\<And>p. base_at p c2 = (if p \<in> live_paths env w is then map_option ApplyCommit (base_at p c) else base_at p c)"
    unfolding cat same_meta_phase(1) [OF m] live by blast
  have other: "base_at p c2 = base_at p (w_cat w)" if "p \<notin> prepared w is" for p
    using c c2(2) [of p] that live_prepared [of env w "is"] by (auto simp del: base_at.simps)
  have own: "base_at p c2 = Some (ApplyCommit (PrepareCommit env b))" if "p \<in> live_paths env w is" "base_at p (w_cat w) = Some b" for p b
    using c c2(2) [of p] that live_prepared [of env w "is"] by (auto simp del: base_at.simps)
  have drop: "base_at (PDB d) c2 = Some (PrepareCommit env b)"
    if d: "ts_dropEntry (w_store w) = Some d" "ts_createEntry (w_store w) \<noteq> Some d" "base_at (PDB d) (w_cat w) = Some b" for d b
  proof -
    have "PDB d \<notin> set (table_paths i tbl)" for i and tbl :: "('vec, 'b, 'v, 'ty) tableTxn"
      by (auto simp: table_paths_def split: if_splits)
    then have "PDB d \<notin> live_paths env w is" using d(2) by (auto simp: live_paths_alt opt_path_def split: option.splits simp del: base_at.simps)
    moreover have "PDB d \<in> prepared w is" using d(1) by (simp add: prepared_def opt_path_def)
    ultimately show ?thesis using c c2(2) [of "PDB d"] d(3) by (simp del: base_at.simps)
  qed
  show ?thesis unfolding ok prod.case res.case
    using c2(1) other own drop by (intro exI [of _ "w1\<lparr>w_cat := c2\<rparr>"]) (simp del: base_at.simps add: commit_visible)
qed simp_all

text \<open>
  C10. A commit is all or nothing, and publishes what the transaction wrote.  \<open>PrepareCommit\<close> of the store returns an error only from the
  conflict check, before it has changed anything.  When it succeeds, \<open>ApplyCommit\<close> always succeeds; then the catalog entries of other
  transactions are as before; the database, tables, segments and blocks that the transaction created or dropped are stamped with its
  commit timestamp and no longer belong to a transaction, except for a table created and dropped in the same transaction and what belongs to it; and each
  created one is visible to exactly the readers that start at the commit timestamp or later.  A dropped database is stamped but
  never released: it still belongs to the transaction.  The orders in which the tables are iterated do not matter.
\<close>

theorem commit_publishes:
  fixes w :: "('ty, 'a, 'vec, 'b, 'v, 'd) world"
  assumes "tables_there w is" and "set is = dom (ts_tables (w_store w))" and "distinct is'" and "set is' = set is"
  shows "case Store_PrepareCommit L D env later order is js w of
      (Err e, w1) \<Rightarrow> w1 = w
    | (Panic, w1) \<Rightarrow> True
    | (Ok _, w1) \<Rightarrow>
        \<exists>w2. Store_ApplyCommit is' w1 = (Ok (), w2)
          \<and> (\<forall>p. p \<notin> prepared w is \<longrightarrow> base_at p (w_cat w2) = base_at p (w_cat w))
          \<and> (\<forall>p b. p \<in> live_paths env w is \<and> base_at p (w_cat w) = Some b \<longrightarrow>
               base_at p (w_cat w2) = Some (ApplyCommit (PrepareCommit env b))
               \<and> (\<forall>t. created_by t b \<and> CommitTS (env t) \<noteq> 0 \<longrightarrow>
                    (\<forall>env' later' r. TxnCanRead env' later' (Some r) (ApplyCommit (PrepareCommit env b)) \<longleftrightarrow> CommitTS (env t) \<le> StartTS (env' r))))
          \<and> (\<forall>d b. ts_dropEntry (w_store w) = Some d \<and> ts_createEntry (w_store w) \<noteq> Some d \<and> base_at (PDB d) (w_cat w) = Some b \<longrightarrow>
               base_at (PDB d) (w_cat w2) = Some (PrepareCommit env b))"
  by (rule commit_cases [OF assms])


definition demo_schema :: "unit Schema" where
  "demo_schema = zero_Schema\<lparr>sc_Name := ''t'', ColDefs := [\<lparr>cd_Name = ''a'', cd_Idx = 0, cd_Type = ()\<rparr>]\<rparr>"

definition demo_start :: "(unit, IdAlloctor, u8, u32 list, u8, bytes list) world" where
  "demo_start = \<lparr>w_cat = MockCatalog \<lparr>alloc_id = 0\<rparr>, w_data = Map.empty, w_drv = [], w_store = newStore False False 7\<rparr>"

definition demo_world :: "(unit, IdAlloctor, u8, u32 list, u8, bytes list) world" where
  "demo_world = snd (CreateRelation Alloc demo_commit demo_schema (snd (CreateDatabase Alloc demo_commit ''db'' demo_start)))"

lemmas store_eval = CreateRelation_def CreateDatabase_def act_bind_def store_db_def getOrSetTable_def SetCreateEntry_def CreateDBEntry_def
  CreateTableEntry_def NewDBEntry_def NewTableEntry_def NextDB_def NextTable_def addEntryLocked_def newStore_def MockCatalog_def NewIDAllocator_def
  empty_dir_def put_db_def put_entry_def set_database_def upd_table_def upd_checker_def GetTableEntryByID_def newTxnTable_def new_base_def sink_def
  tbl_name_def Alloc_def readDBVar_def readSymbol_def newWarChecker_def Let_def

lemma demo_world_eq:
  "demo_world =
     (let tb = \<lparr>tbl_base = new_base 1 (Some 7), tbl_db = 1, tbl_schema = demo_schema, tbl_entries = Map.empty, tbl_link = []\<rparr>;
          d = \<lparr>db_base = new_base 1 (Some 7), db_name = ''db'', db_dir = \<lparr>entries = [1 \<mapsto> tb], nameNodes = [''t'' \<mapsto> [1]], link = [1]\<rparr>\<rparr>
      in demo_start\<lparr>w_cat := \<lparr>cat_alloc = \<lparr>dbAlloc = \<lparr>alloc_id = 1\<rparr>, tblAlloc = \<lparr>alloc_id = 1\<rparr>, segAlloc = \<lparr>alloc_id = 0\<rparr>, blkAlloc = \<lparr>alloc_id = 0\<rparr>\<rparr>,
             cat_dir = \<lparr>entries = [1 \<mapsto> d], nameNodes = [''db'' \<mapsto> [1]], link = [1]\<rparr>\<rparr>,
           w_store := (newStore False False 7)\<lparr>ts_tables := [1 \<mapsto> (newTxnTable 1)\<lparr>tt_createEntry := True\<rparr>], ts_database := Some 1, ts_createEntry := Some 1,
             ts_warChecker := Some (1, \<lparr>wc_txn = 7, symTable = [EncodeDB 1]\<rparr>)\<rparr>\<rparr>)"
  by (simp add: demo_world_def demo_start_def demo_schema_def store_eval upd_map_def fun_eq_iff)

lemma demo_prepare: "fst (Store_PrepareCommit demo_log demo_driver demo_commit (\<lambda>_. TxnStateActive) id [1] [1] demo_world) = Ok ()"
  by (simp add: demo_world_eq Let_def Store_PrepareCommit_def act_bind_def store_check_def check_def key_entry_def check_entry_def DeleteBefore_def new_base_def
      Table_PrepareCommit_def table_phase_def table_at_def table_paths_def CreateAndDropInSameTxn_def collect_db_def CollectCmd_def log_record_def
      ApplyTxnRecord_def opt_path_def PrepareCommit_def add_cmd_def AddCmd_def newStore_def newCommandManager_def newTxnTable_def
      table_upd_def upd_table_def demo_start_def demo_commit_def key_kind_defs demo_schema_def)

lemma demo_world_base:
  "base_at (PTbl 1 1) (w_cat demo_world) = Some (new_base 1 (Some 7))" "base_at (PDB 1) (w_cat demo_world) = Some (new_base 1 (Some 7))"
  "ts_tables (w_store demo_world) = [1 \<mapsto> (newTxnTable 1)\<lparr>tt_createEntry := True\<rparr>]"
  by (simp_all add: demo_world_eq Let_def table_at_def)

theorem commit_publishes_witness:
  "\<exists>w1 w2. Store_PrepareCommit demo_log demo_driver demo_commit (\<lambda>_. TxnStateActive) id [1] [1] demo_world = (Ok (), w1)
     \<and> Store_ApplyCommit [1] w1 = (Ok (), w2)
     \<and> (\<exists>b. base_at (PTbl 1 1) (w_cat w2) = Some b \<and> CreateAt b = 9 \<and> be_Txn b = None
          \<and> (\<forall>env' later' r. TxnCanRead env' later' (Some r) b \<longleftrightarrow> 9 \<le> StartTS (env' r)))"
proof -
  have there: "tables_there demo_world [1]"
    using demo_world_base by (simp add: tables_there_def newTxnTable_def del: base_at.simps)
  have live: "PTbl 1 1 \<in> live_paths demo_commit demo_world [1]"
    using demo_world_base
    by (simp add: live_paths_def owns_def newTxnTable_def new_base_def CreateAndDropInSameTxn_def PrepareCommit_def demo_commit_def del: base_at.simps)
  have fresh: "created_by 7 (new_base 1 (Some 7))" "CommitTS (demo_commit 7) = 9" by (simp_all add: created_by_def new_base_def demo_commit_def)
  obtain w1 where w1: "Store_PrepareCommit demo_log demo_driver demo_commit (\<lambda>_. TxnStateActive) id [1] [1] demo_world = (Ok (), w1)"
    using demo_prepare by (metis prod.collapse)
  have "set [1] = dom (ts_tables (w_store demo_world))" by (simp add: demo_world_base)
  from commit_publishes [where is' = "[1]" and L = demo_log and D = demo_driver and env = demo_commit and later = "\<lambda>_. TxnStateActive" and order = id and js = "[1]",
      OF there this]
  obtain w2 where w2: "Store_ApplyCommit [1] w1 = (Ok (), w2)"
      "\<And>p b. p \<in> live_paths demo_commit demo_world [1] \<and> base_at p (w_cat demo_world) = Some b \<longrightarrow>
         base_at p (w_cat w2) = Some (ApplyCommit (PrepareCommit demo_commit b))
         \<and> (\<forall>t. created_by t b \<and> CommitTS (demo_commit t) \<noteq> 0 \<longrightarrow>
              (\<forall>env' later' r. TxnCanRead env' later' (Some r) (ApplyCommit (PrepareCommit demo_commit b)) \<longleftrightarrow> CommitTS (demo_commit t) \<le> StartTS (env' r)))"
    unfolding w1 prod.case res.case by auto
  have "ApplyCommit (PrepareCommit demo_commit (new_base 1 (Some 7)))
      = \<lparr>CurrOp = OpCreate, be_Txn = None, PrevCommit = None, be_ID = 1, CreateAt = 9, DeleteAt = 0\<rparr>"
    by (simp add: ApplyCommit_def PrepareCommit_def new_base_def demo_commit_def)
  then show ?thesis using w1 w2(1) w2(2) [of "PTbl 1 1" "new_base 1 (Some 7)"] live demo_world_base(1) fresh
    by (auto simp del: base_at.simps)
qed

section \<open>Rollback and the log\<close>

text \<open>
  A transaction that has dropped a database, and not created one, cannot be rolled back: \<open>PrepareRollback\<close> takes the entry of
  the created database, which is nil, instead of the dropped one.
\<close>

lemma rollback_of_drop_panics:
  "ts_dropEntry (w_store w) = Some d \<Longrightarrow> ts_createEntry (w_store w) = None \<Longrightarrow> Store_PrepareRollback is w = (Panic, w)"
  by (simp add: Store_PrepareRollback_def act_bind_def)

text \<open>The number of a command, and the commands that a store collects.\<close>

fun cmd_no :: "('v, 'b, 'ty, 'bat) TxnCmd \<Rightarrow> u32" where
  "cmd_no (EntryCmd e) = ec_ID e"
| "cmd_no (AppendCmd i cs) = i"
| "cmd_no (UpdateCmd i u) = i"
| "cmd_no _ = 0"

fun collected :: "('v, 'b, 'ty, 'bat) TxnCmd \<Rightarrow> bool" where
  "collected (EntryCmd e) \<longleftrightarrow> ec_type e \<noteq> CmdCreateTable \<and> ec_type e \<noteq> CmdDropTable"
| "collected (AppendCmd i cs) \<longleftrightarrow> True"
| "collected _ \<longleftrightarrow> False"

definition emits :: "nat \<Rightarrow> ('v, 'b, 'ty, 'bat) commandManager \<Rightarrow> ('v, 'b, 'ty, 'bat) commandManager \<Rightarrow> bool" where
  "emits n m m' \<longleftrightarrow>
     cm_driver m' = cm_driver m \<and> cm_csn m' = cm_csn m + int n
     \<and> (\<exists>cs. cm_cmd m' = cm_cmd m @ cs \<and> length cs = n
          \<and> (\<forall>k < n. cmd_no (cs ! k) = word_of_int (cm_csn m + int k) \<and> collected (cs ! k)))"

lemma emits_none: "emits 0 m m"
  by (simp add: emits_def)

lemma emits_one: "cmd_no c = word_of_int (cm_csn m) \<Longrightarrow> collected c \<Longrightarrow> emits 1 m (AddCmd c m)"
  by (simp add: emits_def AddCmd_def)

lemma emits_trans:
  assumes "emits a m1 m2" and "emits b m2 m3"
  shows "emits (a + b) m1 m3"
proof -
  obtain cs ds where c: "cm_cmd m2 = cm_cmd m1 @ cs" "length cs = a" "\<And>k. k < a \<Longrightarrow> cmd_no (cs ! k) = word_of_int (cm_csn m1 + int k) \<and> collected (cs ! k)"
      "cm_cmd m3 = cm_cmd m2 @ ds" "length ds = b" "\<And>k. k < b \<Longrightarrow> cmd_no (ds ! k) = word_of_int (cm_csn m2 + int k) \<and> collected (ds ! k)"
    using assms by (auto simp: emits_def)
  have "cmd_no ((cs @ ds) ! k) = word_of_int (cm_csn m1 + int k) \<and> collected ((cs @ ds) ! k)" if "k < a + b" for k
    using c(2,3) c(6) [of "k - a"] assms(1) that by (auto simp: nth_append emits_def algebra_simps of_nat_diff)
  then show ?thesis using assms c by (auto simp: emits_def intro!: exI [of _ "cs @ ds"])
qed

lemma emits_fold:
  assumes "\<And>x k. cmd_no (mk x k) = k \<and> collected (mk x k)"
  shows "emits (length xs) m (fold (\<lambda>x. add_cmd (mk x)) xs m)"
proof (induction xs arbitrary: m)
  case (Cons x xs)
  have "emits 1 m (add_cmd (mk x) m)" unfolding add_cmd_def using assms by (intro emits_one) auto
  from emits_trans [OF this Cons.IH] show ?case by simp
qed (simp add: emits_none)

lemma entry_commands [simp]:
  "cmd_no (DB_MakeCommand k d) = k" "collected (DB_MakeCommand k d)"
  "cmd_no (Segment_MakeCommand k d tb sg) = k" "collected (Segment_MakeCommand k d tb sg)"
  "cmd_no (Block_MakeCommand k d tb sg bk) = k" "collected (Block_MakeCommand k d tb sg bk)"
  by (auto simp: DB_MakeCommand_def Segment_MakeCommand_def Block_MakeCommand_def newDBCmd_def newSegmentCmd_def newBlockCmd_def cmd_defs)

lemma Node_MakeCommand_emits:
  assumes "Node_MakeCommand L D tys k force d n = Ok (cmd, entry, d', n')"
  shows "case cmd of None \<Rightarrow> in_data n = None | Some c \<Rightarrow> in_data n \<noteq> None \<and> cmd_no c = k \<and> collected c"
  using assms by (auto simp: Node_MakeCommand_def Let_def split: if_splits)

lemma collect_nodes_emits:
  "collect_nodes L D tys ns d m = Ok (ns', logs, d', m') \<Longrightarrow> emits (length (filter (\<lambda>n. in_data n \<noteq> None) ns)) m m'"
proof (induction ns arbitrary: d m ns' logs m')
  case Nil
  then show ?case by (simp add: emits_none)
next
  case (Cons n ns)
  obtain cmd entry d1 n1 where n: "Node_MakeCommand L D tys (word_of_int (cm_csn m)) (ns \<noteq> []) d n = Ok (cmd, entry, d1, n1)"
    using Cons.prems by (auto split: res.splits)
  let ?m = "case cmd of None \<Rightarrow> m | Some c \<Rightarrow> AddCmd c m"
  obtain ns1 logs1 where r: "collect_nodes L D tys ns d1 ?m = Ok (ns1, logs1, d', m')" using Cons.prems n by auto
  have "emits (if in_data n = None then 0 else 1) m ?m"
    using Node_MakeCommand_emits [OF n] by (cases cmd) (auto simp: emits_none emits_one [simplified])
  from emits_trans [OF this Cons.IH [OF r]] show ?case by (cases "in_data n") simp_all
qed

text \<open>What a transaction table puts into the log: its segments, its blocks and its nodes with rows.\<close>

definition cmd_count :: "('vec, 'b, 'v, 'ty) tableTxn \<Rightarrow> nat" where
  "cmd_count tbl = length (tt_csegs tbl) + length (tt_cblks tbl) + length (filter (\<lambda>n. in_data n \<noteq> None) (tt_inodes tbl))"

lemma CollectCmd_emits:
  assumes "CollectCmd L D i w = (Ok (), w')"
  shows "\<exists>tbl. ts_tables (w_store w) i = Some tbl \<and> emits (cmd_count tbl) (ts_cmdMgr (w_store w)) (ts_cmdMgr (w_store w'))
    \<and> ts_logs (w_store w') = ts_logs (w_store w) \<and> (\<forall>j. j \<noteq> i \<longrightarrow> ts_tables (w_store w') j = ts_tables (w_store w) j)"
proof -
  obtain tbl where tbl: "ts_tables (w_store w) i = Some tbl" using assms by (auto simp: CollectCmd_def split: option.splits)
  then obtain db tb where e: "entries (cat_dir (w_cat w)) (tt_db tbl) = Some db" "table_at (tt_db tbl) i (w_cat w) = Some tb"
    using assms by (auto simp: CollectCmd_def split: option.splits)
  define sgs where "sgs s = the (tbl_entries tb s)" for s
  define m1 where "m1 = fold (\<lambda>s. add_cmd (\<lambda>k. Segment_MakeCommand k db tb (sgs s))) (tt_csegs tbl) (ts_cmdMgr (w_store w))"
  define m2 where "m2 = fold (\<lambda>(s, b). add_cmd (\<lambda>k. Block_MakeCommand k db tb (sgs s) (the (seg_entries (sgs s) b)))) (tt_cblks tbl) m1"
  obtain ns logs d m where c: "collect_nodes L D (map cd_Type (ColDefs (tbl_schema tb))) (tt_inodes tbl) (w_drv w) m2 = Ok (ns, logs, d, m)"
      "w' = upd_table i (\<lambda>tbl. tbl\<lparr>tt_inodes := ns, tt_logs := tt_logs tbl @ logs\<rparr>) (w_store_update (ts_cmdMgr_update (\<lambda>_. m)) (w\<lparr>w_drv := d\<rparr>))"
    using assms tbl e unfolding CollectCmd_def Let_def m1_def m2_def sgs_def by (auto split: res.splits)
  have "emits (length (tt_csegs tbl)) (ts_cmdMgr (w_store w)) m1" unfolding m1_def by (intro emits_fold) simp
  moreover have "emits (length (tt_cblks tbl)) m1 m2"
    unfolding m2_def case_prod_beta' by (intro emits_fold) simp
  ultimately have "emits (cmd_count tbl) (ts_cmdMgr (w_store w)) m"
    unfolding cmd_count_def using emits_trans collect_nodes_emits [OF c(1)] by blast
  then show ?thesis using tbl c(2) by (simp add: upd_table_def)
qed

lemma collect_all_emits:
  assumes "for_each (CollectCmd L D) js w = (Ok (), w')" and "distinct js"
  shows "emits (\<Sum>i\<leftarrow>js. cmd_count (the (ts_tables (w_store w) i))) (ts_cmdMgr (w_store w)) (ts_cmdMgr (w_store w'))
    \<and> ts_logs (w_store w') = ts_logs (w_store w)"
  using assms
proof (induction js arbitrary: w)
  case Nil
  then show ?case by (simp add: emits_none)
next
  case (Cons j js)
  obtain w1 where w1: "CollectCmd L D j w = (Ok (), w1)" "for_each (CollectCmd L D) js w1 = (Ok (), w')"
    using Cons.prems(1) by (auto simp: act_bind_def split: prod.splits res.splits)
  from CollectCmd_emits [OF w1(1)] obtain tbl where t: "ts_tables (w_store w) j = Some tbl"
      "emits (cmd_count tbl) (ts_cmdMgr (w_store w)) (ts_cmdMgr (w_store w1))" "ts_logs (w_store w1) = ts_logs (w_store w)"
      "\<And>i. i \<noteq> j \<Longrightarrow> ts_tables (w_store w1) i = ts_tables (w_store w) i" by blast
  have same: "(\<Sum>i\<leftarrow>js. cmd_count (the (ts_tables (w_store w1) i))) = (\<Sum>i\<leftarrow>js. cmd_count (the (ts_tables (w_store w) i)))"
    using Cons.prems(2) by (intro arg_cong [where f = sum_list] map_cong refl) (metis distinct.simps(2) t(4))
  have "emits (\<Sum>i\<leftarrow>js. cmd_count (the (ts_tables (w_store w) i))) (ts_cmdMgr (w_store w1)) (ts_cmdMgr (w_store w'))
      \<and> ts_logs (w_store w') = ts_logs (w_store w1)"
    using Cons.IH [OF w1(2)] Cons.prems(2) unfolding same by simp
  then show ?case using emits_trans [OF t(2)] t(1,3) by simp
qed

text \<open>The steps before the log do not touch the command manager, the tables or the log entries.\<close>

lemma prepare_steps:
  assumes "tables_there w is" and "Store_PrepareCommit L D env later order is js w = (Ok (), w1)"
  shows "\<exists>c w2 w3. collect_db (w\<lparr>w_cat := c\<rparr>) = (Ok (), w2) \<and> for_each (CollectCmd L D) js w2 = (Ok (), w3) \<and> log_record L D w3 = (Ok (), w1)"
proof -
  let ?c0 = "fold (base_upd (PrepareCommit env)) (opt_path (ts_createEntry (w_store w))) (w_cat w)"
  have "tables_there (w\<lparr>w_cat := ?c0\<rparr>) is" using opt_path_phase [of ?c0 w] assms(1) by (simp add: opt_path_base del: base_at.simps)
  then obtain c1 where c1: "for_each (Table_PrepareCommit env) is (w\<lparr>w_cat := ?c0\<rparr>) = (Ok (), w\<lparr>w_cat := c1\<rparr>)"
    using for_each_phase [of "PrepareCommit env"] unfolding Table_PrepareCommit_def by fastforce
  obtain rc where rc: "store_check env later order w = (rc, w)"
    by (cases "ts_warChecker (w_store w)") (auto simp: store_check_def case_prod_beta)
  then have "rc = Ok ()" using assms(2) by (cases rc) (simp_all add: Store_PrepareCommit_def act_bind_def)
  then show ?thesis using assms(2) rc c1
    by (intro exI [of _ "fold (base_upd (PrepareCommit env)) (opt_path (ts_dropEntry (w_store w))) c1"])
      (auto simp: Store_PrepareCommit_def act_bind_def split: prod.splits res.splits)
qed





text \<open>Adding an entry to a directory and removing it again.\<close>

lemma remove1_sink: "x \<notin> set ys \<Longrightarrow> remove1 x (sink cmp pay x ys) = ys"
  by (auto simp: sink_def remove1_append dest: set_takeWhileD)

lemma add_remove_dir:
  assumes ok: "dir_ok db_base db_name hi d" and add: "addEntryLocked db_base db_name env e d = Ok d1" and fresh: "hi < unat (be_ID (db_base e))"
  shows "\<exists>d2. RemoveEntry db_base db_name e d1 = Ok d2 \<and> link d2 = link d \<and> (\<forall>j. j \<noteq> be_ID (db_base e) \<longrightarrow> entries d2 j = entries d j)
    \<and> (\<forall>env' later' nm r. dbs.look env' later' nm r d2 = dbs.look env' later' nm r d)"
proof -
  let ?i = "be_ID (db_base e)" and ?ids = "case nameNodes d (db_name e) of None \<Rightarrow> [] | Some ids \<Rightarrow> ids"
  have a: "entries d1 = (entries d)(?i \<mapsto> e)" "nameNodes d1 = (nameNodes d)(db_name e \<mapsto> ?i # ?ids)"
      "link d1 = sink (DoCompre env) (dir_pay db_base (entries d1)) ?i (link d)"
    using addEntryLocked_Ok [OF add] by simp_all
  have new: "entries d ?i = None" using ok fresh by (auto simp: dir_ok_def dest!: leD intro: ccontr)
  have notin: "?i \<notin> set ids" if "nameNodes d nm = Some ids" for nm ids
    using ok that new unfolding dir_ok_def by (metis option.distinct(1))
  then have "?i \<notin> set (link d)" using ok by (auto simp: dir_ok_def)
  then have l: "remove1 ?i (link d1) = link d" unfolding a(3) by (rule remove1_sink)
  let ?d = "d1\<lparr>nameNodes := (nameNodes d1)(db_name e \<mapsto> ?ids), link := link d\<rparr>"
  have "RemoveEntry db_base db_name e d1 = Ok ?d" using a l by (simp add: RemoveEntry_def)
  moreover have "dbs.look env' later' nm r ?d = dbs.look env' later' nm r d" for env' later' nm r
  proof (cases "nameNodes d nm")
    case None
    then show ?thesis using a by (cases "nm = db_name e") (simp_all add: dbs.look_def)
  next
    case (Some ids)
    have "each_list (visit_step (db_visit env' later' r) (dir_pay db_base (entries d1))) ids None
        = each_list (visit_step (db_visit env' later' r) (dir_pay db_base (entries d))) ids None"
      using notin [OF Some] a(1) by (intro dbs.each_cong) (auto simp: visit_step_def dir_pay_def fun_eq_iff)
    then show ?thesis using Some a by (auto simp: dbs.look_def)
  qed
  ultimately show ?thesis using a(1) by auto
qed

text \<open>
  C19. Rolling back the creation of a database undoes it: after \<open>CreateDatabase\<close> and \<open>PrepareRollback\<close> every name lookup of every transaction,
  in every later state of the transactions, gives what it gave before, the list of databases is the one before, and no other entry has changed.
\<close>

theorem create_rollback_restores:
  fixes w :: "('ty, 'a, 'vec, 'b, 'v, 'd) world"
  assumes al: "id_source al cur" and ok: "cat_ok cur (w_cat w)" and hi: "unat (cur (dbAlloc (cat_alloc (w_cat w)))) < 2 ^ 64 - 1"
    and cr: "CreateDatabase al env nm w = (Ok i, w1)"
  shows "\<exists>w2. Store_PrepareRollback [] w1 = (Ok (), w2) \<and> link (cat_dir (w_cat w2)) = link (cat_dir (w_cat w))
    \<and> (\<forall>j. j \<noteq> i \<longrightarrow> entries (cat_dir (w_cat w2)) j = entries (cat_dir (w_cat w)) j)
    \<and> (\<forall>env' later' nm' r. Catalog_txnGetNodeByNameLocked env' later' nm' r (w_cat w2) = Catalog_txnGetNodeByNameLocked env' later' nm' r (w_cat w))"
proof -
  obtain e :: "'ty DBEntry" and x where n: "NewDBEntry al nm (Some (ts_txn (w_store w))) (cat_alloc (w_cat w)) = (e, x)" by force
  note f = NewDBEntry_fresh [OF al n hi]
  obtain d where d: "addEntryLocked db_base db_name env e (cat_dir (w_cat w)) = Ok d"
      "w1 = set_database (Some i) (w_store_update (ts_createEntry_update (\<lambda>_. Some i)) (w\<lparr>w_cat := (w_cat w)\<lparr>cat_alloc := x, cat_dir := d\<rparr>\<rparr>))"
      "i = be_ID (db_base e)"
  proof (cases "addEntryLocked db_base db_name env e (cat_dir (w_cat w))")
    case (Ok d)
    have "ts_database (w_store w) = None" using cr by (auto simp: CreateDatabase_def split: if_splits)
    then show thesis using cr n Ok by (intro that [of d]) (auto simp: CreateDatabase_def CreateDBEntry_def Let_def)
  qed (use cr n in \<open>auto simp: CreateDatabase_def CreateDBEntry_def split: if_splits\<close>)
  have "dir_ok db_base db_name (unat (cur (dbAlloc (cat_alloc (w_cat w))))) (cat_dir (w_cat w))" using ok by (simp add: cat_ok_def)
  from add_remove_dir [OF this d(1) f(1)] obtain d2 where d2: "RemoveEntry db_base db_name e d = Ok d2" "link d2 = link (cat_dir (w_cat w))"
      "\<And>j. j \<noteq> i \<Longrightarrow> entries d2 j = entries (cat_dir (w_cat w)) j"
      "\<And>env' later' nm r. dbs.look env' later' nm r d2 = dbs.look env' later' nm r (cat_dir (w_cat w))"
    unfolding d(3) by blast
  have e: "entries d i = Some e" using addEntryLocked_Ok [OF d(1)] d(3) by simp
  have "Store_PrepareRollback [] w1 = (Ok (), w1\<lparr>w_cat := (w_cat w1)\<lparr>cat_dir := d2\<rparr>\<rparr>)"
    using e d2(1) by (simp add: Store_PrepareRollback_def act_bind_def d(2) set_database_def Catalog_RemoveEntry_def)
  then show ?thesis using d2(2-) by (intro exI [of _ "w1\<lparr>w_cat := (w_cat w1)\<lparr>cat_dir := d2\<rparr>\<rparr>"]) (simp add: Catalog_lookup)
qed

theorem create_rollback_restores_witness:
  "\<exists>w1 w2. CreateDatabase Alloc demo_commit ''db'' demo_start = (Ok 1, w1) \<and> Store_PrepareRollback [] w1 = (Ok (), w2)
     \<and> Catalog_txnGetNodeByNameLocked demo_commit (\<lambda>_. TxnStateActive) ''db'' 7 (w_cat w2) = None"
proof -
  have "fst (CreateDatabase Alloc demo_commit ''db'' demo_start) = Ok 1"
    by (simp add: store_eval demo_start_def)
  then obtain w1 where w1: "CreateDatabase Alloc demo_commit ''db'' demo_start = (Ok 1, w1)" by (metis prod.collapse)
  have "cat_ok Get (w_cat demo_start)" by (simp add: demo_start_def)
  moreover have "Get (dbAlloc (cat_alloc (w_cat demo_start))) = 0" by (simp add: demo_start_def MockCatalog_def NewIDAllocator_def Get_def)
  moreover have "Catalog_txnGetNodeByNameLocked demo_commit (\<lambda>_. TxnStateActive) ''db'' 7 (w_cat demo_start) = None"
    by (simp add: demo_start_def MockCatalog_def empty_dir_def Catalog_txnGetNodeByNameLocked_def)
  ultimately show ?thesis using create_rollback_restores [OF ida.id_source_axioms _ _ w1] w1 by fastforce
qed

end
