(* ===== verification/Handles.thy ===== *)
theory Handles
  imports TxnStore
begin

text \<open>
  The handles that a transaction works with: transactions, databases, relations, segments and blocks (\<^verbatim>\<open>txn.go\<close>,
  \<^verbatim>\<open>database.go\<close>, \<^verbatim>\<open>relation.go\<close>, \<^verbatim>\<open>segment.go\<close> and \<^verbatim>\<open>block.go\<close> of \<^verbatim>\<open>pkg/txn/txnimpl\<close>), which
  pass the calls on to the store of the transaction, and the iterators over the segments of a table and the blocks of a segment.
\<close>

section \<open>Handles\<close>

text \<open>A handle is the identifier of its entry; its transaction is that of the store.\<close>

definition Handle_CreateDatabase :: "('a \<Rightarrow> u64 \<times> 'a) \<Rightarrow> txn_env \<Rightarrow> string \<Rightarrow> (('ty, 'a, 'vec, 'b, 'v, 'd) world, u64) act" where
  "Handle_CreateDatabase al env nm = CreateDatabase al env nm"

definition Handle_DropDatabase :: "txn_env \<Rightarrow> (u64 \<Rightarrow> TxnStates) \<Rightarrow> string \<Rightarrow> (('ty, 'a, 'vec, 'b, 'v, 'd) world, u64) act" where
  "Handle_DropDatabase env later nm = DropDatabase env later nm"

definition Handle_CreateRelation :: "('a \<Rightarrow> u64 \<times> 'a) \<Rightarrow> txn_env \<Rightarrow> 'ty Schema \<Rightarrow> (('ty, 'a, 'vec, 'b, 'v, 'd) world, u64) act" where
  "Handle_CreateRelation al env schema = CreateRelation al env schema"

definition Handle_DropRelationByName :: "txn_env \<Rightarrow> (u64 \<Rightarrow> TxnStates) \<Rightarrow> string \<Rightarrow> (('ty, 'a, 'vec, 'b, 'v, 'd) world, u64) act" where
  "Handle_DropRelationByName env later nm = DropRelationByName env later nm"

definition Handle_Append ::
  "nat \<Rightarrow> ('vec, 'v, 'n) col_ops \<Rightarrow> (Oid \<Rightarrow> u32) \<Rightarrow> (nat \<Rightarrow> u64 \<Rightarrow> go_error option) \<Rightarrow> u64 \<Rightarrow> ('v, 'n) Vector list
     \<Rightarrow> ('ty, 'a, 'vec, 'b, 'v, 'd) world \<Rightarrow> (unit res \<times> ('ty, 'a, 'vec, 'b, 'v, 'd) world) option" where
  "Handle_Append fuel O' tySize ex rel data = Store_Append fuel O' tySize ex rel data"

definition Handle_CreateSegment :: "('a \<Rightarrow> u64 \<times> 'a) \<Rightarrow> txn_env \<Rightarrow> u64 \<Rightarrow> (('ty, 'a, 'vec, 'b, 'v, 'd) world, u64) act" where
  "Handle_CreateSegment al env rel = Store_CreateSegment al env rel"

text \<open>The table of a segment handle is read from its entry.\<close>

definition Handle_CreateBlock :: "('a \<Rightarrow> u64 \<times> 'a) \<Rightarrow> txn_env \<Rightarrow> SegmentEntry \<Rightarrow> (('ty, 'a, 'vec, 'b, 'v, 'd) world, u64) act" where
  "Handle_CreateBlock al env sg = Store_CreateBlock al env (seg_table sg) (be_ID (seg_base sg))"

text \<open>Only coarse row counts are used, and the data of the block is asked.\<close>

definition Handle_Rows :: "u64 \<Rightarrow> BlockEntry \<Rightarrow> 'vec tableData \<Rightarrow> int res" where
  "Handle_Rows fileRows bk T = DataBlock_Rows fileRows bk True T"

section \<open>Iterators\<close>

text \<open>
  The iterators of the catalog run over the list of an entry, from its head, or from its tail when reversed.  \<open>ei_rest\<close> is what
  an iterator has still to visit, the current position first.
\<close>

definition link_order :: "bool \<Rightarrow> u64 list \<Rightarrow> u64 list" where
  "link_order reverse xs = (if reverse then rev xs else xs)"

definition MakeSegmentIt :: "bool \<Rightarrow> 'ty TableEntry \<Rightarrow> u64 list" where
  "MakeSegmentIt reverse t = link_order reverse (tbl_link t)"

definition MakeBlockIt :: "bool \<Rightarrow> SegmentEntry \<Rightarrow> u64 list" where
  "MakeBlockIt reverse s = link_order reverse (seg_link s)"

record entryIt =
  ei_rest :: "u64 list"
  ei_curr :: "u64 option"

definition first :: "u64 list \<Rightarrow> u64 option" where
  "first xs = (case xs of [] \<Rightarrow> None | i # _ \<Rightarrow> Some i)"

definition newSegmentIt :: "'ty TableEntry \<Rightarrow> entryIt" where
  "newSegmentIt t = (let xs = MakeSegmentIt True t in \<lparr>ei_rest = xs, ei_curr = first xs\<rparr>)"

definition newBlockIt :: "SegmentEntry \<Rightarrow> entryIt" where
  "newBlockIt s = (let xs = MakeBlockIt True s in \<lparr>ei_rest = xs, ei_curr = first xs\<rparr>)"

definition entryIt_Valid :: "entryIt \<Rightarrow> bool" where
  "entryIt_Valid it \<longleftrightarrow> ei_rest it \<noteq> []"

text \<open>The loop of \<open>Next\<close>: forward to the next entry that the transaction can read.\<close>

fun it_search :: "txn_env \<Rightarrow> (u64 \<Rightarrow> TxnStates) \<Rightarrow> u64 \<Rightarrow> (u64 \<Rightarrow> BaseEntry) \<Rightarrow> u64 list \<Rightarrow> u64 list" where
  "it_search env later r pay [] = []"
| "it_search env later r pay (i # is) = (if TxnCanRead env later (Some r) (pay i) then i # is else it_search env later r pay is)"

text \<open>The first step of the loop dereferences the current position, which is nil at the end.\<close>

definition entryIt_Next :: "txn_env \<Rightarrow> (u64 \<Rightarrow> TxnStates) \<Rightarrow> u64 \<Rightarrow> (u64 \<Rightarrow> BaseEntry) \<Rightarrow> entryIt \<Rightarrow> entryIt res" where
  "entryIt_Next env later r pay it =
     (case ei_rest it of
        [] \<Rightarrow> Panic
      | _ # xs \<Rightarrow> (let ys = it_search env later r pay xs in Ok \<lparr>ei_rest = ys, ei_curr = first ys\<rparr>))"

definition segmentIt_Next :: "txn_env \<Rightarrow> (u64 \<Rightarrow> TxnStates) \<Rightarrow> u64 \<Rightarrow> 'ty TableEntry \<Rightarrow> entryIt \<Rightarrow> entryIt res" where
  "segmentIt_Next env later r t = entryIt_Next env later r (tbl_pay (tbl_entries t))"

definition blockIt_Next :: "txn_env \<Rightarrow> (u64 \<Rightarrow> TxnStates) \<Rightarrow> u64 \<Rightarrow> SegmentEntry \<Rightarrow> entryIt \<Rightarrow> entryIt res" where
  "blockIt_Next env later r s = entryIt_Next env later r (seg_pay (seg_entries s))"

section \<open>What an iteration visits\<close>

lemma it_search_dropWhile: "it_search env later r pay xs = dropWhile (\<lambda>i. \<not> TxnCanRead env later (Some r) (pay i)) xs"
  by (induction xs) auto

lemma it_search_length: "length (it_search env later r pay xs) \<le> length xs"
  by (simp add: it_search_dropWhile length_dropWhile_le)

text \<open>The loop of a client: \<open>for it.Valid() { ...; it.Next() }\<close>, with the entries that it sees.\<close>

function visits :: "(entryIt \<Rightarrow> entryIt res) \<Rightarrow> entryIt \<Rightarrow> u64 option list" where
  "visits step it =
     (if entryIt_Valid it then
        ei_curr it # (case step it of Ok it' \<Rightarrow> if length (ei_rest it') < length (ei_rest it) then visits step it' else [] | _ \<Rightarrow> [])
      else [])"
  by auto
termination by (relation "measure (\<lambda>(_, it). length (ei_rest it))") auto

declare visits.simps [simp del]

lemma visits_all:
  assumes "ei_curr it = first (ei_rest it)"
  shows "visits (entryIt_Next env later r pay) it
    = (case ei_rest it of [] \<Rightarrow> [] | i # xs \<Rightarrow> Some i # map Some (filter (\<lambda>k. TxnCanRead env later (Some r) (pay k)) xs))"
  using assms
proof (induction "length (ei_rest it)" arbitrary: it rule: less_induct)
  case less
  show ?case
  proof (cases "ei_rest it")
    case Nil
    then show ?thesis by (simp add: visits.simps entryIt_Valid_def)
  next
    case (Cons i xs)
    let ?P = "\<lambda>k. TxnCanRead env later (Some r) (pay k)"
    let ?ys = "it_search env later r pay xs"
    let ?it = "\<lparr>ei_rest = ?ys, ei_curr = first ?ys\<rparr>"
    have lt: "length ?ys < length (ei_rest it)" using it_search_length [of env later r pay xs] Cons by simp
    have "visits (entryIt_Next env later r pay) it = Some i # visits (entryIt_Next env later r pay) ?it"
      using lt Cons less.prems by (subst visits.simps) (simp add: entryIt_Valid_def entryIt_Next_def Let_def first_def)
    also have "visits (entryIt_Next env later r pay) ?it = (case ?ys of [] \<Rightarrow> [] | k # zs \<Rightarrow> Some k # map Some (filter ?P zs))"
      using less.hyps [of ?it] lt by simp
    also have "\<dots> = map Some (filter ?P xs)" by (induction xs) auto
    finally show ?thesis using Cons by simp
  qed
qed

text \<open>
  C36. A transaction that iterates over the segments of a table, or over the blocks of a segment, visits every entry that it can read, from the
  tail of the list (the oldest entry) to its head, and the iteration ends; entries that it cannot read (created by others and not committed, created or
  dropped outside its snapshot) are skipped, with the exception of the first entry: the constructors of the iterators do not check whether it can be read.
\<close>

theorem iteration_visits:
  "visits (segmentIt_Next env later r t) (newSegmentIt t)
     = (case rev (tbl_link t) of [] \<Rightarrow> [] | i # xs \<Rightarrow> Some i # map Some (filter (\<lambda>k. TxnCanRead env later (Some r) (tbl_pay (tbl_entries t) k)) xs))
   \<and> visits (blockIt_Next env later r s) (newBlockIt s)
     = (case rev (seg_link s) of [] \<Rightarrow> [] | i # xs \<Rightarrow> Some i # map Some (filter (\<lambda>k. TxnCanRead env later (Some r) (seg_pay (seg_entries s) k)) xs))"
  unfolding segmentIt_Next_def blockIt_Next_def
  by (simp add: visits_all newSegmentIt_def newBlockIt_def MakeSegmentIt_def MakeBlockIt_def link_order_def Let_def)

end
