(* ===== verification/BlockFile.thy ===== *)
theory BlockFile
  imports DataTables
begin

text \<open>
  Block files and the way the in-memory node of a block goes to its file and comes back: the interface of \<^verbatim>\<open>pkg/dataio/types.go\<close> as a
  locale, the files of \<^verbatim>\<open>pkg/dataio/mock.go\<close> as its implementation, and loading, unloading and reading of the nodes
  of \<^verbatim>\<open>pkg/tables/node.go\<close> as its client; then the appenders of \<^verbatim>\<open>pkg/tables/appender.go\<close>, which pin a node while rows are appended.
\<close>

section \<open>Files in memory\<close>

text \<open>\<open>'bat\<close> are batches, \<open>'i\<close> log indexes, \<open>'t\<close> vectors of timestamps; a nil interface or pointer is \<open>None\<close>.\<close>

record ('bat, 'i, 't) mockBlockFile =
  bf_id :: u64
  bf_rows :: u32
  bf_maxTs :: u64
  bf_data :: "'bat option"
  bf_logIndex :: "'i option"
  bf_ts :: "'t option"

record ('bat, 'i, 't) mockSegmentFile =
  sf_files :: "u64 \<rightharpoonup> ('bat, 'i, 't) mockBlockFile"
  sf_name :: string
  sf_sorted :: bool

definition mockBlock :: "u64 \<Rightarrow> 'bat option \<Rightarrow> ('bat, 'i, 't) mockBlockFile" where
  "mockBlock i bat = \<lparr>bf_id = i, bf_rows = 0, bf_maxTs = 0, bf_data = bat, bf_logIndex = None, bf_ts = None\<rparr>"

definition mockSegment :: "string \<Rightarrow> u64 \<Rightarrow> ('bat, 'i, 't) mockSegmentFile" where
  "mockSegment dir i = \<lparr>sf_files = Map.empty, sf_name = dir @ ''-mock-'' @ dec_w i, sf_sorted = False\<rparr>"

definition bf_IsSorted :: "('bat, 'i, 't) mockBlockFile \<Rightarrow> bool" where
  "bf_IsSorted f \<longleftrightarrow> bf_rows f > 0 \<and> bf_ts f = None"

text \<open>The length of a nil batch is asked for, which panics; \<open>len\<close> is \<open>bat.Length()\<close>.\<close>

definition WriteData :: "('bat \<Rightarrow> nat) \<Rightarrow> 'bat option \<Rightarrow> 'i option \<Rightarrow> 't option \<Rightarrow> ('bat, 'i, 't) mockBlockFile \<Rightarrow> ('bat, 'i, 't) mockBlockFile res" where
  "WriteData len bat logIndex ts f =
     (case bat of
        None \<Rightarrow> Panic
      | Some b \<Rightarrow> Ok (f\<lparr>bf_data := bat, bf_rows := word_of_nat (len b), bf_logIndex := logIndex, bf_ts := ts\<rparr>))"

definition LoadData :: "('bat, 'i, 't) mockBlockFile \<Rightarrow> 'bat option res" where
  "LoadData f = Ok (bf_data f)"

definition bf_Sync :: "('bat, 'i, 't) mockBlockFile \<Rightarrow> ('bat, 'i, 't) mockBlockFile res" where
  "bf_Sync f = Ok f"

text \<open>The file of a block is made when it is first asked for.\<close>

definition GetBlockFile :: "u64 \<Rightarrow> ('bat, 'i, 't) mockSegmentFile \<Rightarrow> ('bat, 'i, 't) mockBlockFile \<times> ('bat, 'i, 't) mockSegmentFile" where
  "GetBlockFile i sf =
     (case sf_files sf i of
        Some f \<Rightarrow> (f, sf)
      | None \<Rightarrow> (let f = mockBlock i None in (f, sf\<lparr>sf_files := (sf_files sf)(i \<mapsto> f)\<rparr>)))"

section \<open>Loading, unloading and reading a node\<close>

text \<open>An error of the file panics.\<close>

definition AN_OnLoad :: "('f \<Rightarrow> 'vec list option res) \<Rightarrow> 'f \<Rightarrow> 'vec appendableNode \<Rightarrow> 'vec appendableNode res" where
  "AN_OnLoad load f n = (case load f of Ok d \<Rightarrow> Ok (n\<lparr>an_data := d\<rparr>) | _ \<Rightarrow> Panic)"

definition AN_OnUnload :: "('vec list option \<Rightarrow> 'f \<Rightarrow> 'f res) \<Rightarrow> ('f \<Rightarrow> 'f res) \<Rightarrow> 'f \<Rightarrow> 'vec appendableNode \<Rightarrow> 'f res" where
  "AN_OnUnload wr sync f n =
     (case wr (an_data n) f of
        Ok f1 \<Rightarrow> (case sync f1 of Ok f2 \<Rightarrow> Ok f2 | _ \<Rightarrow> Panic)
      | _ \<Rightarrow> Panic)"

text \<open>
  \<open>byAttr\<close> is \<open>GetVectorByAttr\<close> of a batch, \<open>copy\<close> the copy of the latest view of a vector; both belong to
  another repository.  The method of a nil batch panics.
\<close>

definition AN_GetVectorCopy ::
  "('vec list \<Rightarrow> int \<Rightarrow> 'vec res) \<Rightarrow> ('vec \<Rightarrow> ('v, 'n) Vector res) \<Rightarrow> 'ty Schema \<Rightarrow> string \<Rightarrow> 'vec appendableNode \<Rightarrow> ('v, 'n) Vector res" where
  "AN_GetVectorCopy byAttr copy sc attr n =
     (case an_data n of
        None \<Rightarrow> Panic
      | Some vecs \<Rightarrow> res_bind (byAttr vecs (GetColIdx attr sc)) copy)"

definition reading_laws :: "('vec, 'v, 'n) col_ops \<Rightarrow> ('vec list \<Rightarrow> int \<Rightarrow> 'vec res) \<Rightarrow> ('vec \<Rightarrow> ('v, 'n) Vector res) \<Rightarrow> bool" where
  "reading_laws O' byAttr copy \<longleftrightarrow>
     (\<forall>vecs k. k < length vecs \<longrightarrow> byAttr vecs (int k) = Ok (vecs ! k))
     \<and> (\<forall>v. col_fits (co_Oid O' v) (co_rows O' v) \<longrightarrow> (\<exists>vec. copy v = Ok vec \<and> Typ_Oid vec = co_Oid O' v \<and> vec_holds vec (co_rows O' v)))"

section \<open>The interface of a block file\<close>

locale block_file =
  fixes wr :: "'bat option \<Rightarrow> 'f \<Rightarrow> 'f res" and load :: "'f \<Rightarrow> 'bat option res" and sync :: "'f \<Rightarrow> 'f res"
    and rows :: "'f \<Rightarrow> u32" and len :: "'bat \<Rightarrow> nat"
  assumes write_ok: "\<exists>f'. wr (Some b) f = Ok f'"
    and sync_ok: "\<exists>f'. sync f = Ok f'"
    and load_back: "wr (Some b) f = Ok f1 \<Longrightarrow> sync f1 = Ok f2 \<Longrightarrow> load f2 = Ok (Some b) \<and> rows f2 = word_of_nat (len b)"
begin

lemma written_back: "\<exists>f1 f2. wr (Some b) f = Ok f1 \<and> sync f1 = Ok f2 \<and> load f2 = Ok (Some b) \<and> rows f2 = word_of_nat (len b)"
  using write_ok [of b f] sync_ok load_back by metis

end

text \<open>A node client of such a file gets its columns back.\<close>

locale node_file = block_file wr load sync rows len
  for wr :: "'vec list option \<Rightarrow> 'f \<Rightarrow> 'f res" and load :: "'f \<Rightarrow> 'vec list option res" and sync :: "'f \<Rightarrow> 'f res"
    and rows :: "'f \<Rightarrow> u32" and len :: "'vec list \<Rightarrow> nat"
begin

lemma unload_load:
  assumes "an_data n = Some vecs"
  shows "\<exists>f'. AN_OnUnload wr sync f n = Ok f' \<and> AN_OnLoad load f' (n\<lparr>an_data := d\<rparr>) = Ok n \<and> rows f' = word_of_nat (len vecs)"
proof -
  obtain f1 f2 where "wr (Some vecs) f = Ok f1" "sync f1 = Ok f2" "load f2 = Ok (Some vecs)" "rows f2 = word_of_nat (len vecs)"
    using written_back by blast
  then show ?thesis using assms by (intro exI [of _ f2]) (simp add: AN_OnUnload_def AN_OnLoad_def)
qed

end

interpretation mock: block_file "\<lambda>b f. WriteData len b None None f" LoadData bf_Sync bf_rows len for len
  by unfold_locales (auto simp: WriteData_def LoadData_def bf_Sync_def)

interpretation mock_node: node_file "\<lambda>b f. WriteData len b None None f" LoadData bf_Sync bf_rows len for len
  by unfold_locales

section \<open>A block that has been unloaded and loaded\<close>

lemma GetVectorCopy_column:
  assumes "reading_laws O' byAttr copy" and "bn_ok O' ts K n" and "an_data n \<noteq> None" and "k < length ts" and "GetColIdx attr sc = int k"
    and "col_fits (ts ! k) (bn_cols O' (length ts) n ! k)"
  shows "\<exists>vec. AN_GetVectorCopy byAttr copy sc attr n = Ok vec \<and> Typ_Oid vec = ts ! k \<and> vec_holds vec (bn_cols O' (length ts) n ! k)"
proof -
  obtain vecs where v: "an_data n = Some vecs" using assms(3) by blast
  then have "length vecs = length ts" "co_Oid O' (vecs ! k) = ts ! k" "bn_cols O' (length ts) n ! k = co_rows O' (vecs ! k)"
    using assms(2,4) by (simp_all add: bn_ok_def bn_cols_def)
  moreover have "\<exists>vec. copy (vecs ! k) = Ok vec \<and> Typ_Oid vec = co_Oid O' (vecs ! k) \<and> vec_holds vec (co_rows O' (vecs ! k))"
    using assms(1,6) calculation unfolding reading_laws_def by metis
  ultimately show ?thesis using assms(1,4,5) v by (auto simp: AN_GetVectorCopy_def reading_laws_def)
qed


text \<open>The node of a block without rows has no batch: unloading it panics.\<close>

lemma unload_empty_panics: "an_data n = None \<Longrightarrow> AN_OnUnload (\<lambda>b. WriteData len b None None) bf_Sync f n = Panic"
  by (simp add: AN_OnUnload_def WriteData_def)

text \<open>Files of a segment: asking twice gives the same file, and other files are not touched.\<close>

lemma GetBlockFile_stable:
  "fst (GetBlockFile i (snd (GetBlockFile i sf))) = fst (GetBlockFile i sf)"
  "j \<noteq> i \<Longrightarrow> sf_files (snd (GetBlockFile i sf)) j = sf_files sf j"
  by (auto simp: GetBlockFile_def Let_def split: option.splits)

section \<open>Appenders and pins\<close>

text \<open>
  An appender pins the node of its block until it is closed; the number beside it counts the pins of the node.  \<open>expand\<close> is
  what making room for more bytes answers; the rows are appended only when it answers nil.
\<close>

record 'vec blockAppender =
  ba_node :: "'vec appendableNode"
  ba_handle :: bool

definition newAppender :: "'vec appendableNode \<Rightarrow> nat \<Rightarrow> 'vec blockAppender \<times> nat" where
  "newAppender n pins = (\<lparr>ba_node = n, ba_handle = True\<rparr>, pins + 1)"

definition Appender_Close :: "'vec blockAppender \<times> nat \<Rightarrow> 'vec blockAppender \<times> nat" where
  "Appender_Close ap = (if ba_handle (fst ap) then ((fst ap)\<lparr>ba_handle := False\<rparr>, snd ap - 1) else ap)"

definition Appender_PrepareAppend :: "u32 \<Rightarrow> u32 \<Rightarrow> 'vec blockAppender \<Rightarrow> u32" where
  "Appender_PrepareAppend maxRows rows a = AN_PrepareAppend maxRows rows (ba_node a)"

definition Appender_ApplyAppend ::
  "(nat \<Rightarrow> go_error option) \<Rightarrow> ('vec, 'v, 'n) col_ops \<Rightarrow> string list \<Rightarrow> u32 \<Rightarrow> (string \<times> ('v, 'n) Vector) list \<Rightarrow> u32 \<Rightarrow> u32 \<Rightarrow> 'vec blockAppender
     \<Rightarrow> (u32 \<times> 'vec blockAppender) res" where
  "Appender_ApplyAppend expand O' names maxRows bat offset len a =
     (case expand 0 of
        Some e \<Rightarrow> Err e
      | None \<Rightarrow> res_bind (AN_ApplyAppend O' names maxRows bat offset len (ba_node a)) (\<lambda>(from, n). Ok (from, a\<lparr>ba_node := n\<rparr>)))"

text \<open>A block reads a column under a pin of its own; a node that cannot be pinned panics.\<close>

definition DataBlock_GetVectorCopy ::
  "bool \<Rightarrow> ('vec list \<Rightarrow> int \<Rightarrow> 'vec res) \<Rightarrow> ('vec \<Rightarrow> ('v, 'n) Vector res) \<Rightarrow> 'ty Schema \<Rightarrow> string \<Rightarrow> 'vec appendableNode \<Rightarrow> ('v, 'n) Vector res" where
  "DataBlock_GetVectorCopy pinned byAttr copy sc attr n = (if pinned then AN_GetVectorCopy byAttr copy sc attr n else Panic)"

text \<open>
  Appending through an appender: the rows asked for fit into the block, the appender keeps its pin meanwhile, and closing it, once or
  more, gives back exactly one pin.
\<close>

lemma appender_session:
  assumes "AN_ApplyAppend O' names maxRows bat offset len n = Ok (from, n')" and "expand 0 = None"
  shows "\<exists>a'. Appender_ApplyAppend expand O' names maxRows bat offset len (fst (newAppender n pins)) = Ok (from, a') \<and> ba_node a' = n'
    \<and> Appender_Close (a', snd (newAppender n pins)) = (a'\<lparr>ba_handle := False\<rparr>, pins)
    \<and> Appender_Close (Appender_Close (a', snd (newAppender n pins))) = Appender_Close (a', snd (newAppender n pins))"
  using assms by (simp add: Appender_ApplyAppend_def newAppender_def Appender_Close_def)

lemma appender_room:
  assumes "unat (an_rows (ba_node a)) \<le> unat maxRows"
  shows "unat (an_rows (ba_node a)) + unat (Appender_PrepareAppend maxRows rows a) \<le> unat maxRows"
proof -
  have "unat (maxRows - an_rows (ba_node a)) = unat maxRows - unat (an_rows (ba_node a))" using assms by (simp add: unat_sub_if')
  then show ?thesis using assms by (auto simp: Appender_PrepareAppend_def AN_PrepareAppend_def Let_def word_less_nat_alt)
qed

text \<open>
  The typing of a block: a node whose columns have the types \<open>ts\<close> of the schema and one length.
\<close>

lemma bn_ok_typed:
  assumes "bn_ok O' ts K n" and "0 < unat (an_rows n)"
  shows "\<exists>vs. an_data n = Some vs \<and> map (co_Oid O') vs = ts \<and> (\<forall>v \<in> set vs. length (co_rows O' v) = unat (an_rows n))
    \<and> bn_cols O' (length ts) n = map (co_rows O') vs"
  using assms by (auto simp: bn_ok_def bn_cols_def in_set_conv_nth intro!: nth_equalityI split: option.splits)

text \<open>
  C38. An append through the appender of a block is well typed.  Asked for any number of rows, the appender grants as many as
  the block has room for; a batch of that many rows, whose columns have the types of the schema, is appended behind the rows
  present, and afterwards every column still has the type of the schema and all columns have the new row count, which does not
  exceed the block.  Closing the appender, also more than once, gives its pin back once.
\<close>

theorem appender_keeps_types:
  assumes "col_laws O'" and "bn_ok O' ts (unat maxRows) n" and "expand 0 = None" and "distinct names" and "length names = length ts"
    and "Appender_PrepareAppend maxRows rows (fst (newAppender n pins)) = k" and "0 < unat k" and "batch_holds ts data (unat k) cols"
  shows "\<exists>a' vs. Appender_ApplyAppend expand O' names maxRows (zip names data) 0 k (fst (newAppender n pins)) = Ok (an_rows n, a')
    \<and> an_data (ba_node a') = Some vs \<and> map (co_Oid O') vs = ts
    \<and> (\<forall>v \<in> set vs. length (co_rows O' v) = unat (an_rows n) + unat k) \<and> unat (an_rows n) + unat k \<le> unat maxRows
    \<and> (\<forall>i < length ts. co_rows O' (vs ! i) = bn_cols O' (length ts) n ! i @ cols ! i)
    \<and> bn_ok O' ts (unat maxRows) (ba_node a')
    \<and> Appender_Close (a', snd (newAppender n pins)) = (a'\<lparr>ba_handle := False\<rparr>, pins)
    \<and> Appender_Close (Appender_Close (a', snd (newAppender n pins))) = Appender_Close (a', snd (newAppender n pins))"
proof -
  have node: "ba_node (fst (newAppender n pins)) = n" by (simp add: newAppender_def)
  have room: "unat (an_rows n) + unat k \<le> unat maxRows"
    using appender_room [of "fst (newAppender n pins)" maxRows rows] assms(2,6) by (simp add: node bn_ok_def)
  obtain n' where n': "AN_ApplyAppend O' names maxRows (zip names data) 0 k n = Ok (an_rows n, n')" "bn_ok O' ts (unat maxRows) n'"
      "unat (an_rows n') = unat (an_rows n) + unat k"
      "\<forall>i < length ts. bn_cols O' (length ts) n' ! i = bn_cols O' (length ts) n ! i @ cols ! i"
    using AN_ApplyAppend_ok [OF assms(1,2,8,7) room assms(4,5)] by blast
  obtain vs where vs: "an_data n' = Some vs" "map (co_Oid O') vs = ts" "\<forall>v \<in> set vs. length (co_rows O' v) = unat (an_rows n')"
      "bn_cols O' (length ts) n' = map (co_rows O') vs"
    using bn_ok_typed [OF n'(2)] n'(3) assms(7) by auto
  have "length vs = length ts" using vs(2) by auto
  then have rows: "\<forall>i < length ts. co_rows O' (vs ! i) = bn_cols O' (length ts) n ! i @ cols ! i" using n'(4) vs(4) by simp
  obtain a' where "Appender_ApplyAppend expand O' names maxRows (zip names data) 0 k (fst (newAppender n pins)) = Ok (an_rows n, a')" "ba_node a' = n'"
      "Appender_Close (a', snd (newAppender n pins)) = (a'\<lparr>ba_handle := False\<rparr>, pins)"
      "Appender_Close (Appender_Close (a', snd (newAppender n pins))) = Appender_Close (a', snd (newAppender n pins))"
    using appender_session [where expand = expand and pins = pins, OF n'(1) assms(3)] by blast
  then show ?thesis using n'(2,3) vs(1,2,3) rows room by (intro exI [of _ a'] exI [of _ vs]) simp
qed

definition demo_node :: "(Oid \<times> nat \<times> u8 goval list) appendableNode" where
  "demo_node = \<lparr>an_id = zero_ID, an_data = Some [(Fix T_uint8, 4, map (VFix T_uint8) [7, 8])], an_rows = 2\<rparr>"

definition demo_byAttr :: "'vec list \<Rightarrow> int \<Rightarrow> 'vec res" where
  "demo_byAttr vecs k = (if 0 \<le> k \<and> nat k < length vecs then Ok (vecs ! nat k) else Err ErrNotFound)"

definition demo_copy :: "Oid \<times> nat \<times> u8 goval list \<Rightarrow> (u8, unit) Vector res" where
  "demo_copy v = Ok (co_Window ucols v 0 (co_Length ucols v))"

lemma demo_reading: "reading_laws ucols demo_byAttr demo_copy"
proof -
  have "\<exists>vec. demo_copy v = Ok vec \<and> Typ_Oid vec = co_Oid ucols v \<and> vec_holds vec (co_rows ucols v)" if "col_fits (co_Oid ucols v) (co_rows ucols v)" for v
  proof -
    have l: "co_Length ucols v = length (co_rows ucols v)" by (cases v) (simp add: list_cols_def)
    have "col_fits (co_Oid ucols v) (take (length (co_rows ucols v) - 0) (drop 0 (co_rows ucols v)))" using that by simp
    then have "Typ_Oid (co_Window ucols v 0 (length (co_rows ucols v))) = co_Oid ucols v
        \<and> vec_holds (co_Window ucols v 0 (length (co_rows ucols v))) (take (length (co_rows ucols v) - 0) (drop 0 (co_rows ucols v)))"
      using list_cols_laws unfolding col_laws_def by blast
    then show ?thesis by (simp add: demo_copy_def l)
  qed
  then show ?thesis by (simp add: reading_laws_def demo_byAttr_def)
qed


theorem appender_keeps_types_witness:
  "\<exists>a' vs. Appender_ApplyAppend (\<lambda>_. None) ucols [''a''] 4 [(''a'', demo_keys [9, 10])] 0 2 (fst (newAppender demo_node 0)) = Ok (2, a')
     \<and> an_data (ba_node a') = Some vs \<and> map (co_Oid ucols) vs = [Fix T_uint8] \<and> co_rows ucols (vs ! 0) = map (VFix T_uint8) [7, 8, 9, 10]
     \<and> Appender_Close (a', snd (newAppender demo_node 0)) = (a'\<lparr>ba_handle := False\<rparr>, 0)"
proof -
  have ok: "bn_ok ucols [Fix T_uint8] (unat (4 :: u32)) demo_node" by (simp add: bn_ok_def demo_node_def list_cols_def)
  have c: "bn_cols ucols (Suc 0) demo_node ! 0 = map (VFix T_uint8) [7, 8]" by (simp add: bn_cols_def demo_node_def list_cols_def)
  have r: "an_rows demo_node = 2" by (simp add: demo_node_def)
  have k: "Appender_PrepareAppend 4 100 (fst (newAppender demo_node 0)) = 2"
    by (simp add: Appender_PrepareAppend_def AN_PrepareAppend_def newAppender_def demo_node_def)
  have b: "batch_holds [Fix T_uint8] [demo_keys [9, 10]] (unat (2 :: u32)) [map (VFix T_uint8) [9, 10]]"
    by (simp add: batch_holds_def demo_keys_def vec_holds_def)
  show ?thesis
    using appender_keeps_types [where expand = "\<lambda>_. None" and names = "[''a'']", OF list_cols_laws ok _ _ _ k _ b] c r by auto
qed

end
