(* ===== verification/Paths.thy ===== *)
theory Paths
  imports IDs
begin

text \<open>
  The names of the files of the engine (\<^verbatim>\<open>pkg/common/filenames.go\<close>): directories, file kinds and temporary files.  The joining of paths
  is that of the standard library (\<open>path.Join\<close> and \<open>path.Clean\<close>).
\<close>

section \<open>Paths\<close>

text \<open>The elements of a cleaned path, in reverse: empty ones and \<open>.\<close> go, \<open>..\<close> takes the element before it with it.\<close>

fun clean_step :: "bool \<Rightarrow> string list \<Rightarrow> string \<Rightarrow> string list" where
  "clean_step rooted acc seg =
     (if seg = [] \<or> seg = ''.'' then acc
      else if seg = ''..'' then
        (case acc of
           [] \<Rightarrow> if rooted then [] else [''..'']
         | x # xs \<Rightarrow> if x = ''..'' then ''..'' # acc else xs)
      else seg # acc)"

definition path_Clean :: "string \<Rightarrow> string" where
  "path_Clean p =
     (if p = [] then ''.''
      else let rooted = (hd p = CHR ''/'');
               s = (if rooted then ''/'' else []) @ join_on CHR ''/'' (rev (foldl (clean_step rooted) [] (split_on CHR ''/'' p)))
           in if s = [] then ''.'' else s)"

definition path_Join :: "string list \<Rightarrow> string" where
  "path_Join es = (let xs = filter (\<lambda>e. e \<noteq> []) es in if xs = [] then [] else path_Clean (join_on CHR ''/'' xs))"

section \<open>File names\<close>

datatype FileT = FTLock | FTTBlock | FTBlock | FTSegment | FTTransientNode | FTUnknown int

definition MakeSpillDir :: "string \<Rightarrow> string" where "MakeSpillDir dirname = path_Join [dirname, ''spill'']"
definition MakeTempDir :: "string \<Rightarrow> string" where "MakeTempDir dirname = path_Join [dirname, ''temp'']"
definition MakeDataDir :: "string \<Rightarrow> string" where "MakeDataDir dirname = path_Join [dirname, ''data'']"
definition MakeMetaDir :: "string \<Rightarrow> string" where "MakeMetaDir dirname = path_Join [dirname, ''meta'']"

definition MakeFilename :: "string \<Rightarrow> FileT \<Rightarrow> string \<Rightarrow> bool \<Rightarrow> string res" where
  "MakeFilename dirname ft nm isTmp =
     (let tmp = (\<lambda>s b. if b then s @ ''.tmp'' else s)
      in case ft of
           FTLock \<Rightarrow> Ok (tmp (path_Join [dirname, nm @ ''.lock'']) isTmp)
         | FTTransientNode \<Rightarrow> Ok (tmp (path_Join [MakeSpillDir dirname, nm @ ''.nod'']) False)
         | FTTBlock \<Rightarrow> Ok (tmp (path_Join [MakeDataDir dirname, nm @ ''.tblk'']) isTmp)
         | FTBlock \<Rightarrow> Ok (tmp (path_Join [MakeDataDir dirname, nm @ ''.blk'']) isTmp)
         | FTSegment \<Rightarrow> Ok (tmp (path_Join [MakeDataDir dirname, nm @ ''.seg'']) isTmp)
         | FTUnknown _ \<Rightarrow> Panic)"

text \<open>The table identifier is not used.\<close>

definition MakeTBlockFileName :: "string \<Rightarrow> string \<Rightarrow> bool \<Rightarrow> string res" where
  "MakeTBlockFileName dirname nm isTmp = MakeFilename dirname FTTBlock nm isTmp"
definition MakeBlockFileName :: "string \<Rightarrow> string \<Rightarrow> u64 \<Rightarrow> bool \<Rightarrow> string res" where
  "MakeBlockFileName dirname nm tableId isTmp = MakeFilename dirname FTBlock nm isTmp"
definition MakeSegmentFileName :: "string \<Rightarrow> string \<Rightarrow> u64 \<Rightarrow> bool \<Rightarrow> string res" where
  "MakeSegmentFileName dirname nm tableId isTmp = MakeFilename dirname FTSegment nm isTmp"
definition MakeLockFileName :: "string \<Rightarrow> string \<Rightarrow> string res" where
  "MakeLockFileName dirname nm = MakeFilename dirname FTLock nm False"

section \<open>The last element of a path\<close>

lemma split_on_last: "c \<notin> set seg \<Longrightarrow> split_on c (a @ c # seg) = split_on c a @ [seg]"
proof (induction a)
  case (Cons x xs)
  have "split_on c xs \<noteq> []" by (cases xs) (auto split: list.splits)
  then show ?case using Cons by (auto split: list.splits)
qed simp

lemma join_on_last: "\<exists>d. join_on c (xs @ [seg]) = d @ seg"
proof (induction c "xs @ [seg]" arbitrary: xs rule: join_on.induct)
  case (3 c x y ys)
  then obtain zs where z: "xs = x # zs" "y # ys = zs @ [seg]" by (cases xs) auto
  from 3(1) [OF z(2)] obtain d where "join_on c (y # ys) = d @ seg" using z(2) by auto
  moreover have "xs @ [seg] = x # y # ys" using z by simp
  ultimately show ?case by (intro exI [of _ "x @ c # d"]) simp
next
  case (2 c x)
  then show ?case by (cases xs) auto
qed simp

definition plain :: "string \<Rightarrow> bool" where
  "plain seg \<longleftrightarrow> CHR ''/'' \<notin> set seg \<and> seg \<notin> {[], ''.'', ''..''}"

lemma path_Clean_last:
  assumes "plain seg" and "p = seg \<or> (\<exists>a. p = a @ CHR ''/'' # seg)"
  shows "\<exists>d. path_Clean p = d @ seg"
proof -
  have ne: "p \<noteq> []" "seg \<noteq> []" using assms by (auto simp: plain_def)
  obtain ss where s: "split_on CHR ''/'' p = ss @ [seg]" using assms split_on_last by (fastforce simp: plain_def)
  obtain d where "join_on CHR ''/'' (rev (foldl (clean_step (hd p = CHR ''/'')) [] (ss @ [seg]))) = d @ seg"
    using assms(1) join_on_last by (fastforce simp: plain_def)
  then show ?thesis using ne s by (auto simp: path_Clean_def Let_def)
qed

lemma path_Join_last: "plain seg \<Longrightarrow> \<exists>d. path_Join [dir, seg] = d @ seg"
  using path_Clean_last [of seg "join_on CHR ''/'' (filter (\<lambda>e. e \<noteq> []) [dir, seg])"]
  by (cases "dir = []") (auto simp: path_Join_def plain_def)

lemma plain_suffix: "CHR ''/'' \<notin> set nm \<Longrightarrow> length suf \<ge> 3 \<Longrightarrow> CHR ''/'' \<notin> set suf \<Longrightarrow> plain (nm @ suf)"
  by (auto simp: plain_def append_eq_Cons_conv Cons_eq_append_conv)

lemma MakeFilename_last:
  assumes "CHR ''/'' \<notin> set nm"
  shows "\<exists>d. MakeFilename dir FTBlock nm False = Ok (d @ nm @ ''.blk'')" "\<exists>d. MakeFilename dir FTTBlock nm False = Ok (d @ nm @ ''.tblk'')"
    "\<exists>d. MakeFilename dir FTSegment nm False = Ok (d @ nm @ ''.seg'')" "\<exists>d. MakeFilename dir FTLock nm False = Ok (d @ nm @ ''.lock'')"
  using path_Join_last [of "nm @ ''.blk''" "MakeDataDir dir"] path_Join_last [of "nm @ ''.tblk''" "MakeDataDir dir"]
    path_Join_last [of "nm @ ''.seg''" "MakeDataDir dir"] path_Join_last [of "nm @ ''.lock''" dir] plain_suffix [OF assms]
  by (auto simp: MakeFilename_def)

lemma MakeFilename_tmp:
  assumes "ft \<noteq> FTTransientNode" and "MakeFilename dir ft nm False = Ok s"
  shows "MakeFilename dir ft nm True = Ok (s @ ''.tmp'')" and "FilenameFromTmpfile (s @ ''.tmp'') = Ok s" and "IsTempFile (s @ ''.tmp'')"
  using assms by (cases ft; auto simp: MakeFilename_def FilenameFromTmpfile_def IsTempFile_def HasSuffix_def suffix_def Let_def)+

text \<open>
  The file names of the engine tell what they name: for a name without a slash, whatever the directory is (with \<open>..\<close>, repeated slashes or empty), the
  name of a block, transient block or segment file is recognised as such a file, by no other test and not as a temporary file, and parsing it gives a path that ends with the name;
  the name of its temporary file is recognised as temporary and leads back to the name of the file.
\<close>

lemma file_names_tell:
  assumes "CHR ''/'' \<notin> set nm"
  shows "\<exists>b t s. MakeBlockFileName dir nm tid False = Ok b \<and> MakeTBlockFileName dir nm False = Ok t \<and> MakeSegmentFileName dir nm tid False = Ok s
    \<and> (IsBlockFile b \<and> \<not> IsTBlockFile b \<and> \<not> IsSegmentFile b \<and> \<not> IsTempFile b \<and> (\<exists>d. ParseBlockfileName b = (d @ nm, True)))
    \<and> (IsTBlockFile t \<and> \<not> IsBlockFile t \<and> \<not> IsSegmentFile t \<and> \<not> IsTempFile t \<and> (\<exists>d. ParseTBlockfileName t = (d @ nm, True)))
    \<and> (IsSegmentFile s \<and> \<not> IsBlockFile s \<and> \<not> IsTBlockFile s \<and> \<not> IsTempFile s \<and> (\<exists>d. ParseSegmentFileName s = (d @ nm, True)))
    \<and> (\<exists>b' t' s'. MakeBlockFileName dir nm tid True = Ok b' \<and> IsTempFile b' \<and> FilenameFromTmpfile b' = Ok b
        \<and> MakeTBlockFileName dir nm True = Ok t' \<and> IsTempFile t' \<and> FilenameFromTmpfile t' = Ok t
        \<and> MakeSegmentFileName dir nm tid True = Ok s' \<and> IsTempFile s' \<and> FilenameFromTmpfile s' = Ok s)"
proof -
  obtain x1 x2 x3 d1 d2 d3 where x: "x1 = d1 @ nm" "x2 = d2 @ nm" "x3 = d3 @ nm" and d: "MakeFilename dir FTBlock nm False = Ok (x1 @ ''.blk'')"
      "MakeFilename dir FTTBlock nm False = Ok (x2 @ ''.tblk'')" "MakeFilename dir FTSegment nm False = Ok (x3 @ ''.seg'')"
    using MakeFilename_last [OF assms] by fastforce
  have kinds: "IsBlockFile (x @ ''.blk'')" "\<not> IsTBlockFile (x @ ''.blk'')" "\<not> IsSegmentFile (x @ ''.blk'')" "\<not> IsTempFile (x @ ''.blk'')"
      "IsTBlockFile (x @ ''.tblk'')" "\<not> IsBlockFile (x @ ''.tblk'')" "\<not> IsSegmentFile (x @ ''.tblk'')" "\<not> IsTempFile (x @ ''.tblk'')"
      "IsSegmentFile (x @ ''.seg'')" "\<not> IsBlockFile (x @ ''.seg'')" "\<not> IsTBlockFile (x @ ''.seg'')" "\<not> IsTempFile (x @ ''.seg'')" for x
    by (simp_all add: IsBlockFile_def IsTBlockFile_def IsSegmentFile_def IsTempFile_def HasSuffix_def suffix_to_prefix)
  have parse: "ParseBlockfileName (x @ ''.blk'') = (x, True)" "ParseTBlockfileName (x @ ''.tblk'') = (x, True)" "ParseSegmentFileName (x @ ''.seg'') = (x, True)" for x
    by (simp_all add: ParseBlockfileName_def ParseTBlockfileName_def ParseSegmentFileName_def parse_suffix_append)
  note tmp = MakeFilename_tmp [OF _ d(1), simplified] MakeFilename_tmp [OF _ d(2), simplified] MakeFilename_tmp [OF _ d(3), simplified]
  have ex: "\<exists>d. x1 = d @ nm" "\<exists>d. x2 = d @ nm" "\<exists>d. x3 = d @ nm" using x by blast+
  show ?thesis unfolding MakeBlockFileName_def MakeTBlockFileName_def MakeSegmentFileName_def
    using kinds parse ex tmp by (simp add: d)
qed

lemma file_names_tell_example:
  "\<exists>b b'. MakeBlockFileName ''/db/../x'' ''1_2_3'' 1 False = Ok b \<and> IsBlockFile b \<and> \<not> IsTempFile b
     \<and> MakeBlockFileName ''/db/../x'' ''1_2_3'' 1 True = Ok b' \<and> FilenameFromTmpfile b' = Ok b"
  using file_names_tell [of "''1_2_3''" "''/db/../x''" 1] by auto

end
