(* ===== verification/Mocks.thy ===== *)
theory Mocks
  imports TxnStore
begin

text \<open>
  The stand-ins that the catalog package ships: generated schemas (\<open>MockSchema\<close> and \<open>MockSchemaAll\<close> of \<^verbatim>\<open>pkg/catalog/schema.go\<close>) and the
  transaction store of \<^verbatim>\<open>pkg/catalog/mock.go\<close>, which only prepares and applies the entries that its transaction has
  written, and its handles.
\<close>

section \<open>Generated schemas\<close>

record goType =
  gt_Oid :: Oid
  gt_Size :: nat
  gt_Width :: nat

text \<open>The random number of the name is an argument.  A column behind the fourteenth has the zero value of the type.\<close>

definition mock_type :: "nat \<Rightarrow> goType" where
  "mock_type i =
     (let ty = (\<lambda>t s w. \<lparr>gt_Oid = t, gt_Size = s, gt_Width = w\<rparr>);
          tys = [ty (Fix T_int8) 1 8, ty (Fix T_int16) 2 16, ty (Fix T_int32) 4 32, ty (Fix T_int64) 8 64,
                 ty (Fix T_uint8) 1 8, ty (Fix T_uint16) 2 16, ty (Fix T_uint32) 4 32, ty (Fix T_uint64) 8 64,
                 ty (Fix T_float32) 4 32, ty (Fix T_float64) 8 64, ty (Fix T_date) 4 32, ty (Fix T_datetime) 8 64,
                 ty T_varchar 24 100, ty T_char 24 100]
      in if i < length tys then tys ! i else ty T_unsupported 0 0)"

definition mock_name :: "nat \<Rightarrow> string" where
  "mock_name i = ''mock_'' @ dec i"

definition MockSchema :: "nat \<Rightarrow> nat \<Rightarrow> goType Schema res" where
  "MockSchema rnd colCnt =
     append_cols (map (\<lambda>i. (mock_name i, \<lparr>gt_Oid = Fix T_int32, gt_Size = 4, gt_Width = 4\<rparr>)) [0..<colCnt]) (NewEmptySchema (dec rnd))"

definition MockSchemaAll :: "nat \<Rightarrow> nat \<Rightarrow> goType Schema res" where
  "MockSchemaAll rnd colCnt = append_cols (map (\<lambda>i. (mock_name i, mock_type i)) [0..<colCnt]) (NewEmptySchema (dec rnd))"

lemma mock_name_inj: "mock_name i = mock_name j \<longleftrightarrow> i = j"
  by (metis digits_val_dec mock_name_def same_append_eq)

text \<open>The generated schemas are valid, and every column is found under its name.\<close>

lemma mock_cols_valid:
  "\<exists>s. append_cols (map (\<lambda>i. (mock_name i, ty i)) [0..<n]) (NewEmptySchema nm) = Ok s \<and> (Schema_Valid (Some s) \<longleftrightarrow> 0 < n)
     \<and> Types s = map ty [0..<n] \<and> (\<forall>i < n. GetColIdx (mock_name i) s = int i) \<and> (\<forall>i \<ge> n. GetColIdx (mock_name i) s = - 1)"
proof -
  let ?cs = "map (\<lambda>i. (mock_name i, ty i)) [0..<n]"
  have d: "distinct (map fst ?cs)" by (simp add: comp_def distinct_map inj_on_def mock_name_inj)
  have "mock_name i \<notin> fst ` set ?cs" if "i \<ge> n" for i using that by (auto simp: mock_name_inj)
  then show ?thesis using schema_build_correct [of ?cs nm] d by (fastforce simp: comp_def)
qed

lemma MockSchemaAll_valid:
  "\<exists>s. MockSchemaAll rnd n = Ok s \<and> (Schema_Valid (Some s) \<longleftrightarrow> 0 < n) \<and> Types s = map mock_type [0..<n] \<and> (\<forall>i < n. GetColIdx (mock_name i) s = int i)"
  using mock_cols_valid [of mock_type n "dec rnd"] by (auto simp: MockSchemaAll_def)

lemma MockSchema_valid:
  "\<exists>s. MockSchema rnd n = Ok s \<and> (Schema_Valid (Some s) \<longleftrightarrow> 0 < n) \<and> (\<forall>i < n. GetColIdx (mock_name i) s = int i)"
  using mock_cols_valid [of "\<lambda>_. \<lparr>gt_Oid = Fix T_int32, gt_Size = 4, gt_Width = 4\<rparr>" n "dec rnd"] by (auto simp: MockSchema_def)

section \<open>The store of mock transactions\<close>

text \<open>The entries that were written, by their place in the catalog; a second \<open>AddTxnEntry\<close> of an entry changes nothing.\<close>

record ('ty, 'a) mockWorld =
  mw_cat :: "('ty, 'a) Catalog"
  mw_txn :: u64
  mw_entries :: "path set"

definition MockTxnStoreFactory :: "('ty, 'a) Catalog \<Rightarrow> u64 \<Rightarrow> ('ty, 'a) mockWorld" where
  "MockTxnStoreFactory c txn = \<lparr>mw_cat = c, mw_txn = txn, mw_entries = {}\<rparr>"

definition AddTxnEntry :: "path \<Rightarrow> ('ty, 'a) mockWorld \<Rightarrow> ('ty, 'a) mockWorld" where
  "AddTxnEntry p w = w\<lparr>mw_entries := insert p (mw_entries w)\<rparr>"

text \<open>\<open>ps\<close> is the order in which Go iterates over the map; no entry reports an error.\<close>

definition Mock_PrepareCommit :: "txn_env \<Rightarrow> path list \<Rightarrow> ('ty, 'a) mockWorld \<Rightarrow> ('ty, 'a) mockWorld" where
  "Mock_PrepareCommit env ps w = w\<lparr>mw_cat := fold (base_upd (PrepareCommit env)) ps (mw_cat w)\<rparr>"

definition Mock_ApplyCommit :: "path list \<Rightarrow> ('ty, 'a) mockWorld \<Rightarrow> ('ty, 'a) mockWorld" where
  "Mock_ApplyCommit ps w = w\<lparr>mw_cat := fold (base_upd ApplyCommit) ps (mw_cat w)\<rparr>"

section \<open>The handles of mock transactions\<close>

definition mockTxn_CreateDatabase :: "('a \<Rightarrow> u64 \<times> 'a) \<Rightarrow> txn_env \<Rightarrow> string \<Rightarrow> (('ty, 'a) mockWorld, u64) act" where
  "mockTxn_CreateDatabase al env nm w =
     (case CreateDBEntry al env nm (Some (mw_txn w)) (mw_cat w) of
        Ok (None, d, c) \<Rightarrow> (let i = be_ID (db_base d) in (Ok i, AddTxnEntry (PDB i) (w\<lparr>mw_cat := c\<rparr>)))
      | Ok (Some e, d, c) \<Rightarrow> (Err e, w\<lparr>mw_cat := c\<rparr>)
      | Err e \<Rightarrow> (Err e, w)
      | Panic \<Rightarrow> (Panic, w))"

definition mockTxn_GetDatabase :: "txn_env \<Rightarrow> (u64 \<Rightarrow> TxnStates) \<Rightarrow> string \<Rightarrow> (('ty, 'a) mockWorld, u64) act" where
  "mockTxn_GetDatabase env later nm w =
     (res_bind (GetDBEntry env later nm (mw_txn w) (mw_cat w)) (\<lambda>d. Ok (be_ID (db_base d))), w)"

definition mockTxn_DropDatabase :: "txn_env \<Rightarrow> (u64 \<Rightarrow> TxnStates) \<Rightarrow> string \<Rightarrow> (('ty, 'a) mockWorld, u64) act" where
  "mockTxn_DropDatabase env later nm w =
     (case DropDBEntry env later nm (mw_txn w) (mw_cat w) of
        Ok (d, c) \<Rightarrow> (let i = be_ID (db_base d) in (Ok i, AddTxnEntry (PDB i) (w\<lparr>mw_cat := c\<rparr>)))
      | Err e \<Rightarrow> (Err e, w)
      | Panic \<Rightarrow> (Panic, w))"

text \<open>The handle of a database is its identifier.\<close>

definition mock_db :: "u64 \<Rightarrow> (('ty, 'a) mockWorld, 'ty DBEntry) act" where
  "mock_db h w = (case entries (cat_dir (mw_cat w)) h of None \<Rightarrow> (Panic, w) | Some d \<Rightarrow> (Ok d, w))"

definition mock_put :: "'ty DBEntry \<Rightarrow> ('ty, 'a) mockWorld \<Rightarrow> ('ty, 'a) mockWorld" where
  "mock_put d w = w\<lparr>mw_cat := (mw_cat w)\<lparr>cat_dir := put_entry (be_ID (db_base d)) d (cat_dir (mw_cat w))\<rparr>\<rparr>"

definition mockDB_CreateRelation :: "('a \<Rightarrow> u64 \<times> 'a) \<Rightarrow> txn_env \<Rightarrow> u64 \<Rightarrow> 'ty Schema \<Rightarrow> (('ty, 'a) mockWorld, u64) act" where
  "mockDB_CreateRelation al env h schema =
     act_bind (mock_db h) (\<lambda>d w.
       case CreateTableEntry al env schema (Some (mw_txn w)) d (cat_alloc (mw_cat w)) of
         Ok (er, tb, d', x) \<Rightarrow>
           (let i = be_ID (tbl_base tb); w1 = mock_put d' (w\<lparr>mw_cat := (mw_cat w)\<lparr>cat_alloc := x\<rparr>\<rparr>)
            in case er of Some e \<Rightarrow> (Err e, w1) | None \<Rightarrow> (Ok i, AddTxnEntry (PTbl h i) w1))
       | Err e \<Rightarrow> (Err e, w)
       | Panic \<Rightarrow> (Panic, w))"

definition mockDB_DropRelationByName :: "txn_env \<Rightarrow> (u64 \<Rightarrow> TxnStates) \<Rightarrow> u64 \<Rightarrow> string \<Rightarrow> (('ty, 'a) mockWorld, u64) act" where
  "mockDB_DropRelationByName env later h nm =
     act_bind (mock_db h) (\<lambda>d w.
       case DropTableEntry env later nm (mw_txn w) d of
         Ok (tb, d') \<Rightarrow> (let i = be_ID (tbl_base tb) in (Ok i, AddTxnEntry (PTbl h i) (mock_put d' w)))
       | Err e \<Rightarrow> (Err e, w)
       | Panic \<Rightarrow> (Panic, w))"

definition mockDB_GetRelationByName :: "txn_env \<Rightarrow> (u64 \<Rightarrow> TxnStates) \<Rightarrow> u64 \<Rightarrow> string \<Rightarrow> (('ty, 'a) mockWorld, u64) act" where
  "mockDB_GetRelationByName env later h nm =
     act_bind (mock_db h) (\<lambda>d w. (res_bind (GetTableEntry env later nm (mw_txn w) d) (\<lambda>tb. Ok (be_ID (tbl_base tb))), w))"

section \<open>The mock store against the real one\<close>

lemma mock_commit:
  assumes "set ps = mw_entries w" and "set qs = mw_entries w"
  shows "base_at p (mw_cat (Mock_ApplyCommit qs (Mock_PrepareCommit env ps w)))
    = (if p \<in> mw_entries w then map_option (\<lambda>b. ApplyCommit (PrepareCommit env b)) (base_at p (mw_cat w)) else base_at p (mw_cat w))"
  using assms
  by (auto simp: Mock_ApplyCommit_def Mock_PrepareCommit_def base_at_fold option.map_comp comp_def simp del: base_at.simps)

text \<open>
  The mock store of the catalog tests stands for the real one: when a transaction has written the same entries through both, none of them a dropped
  database or a table that it created and dropped at once, and the real store's first phase succeeds, then committing through either of them leaves every entry of the catalog with the
  same timestamps, writer and last operation, whatever the order in which the entries and tables are visited.
\<close>

lemma mock_store_agrees:
  fixes w :: "('ty, 'a, 'vec, 'b, 'v, 'd) world"
  assumes "tables_there w is" and "set is = dom (ts_tables (w_store w))" and "distinct is'" and "set is' = set is"
    and "Store_PrepareCommit L D env later order is js w = (Ok (), w1)" and "prepared w is = live_paths env w is"
    and "mw_cat m = w_cat w" and "mw_entries m = live_paths env w is" and "set ps = mw_entries m" and "set qs = mw_entries m"
    and "\<forall>p \<in> mw_entries m. base_at p (mw_cat m) \<noteq> None"
  shows "\<exists>w2. Store_ApplyCommit is' w1 = (Ok (), w2)
    \<and> (\<forall>p. base_at p (w_cat w2) = base_at p (mw_cat (Mock_ApplyCommit qs (Mock_PrepareCommit env ps m))))"
proof -
  obtain w2 where w2: "Store_ApplyCommit is' w1 = (Ok (), w2)" "\<And>p. p \<notin> prepared w is \<Longrightarrow> base_at p (w_cat w2) = base_at p (w_cat w)"
      "\<And>p b. p \<in> live_paths env w is \<Longrightarrow> base_at p (w_cat w) = Some b \<Longrightarrow> base_at p (w_cat w2) = Some (ApplyCommit (PrepareCommit env b))"
    using commit_cases [where L = L and D = D and env = env and later = later and order = order and js = js, OF assms(1-4)] assms(5) by auto
  have "base_at p (w_cat w2) = base_at p (mw_cat (Mock_ApplyCommit qs (Mock_PrepareCommit env ps m)))" for p
  proof (cases "p \<in> live_paths env w is")
    case True
    then obtain b where "base_at p (w_cat w) = Some b" using assms(7,8,11) by (auto simp del: base_at.simps)
    then show ?thesis using w2(3) [OF True] assms(7,8) mock_commit [OF assms(9,10)] True by (simp del: base_at.simps)
  next
    case False
    then show ?thesis using w2(2) assms(6,7,8) mock_commit [OF assms(9,10)] by (simp del: base_at.simps)
  qed
  then show ?thesis using w2(1) by blast
qed

lemma mock_store_agrees_example:
  "\<exists>w1 w2. Store_PrepareCommit demo_log demo_driver demo_commit (\<lambda>_. TxnStateActive) id [1] [1] demo_world = (Ok (), w1)
     \<and> Store_ApplyCommit [1] w1 = (Ok (), w2)
     \<and> (\<forall>p. base_at p (w_cat w2)
          = base_at p (mw_cat (Mock_ApplyCommit [PTbl 1 1, PDB 1] (Mock_PrepareCommit demo_commit [PDB 1, PTbl 1 1]
              \<lparr>mw_cat = w_cat demo_world, mw_txn = 7, mw_entries = {PDB 1, PTbl 1 1}\<rparr>))))"
proof -
  let ?m = "\<lparr>mw_cat = w_cat demo_world, mw_txn = 7, mw_entries = {PDB 1, PTbl 1 1}\<rparr>"
  have there: "tables_there demo_world [1]"
    using demo_world_base by (simp add: tables_there_def newTxnTable_def del: base_at.simps)
  have cr: "ts_createEntry (w_store demo_world) = Some 1" "ts_dropEntry (w_store demo_world) = None" by (simp_all add: demo_world_eq Let_def newStore_def)
  have owns: "owns 1 ((newTxnTable 1)\<lparr>tt_createEntry := True\<rparr> :: (u8, u32 list, u8, unit) tableTxn) p \<longleftrightarrow> p = PTbl 1 1" for p
    by (cases p) (simp_all add: owns_def newTxnTable_def)
  have b: "\<not> CreateAndDropInSameTxn (new_base 1 (Some 7))" "\<not> CreateAndDropInSameTxn (PrepareCommit demo_commit (new_base 1 (Some 7)))"
    by (simp_all add: new_base_def CreateAndDropInSameTxn_def PrepareCommit_def demo_commit_def)
  have live: "live_paths demo_commit demo_world [1] = {PDB 1, PTbl 1 1}"
    using demo_world_base cr b owns by (auto simp: live_paths_def opt_path_def newTxnTable_def simp del: base_at.simps)
  have prep: "prepared demo_world [1] = {PDB 1, PTbl 1 1}"
    using demo_world_base cr b owns by (auto simp: prepared_def phase_paths_def opt_path_def newTxnTable_def simp del: base_at.simps)
  obtain w1 where w1: "Store_PrepareCommit demo_log demo_driver demo_commit (\<lambda>_. TxnStateActive) id [1] [1] demo_world = (Ok (), w1)"
    using demo_prepare by (metis prod.collapse)
  have dom: "set [1] = dom (ts_tables (w_store demo_world))" by (simp add: demo_world_base)
  have "prepared demo_world [1] = live_paths demo_commit demo_world [1]" "mw_cat ?m = w_cat demo_world" "mw_entries ?m = live_paths demo_commit demo_world [1]"
      "set [PDB 1, PTbl 1 1] = mw_entries ?m" "set [PTbl 1 1, PDB 1] = mw_entries ?m" "\<forall>p \<in> mw_entries ?m. base_at p (mw_cat ?m) \<noteq> None"
    using live prep demo_world_base by (auto simp del: base_at.simps)
  from mock_store_agrees [OF there dom _ refl w1 this] w1 show ?thesis by (auto simp del: base_at.simps fold_simps)
qed

end
