(* ===== verification/Printing.thy ===== *)
theory Printing
  imports Catalog
begin

text \<open>
  The dump of the catalog: \<open>PPString\<close> of catalogs, databases, tables, segments and blocks (\<^verbatim>\<open>pkg/catalog\<close>) and the strings
  they are made of (\<^verbatim>\<open>pkg/common/print.go\<close>, \<open>Repr\<close> of \<^verbatim>\<open>pkg/txn/txnbase/txnctx.go\<close>, \<open>TxnStrState\<close>).
\<close>

section \<open>Strings of entries\<close>

abbreviation tab :: char where "tab \<equiv> CHR 0x09"
abbreviation nl :: char where "nl \<equiv> CHR 0x0A"

datatype PPLevel = PPL0 | PPL1 | PPL2 | PPL3

text \<open>Whatever is to be repeated, tabs are added to it.\<close>

fun RepeatStr :: "string \<Rightarrow> nat \<Rightarrow> string" where
  "RepeatStr str 0 = str"
| "RepeatStr str (Suc n) = RepeatStr (str @ [tab]) n"

fun OpName :: "OpT \<Rightarrow> string" where
  "OpName OpCreate = ''Create''"
| "OpName OpUpdate = ''Update''"
| "OpName OpSoftDelete = ''SoftDelete''"
| "OpName OpHardDelete = ''HardDelete''"

fun TxnStrState :: "TxnStates \<Rightarrow> string" where
  "TxnStrState TxnStateActive = ''Active''"
| "TxnStrState TxnStateCommitting = ''Committing''"
| "TxnStrState TxnStateRollbacking = ''Rollbacking''"
| "TxnStrState TxnStateCommitted = ''Committed''"
| "TxnStrState TxnStateRollbacked = ''Rollbacked''"

definition TxnCtx_Repr :: "TxnCtx \<Rightarrow> string" where
  "TxnCtx_Repr c = ''Txn['' @ dec_w (txn_ID c) @ ''][''  @ dec_w (StartTS c) @ ''->'' @ dec_w (CommitTS c) @ ''][''  @ TxnStrState (State c) @ '']''"

definition OpTxn_Repr :: "OpTxn \<Rightarrow> string" where
  "OpTxn_Repr t = (if op_Op t = OpCommit then ''[Commit][Txn-'' else ''[Rollback][Txn-'') @ dec_w (op_Txn t) @ '']''"

definition Base_String :: "txn_env \<Rightarrow> BaseEntry \<Rightarrow> string" where
  "Base_String env be =
     ''[Op='' @ OpName (CurrOp be) @ ''][ID='' @ dec_w (be_ID be) @ ''][''  @ dec_w (CreateAt be) @ '','' @ dec_w (DeleteAt be) @ '']''
     @ (case be_Txn be of None \<Rightarrow> [] | Some t \<Rightarrow> TxnCtx_Repr (env t))"

definition Block_String :: "txn_env \<Rightarrow> BlockEntry \<Rightarrow> string" where
  "Block_String env b = ''BLOCK'' @ Base_String env (blk_base b)"

definition Segment_String :: "txn_env \<Rightarrow> SegmentEntry \<Rightarrow> string" where
  "Segment_String env s = ''SEGMENT'' @ Base_String env (seg_base s)"

definition Table_String :: "txn_env \<Rightarrow> 'ty TableEntry \<Rightarrow> string" where
  "Table_String env t = ''TABLE'' @ Base_String env (tbl_base t) @ ''[name='' @ sc_Name (tbl_schema t) @ '']''"

definition DB_String :: "txn_env \<Rightarrow> 'ty DBEntry \<Rightarrow> string" where
  "DB_String env d = ''DB'' @ Base_String env (db_base d) @ ''[name='' @ db_name d @ '']''"

section \<open>The dump\<close>

text \<open>The loop that all levels share: the strings of the children, one below the other.\<close>

definition add_line :: "string \<Rightarrow> string \<Rightarrow> string" where
  "add_line body s = (if body = [] then s else body @ [nl] @ s)"

definition with_body :: "string \<Rightarrow> string \<Rightarrow> string" where
  "with_body s body = (if body = [] then s else s @ [nl] @ body)"

definition Block_PPString :: "txn_env \<Rightarrow> nat \<Rightarrow> string \<Rightarrow> BlockEntry \<Rightarrow> string" where
  "Block_PPString env depth pre b = RepeatStr [tab] depth @ pre @ Block_String env b"

definition Segment_PPString :: "txn_env \<Rightarrow> PPLevel \<Rightarrow> nat \<Rightarrow> string \<Rightarrow> SegmentEntry \<Rightarrow> string" where
  "Segment_PPString env level depth pre s =
     (let h = RepeatStr [tab] depth @ pre @ Segment_String env s
      in if level = PPL0 then h
         else with_body h (foldl (\<lambda>body i. add_line body (Block_PPString env (depth + 1) pre (the (seg_entries s i)))) [] (rev (seg_link s))))"

definition Table_PPString :: "txn_env \<Rightarrow> PPLevel \<Rightarrow> nat \<Rightarrow> string \<Rightarrow> 'ty TableEntry \<Rightarrow> string" where
  "Table_PPString env level depth pre t =
     (let h = RepeatStr [tab] depth @ pre @ Table_String env t
      in if level = PPL0 then h
         else with_body h (foldl (\<lambda>body i. add_line body (Segment_PPString env level (depth + 1) pre (the (tbl_entries t i)))) [] (rev (tbl_link t))))"

definition DB_PPString :: "txn_env \<Rightarrow> PPLevel \<Rightarrow> nat \<Rightarrow> string \<Rightarrow> 'ty DBEntry \<Rightarrow> string" where
  "DB_PPString env level depth pre d =
     (let h = RepeatStr [tab] depth @ pre @ DB_String env d
      in if level = PPL0 then h
         else with_body h (foldl (\<lambda>body i. add_line body (Table_PPString env level (depth + 1) [] (the (entries (db_dir d) i)))) [] (rev (link (db_dir d)))))"

definition Catalog_PPString :: "txn_env \<Rightarrow> PPLevel \<Rightarrow> nat \<Rightarrow> string \<Rightarrow> ('ty, 'a) Catalog \<Rightarrow> string" where
  "Catalog_PPString env level depth pre c =
     (let ids = rev (link (cat_dir c));
          body = foldl (\<lambda>body i. add_line body (DB_PPString env level (depth + 1) [] (the (entries (cat_dir c) i)))) [] ids
      in with_body (''CATALOG[CNT='' @ dec (length ids) @ '']'') body)"

definition SimplePPString :: "txn_env \<Rightarrow> PPLevel \<Rightarrow> ('ty, 'a) Catalog \<Rightarrow> string" where
  "SimplePPString env level c = Catalog_PPString env level 0 [] c"

section \<open>The lines of a dump\<close>

text \<open>The indentation of a depth has one tab more than the depth.\<close>

definition indent :: "nat \<Rightarrow> string" where
  "indent depth = replicate (depth + 1) tab"

lemma RepeatStr_tabs: "RepeatStr str n = str @ replicate n tab"
  by (induction str n rule: RepeatStr.induct) simp_all

lemma RepeatStr_indent: "RepeatStr [tab] depth = indent depth"
  by (simp add: RepeatStr_tabs indent_def)

text \<open>What a dump should show: an entry, indented by its depth, and below it the lines of its children, the oldest first.\<close>

definition block_lines :: "txn_env \<Rightarrow> nat \<Rightarrow> BlockEntry \<Rightarrow> string list" where
  "block_lines env depth b = [indent depth @ Block_String env b]"

definition segment_lines :: "txn_env \<Rightarrow> PPLevel \<Rightarrow> nat \<Rightarrow> SegmentEntry \<Rightarrow> string list" where
  "segment_lines env level depth s =
     (indent depth @ Segment_String env s)
     # (if level = PPL0 then [] else concat (map (\<lambda>i. block_lines env (depth + 1) (the (seg_entries s i))) (rev (seg_link s))))"

definition table_lines :: "txn_env \<Rightarrow> PPLevel \<Rightarrow> nat \<Rightarrow> 'ty TableEntry \<Rightarrow> string list" where
  "table_lines env level depth t =
     (indent depth @ Table_String env t)
     # (if level = PPL0 then [] else concat (map (\<lambda>i. segment_lines env level (depth + 1) (the (tbl_entries t i))) (rev (tbl_link t))))"

definition db_lines :: "txn_env \<Rightarrow> PPLevel \<Rightarrow> nat \<Rightarrow> 'ty DBEntry \<Rightarrow> string list" where
  "db_lines env level depth d =
     (indent depth @ DB_String env d)
     # (if level = PPL0 then [] else concat (map (\<lambda>i. table_lines env level (depth + 1) (the (entries (db_dir d) i))) (rev (link (db_dir d)))))"

definition catalog_lines :: "txn_env \<Rightarrow> PPLevel \<Rightarrow> ('ty, 'a) Catalog \<Rightarrow> string list" where
  "catalog_lines env level c =
     (''CATALOG[CNT='' @ dec (length (link (cat_dir c))) @ '']'')
     # concat (map (\<lambda>i. db_lines env level 1 (the (entries (cat_dir c) i))) (rev (link (cat_dir c))))"

lemma join_append: "xs \<noteq> [] \<Longrightarrow> ys \<noteq> [] \<Longrightarrow> join_on c (xs @ ys) = join_on c xs @ [c] @ join_on c ys"
  by (induction c xs rule: join_on.induct) (auto simp: neq_Nil_conv)

lemma join_nonempty: "xs \<noteq> [] \<Longrightarrow> hd xs \<noteq> [] \<Longrightarrow> join_on c xs \<noteq> []"
  by (induction c xs rule: join_on.induct) auto

text \<open>The loop joins the lines of all children, when no child is empty.\<close>

lemma loop_lines:
  assumes "\<And>i. i \<in> set is \<Longrightarrow> pp i = join_on nl (ls i) \<and> ls i \<noteq> [] \<and> hd (ls i) \<noteq> []"
  shows "foldl (\<lambda>body i. add_line body (pp i)) [] is = join_on nl (concat (map ls is))
    \<and> (concat (map ls is) \<noteq> [] \<longrightarrow> hd (concat (map ls is)) \<noteq> [])"
  using assms
proof (induction "is" rule: rev_induct)
  case (snoc i "is")
  obtain L where L: "L = concat (map ls is)" by simp
  have IH: "foldl (\<lambda>body i. add_line body (pp i)) [] is = join_on nl L" "L \<noteq> [] \<longrightarrow> hd L \<noteq> []" using snoc unfolding L by simp_all
  have i: "pp i = join_on nl (ls i)" "ls i \<noteq> []" "hd (ls i) \<noteq> []" using snoc.prems [of i] by simp_all
  have "add_line (join_on nl L) (join_on nl (ls i)) = join_on nl (L @ ls i)"
  proof (cases "L = []")
    case False
    then show ?thesis using IH(2) i join_nonempty [of L nl] by (simp add: add_line_def join_append)
  qed (simp add: add_line_def)
  moreover have "hd (L @ ls i) \<noteq> []" using IH(2) i by (cases L) simp_all
  ultimately show ?case using IH(1) i by (simp add: L [symmetric])
qed simp

text \<open>A heading with the lines of its children below it.\<close>

lemma with_body_lines: "(xs \<noteq> [] \<longrightarrow> hd xs \<noteq> []) \<Longrightarrow> with_body h (join_on nl xs) = join_on nl (h # xs)"
  using join_nonempty [of xs nl] by (cases xs) (auto simp: with_body_def)

lemma heading_lines:
  assumes "\<And>i. i \<in> set is \<Longrightarrow> pp i = join_on nl (ls i) \<and> ls i \<noteq> [] \<and> hd (ls i) \<noteq> []"
  shows "with_body h (foldl (\<lambda>body i. add_line body (pp i)) [] is) = join_on nl (h # concat (map ls is))"
proof -
  obtain L where L: "L = concat (map ls is)" by simp
  have "foldl (\<lambda>body i. add_line body (pp i)) [] is = join_on nl L \<and> (L \<noteq> [] \<longrightarrow> hd L \<noteq> [])" unfolding L by (rule loop_lines [OF assms])
  then show ?thesis unfolding L [symmetric] using with_body_lines [of L h] by simp
qed

lemma lines_shown:
  "block_lines env n b \<noteq> []" "hd (block_lines env n b) \<noteq> []"
  "segment_lines env level n s \<noteq> []" "hd (segment_lines env level n s) \<noteq> []"
  "table_lines env level n t \<noteq> []" "hd (table_lines env level n t) \<noteq> []"
  "db_lines env level n d \<noteq> []" "hd (db_lines env level n d) \<noteq> []"
  by (simp_all add: block_lines_def segment_lines_def table_lines_def db_lines_def Block_String_def Segment_String_def Table_String_def DB_String_def)

lemma Block_PPString_lines: "Block_PPString env depth [] b = join_on nl (block_lines env depth b)"
  by (simp add: Block_PPString_def block_lines_def RepeatStr_indent)

lemma Segment_PPString_lines: "Segment_PPString env level depth [] s = join_on nl (segment_lines env level depth s)"
proof (cases "level = PPL0")
  case False
  then show ?thesis unfolding Segment_PPString_def segment_lines_def Let_def if_not_P [OF False]
    by (simp only: append_Nil RepeatStr_indent) (rule heading_lines, simp add: Block_PPString_lines lines_shown)
qed (simp add: Segment_PPString_def segment_lines_def RepeatStr_indent)

lemma Table_PPString_lines: "Table_PPString env level depth [] t = join_on nl (table_lines env level depth t)"
proof (cases "level = PPL0")
  case False
  then show ?thesis unfolding Table_PPString_def table_lines_def Let_def if_not_P [OF False]
    by (simp only: append_Nil RepeatStr_indent) (rule heading_lines, simp add: Segment_PPString_lines lines_shown)
qed (simp add: Table_PPString_def table_lines_def RepeatStr_indent)

lemma DB_PPString_lines: "DB_PPString env level depth [] d = join_on nl (db_lines env level depth d)"
proof (cases "level = PPL0")
  case False
  then show ?thesis unfolding DB_PPString_def db_lines_def Let_def if_not_P [OF False]
    by (simp only: append_Nil RepeatStr_indent) (rule heading_lines, simp add: Table_PPString_lines lines_shown)
qed (simp add: DB_PPString_def db_lines_def RepeatStr_indent)


section \<open>Version lists of names\<close>

text \<open>The list of the versions of a name as text: the newest version, and from level 1 on the older ones.\<close>

fun arrows :: "string \<Rightarrow> u64 list \<Rightarrow> string" where
  "arrows s [] = s"
| "arrows s (i # is) = arrows (s @ ''->'' @ dec_w i) is"

definition nodeList_PString :: "PPLevel \<Rightarrow> string \<Rightarrow> u64 list \<Rightarrow> string" where
  "nodeList_PString level nm ids =
     (case ids of
        [] \<Rightarrow> ''TableNode['' @ [CHR 0x22] @ nm @ [CHR 0x22] @ ''](Len=0)''
      | i # is \<Rightarrow>
          (let s = ''TableNode['' @ [CHR 0x22] @ nm @ [CHR 0x22] @ ''](Len='' @ dec (length ids) @ '')->['' @ dec_w i
           in if level = PPL0 then s @ '']'' else arrows s is @ '']''))"

lemma arrows_all: "arrows s is = s @ concat (map (\<lambda>i. ''->'' @ dec_w i) is)"
  by (induction "is" arbitrary: s) simp_all

lemma nodeList_PString_all:
  "level \<noteq> PPL0 \<Longrightarrow> nodeList_PString level nm (i # is) =
     ''TableNode['' @ [CHR 0x22] @ nm @ [CHR 0x22] @ ''](Len='' @ dec (Suc (length is)) @ '')->['' @ dec_w i @ concat (map (\<lambda>i. ''->'' @ dec_w i) is) @ '']''"
  by (simp add: nodeList_PString_def arrows_all)

end
