(* ===== verification/CmdText.thy ===== *)
theory CmdText
  imports Commands Printing
begin

text \<open>
  The commands of the log as byte strings and as text: \<open>Marshal\<close>, \<open>Unmarshal\<close> and \<open>String\<close> of every command
  (\<^verbatim>\<open>pkg/txn/txnbase/command.go\<close>, \<^verbatim>\<open>pkg/txn/txnimpl/appendcmd.go\<close>, \<^verbatim>\<open>pkg/updates/updatecmd.go\<close>,
  \<^verbatim>\<open>pkg/catalog/command.go\<close>).
\<close>

section \<open>Marshal and Unmarshal\<close>

definition PointerCmd_Marshal :: "u32 \<Rightarrow> u64 \<Rightarrow> bytes res" where
  "PointerCmd_Marshal g l = PointerCmd_WriteTo g l"

definition DeleteBitmapCmd_Marshal :: "('v, 'b, 'n, 'ty, 'bat, 'vec) log_ops \<Rightarrow> 'b \<Rightarrow> bytes res" where
  "DeleteBitmapCmd_Marshal L b = DeleteBitmapCmd_WriteTo L b"

definition BatchCmd_Marshal :: "('v, 'b, 'n, 'ty, 'bat, 'vec) log_ops \<Rightarrow> 'ty list \<Rightarrow> 'bat option \<Rightarrow> bytes res" where
  "BatchCmd_Marshal L tys bat = BatchCmd_WriteTo L tys bat"

definition ComposedCmd_Marshal :: "('v, 'b, 'n, 'ty, 'bat, 'vec) log_ops \<Rightarrow> ('v, 'b, 'ty, 'bat) TxnCmd list \<Rightarrow> bytes res" where
  "ComposedCmd_Marshal L cs = ComposedCmd_WriteTo (length cs) (write_cmds L cs)"

definition UpdateCmd_Marshal :: "('v, 'b, 'n, 'ty, 'bat, 'vec) log_ops \<Rightarrow> u32 \<Rightarrow> ('v, 'b, 'ty) BlockUpdates \<Rightarrow> bytes res" where
  "UpdateCmd_Marshal L i u = UpdateCmd_WriteTo L i u"

definition AppendCmd_Marshal :: "('v, 'b, 'n, 'ty, 'bat, 'vec) log_ops \<Rightarrow> u32 \<Rightarrow> ('v, 'b, 'ty, 'bat) TxnCmd list \<Rightarrow> bytes res" where
  "AppendCmd_Marshal L i cs = AppendCmd_WriteTo i (length cs) (write_cmds L cs)"

definition entryCmd_Marshal :: "('v, 'b, 'n, 'ty, 'bat, 'vec) log_ops \<Rightarrow> 'ty entryCmd \<Rightarrow> bytes res" where
  "entryCmd_Marshal L c = entryCmd_WriteTo (ty_Encode (lo_bat L)) c"

text \<open>Bytes that are left over are ignored.\<close>

definition whole :: "('x \<Rightarrow> 'c) \<Rightarrow> ('x \<times> bytes) res \<Rightarrow> 'c res" where
  "whole mk x = res_bind x (\<lambda>(y, r). Ok (mk y))"

definition PointerCmd_Unmarshal :: "bytes \<Rightarrow> (u32 \<times> u64) res" where
  "PointerCmd_Unmarshal buf = whole id (PointerCmd_ReadFrom buf)"

definition DeleteBitmapCmd_Unmarshal :: "('v, 'b, 'n, 'ty, 'bat, 'vec) log_ops \<Rightarrow> bytes \<Rightarrow> 'b res" where
  "DeleteBitmapCmd_Unmarshal L buf = whole id (lo_bmRead L buf)"

definition BatchCmd_Unmarshal :: "('v, 'b, 'n, 'ty, 'bat, 'vec) log_ops \<Rightarrow> bytes \<Rightarrow> ('ty list \<times> 'bat option) res" where
  "BatchCmd_Unmarshal L buf = whole id (BatchCmd_ReadFrom L buf)"

definition ComposedCmd_Unmarshal :: "nat \<Rightarrow> ('v, 'b, 'n, 'ty, 'bat, 'vec) log_ops \<Rightarrow> bytes \<Rightarrow> ('v, 'b, 'ty, 'bat) TxnCmd list res option" where
  "ComposedCmd_Unmarshal fuel L buf = map_option (whole id) (Composed_ReadFrom (BuildCommandFrom fuel L) buf)"

definition UpdateCmd_Unmarshal :: "('v, 'b, 'n, 'ty, 'bat, 'vec) log_ops \<Rightarrow> bytes \<Rightarrow> (u32 \<times> ('v, 'b, 'ty) BlockUpdates) res" where
  "UpdateCmd_Unmarshal L buf = whole id (UpdateCmd_ReadFrom L buf)"

definition AppendCmd_Unmarshal :: "nat \<Rightarrow> ('v, 'b, 'n, 'ty, 'bat, 'vec) log_ops \<Rightarrow> bytes \<Rightarrow> (u32 \<times> ('v, 'b, 'ty, 'bat) TxnCmd list) res option" where
  "AppendCmd_Unmarshal fuel L buf = map_option (whole id) (AppendCmd_ReadFrom (BuildCommandFrom fuel L) buf)"

definition entryCmd_Unmarshal :: "('v, 'b, 'n, 'ty, 'bat, 'vec) log_ops \<Rightarrow> u16 \<Rightarrow> bytes \<Rightarrow> 'ty entryCmd res" where
  "entryCmd_Unmarshal L t buf = whole id (entryCmd_ReadFrom (ty_Size (lo_bat L)) (ty_Decode (lo_bat L)) (newEmptyEntryCmd t) buf)"

text \<open>The methods of the interface, on a command of the kind of the second argument.\<close>

fun cmd_Marshal :: "('v, 'b, 'n, 'ty, 'bat, 'vec) log_ops \<Rightarrow> ('v, 'b, 'ty, 'bat) TxnCmd \<Rightarrow> bytes res" where
  "cmd_Marshal L (PointerCmd g l) = PointerCmd_Marshal g l"
| "cmd_Marshal L (DeleteBitmapCmd b) = DeleteBitmapCmd_Marshal L b"
| "cmd_Marshal L (BatchCmd tys bat) = BatchCmd_Marshal L tys bat"
| "cmd_Marshal L (ComposedCmd cs) = ComposedCmd_Marshal L cs"
| "cmd_Marshal L (UpdateCmd i u) = UpdateCmd_Marshal L i u"
| "cmd_Marshal L (AppendCmd i cs) = AppendCmd_Marshal L i cs"
| "cmd_Marshal L (EntryCmd c) = entryCmd_Marshal L c"

fun cmd_Unmarshal :: "nat \<Rightarrow> ('v, 'b, 'n, 'ty, 'bat, 'vec) log_ops \<Rightarrow> ('v, 'b, 'ty, 'bat) TxnCmd \<Rightarrow> bytes \<Rightarrow> ('v, 'b, 'ty, 'bat) TxnCmd res option" where
  "cmd_Unmarshal fuel L (PointerCmd _ _) buf = Some (res_bind (PointerCmd_Unmarshal buf) (\<lambda>(g, l). Ok (PointerCmd g l)))"
| "cmd_Unmarshal fuel L (DeleteBitmapCmd _) buf = Some (res_bind (DeleteBitmapCmd_Unmarshal L buf) (\<lambda>b. Ok (DeleteBitmapCmd b)))"
| "cmd_Unmarshal fuel L (BatchCmd _ _) buf = Some (res_bind (BatchCmd_Unmarshal L buf) (\<lambda>(tys, bat). Ok (BatchCmd tys bat)))"
| "cmd_Unmarshal fuel L (ComposedCmd _) buf = map_option (\<lambda>x. res_bind x (\<lambda>cs. Ok (ComposedCmd cs))) (ComposedCmd_Unmarshal fuel L buf)"
| "cmd_Unmarshal fuel L (UpdateCmd _ _) buf = Some (res_bind (UpdateCmd_Unmarshal L buf) (\<lambda>(i, u). Ok (UpdateCmd i u)))"
| "cmd_Unmarshal fuel L (AppendCmd _ _) buf = map_option (\<lambda>x. res_bind x (\<lambda>(i, cs). Ok (AppendCmd i cs))) (AppendCmd_Unmarshal fuel L buf)"
| "cmd_Unmarshal fuel L (EntryCmd c) buf = Some (res_bind (entryCmd_Unmarshal L (ec_type c) buf) (\<lambda>c. Ok (EntryCmd c)))"

lemmas Marshal_defs = PointerCmd_Marshal_def DeleteBitmapCmd_Marshal_def BatchCmd_Marshal_def ComposedCmd_Marshal_def UpdateCmd_Marshal_def
  AppendCmd_Marshal_def entryCmd_Marshal_def

lemmas Unmarshal_defs = PointerCmd_Unmarshal_def DeleteBitmapCmd_Unmarshal_def BatchCmd_Unmarshal_def ComposedCmd_Unmarshal_def
  UpdateCmd_Unmarshal_def AppendCmd_Unmarshal_def entryCmd_Unmarshal_def whole_def

lemma Marshal_WriteTo: "cmd_Marshal L c = WriteTo L c"
  by (cases c) (simp_all add: Marshal_defs)

lemma WriteTo_type: "WriteTo L c = Ok buf \<Longrightarrow> \<exists>rest. buf = put_u16 (GetType c) @ rest"
  by (cases c) (auto simp: entryCmd_WriteTo_def split: option.splits)

text \<open>\<open>BuildCommandFrom\<close> reads the type and then does what \<open>Unmarshal\<close> of a command of this type does.\<close>

lemma Build_Unmarshal:
  assumes "BuildCommandFrom (Suc fuel) L (put_u16 (GetType c) @ rest) = Some (Ok (c', r))" and "\<And>e. c = EntryCmd e \<Longrightarrow> ec_type e \<in> set entry_types"
  shows "cmd_Unmarshal fuel L c rest = Some (Ok c')"
proof (cases c)
  case (EntryCmd e)
  have t: "ec_type e \<in> set entry_types" using assms(2) EntryCmd by simp
  then have n: "ec_type e \<notin> {CmdPointer, CmdDeleteBitmap, CmdBatch, CmdComposed, CmdUpdate, CmdAppend}"
    by (auto simp: entry_types_def cmd_defs)
  show ?thesis using assms(1) t n EntryCmd by (auto simp: Unmarshal_defs)
qed (use assms(1) in \<open>auto simp: Unmarshal_defs cmd_defs split: option.splits\<close>)

text \<open>
  A command is restored by \<open>Unmarshal\<close> from what \<open>Marshal\<close> has written behind its two bytes of type.
\<close>

lemma unmarshal_behind_type:
  assumes "readable L c" and "cmd_depth c \<le> Suc fuel"
  shows "\<exists>rest. cmd_Marshal L c = Ok (put_u16 (GetType c) @ rest) \<and> cmd_Unmarshal fuel L c rest = Some (Ok (decoded c))"
proof -
  obtain buf where buf: "WriteTo L c = Ok buf" "BuildCommandFrom (Suc fuel) L (buf @ []) = Some (Ok (decoded c, []))"
    using cmd_write_read [OF assms] by blast
  obtain rest where rest: "buf = put_u16 (GetType c) @ rest" using WriteTo_type [OF buf(1)] by blast
  have "ec_type e \<in> set entry_types" if "c = EntryCmd e" for e using assms(1) that by (simp add: entry_ok_def)
  then have "cmd_Unmarshal fuel L c rest = Some (Ok (decoded c))"
    using Build_Unmarshal [of fuel L c rest "decoded c" "[]"] buf(2) rest by (simp del: BuildCommandFrom.simps)
  then show ?thesis using buf(1) rest by (simp add: Marshal_WriteTo)
qed

text \<open>\<open>Unmarshal\<close> of all that \<open>Marshal\<close> has written takes the type for the first field.\<close>

lemma unmarshal_reads_type: "res_bind (PointerCmd_Marshal 1 7) PointerCmd_Unmarshal = Ok (0, 2 ^ 48)"
proof -
  have n: "2 = Suc (Suc 0)" "4 = Suc (Suc (Suc (Suc 0)))" "8 = Suc (Suc (Suc (Suc (Suc (Suc (Suc (Suc 0)))))))" by simp_all
  have "be_bytes 2 0 = [0, 0]" "be_bytes 4 1 = [0, 0, 0, 1]" "be_bytes 8 7 = [0, 0, 0, 0, 0, 0, 0, 7]"
    by (subst n, simp only: be_bytes.simps, simp)+
  then have "put_u16 CmdPointer @ put_u32 1 @ put_u64 7 = [0, 0, 0, 0, 0, 1, 0, 0, 0, 0, 0, 0, 0, 7]"
    by (simp add: put_u16_def put_u32_def put_u64_def CmdPointer_def)
  then show ?thesis
    by (simp add: PointerCmd_Marshal_def PointerCmd_Unmarshal_def whole_def get_u32_def get_u64_def read_be_def)
qed

section \<open>Commands as text\<close>

text \<open>\<open>bmc\<close> is the cardinality of a bitmap; a nil batch panics.  Updates and catalog entries have no text.\<close>

fun cmd_String :: "('b \<Rightarrow> nat) \<Rightarrow> ('bat \<Rightarrow> nat) \<Rightarrow> ('v, 'b, 'ty, 'bat) TxnCmd \<Rightarrow> string res"
  and add_strings :: "('b \<Rightarrow> nat) \<Rightarrow> ('bat \<Rightarrow> nat) \<Rightarrow> string \<Rightarrow> string \<Rightarrow> ('v, 'b, 'ty, 'bat) TxnCmd list \<Rightarrow> string res" where
  "cmd_String bmc len (PointerCmd g l) = Ok (''PointerCmd: Group='' @ dec_w g @ '', Lsn='' @ dec_w l)"
| "cmd_String bmc len (DeleteBitmapCmd b) = Ok (''DeleteBitmapCmd: Cardinality='' @ dec (bmc b))"
| "cmd_String bmc len (BatchCmd tys bat) = (case bat of None \<Rightarrow> Panic | Some b \<Rightarrow> Ok (''BatchCmd: Rows='' @ dec (len b)))"
| "cmd_String bmc len (ComposedCmd cs) = add_strings bmc len [] (''ComposedCmd: Cnt='' @ dec (length cs)) cs"
| "cmd_String bmc len (UpdateCmd i u) = Ok []"
| "cmd_String bmc len (AppendCmd i cs) =
     res_bind (add_strings bmc len [tab] (tab # ''ComposedCmd: Cnt='' @ dec (length cs)) cs) (\<lambda>s. Ok (''AppendCmd: ID='' @ dec_w i @ [nl] @ s))"
| "cmd_String bmc len (EntryCmd c) = Ok []"
| "add_strings bmc len pre s [] = Ok s"
| "add_strings bmc len pre s (c # cs) = res_bind (cmd_String bmc len c) (\<lambda>x. add_strings bmc len pre (s @ [nl] @ pre @ [tab] @ x) cs)"

text \<open>The text of a composition has a heading and, indented, the texts of its commands.\<close>

lemma add_strings_lines:
  assumes "list_all2 (\<lambda>c x. cmd_String bmc len c = Ok x) cs xs"
  shows "add_strings bmc len pre s cs = Ok (join_on nl (s # map (\<lambda>x. pre @ [tab] @ x) xs))"
  using assms
proof (induction cs xs arbitrary: s rule: list_all2_induct)
  case (Cons c cs x xs)
  have "join_on nl ((s @ [nl] @ y) # ys) = join_on nl (s # y # ys)" for y ys by (cases ys) simp_all
  then show ?case using Cons by simp
qed simp

lemma composed_text:
  "list_all2 (\<lambda>c x. cmd_String bmc len c = Ok x) cs xs \<Longrightarrow>
   cmd_String bmc len (ComposedCmd cs) = Ok (join_on nl ((''ComposedCmd: Cnt='' @ dec (length cs)) # map (Cons tab) xs))"
  using add_strings_lines [of bmc len cs xs "[]" "''ComposedCmd: Cnt='' @ dec (length cs)"] by simp

end
