(* ===== verification/TableLog.thy ===== *)
theory TableLog
  imports TxnStore
begin

text \<open>
  The commit command of one transaction table (\<open>buildCommitCmd\<close> of \<^verbatim>\<open>pkg/txn/txnimpl/table.go\<close>): one
  composed command with the rows of all insert nodes, most of them already written to the log, and all update nodes; and the last phase of a
  rollback of the store and its tables.
\<close>

section \<open>Building the command\<close>

text \<open>
  \<open>pin\<close> tells for every node whether the buffer manager of the other repository pins it.  A node without rows takes a number but no
  command, and is closed.
\<close>

fun build_nodes ::
  "('v, 'b, 'n, 'ty, 'vec list, 'vec) log_ops \<Rightarrow> 'd driver \<Rightarrow> 'ty list \<Rightarrow> (nat \<Rightarrow> bool) \<Rightarrow> nat \<Rightarrow> u32 \<Rightarrow> ('vec, 'b) insertNode list \<Rightarrow> 'd
     \<Rightarrow> (('v, 'b, 'ty, 'vec list) TxnCmd list \<times> bytes list \<times> u32 \<times> 'd \<times> ('vec, 'b) insertNode list) res" where
  "build_nodes L D tys pin i cmdSeq [] d = Ok ([], [], cmdSeq, d, [])"
| "build_nodes L D tys pin i cmdSeq (n # ns) d =
     (if \<not> pin i then Panic
      else res_bind (Node_MakeCommand L D tys cmdSeq (ns \<noteq> []) d n) (\<lambda>(cmd, entry, d1, n1).
        res_bind (build_nodes L D tys pin (Suc i) (cmdSeq + 1) ns d1) (\<lambda>(cs, es, q, d2, ns').
          case cmd of
            None \<Rightarrow> Ok (cs, es, q, d2, ToTransient n1 # ns')
          | Some c \<Rightarrow> Ok (c # cs, (case entry of None \<Rightarrow> es | Some e \<Rightarrow> e # es), q, d2, n1 # ns'))))"

fun build_updates :: "u32 \<Rightarrow> ('v, 'b, 'ty) BlockUpdates list \<Rightarrow> ('v, 'b, 'ty, 'bat) TxnCmd list \<times> u32" where
  "build_updates cmdSeq [] = ([], cmdSeq)"
| "build_updates cmdSeq (u # us) = (let (cs, q) = build_updates (cmdSeq + 1) us in (Updates_MakeCommand cmdSeq u # cs, q))"

text \<open>\<open>us\<close> are the update nodes in the order in which Go iterates over the map.\<close>

definition buildCommitCmd ::
  "('v, 'b, 'n, 'ty, 'vec list, 'vec) log_ops \<Rightarrow> 'd driver \<Rightarrow> 'ty list \<Rightarrow> (nat \<Rightarrow> bool) \<Rightarrow> ('v, 'b, 'ty) BlockUpdates list \<Rightarrow> u32
     \<Rightarrow> ('vec, 'b, 'v, 'ty) tableTxn \<Rightarrow> 'd
     \<Rightarrow> (('v, 'b, 'ty, 'vec list) TxnCmd \<times> bytes list \<times> u32 \<times> 'd \<times> ('vec, 'b, 'v, 'ty) tableTxn) res" where
  "buildCommitCmd L D tys pin us cmdSeq tbl d =
     res_bind (build_nodes L D tys pin 0 cmdSeq (tt_inodes tbl) d) (\<lambda>(cs, es, q, d1, ns).
       let (cs', q') = build_updates q us in Ok (ComposedCmd (cs @ cs'), es, q', d1, tbl\<lparr>tt_inodes := ns\<rparr>))"

section \<open>What is in the log\<close>

text \<open>What a log promises: a sequence number is not 0, leads to the entry, and earlier entries stay.\<close>

definition log_keeps :: "'d driver \<Rightarrow> bool" where
  "log_keeps D \<longleftrightarrow>
     (\<forall>d g buf lsn d'. dr_Append D d g buf = Ok (lsn, d') \<longrightarrow>
        lsn \<noteq> 0 \<and> dr_Load D d' g lsn = Ok buf \<and> (\<forall>h l b. dr_Load D d h l = Ok b \<longrightarrow> dr_Load D d' h l = Ok b))"

text \<open>The log has room for \<open>k\<close> more entries.\<close>

fun room :: "'d driver \<Rightarrow> nat \<Rightarrow> 'd \<Rightarrow> bool" where
  "room D 0 d \<longleftrightarrow> True"
| "room D (Suc k) d \<longleftrightarrow> (\<forall>g buf. \<exists>lsn d'. dr_Append D d g buf = Ok (lsn, d') \<and> room D k d')"

text \<open>The entry that a node points to, if any, holds its rows.\<close>

definition entry_there :: "('v, 'b, 'n, 'ty, 'vec list, 'vec) log_ops \<Rightarrow> 'd driver \<Rightarrow> 'ty list \<Rightarrow> 'd \<Rightarrow> ('vec, 'b) insertNode \<Rightarrow> bool" where
  "entry_there L D tys d n \<longleftrightarrow>
     (\<exists>buf. makeLogEntry L tys n = Ok buf \<and> (in_lsn n \<noteq> 0 \<longrightarrow> dr_Load D d GroupUC (in_lsn n) = Ok buf))"

text \<open>A command that tells the rows and the deletes of a node: the rows themselves or a log entry with them.\<close>

definition node_logged ::
  "('v, 'b, 'n, 'ty, 'vec list, 'vec) log_ops \<Rightarrow> 'd driver \<Rightarrow> 'ty list \<Rightarrow> 'd \<Rightarrow> u32 \<Rightarrow> ('vec, 'b) insertNode \<Rightarrow> ('v, 'b, 'ty, 'vec list) TxnCmd \<Rightarrow> bool" where
  "node_logged L D tys d k n c \<longleftrightarrow>
     (\<exists>first. c = AppendCmd k (first # (case in_deletes n of None \<Rightarrow> [] | Some b \<Rightarrow> [DeleteBitmapCmd b]))
       \<and> (first = BatchCmd tys (in_data n)
          \<or> (\<exists>lsn buf. first = PointerCmd GroupUC lsn \<and> makeLogEntry L tys n = Ok buf \<and> dr_Load D d GroupUC lsn = Ok buf)))"

definition log_grows :: "'d driver \<Rightarrow> 'd \<Rightarrow> 'd \<Rightarrow> bool" where
  "log_grows D d d' \<longleftrightarrow> (\<forall>g l b. dr_Load D d g l = Ok b \<longrightarrow> dr_Load D d' g l = Ok b)"

lemma log_grows_refl [simp]: "log_grows D d d"
  by (simp add: log_grows_def)

lemma log_grows_trans: "log_grows D d1 d2 \<Longrightarrow> log_grows D d2 d3 \<Longrightarrow> log_grows D d1 d3"
  by (simp add: log_grows_def)

lemma entry_there_grows: "entry_there L D tys d n \<Longrightarrow> log_grows D d d' \<Longrightarrow> entry_there L D tys d' n"
  by (auto simp: entry_there_def log_grows_def)

lemma node_logged_grows: "node_logged L D tys d k n c \<Longrightarrow> log_grows D d d' \<Longrightarrow> node_logged L D tys d' k n c"
  by (auto simp: node_logged_def log_grows_def)

lemma room_less: "room D (Suc k) d \<Longrightarrow> room D k d"
proof (induction k arbitrary: d)
  case (Suc k)
  show ?case unfolding room.simps
  proof (intro allI)
    fix g buf
    obtain lsn d' where "dr_Append D d g buf = Ok (lsn, d')" "room D (Suc k) d'" using Suc.prems unfolding room.simps(2) [of D "Suc k"] by blast
    then show "\<exists>lsn d'. dr_Append D d g buf = Ok (lsn, d') \<and> room D k d'" using Suc.IH by blast
  qed
qed simp

lemma Node_MakeCommand_logs:
  assumes "log_keeps D" and "in_data n \<noteq> None" and "entry_there L D tys d n" and "room D (Suc k) d"
  shows "\<exists>c e d1 n1. Node_MakeCommand L D tys q force d n = Ok (Some c, e, d1, n1) \<and> node_logged L D tys d1 q n c \<and> log_grows D d d1 \<and> room D k d1"
proof -
  obtain buf where buf: "makeLogEntry L tys n = Ok buf" "in_lsn n \<noteq> 0 \<longrightarrow> dr_Load D d GroupUC (in_lsn n) = Ok buf"
    using assms(3) by (auto simp: entry_there_def)
  show ?thesis
  proof (cases "in_lsn n = 0 \<and> force \<and> \<not> IsTransient n")
    case True
    obtain lsn d' where a: "dr_Append D d GroupUC buf = Ok (lsn, d')" "room D k d'" using assms(4) unfolding room.simps by blast
    then have "lsn \<noteq> 0" "dr_Load D d' GroupUC lsn = Ok buf" "log_grows D d d'" using assms(1) by (auto simp: log_keeps_def log_grows_def)
    then show ?thesis using True a buf assms(2)
      by (auto simp: Node_MakeCommand_def execUnload_def node_logged_def)
  next
    case False
    then show ?thesis using buf assms(2) room_less [OF assms(4)]
      by (auto simp: Node_MakeCommand_def execUnload_def node_logged_def)
  qed
qed

text \<open>The nodes with rows, with their positions.\<close>

abbreviation filled :: "nat \<Rightarrow> ('vec, 'b) insertNode list \<Rightarrow> (nat \<times> ('vec, 'b) insertNode) list" where
  "filled i ns \<equiv> filter (\<lambda>(k, n). in_data n \<noteq> None) (enumerate i ns)"

lemma build_nodes_logs:
  assumes "log_keeps D" and "\<forall>k < length ns. pin (i + k)" and "\<forall>n \<in> set ns. in_data n \<noteq> None \<longrightarrow> entry_there L D tys d n" and "room D (length ns) d"
  shows "\<exists>cs es d' ns'. build_nodes L D tys pin i (s + word_of_nat i) ns d = Ok (cs, es, s + word_of_nat (i + length ns), d', ns')
    \<and> list_all2 (\<lambda>(k, n) c. node_logged L D tys d' (s + word_of_nat k) n c) (filled i ns) cs
    \<and> length ns' = length ns \<and> log_grows D d d'"
  using assms(2-)
proof (induction ns arbitrary: i d)
  case (Cons n ns)
  have p: "pin i" "\<forall>k < length ns. pin (Suc i + k)" using Cons.prems(1) [rule_format, of 0] Cons.prems(1) [rule_format, of "Suc _"] by auto
  have q: "s + word_of_nat i + 1 = s + word_of_nat (Suc i)" by simp
  show ?case
  proof (cases "in_data n = None")
    case True
    obtain cs es d' ns' where r: "build_nodes L D tys pin (Suc i) (s + word_of_nat (Suc i)) ns d = Ok (cs, es, s + word_of_nat (Suc i + length ns), d', ns')"
        "list_all2 (\<lambda>(k, n) c. node_logged L D tys d' (s + word_of_nat k) n c) (filled (Suc i) ns) cs" "length ns' = length ns" "log_grows D d d'"
      using Cons.IH [of "Suc i" d] Cons.prems(2,3) p(2) room_less [of D "length ns" d] by auto
    show ?thesis using True p(1) r by (simp add: Node_MakeCommand_def q del: of_nat_Suc)
  next
    case False
    have e: "entry_there L D tys d n" "room D (Suc (length ns)) d" using Cons.prems False by auto
    obtain c e d1 n1 where m: "Node_MakeCommand L D tys (s + word_of_nat i) (ns \<noteq> []) d n = Ok (Some c, e, d1, n1)"
        "node_logged L D tys d1 (s + word_of_nat i) n c" "log_grows D d d1" "room D (length ns) d1"
      using Node_MakeCommand_logs [OF assms(1) False e] by blast
    have "\<forall>n \<in> set ns. in_data n \<noteq> None \<longrightarrow> entry_there L D tys d1 n" using Cons.prems(2) by (auto intro: entry_there_grows [OF _ m(3)])
    then obtain cs es d' ns' where r: "build_nodes L D tys pin (Suc i) (s + word_of_nat (Suc i)) ns d1 = Ok (cs, es, s + word_of_nat (Suc i + length ns), d', ns')"
        "list_all2 (\<lambda>(k, n) c. node_logged L D tys d' (s + word_of_nat k) n c) (filled (Suc i) ns) cs" "length ns' = length ns" "log_grows D d1 d'"
      using Cons.IH [of "Suc i" d1] p(2) m(4) by auto
    have "node_logged L D tys d' (s + word_of_nat i) n c" "log_grows D d d'" using node_logged_grows [OF m(2) r(4)] log_grows_trans [OF m(3) r(4)] by auto
    then show ?thesis using False p(1) r m(1) by (simp add: q del: of_nat_Suc)
  qed
qed simp

lemma build_updates_all:
  "build_updates q us = (map (\<lambda>(k, u). UpdateCmd (q + word_of_nat k) u) (enumerate 0 us), q + word_of_nat (length us))"
proof (induction us arbitrary: q)
  case (Cons u us)
  have "map (\<lambda>(k, u). UpdateCmd (q + 1 + word_of_nat k) u) (enumerate 0 us) = map (\<lambda>(k, u). UpdateCmd (q + word_of_nat k) u) (enumerate (Suc 0) us)"
    by (intro nth_equalityI) (auto simp: nth_enumerate_eq algebra_simps)
  then show ?case using Cons.IH [of "q + 1"] by (simp add: Updates_MakeCommand_def Let_def algebra_simps)
qed simp

text \<open>
  C40. The commit command of a table tells everything the transaction did to its rows: when the nodes can be pinned and the log keeps what is
  appended and has room for one entry per node, \<open>buildCommitCmd\<close> returns one composed command.  It has one part for every insert node with
  rows, in order and numbered by position, with the delete bitmap of the node and either its rows or the number of a log entry that holds them; behind them
  it has every update node, numbered on; the sequence number ends behind the last of them, and no log entry is lost.
\<close>

theorem commit_cmd_complete:
  fixes tbl :: "('vec, 'b, 'v, 'ty) tableTxn"
  assumes "log_keeps D" and "room D (length (tt_inodes tbl)) d" and "\<forall>k < length (tt_inodes tbl). pin k"
    and "\<forall>n \<in> set (tt_inodes tbl). in_data n \<noteq> None \<longrightarrow> entry_there L D tys d n"
  shows "\<exists>cs es d' tbl'. buildCommitCmd L D tys pin us s tbl d
       = Ok (ComposedCmd (cs @ map (\<lambda>(k, u). UpdateCmd (s + word_of_nat (length (tt_inodes tbl) + k)) u) (enumerate 0 us)), es,
             s + word_of_nat (length (tt_inodes tbl) + length us), d', tbl')
     \<and> list_all2 (\<lambda>(k, n) c. node_logged L D tys d' (s + word_of_nat k) n c) (filled 0 (tt_inodes tbl)) cs
     \<and> log_grows D d d'"
proof -
  obtain cs es d' ns' where r: "build_nodes L D tys pin 0 s (tt_inodes tbl) d = Ok (cs, es, s + word_of_nat (length (tt_inodes tbl)), d', ns')"
      "list_all2 (\<lambda>(k, n) c. node_logged L D tys d' (s + word_of_nat k) n c) (filled 0 (tt_inodes tbl)) cs" "log_grows D d d'"
    using build_nodes_logs [OF assms(1) _ assms(4,2), of pin 0 s] assms(3) by auto
  show ?thesis unfolding buildCommitCmd_def using r by (simp add: build_updates_all add.assoc)
qed

text \<open>A log that is a list of entries, as long as the sequence numbers last.\<close>

definition list_log :: "(u32 \<times> bytes) list driver" where
  "list_log =
     \<lparr>dr_Append = (\<lambda>d g buf. if length d < 2 ^ 64 - 1 then Ok (word_of_nat (Suc (length d)), d @ [(g, buf)]) else Err ErrNotFound),
      dr_Load = (\<lambda>d g l. if l \<noteq> 0 \<and> unat l - 1 < length d \<and> fst (d ! (unat l - 1)) = g then Ok (snd (d ! (unat l - 1))) else Err ErrNotFound)\<rparr>"

lemma list_log_keeps: "log_keeps list_log"
proof -
  have u: "unat (1 + word_of_nat n :: u64) = Suc n" if "n < 2 ^ 64 - 1" for n
    using that by (subst unat_plus_no_wrap) (simp_all add: unat_of_nat)
  have "1 + word_of_nat n \<noteq> (0 :: u64)" if "n < 2 ^ 64 - 1" for n using u [OF that] by (metis nat.distinct(1) unat_0)
  then show ?thesis using u by (auto simp: log_keeps_def list_log_def nth_append split: if_splits)
qed

theorem commit_cmd_complete_witness:
  "\<exists>c es d' tbl'. buildCommitCmd demo_log list_log [()] (\<lambda>_. True) [NewEmptyBlockUpdates] 7
      ((newTxnTable 1)\<lparr>tt_inodes := [NewInsertNode\<lparr>in_data := Some [9 :: u8], in_rows := 1\<rparr>]\<rparr>) [] = Ok (c, es, 9, d', tbl')"
proof -
  have "makeLogEntry demo_log [()] (NewInsertNode\<lparr>in_data := Some [9 :: u8], in_rows := 1\<rparr>) \<noteq> Panic"
    by (simp add: makeLogEntry_def demo_log_def demo_cols_def NewInsertNode_def MarshalBatch_def Let_def)
  then have "entry_there demo_log list_log [()] [] (NewInsertNode\<lparr>in_data := Some [9 :: u8], in_rows := 1\<rparr>)"
    by (auto simp: entry_there_def NewInsertNode_def makeLogEntry_def split: res.splits)
  moreover have "room list_log (Suc 0) []" by (simp add: list_log_def)
  ultimately show ?thesis
    using commit_cmd_complete [OF list_log_keeps, of "(newTxnTable 1)\<lparr>tt_inodes := [NewInsertNode\<lparr>in_data := Some [9 :: u8], in_rows := 1\<rparr>]\<rparr>" "[]"
        "\<lambda>_. True" demo_log "[()]" "[NewEmptyBlockUpdates]" 7]
    by auto
qed

end
