(* ===== verification/PreCommit.thy ===== *)
theory PreCommit
  imports TxnStore
begin

text \<open>
  The first phase of a commit, over all the components it goes through: \<open>PreCommit\<close> of a transaction table
  (\<^verbatim>\<open>pkg/txn/txnimpl/table.go\<close>) moves the rows of all its insert nodes into the blocks of the table, creating segments and
  blocks in the catalog.  Here the lemmas that put the loops together.
\<close>

section \<open>A table that is ready for the phase\<close>

definition ready ::
  "('vec, 'v, 'n) col_ops \<Rightarrow> Oid list \<Rightarrow> ('a \<Rightarrow> u64) \<Rightarrow> u64 \<Rightarrow> ('vec, 'b, 'v, 'ty) tableTxn \<Rightarrow> 'vec tableData \<Rightarrow> 'ty TableEntry
     \<Rightarrow> ('ty, 'a, 'vec, 'b, 'v, 'd) world \<Rightarrow> bool" where
  "ready O' ts cur i tbl T tb w \<longleftrightarrow>
     ts_tables (w_store w) i = Some tbl \<and> w_data w i = Some T \<and> table_at (tt_db tbl) i (w_cat w) = Some tb
     \<and> ts_warChecker (w_store w) \<noteq> None \<and> td_ok O' ts cur tb (cat_alloc (w_cat w)) T"

text \<open>A schema that the loops can work with.\<close>

definition schema_fits :: "Oid list \<Rightarrow> 'ty Schema \<Rightarrow> bool" where
  "schema_fits ts sc \<longleftrightarrow>
     0 < unat (SegmentMaxBlocks sc) \<and> 0 < unat (BlockMaxRows sc) \<and> distinct (map cd_Name (ColDefs sc)) \<and> length (ColDefs sc) = length ts"

lemma table_view_ready:
  assumes "ready O' ts cur i tbl T tb w"
  shows "\<exists>c. table_view i w = Ok \<lparr>as_table = tb, as_alloc = cat_alloc (w_cat w), as_data = T, as_csegs = tt_csegs tbl, as_cblks = tt_cblks tbl, as_checker = c\<rparr>"
  using assms by (auto simp: ready_def table_view_def)

lemma table_at_alloc [simp]: "table_at d t (c\<lparr>cat_alloc := x\<rparr>) = table_at d t c"
  by (simp add: table_at_def)

lemma cat_alloc_table_upd [simp]: "cat_alloc (table_upd d t f c) = cat_alloc c"
  by (simp add: table_upd_def)

lemma table_back_ready:
  fixes w :: "('ty, 'a, 'vec, 'b, 'v, 'd) world"
  assumes "ready O' ts cur i tbl T tb w" and "td_ok O' ts cur (as_table S) (as_alloc S) (as_data S)"
  shows "ready O' ts cur i ((put_node p n tbl)\<lparr>tt_csegs := as_csegs S, tt_cblks := as_cblks S\<rparr>) (as_data S) (as_table S)
           (table_back i S (upd_table i (put_node p n) w))"
    and "cat_alloc (w_cat (table_back i S (upd_table i (put_node p n) w))) = as_alloc S"
    and "ts_txn (w_store (table_back i S (upd_table i (put_node p n) w))) = ts_txn (w_store w)"
  using assms by (auto simp: ready_def table_back_def upd_table_def upd_checker_def put_node_def Let_def table_at_upd)

section \<open>The loop over the insert nodes\<close>

text \<open>The rows of node \<open>p\<close> are in the blocks: its new apply records cover it, and their rows are in place.\<close>

definition applied ::
  "('vec, 'v, 'n) col_ops \<Rightarrow> nat \<Rightarrow> 'v goval list list \<Rightarrow> ('vec, 'b) insertNode \<Rightarrow> ('vec, 'b) insertNode \<Rightarrow> 'vec tableData \<Rightarrow> bool" where
  "applied O' w cols n n' T \<longleftrightarrow>
     (\<exists>infos. in_appends n' = in_appends n @ infos \<and> covers 0 infos (unat (in_rows n)) \<and> (\<forall>x \<in> set infos. placed O' w cols T x))"

lemma applied_grows: "applied O' w cols n n' T \<Longrightarrow> grows O' w T T' \<Longrightarrow> applied O' w cols n n' T'"
  unfolding applied_def using placed_grows by blast

lemma apply_node:
  fixes w :: "('ty, 'a, 'vec, 'b, 'v, 'd) world"
  assumes laws: "col_laws O'" and al: "id_source al cur" and rd: "ready O' ts cur i tbl T tb w" and sc: "schema_fits ts (tbl_schema tb)"
    and p: "p < length (tt_inodes tbl)" and node: "node_ok O' ts (tt_inodes tbl ! p) cols" and fits: "\<forall>k < length ts. col_fits (ts ! k) (cols ! k)"
    and ids: "unat (cur (segAlloc (cat_alloc (w_cat w)))) + unat (in_rows (tt_inodes tbl ! p)) < 2 ^ 64"
      "unat (cur (blkAlloc (cat_alloc (w_cat w)))) + unat (in_rows (tt_inodes tbl ! p)) < 2 ^ 64"
    and fuel: "unat (in_rows (tt_inodes tbl ! p)) < fuel"
  shows "\<exists>w1 tbl1 T1 tb1 n1. pre_nodes fuel O' al env i (p # ps) w = pre_nodes fuel O' al env i ps w1
    \<and> ready O' ts cur i tbl1 T1 tb1 w1 \<and> tbl_schema tb1 = tbl_schema tb \<and> tt_inodes tbl1 = (tt_inodes tbl)[p := n1]
    \<and> applied O' (length ts) cols (tt_inodes tbl ! p) n1 T1 \<and> grows O' (length ts) T T1
    \<and> unat (cur (segAlloc (cat_alloc (w_cat w1)))) \<le> unat (cur (segAlloc (cat_alloc (w_cat w)))) + unat (in_rows (tt_inodes tbl ! p))
    \<and> unat (cur (blkAlloc (cat_alloc (w_cat w1)))) \<le> unat (cur (blkAlloc (cat_alloc (w_cat w)))) + unat (in_rows (tt_inodes tbl ! p))"
proof -
  let ?n = "tt_inodes tbl ! p"
  obtain c where v: "table_view i w = Ok \<lparr>as_table = tb, as_alloc = cat_alloc (w_cat w), as_data = T, as_csegs = tt_csegs tbl, as_cblks = tt_cblks tbl, as_checker = c\<rparr>"
    using table_view_ready [OF rd] by blast
  define S where "S = \<lparr>as_table = tb, as_alloc = cat_alloc (w_cat w), as_data = T, as_csegs = tt_csegs tbl, as_cblks = tt_cblks tbl, as_checker = c, as_node = ?n\<rparr>"
  have S: "as_table S = tb" "as_alloc S = cat_alloc (w_cat w)" "as_data S = T" "as_node S = ?n" by (simp_all add: S_def)
  have td: "td_ok O' ts cur (as_table S) (as_alloc S) (as_data S)" using rd by (simp add: S ready_def)
  have "\<exists>S' infos. apply_loop fuel O' al env (ts_txn (w_store w)) 0 S = Some (Ok S')
      \<and> in_appends (as_node S') = in_appends (as_node S) @ infos \<and> covers (unat (0 :: u32)) infos (unat (in_rows (as_node S)))
      \<and> (\<forall>x \<in> set infos. placed O' (length ts) cols (as_data S') x) \<and> grows O' (length ts) (as_data S) (as_data S')
      \<and> td_ok O' ts cur (as_table S') (as_alloc S') (as_data S') \<and> apply_frame cur (unat (in_rows (as_node S)) - unat (0 :: u32)) S S'"
    by (rule apply_loop_ok [OF laws al fits td]) (use sc node ids fuel in \<open>simp_all add: S schema_fits_def\<close>)
  then obtain S' infos where s: "apply_loop fuel O' al env (ts_txn (w_store w)) 0 S = Some (Ok S')"
      "in_appends (as_node S') = in_appends ?n @ infos" "covers 0 infos (unat (in_rows ?n))"
      "\<forall>x \<in> set infos. placed O' (length ts) cols (as_data S') x" "grows O' (length ts) T (as_data S')"
      "td_ok O' ts cur (as_table S') (as_alloc S') (as_data S')" "apply_frame cur (unat (in_rows ?n)) S S'"
    by (auto simp: S)
  let ?w1 = "table_back i S' (upd_table i (put_node p (as_node S')) w)"
  have "pre_nodes fuel O' al env i (p # ps) w = pre_nodes fuel O' al env i ps ?w1"
  proof -
    have "ts_tables (w_store w) i = Some tbl" "w_data w i = Some T" using rd by (simp_all add: ready_def)
    moreover have "tableMeta.extend \<lparr>as_table = tb, as_alloc = cat_alloc (w_cat w), as_data = T, as_csegs = tt_csegs tbl, as_cblks = tt_cblks tbl, as_checker = c\<rparr> (applyState.fields ?n) = S"
      by (simp add: S_def tableMeta.defs applyState.defs)
    ultimately show ?thesis using v s(1) by (simp add: applyAppendInode_def Let_def)
  qed
  moreover note table_back_ready [where p = p and n = "as_node S'", OF rd s(6)]
  moreover have "applied O' (length ts) cols ?n (as_node S') (as_data S')" using s(2-4) by (auto simp: applied_def)
  moreover have "tbl_schema (as_table S') = tbl_schema tb" "unat (cur (segAlloc (as_alloc S'))) \<le> unat (cur (segAlloc (cat_alloc (w_cat w)))) + unat (in_rows ?n)"
      "unat (cur (blkAlloc (as_alloc S'))) \<le> unat (cur (blkAlloc (cat_alloc (w_cat w)))) + unat (in_rows ?n)"
    using s(7) by (simp_all add: apply_frame_def S)
  ultimately show ?thesis using s(5)
    by (intro exI [of _ ?w1] exI [of _ "(put_node p (as_node S') tbl)\<lparr>tt_csegs := as_csegs S', tt_cblks := as_cblks S'\<rparr>"] exI [of _ "as_data S'"]
        exI [of _ "as_table S'"] exI [of _ "as_node S'"]) (simp add: put_node_def)
qed

text \<open>All nodes of a list of positions; \<open>total\<close> is the number of rows they hold.\<close>

definition total :: "('vec, 'b) insertNode list \<Rightarrow> nat list \<Rightarrow> nat" where
  "total ns ps = (\<Sum>p \<leftarrow> ps. unat (in_rows (ns ! p)))"

lemma total_update: "q \<notin> set ps \<Longrightarrow> total (ns[q := n]) ps = total ns ps"
  by (induction ps) (auto simp: total_def)

lemma pre_nodes_ok:
  fixes w :: "('ty, 'a, 'vec, 'b, 'v, 'd) world"
  assumes laws: "col_laws O'" and al: "id_source al cur"
  shows "distinct ps \<Longrightarrow> ready O' ts cur i tbl T tb w \<Longrightarrow> schema_fits ts (tbl_schema tb)
    \<Longrightarrow> (\<And>p. p \<in> set ps \<Longrightarrow> p < length (tt_inodes tbl) \<and> node_ok O' ts (tt_inodes tbl ! p) (cols p)
              \<and> (\<forall>k < length ts. col_fits (ts ! k) (cols p ! k)) \<and> unat (in_rows (tt_inodes tbl ! p)) < fuel)
    \<Longrightarrow> unat (cur (segAlloc (cat_alloc (w_cat w)))) + total (tt_inodes tbl) ps < 2 ^ 64
    \<Longrightarrow> unat (cur (blkAlloc (cat_alloc (w_cat w)))) + total (tt_inodes tbl) ps < 2 ^ 64
    \<Longrightarrow> \<exists>w' tbl' T' tb'. pre_nodes fuel O' al env i ps w = Some (Ok (), w') \<and> ready O' ts cur i tbl' T' tb' w'
      \<and> length (tt_inodes tbl') = length (tt_inodes tbl) \<and> grows O' (length ts) T T'
      \<and> (\<forall>p \<in> set ps. applied O' (length ts) (cols p) (tt_inodes tbl ! p) (tt_inodes tbl' ! p) T')
      \<and> (\<forall>p. p \<notin> set ps \<longrightarrow> tt_inodes tbl' ! p = tt_inodes tbl ! p)"
proof (induction ps arbitrary: w tbl T tb)
  case Nil
  have "grows O' (length ts) T T" by (intro grows_le) simp
  then show ?case using Nil.prems(2) by auto
next
  case (Cons p ps)
  let ?n = "tt_inodes tbl ! p"
  have np: "p < length (tt_inodes tbl)" "node_ok O' ts ?n (cols p)" "\<forall>k < length ts. col_fits (ts ! k) (cols p ! k)" "unat (in_rows ?n) < fuel"
    using Cons.prems(4) [of p] by simp_all
  have tot: "total (tt_inodes tbl) (p # ps) = unat (in_rows ?n) + total (tt_inodes tbl) ps" by (simp add: total_def)
  have ids: "unat (cur (segAlloc (cat_alloc (w_cat w)))) + unat (in_rows ?n) < 2 ^ 64" "unat (cur (blkAlloc (cat_alloc (w_cat w)))) + unat (in_rows ?n) < 2 ^ 64"
    using Cons.prems(5,6) tot by linarith+
  obtain w1 tbl1 T1 tb1 n1 where s: "pre_nodes fuel O' al env i (p # ps) w = pre_nodes fuel O' al env i ps w1"
      "ready O' ts cur i tbl1 T1 tb1 w1" "tbl_schema tb1 = tbl_schema tb" "tt_inodes tbl1 = (tt_inodes tbl)[p := n1]"
      "applied O' (length ts) (cols p) ?n n1 T1" "grows O' (length ts) T T1"
      "unat (cur (segAlloc (cat_alloc (w_cat w1)))) \<le> unat (cur (segAlloc (cat_alloc (w_cat w)))) + unat (in_rows ?n)"
      "unat (cur (blkAlloc (cat_alloc (w_cat w1)))) \<le> unat (cur (blkAlloc (cat_alloc (w_cat w)))) + unat (in_rows ?n)"
    using apply_node [where env = env and ps = ps, OF laws al Cons.prems(2,3) np(1-3) ids np(4)] by blast
  have ds: "distinct ps" "p \<notin> set ps" using Cons.prems(1) by simp_all
  have sc: "schema_fits ts (tbl_schema tb1)" using s(3) Cons.prems(3) by simp
  have same: "tt_inodes tbl1 ! q = tt_inodes tbl ! q" if "q \<noteq> p" for q using that s(4) by simp
  have other: "q < length (tt_inodes tbl1) \<and> node_ok O' ts (tt_inodes tbl1 ! q) (cols q)
      \<and> (\<forall>k < length ts. col_fits (ts ! k) (cols q ! k)) \<and> unat (in_rows (tt_inodes tbl1 ! q)) < fuel" if "q \<in> set ps" for q
  proof -
    have "q \<noteq> p" using that ds(2) by blast
    then show ?thesis using Cons.prems(4) [of q] same [of q] that by (simp add: s(4))
  qed
  have t1: "total (tt_inodes tbl1) ps = total (tt_inodes tbl) ps" using ds(2) by (simp add: s(4) total_update)
  have id1: "unat (cur (segAlloc (cat_alloc (w_cat w1)))) + total (tt_inodes tbl1) ps < 2 ^ 64"
      "unat (cur (blkAlloc (cat_alloc (w_cat w1)))) + total (tt_inodes tbl1) ps < 2 ^ 64"
    using Cons.prems(5,6) tot s(7,8) t1 by linarith+
  obtain w' tbl' T' tb' where r: "pre_nodes fuel O' al env i ps w1 = Some (Ok (), w')" "ready O' ts cur i tbl' T' tb' w'"
      "length (tt_inodes tbl') = length (tt_inodes tbl1)" "grows O' (length ts) T1 T'"
      "\<forall>p \<in> set ps. applied O' (length ts) (cols p) (tt_inodes tbl1 ! p) (tt_inodes tbl' ! p) T'"
      "\<forall>p. p \<notin> set ps \<longrightarrow> tt_inodes tbl' ! p = tt_inodes tbl1 ! p"
    using Cons.IH [OF ds(1) s(2) sc other id1] by blast
  have "tt_inodes tbl' ! p = n1" using r(6) ds(2) s(4) np(1) by simp
  then have "applied O' (length ts) (cols p) ?n (tt_inodes tbl' ! p) T'" using applied_grows [OF s(5) r(4)] by simp
  moreover have "applied O' (length ts) (cols q) (tt_inodes tbl ! q) (tt_inodes tbl' ! q) T'" if "q \<in> set ps" for q
    using r(5) that same [of q] ds(2) by metis
  moreover have "tt_inodes tbl' ! q = tt_inodes tbl ! q" if "q \<notin> set (p # ps)" for q using r(6) same [of q] that by simp
  ultimately show ?case using s(1,4) r(1-3) grows_trans [OF s(6) r(4)] by (intro exI [of _ w'] exI [of _ tbl'] exI [of _ T'] exI [of _ tb']) auto
qed

section \<open>From the local rows to the blocks\<close>

lemma chunks_sum: "(\<Sum>j \<leftarrow> [0..<n]. length (chunk j c)) \<le> min (length c) (n * 10000)"
proof (induction n)
  case (Suc n)
  have "length (chunk n c) \<le> 10000" "length (chunk n c) \<le> length c - n * 10000" by (simp_all add: length_chunk)
  moreover have "length (chunk n c) = 0" if "length c < n * 10000" using that by (simp add: length_chunk)
  ultimately show ?case using Suc.IH by (cases "length c < n * 10000") simp_all
qed simp

lemma total_local:
  assumes "local_ok O' ts tbl cols" and "ts \<noteq> []"
  shows "total (tt_inodes tbl) [0..<length (tt_inodes tbl)] \<le> unat (tt_rows tbl)"
proof -
  let ?n = "length (tt_inodes tbl)"
  have ne: "cols \<noteq> []" and len: "length (hd cols) = unat (tt_rows tbl)"
    using assms by (cases cols; auto simp: local_ok_def)+
  have nd: "node_ok O' ts (tt_inodes tbl ! j) (map (chunk j) cols)" if "j < ?n" for j
    using assms(1) that by (auto simp: local_ok_def split: if_splits)
  have "unat (in_rows (tt_inodes tbl ! j)) = length (chunk j (hd cols))" if "j < ?n" for j
    using nd [OF that] ne unfolding node_ok_def by (cases cols) auto
  then have "total (tt_inodes tbl) [0..<?n] = (\<Sum>j \<leftarrow> [0..<?n]. length (chunk j (hd cols)))"
    unfolding total_def by (intro arg_cong [of _ _ sum_list] map_cong) auto
  then show ?thesis using chunks_sum [of "hd cols" ?n] len by simp
qed


definition demo_tbl :: "(Oid \<times> nat \<times> u8 goval list, u32 list, u8, unit) tableTxn" where
  "demo_tbl = txnTable.extend demo_local (tableTxn.fields 1 False False [] [] [] [])"

definition demo_pre :: "(unit, IdAlloctor, Oid \<times> nat \<times> u8 goval list, u32 list, u8, bytes list) world" where
  "demo_pre =
     \<lparr>w_cat = \<lparr>cat_alloc = NewIDAllocator \<lparr>alloc_id = 0\<rparr>,
               cat_dir = put_entry 1 \<lparr>db_base = new_base 1 None, db_name = ''db'', db_dir = put_entry 1 demo_table empty_dir\<rparr> empty_dir\<rparr>,
      w_data = [1 \<mapsto> newTable], w_drv = [],
      w_store = (newStore False False 7)\<lparr>ts_tables := [1 \<mapsto> demo_tbl], ts_warChecker := Some (1, newWarChecker 7)\<rparr>\<rparr>"


end
