(* ===== verification/Publish.thy ===== *)
theory Publish
  imports PreCommit
begin

text \<open>
  A transaction from the creation of a table to what later transactions find: the store (\<^verbatim>\<open>pkg/txn/txnimpl/store.go\<close>), the two phases
  of the commit and the lookup by name in the catalog (\<^verbatim>\<open>pkg/catalog\<close>) put together.
\<close>

section \<open>The phases of a commit keep the names\<close>

definition same_names :: "('ty, 'a) Catalog \<Rightarrow> ('ty, 'a) Catalog \<Rightarrow> bool" where
  "same_names c c' \<longleftrightarrow>
     nameNodes (cat_dir c') = nameNodes (cat_dir c)
     \<and> (\<forall>d. map_option (\<lambda>db. nameNodes (db_dir db)) (entries (cat_dir c') d) = map_option (\<lambda>db. nameNodes (db_dir db)) (entries (cat_dir c) d))"

lemma same_names_refl [simp]: "same_names c c"
  by (simp add: same_names_def)

lemma same_names_trans: "same_names c1 c2 \<Longrightarrow> same_names c2 c3 \<Longrightarrow> same_names c1 c3"
  by (simp add: same_names_def)

lemma base_upd_names: "same_names c (base_upd f p c)"
  by (cases p) (auto simp: same_names_def table_upd_def upd_entry_def option.map_comp comp_def)

lemma fold_names: "same_names c (fold (base_upd f) ps c)"
  by (induction ps arbitrary: c) (auto intro: same_names_trans base_upd_names)

definition keeps_names :: "(('ty, 'a, 'vec, 'b, 'v, 'd) world, 'r) act \<Rightarrow> bool" where
  "keeps_names A \<longleftrightarrow> (\<forall>w. same_names (w_cat w) (w_cat (snd (A w))))"

lemma keeps_bind:
  assumes "keeps_names A" and "\<And>x. keeps_names (F x)"
  shows "keeps_names (act_bind A F)"
  unfolding keeps_names_def
proof
  fix w
  obtain r w1 where a: "A w = (r, w1)" by force
  have 1: "same_names (w_cat w) (w_cat w1)" using assms(1) a unfolding keeps_names_def by (metis snd_conv)
  show "same_names (w_cat w) (w_cat (snd (act_bind A F w)))"
  proof (cases r)
    case (Ok x)
    have "same_names (w_cat w1) (w_cat (snd (F x w1)))" using assms(2) [of x] by (simp add: keeps_names_def)
    then show ?thesis using Ok a same_names_trans [OF 1] by (simp add: act_bind_def)
  qed (use 1 a in \<open>simp_all add: act_bind_def\<close>)
qed

lemma keeps_each: "(\<And>i. keeps_names (f i)) \<Longrightarrow> keeps_names (for_each f is)"
proof (induction "is")
  case Nil
  then show ?case by (simp add: keeps_names_def)
next
  case (Cons i "is")
  have "for_each f (i # is) = act_bind (f i) (\<lambda>_. for_each f is)" by (rule ext) simp
  then show ?case using Cons by (simp add: keeps_bind)
qed

lemma keeps_phase: "keeps_names (table_phase f i)"
  by (auto simp: keeps_names_def table_phase_def fold_names split: option.splits)

lemma keeps_paths: "keeps_names (\<lambda>w. (Ok (), w\<lparr>w_cat := fold (base_upd f) (ps w) (w_cat w)\<rparr>))"
  by (simp add: keeps_names_def fold_names)

lemma keeps_meta: "(\<And>w. same_meta w (snd (A w))) \<Longrightarrow> keeps_names A"
  unfolding keeps_names_def same_meta_def by simp

lemma keeps_check: "keeps_names (store_check env later order)"
  by (auto simp: keeps_names_def store_check_def split: option.splits)

lemma commit_keeps_names:
  "keeps_names (Store_PrepareCommit L D env later order is js)" "keeps_names (Store_ApplyCommit is)"
  unfolding Store_PrepareCommit_def Store_ApplyCommit_def Table_PrepareCommit_def Table_ApplyCommit_def
  by (intro keeps_bind keeps_each keeps_phase keeps_paths keeps_check keeps_meta log_meta collect_meta)+

section \<open>What a lookup depends on\<close>

lemma each_list_cong: "\<forall>k \<in> set ids. ent k = ent' k \<Longrightarrow> each_list (visit_step v ent) ids dn = each_list (visit_step v ent') ids dn"
  by (induction ids arbitrary: dn) (auto simp: visit_step_def split: prod.splits)

lemma each_member: "each_list (visit_step v ent) ids dn = Some k \<Longrightarrow> k \<in> set ids \<or> dn = Some k"
  by (induction ids arbitrary: dn) (auto simp: visit_step_def split: prod.splits if_splits)

definition relation_of :: "txn_env \<Rightarrow> (u64 \<Rightarrow> TxnStates) \<Rightarrow> u64 \<Rightarrow> u64 list \<Rightarrow> 'ty DBEntry \<Rightarrow> u64 res" where
  "relation_of env later r ids db =
     (case TxnGetTableNodeLocked env later (dir_pay tbl_base (entries (db_dir db))) r ids of
        None \<Rightarrow> Err ErrNotFound
      | Some k \<Rightarrow> (case entries (db_dir db) k of None \<Rightarrow> Panic | Some t \<Rightarrow> Ok (be_ID (tbl_base t))))"

lemma GetRelationByName_of:
  assumes "ts_database s = Some d" and "entries (cat_dir (w_cat w)) d = Some db"
  shows "fst (GetRelationByName env later nm (w\<lparr>w_store := s\<rparr>))
    = (case nameNodes (db_dir db) nm of None \<Rightarrow> Err ErrNotFound | Some ids \<Rightarrow> relation_of env later (ts_txn s) ids db)"
  using assms
  by (auto simp: GetRelationByName_def act_bind_def store_db_def GetTableEntry_def DB_txnGetNodeByNameLocked_def relation_of_def split: option.splits)

lemma relation_of_cong:
  assumes "\<forall>k \<in> set ids. map_option tbl_base (entries (db_dir db') k) = map_option tbl_base (entries (db_dir db) k)"
    and "\<forall>k \<in> set ids. entries (db_dir db) k \<noteq> None"
  shows "relation_of env later r ids db' = relation_of env later r ids db"
proof -
  have pay: "\<forall>k \<in> set ids. dir_pay tbl_base (entries (db_dir db')) k = dir_pay tbl_base (entries (db_dir db)) k"
    using assms by (fastforce simp: dir_pay_def)
  have l: "TxnGetTableNodeLocked env later (dir_pay tbl_base (entries (db_dir db'))) r ids
      = TxnGetTableNodeLocked env later (dir_pay tbl_base (entries (db_dir db))) r ids"
    unfolding TxnGetTableNodeLocked_def by (rule each_list_cong [OF pay])
  show ?thesis
  proof (cases "TxnGetTableNodeLocked env later (dir_pay tbl_base (entries (db_dir db))) r ids")
    case None
    then show ?thesis using l by (simp add: relation_of_def)
  next
    case (Some k)
    then have "k \<in> set ids" using each_member [of _ _ ids None k] by (simp add: TxnGetTableNodeLocked_def)
    then have "map_option tbl_base (entries (db_dir db') k) = map_option tbl_base (entries (db_dir db) k)" "entries (db_dir db) k \<noteq> None"
      using assms by blast+
    then show ?thesis using Some l by (auto simp: relation_of_def)
  qed
qed

text \<open>A committed newest version: found by the readers that start late enough, skipped by the others.\<close>

lemma relation_of_newest:
  assumes "entries (db_dir db) i = Some t" and "tbl_base t = b" and "be_Txn b = None" and "DeleteAt b = 0" and "be_ID b = i"
  shows "relation_of env later r (i # ids) db = (if CreateAt b \<le> StartTS (env r) then Ok i else relation_of env later r ids db)"
  using assms
  by (auto simp: relation_of_def TxnGetTableNodeLocked_def visit_step_def table_visit_def dir_pay_def HasActiveTxn_def CreateAfter_def DeleteBefore_def Let_def)

section \<open>Committing one table entry\<close>

lemma one_table_commit:
  fixes w1 :: "('ty, 'a, 'vec, 'b, 'v, 'd) world"
  assumes db1: "entries (cat_dir (w_cat w1)) d = Some db1" "entries (db_dir db1) i = Some tb1"
    and tbl: "ts_tables (w_store w1) = [i \<mapsto> tbl]" "tt_db tbl = d" "table_paths i tbl = [PTbl d i]"
    and none: "ts_createEntry (w_store w1) = None" "ts_dropEntry (w_store w1) = None"
    and live: "\<not> CreateAndDropInSameTxn (tbl_base tb1)" "\<not> CreateAndDropInSameTxn (PrepareCommit env (tbl_base tb1))"
    and pc: "Store_PrepareCommit L D env later order [i] js w1 = (Ok (), w2)"
  shows "\<exists>w3 db3 tb3. Store_ApplyCommit [i] w2 = (Ok (), w3) \<and> entries (cat_dir (w_cat w3)) d = Some db3
    \<and> nameNodes (db_dir db3) = nameNodes (db_dir db1)
    \<and> (\<forall>k. k \<noteq> i \<longrightarrow> map_option tbl_base (entries (db_dir db3) k) = map_option tbl_base (entries (db_dir db1) k))
    \<and> entries (db_dir db3) i = Some tb3 \<and> tbl_base tb3 = ApplyCommit (PrepareCommit env (tbl_base tb1))"
proof -
  have b1: "base_at (PTbl d i) (w_cat w1) = Some (tbl_base tb1)" using db1 by (simp add: table_at_def)
  have there: "tables_there w1 [i]" using b1 tbl by (simp add: tables_there_def del: base_at.simps)
  have lv: "PTbl d i \<in> live_paths env w1 [i]" using b1 tbl live by (simp add: live_paths_alt del: base_at.simps)
  have prep: "PTbl d k \<notin> prepared w1 [i]" if "k \<noteq> i" for k
    using tbl none that by (auto simp: prepared_def phase_paths_alt opt_path_def simp del: base_at.simps)
  obtain w3 where w3: "Store_ApplyCommit [i] w2 = (Ok (), w3)"
      "\<And>p. p \<notin> prepared w1 [i] \<Longrightarrow> base_at p (w_cat w3) = base_at p (w_cat w1)"
      "\<And>p b. p \<in> live_paths env w1 [i] \<Longrightarrow> base_at p (w_cat w1) = Some b \<Longrightarrow> base_at p (w_cat w3) = Some (ApplyCommit (PrepareCommit env b))"
    using commit_cases [where L = L and D = D and env = env and later = later and order = order and js = js and is' = "[i]", OF there] tbl(1) pc by auto
  have names: "same_names (w_cat w1) (w_cat w3)"
    using commit_keeps_names(1) [of L D env later order "[i]" js] commit_keeps_names(2) [of "[i]"] pc w3(1) same_names_trans
    unfolding keeps_names_def by (metis snd_conv)
  obtain db3 where e3: "entries (cat_dir (w_cat w3)) d = Some db3" "nameNodes (db_dir db3) = nameNodes (db_dir db1)"
    using names db1(1) unfolding same_names_def by (auto dest!: spec [of _ d])
  have "map_option tbl_base (entries (db_dir db3) k) = map_option tbl_base (entries (db_dir db1) k)" if "k \<noteq> i" for k
    using w3(2) [OF prep [OF that]] e3(1) db1(1) by (simp add: table_at_def)
  moreover obtain tb3 where "entries (db_dir db3) i = Some tb3" "tbl_base tb3 = ApplyCommit (PrepareCommit env (tbl_base tb1))"
    using w3(3) [OF lv b1] e3(1) by (auto simp: table_at_def)
  ultimately show ?thesis using w3(1) e3 by blast
qed

section \<open>A table that the transaction creates\<close>

lemma create_relation_world:
  assumes ok: "cat_ok cur (w_cat w0)" and fresh: "ts_tables (w_store w0) = Map.empty" and db: "ts_database (w_store w0) = Some d"
    and cr: "CreateRelation al env sc w0 = (Ok i, w1)"
  obtains db db' tb x where "entries (cat_dir (w_cat w0)) d = Some db"
    and "CreateTableEntry al env sc (Some (ts_txn (w_store w0))) db (cat_alloc (w_cat w0)) = Ok (None, tb, db', x)"
    and "be_ID (tbl_base tb) = i" and "entries (cat_dir (w_cat w1)) = (entries (cat_dir (w_cat w0)))(d \<mapsto> db')"
    and "ts_tables (w_store w1) = [i \<mapsto> (newTxnTable d)\<lparr>tt_createEntry := True\<rparr>]"
    and "ts_createEntry (w_store w1) = ts_createEntry (w_store w0)" and "ts_dropEntry (w_store w1) = ts_dropEntry (w_store w0)"
proof -
  obtain db where e: "entries (cat_dir (w_cat w0)) d = Some db"
    using cr db by (auto simp: CreateRelation_def act_bind_def store_db_def split: option.splits)
  have id: "be_ID (db_base db) = d" using ok e by (simp add: cat_ok_def dir_ok_def)
  let ?C = "CreateTableEntry al env sc (Some (ts_txn (w_store w0))) db (cat_alloc (w_cat w0))"
  obtain tb db' x where c: "?C = Ok (None, tb, db', x)"
    using cr db e by (auto simp: CreateRelation_def act_bind_def store_db_def Let_def split: res.splits option.splits)
  obtain a where n: "tb = \<lparr>tbl_base = new_base (be_ID (tbl_base tb)) a, tbl_db = d, tbl_schema = sc, tbl_entries = Map.empty, tbl_link = []\<rparr>"
      "entries (db_dir db') (be_ID (tbl_base tb)) = Some tb" "db_base db' = db_base db"
    using c id addEntryLocked_Ok by (fastforce simp: CreateTableEntry_def NewTableEntry_def new_base_def split: prod.splits res.splits)
  have d': "be_ID (db_base db') = d" "tbl_db tb = d" using n id by (simp_all, metis TableEntry.select_convs(2))
  show ?thesis
    by (rule that [OF e c]) (use cr db e c n(2) d' fresh in \<open>auto simp: CreateRelation_def act_bind_def store_db_def getOrSetTable_def SetCreateEntry_def
        GetTableEntryByID_def put_db_def put_entry_def upd_table_def upd_checker_def upd_map_def fun_eq_iff Let_def split: if_splits option.splits\<close>)
qed

lemma created_table_directory:
  fixes w0 :: "('ty, 'a, 'vec, 'b, 'v, 'd) world"
  assumes al: "id_source al cur" and ok: "cat_ok cur (w_cat w0)" and room: "unat (cur (tblAlloc (cat_alloc (w_cat w0)))) < 2 ^ 64 - 1"
    and fresh: "ts_tables (w_store w0) = Map.empty" "ts_createEntry (w_store w0) = None" "ts_dropEntry (w_store w0) = None"
    and db: "ts_database (w_store w0) = Some d" and t: "ts_txn (w_store w0) = t" and ts: "CommitTS (env t) \<noteq> 0"
    and cr: "CreateRelation al env sc w0 = (Ok i, w1)" and pc: "Store_PrepareCommit L D env later order [i] js w1 = (Ok (), w2)"
  shows "\<exists>w3 db db3 tb3. Store_ApplyCommit [i] w2 = (Ok (), w3)
    \<and> entries (cat_dir (w_cat w0)) d = Some db \<and> entries (cat_dir (w_cat w3)) d = Some db3
    \<and> nameNodes (db_dir db3) = (nameNodes (db_dir db))(sc_Name sc \<mapsto> i # (case nameNodes (db_dir db) (sc_Name sc) of None \<Rightarrow> [] | Some ids \<Rightarrow> ids))
    \<and> (\<forall>nm ids. nameNodes (db_dir db) nm = Some ids \<longrightarrow> i \<notin> set ids \<and> (\<forall>k \<in> set ids. entries (db_dir db) k \<noteq> None))
    \<and> (\<forall>k. k \<noteq> i \<longrightarrow> map_option tbl_base (entries (db_dir db3) k) = map_option tbl_base (entries (db_dir db) k))
    \<and> entries (db_dir db3) i = Some tb3 \<and> tbl_base tb3 = ApplyCommit (PrepareCommit env (new_base i (Some t)))"
proof -
  obtain db db' tb x where c: "entries (cat_dir (w_cat w0)) d = Some db" "CreateTableEntry al env sc (Some t) db (cat_alloc (w_cat w0)) = Ok (None, tb, db', x)"
      "be_ID (tbl_base tb) = i" "entries (cat_dir (w_cat w1)) = (entries (cat_dir (w_cat w0)))(d \<mapsto> db')"
      "ts_tables (w_store w1) = [i \<mapsto> (newTxnTable d)\<lparr>tt_createEntry := True\<rparr>]"
      "ts_createEntry (w_store w1) = None" "ts_dropEntry (w_store w1) = None"
    using create_relation_world [OF ok fresh(1) db cr] t fresh(2,3) by metis
  have n: "NewTableEntry al db sc (Some t) (cat_alloc (w_cat w0)) = (tb, x)" and add: "addEntryLocked tbl_base tbl_name env tb (db_dir db) = Ok (db_dir db')"
    using c(2) by (auto simp: CreateTableEntry_def split: res.splits prod.splits)
  note f = NewTableEntry_fresh [OF al n room] and a = addEntryLocked_Ok [OF add]
  have okd: "dir_ok tbl_base tbl_name (unat (cur (tblAlloc (cat_alloc (w_cat w0))))) (db_dir db)" using ok c(1) by (simp add: cat_ok_def)
  have new: "\<forall>nm ids. nameNodes (db_dir db) nm = Some ids \<longrightarrow> i \<notin> set ids \<and> (\<forall>k \<in> set ids. entries (db_dir db) k \<noteq> None)"
    using okd f(1) c(3) unfolding dir_ok_def by fastforce
  have tb: "tbl_base tb = new_base i (Some t)" using f(4) c(3) by simp
  have e1: "entries (cat_dir (w_cat w1)) d = Some db'" "entries (db_dir db') i = Some tb" using c(3,4) a by simp_all
  obtain w3 db3 tb3 where w3: "Store_ApplyCommit [i] w2 = (Ok (), w3)" "entries (cat_dir (w_cat w3)) d = Some db3" "nameNodes (db_dir db3) = nameNodes (db_dir db')"
      "\<And>k. k \<noteq> i \<Longrightarrow> map_option tbl_base (entries (db_dir db3) k) = map_option tbl_base (entries (db_dir db') k)"
      "entries (db_dir db3) i = Some tb3" "tbl_base tb3 = ApplyCommit (PrepareCommit env (tbl_base tb))"
    using one_table_commit [OF e1 c(5) _ _ c(6,7) _ _ pc]
    by (auto simp: table_paths_def newTxnTable_def tb new_base_def CreateAndDropInSameTxn_def PrepareCommit_def ts)
  have "map_option tbl_base (entries (db_dir db3) k) = map_option tbl_base (entries (db_dir db) k)" if "k \<noteq> i" for k
    using w3(4) [OF that] c(3) a that by simp
  moreover have "nameNodes (db_dir db3) = (nameNodes (db_dir db))(sc_Name sc \<mapsto> i # (case nameNodes (db_dir db) (sc_Name sc) of None \<Rightarrow> [] | Some ids \<Rightarrow> ids))"
    using a w3(3) f(5) c(3) by simp
  ultimately show ?thesis using w3(1,2,5,6) c(1) new unfolding tb by blast
qed

text \<open>
  C1. Snapshot isolation from end to end: a transaction creates a table in an existing database and commits.  When the first phase of the
  commit succeeds the second one does, and from then on a transaction that looks a table up by name in this database finds the new table exactly when it asks for its name and has
  started at the commit timestamp or later; every other lookup (another name, or a transaction that has started earlier) gives what it gave
  before the table was created, errors included.
\<close>

theorem created_table_published:
  fixes w0 :: "('ty, 'a, 'vec, 'b, 'v, 'd) world"
  assumes al: "id_source al cur" and ok: "cat_ok cur (w_cat w0)" and room: "unat (cur (tblAlloc (cat_alloc (w_cat w0)))) < 2 ^ 64 - 1"
    and fresh: "ts_tables (w_store w0) = Map.empty" "ts_createEntry (w_store w0) = None" "ts_dropEntry (w_store w0) = None"
    and db: "ts_database (w_store w0) = Some d" and t: "ts_txn (w_store w0) = t" and ts: "CommitTS (env t) \<noteq> 0"
    and cr: "CreateRelation al env sc w0 = (Ok i, w1)" and pc: "Store_PrepareCommit L D env later order [i] js w1 = (Ok (), w2)"
  shows "\<exists>w3. Store_ApplyCommit [i] w2 = (Ok (), w3)
    \<and> (\<forall>env' later' nm s. ts_database s = Some d \<longrightarrow>
         fst (GetRelationByName env' later' nm (w3\<lparr>w_store := s\<rparr>))
         = (if nm = sc_Name sc \<and> CommitTS (env t) \<le> StartTS (env' (ts_txn s)) then Ok i
            else fst (GetRelationByName env' later' nm (w0\<lparr>w_store := s\<rparr>))))"
proof -
  obtain w3 db db3 tb3 where w3: "Store_ApplyCommit [i] w2 = (Ok (), w3)" and e: "entries (cat_dir (w_cat w0)) d = Some db" "entries (cat_dir (w_cat w3)) d = Some db3"
    and nm3: "nameNodes (db_dir db3) = (nameNodes (db_dir db))(sc_Name sc \<mapsto> i # (case nameNodes (db_dir db) (sc_Name sc) of None \<Rightarrow> [] | Some ids \<Rightarrow> ids))"
    and new: "\<forall>nm ids. nameNodes (db_dir db) nm = Some ids \<longrightarrow> i \<notin> set ids \<and> (\<forall>k \<in> set ids. entries (db_dir db) k \<noteq> None)"
    and old: "\<And>k. k \<noteq> i \<Longrightarrow> map_option tbl_base (entries (db_dir db3) k) = map_option tbl_base (entries (db_dir db) k)"
    and i3: "entries (db_dir db3) i = Some tb3" "tbl_base tb3 = ApplyCommit (PrepareCommit env (new_base i (Some t)))"
    using created_table_directory [OF assms] by blast
  have b3: "be_Txn (tbl_base tb3) = None" "DeleteAt (tbl_base tb3) = 0" "be_ID (tbl_base tb3) = i" "CreateAt (tbl_base tb3) = CommitTS (env t)"
    by (simp_all add: i3(2) ApplyCommit_def PrepareCommit_def new_base_def Let_def)
  have rest: "relation_of env' later' r ids db3 = relation_of env' later' r ids db" if "nameNodes (db_dir db) nm = Some ids" for env' later' r ids nm
    using new that old by (intro relation_of_cong) metis+
  have "fst (GetRelationByName env' later' nm (w3\<lparr>w_store := s\<rparr>))
      = (if nm = sc_Name sc \<and> CommitTS (env t) \<le> StartTS (env' (ts_txn s)) then Ok i else fst (GetRelationByName env' later' nm (w0\<lparr>w_store := s\<rparr>)))"
    if "ts_database s = Some d" for env' later' nm s
  proof -
    have nil: "relation_of env' later' (ts_txn s) [] db3 = Err ErrNotFound" by (simp add: relation_of_def TxnGetTableNodeLocked_def)
    show ?thesis
      unfolding GetRelationByName_of [OF that e(2)] GetRelationByName_of [OF that e(1)] nm3
      using relation_of_newest [OF i3(1) refl b3(1-3)] rest nil b3(4) by (auto split: option.splits)
  qed
  then show ?thesis using w3 by blast
qed

definition demo_before :: "(unit, IdAlloctor, u8, u32 list, u8, bytes list) world" where
  "demo_before =
     \<lparr>w_cat = \<lparr>cat_alloc = \<lparr>dbAlloc = \<lparr>alloc_id = 1\<rparr>, tblAlloc = \<lparr>alloc_id = 0\<rparr>, segAlloc = \<lparr>alloc_id = 0\<rparr>, blkAlloc = \<lparr>alloc_id = 0\<rparr>\<rparr>,
        cat_dir = \<lparr>entries = [1 \<mapsto> \<lparr>db_base = new_base 1 None, db_name = ''db'', db_dir = empty_dir\<rparr>], nameNodes = [''db'' \<mapsto> [1]], link = [1]\<rparr>\<rparr>,
      w_data = Map.empty, w_drv = [], w_store = (newStore False False 7)\<lparr>ts_database := Some 1\<rparr>\<rparr>"

lemma demo_created_table:
  "CreateRelation Alloc demo_commit demo_schema demo_before =
     (Ok 1, let tb = \<lparr>tbl_base = new_base 1 (Some 7), tbl_db = 1, tbl_schema = demo_schema, tbl_entries = Map.empty, tbl_link = []\<rparr>;
          d = \<lparr>db_base = new_base 1 None, db_name = ''db'', db_dir = \<lparr>entries = [1 \<mapsto> tb], nameNodes = [''t'' \<mapsto> [1]], link = [1]\<rparr>\<rparr>
      in demo_before\<lparr>w_cat := \<lparr>cat_alloc = \<lparr>dbAlloc = \<lparr>alloc_id = 1\<rparr>, tblAlloc = \<lparr>alloc_id = 1\<rparr>, segAlloc = \<lparr>alloc_id = 0\<rparr>, blkAlloc = \<lparr>alloc_id = 0\<rparr>\<rparr>,
             cat_dir = \<lparr>entries = [1 \<mapsto> d], nameNodes = [''db'' \<mapsto> [1]], link = [1]\<rparr>\<rparr>,
           w_store := (newStore False False 7)\<lparr>ts_tables := [1 \<mapsto> (newTxnTable 1)\<lparr>tt_createEntry := True\<rparr>], ts_database := Some 1,
             ts_warChecker := Some (1, \<lparr>wc_txn = 7, symTable = [EncodeDB 1]\<rparr>)\<rparr>\<rparr>)"
  by (simp add: demo_before_def demo_schema_def store_eval upd_map_def fun_eq_iff)

lemmas prepare_eval = Store_PrepareCommit_def Let_def act_bind_def store_check_def check_def key_entry_def check_entry_def DeleteBefore_def new_base_def
  Table_PrepareCommit_def table_phase_def table_at_def table_paths_def CreateAndDropInSameTxn_def collect_db_def CollectCmd_def log_record_def
  ApplyTxnRecord_def opt_path_def PrepareCommit_def add_cmd_def AddCmd_def newStore_def newCommandManager_def newTxnTable_def
  table_upd_def upd_table_def demo_before_def demo_commit_def key_kind_defs demo_schema_def

lemma demo_create_prepare:
  "fst (Store_PrepareCommit demo_log demo_driver demo_commit (\<lambda>_. TxnStateActive) id [1] [1] (snd (CreateRelation Alloc demo_commit demo_schema demo_before))) = Ok ()"
  unfolding demo_created_table snd_conv Let_def
  by (simp add: prepare_eval)

lemma newStore_txn [simp]: "ts_txn (newStore a b k) = k"
  by (simp add: newStore_def)

theorem created_table_published_witness:
  "\<exists>w1 w2 w3. CreateRelation Alloc demo_commit demo_schema demo_before = (Ok 1, w1)
     \<and> Store_PrepareCommit demo_log demo_driver demo_commit (\<lambda>_. TxnStateActive) id [1] [1] w1 = (Ok (), w2)
     \<and> Store_ApplyCommit [1] w2 = (Ok (), w3)
     \<and> fst (GetRelationByName demo_env (\<lambda>_. TxnStateActive) ''t'' (w3\<lparr>w_store := (newStore False False 20)\<lparr>ts_database := Some 1\<rparr>\<rparr>)) = Ok 1
     \<and> fst (GetRelationByName demo_env (\<lambda>_. TxnStateActive) ''t'' (w3\<lparr>w_store := (newStore False False 4)\<lparr>ts_database := Some 1\<rparr>\<rparr>)) = Err ErrNotFound"
proof -
  let ?w1 = "snd (CreateRelation Alloc demo_commit demo_schema demo_before)"
  obtain w2 where w2: "Store_PrepareCommit demo_log demo_driver demo_commit (\<lambda>_. TxnStateActive) id [1] [1] ?w1 = (Ok (), w2)"
    using demo_create_prepare by (metis prod.collapse)
  have cr: "CreateRelation Alloc demo_commit demo_schema demo_before = (Ok 1, ?w1)" by (simp add: demo_created_table)
  have ok: "cat_ok Get (w_cat demo_before)"
    by (auto simp: demo_before_def cat_ok_def dir_ok_def empty_dir_def new_base_def Get_def)
  have f: "ts_tables (w_store demo_before) = Map.empty" "ts_createEntry (w_store demo_before) = None" "ts_dropEntry (w_store demo_before) = None"
      "ts_database (w_store demo_before) = Some 1" "ts_txn (w_store demo_before) = 7" "unat (Get (tblAlloc (cat_alloc (w_cat demo_before)))) < 2 ^ 64 - 1"
    by (simp_all add: demo_before_def newStore_def Get_def)
  have cts: "CommitTS (demo_commit 7) \<noteq> 0" by (simp add: demo_commit_def)
  have before: "fst (GetRelationByName demo_env (\<lambda>_. TxnStateActive) ''t'' (demo_before\<lparr>w_store := (newStore False False 4)\<lparr>ts_database := Some 1\<rparr>\<rparr>)) = Err ErrNotFound"
    by (simp add: GetRelationByName_def act_bind_def store_db_def demo_before_def GetTableEntry_def DB_txnGetNodeByNameLocked_def empty_dir_def)
  obtain w3 where w3: "Store_ApplyCommit [1] w2 = (Ok (), w3)"
      "\<And>nm s. ts_database s = Some 1 \<Longrightarrow> fst (GetRelationByName demo_env (\<lambda>_. TxnStateActive) nm (w3\<lparr>w_store := s\<rparr>))
         = (if nm = sc_Name demo_schema \<and> CommitTS (demo_commit 7) \<le> StartTS (demo_env (ts_txn s)) then Ok 1
            else fst (GetRelationByName demo_env (\<lambda>_. TxnStateActive) nm (demo_before\<lparr>w_store := s\<rparr>)))"
    using created_table_published [OF ida.id_source_axioms ok f(6,1,2,3,4,5) cts cr w2] by blast
  have "sc_Name demo_schema = ''t''" "CommitTS (demo_commit 7) = 9" "StartTS (demo_env k) = k" for k
    by (simp_all add: demo_schema_def demo_commit_def demo_env_def NewTxnCtx_def)
  then show ?thesis using cr w2 w3(1) w3(2) [of "(newStore False False 20)\<lparr>ts_database := Some 1\<rparr>" "''t''"]
      w3(2) [of "(newStore False False 4)\<lparr>ts_database := Some 1\<rparr>" "''t''"] before
    by (intro exI [of _ ?w1] exI [of _ w2] exI [of _ w3]) simp
qed

section \<open>A table that the transaction drops\<close>

lemma visit_found_stops: "fst (table_visit env later r b) \<Longrightarrow> \<not> snd (table_visit env later r b)"
  by (auto simp: table_visit_def Let_def split: if_splits)

text \<open>One version is hidden: the search ends there with nothing, where it ended with this version.\<close>

lemma each_hide:
  assumes "\<forall>k \<in> set ids. k \<noteq> i \<longrightarrow> ent' k = ent k" and "v (ent' i) = (if hide \<and> fst (v (ent i)) then (False, False) else v (ent i))"
    and "\<And>b. fst (v b) \<Longrightarrow> \<not> snd (v b)"
  shows "each_list (visit_step v ent') ids None
    = (if each_list (visit_step v ent) ids None = Some i \<and> hide then None else each_list (visit_step v ent) ids None)"
  using assms(1)
proof (induction ids)
  case (Cons k ids)
  obtain f g where v: "v (ent k) = (f, g)" by force
  have stop: "f \<Longrightarrow> \<not> g" using assms(3) [of "ent k"] v by simp
  show ?case
  proof (cases "k = i")
    case True
    then show ?thesis using v stop assms(2) Cons by (cases f) (auto simp: visit_step_def)
  next
    case False
    then have "ent' k = ent k" using Cons.prems by simp
    then show ?thesis using v stop False Cons by (cases f; cases g) (auto simp: visit_step_def)
  qed
qed simp

lemma relation_of_dropped:
  assumes old: "\<And>k. k \<noteq> i \<Longrightarrow> map_option tbl_base (entries (db_dir db') k) = map_option tbl_base (entries (db_dir db) k)"
    and i: "entries (db_dir db) i = Some tb" "entries (db_dir db') i = Some tb'"
    and b: "be_Txn (tbl_base tb) = None" "DeleteAt (tbl_base tb) = 0" "be_Txn (tbl_base tb') = None" "DeleteAt (tbl_base tb') = ts" "ts \<noteq> 0"
      "CreateAt (tbl_base tb') = CreateAt (tbl_base tb)" "be_ID (tbl_base tb') = be_ID (tbl_base tb)"
    and ids: "\<forall>k \<in> set ids. \<exists>t. entries (db_dir db) k = Some t \<and> be_ID (tbl_base t) = k"
  shows "relation_of env later r ids db'
    = (if relation_of env later r ids db = Ok i \<and> ts < StartTS (env r) then Err ErrNotFound else relation_of env later r ids db)"
proof -
  let ?look = "\<lambda>db. TxnGetTableNodeLocked env later (dir_pay tbl_base (entries (db_dir db))) r ids"
  have pay: "dir_pay tbl_base (entries (db_dir db')) k = dir_pay tbl_base (entries (db_dir db)) k" if "k \<in> set ids" "k \<noteq> i" for k
    using old [OF that(2)] ids that(1) by (fastforce simp: dir_pay_def)
  have v: "table_visit env later r (dir_pay tbl_base (entries (db_dir db')) i)
      = (if ts < StartTS (env r) \<and> fst (table_visit env later r (dir_pay tbl_base (entries (db_dir db)) i)) then (False, False)
         else table_visit env later r (dir_pay tbl_base (entries (db_dir db)) i))"
    using i b by (auto simp: dir_pay_def table_visit_def HasActiveTxn_def CreateAfter_def DeleteBefore_def Let_def)
  have l: "?look db' = (if ?look db = Some i \<and> ts < StartTS (env r) then None else ?look db)"
    unfolding TxnGetTableNodeLocked_def by (rule each_hide) (use pay v visit_found_stops in auto)
  show ?thesis
  proof (cases "?look db")
    case None
    then show ?thesis using l by (simp add: relation_of_def)
  next
    case (Some k)
    then have "k \<in> set ids" using each_member [of _ _ ids None k] by (simp add: TxnGetTableNodeLocked_def)
    then obtain t where t: "entries (db_dir db) k = Some t" "be_ID (tbl_base t) = k" using ids by blast
    show ?thesis
    proof (cases "k = i")
      case True
      then show ?thesis using Some l t i b(7) by (auto simp: relation_of_def)
    next
      case False
      then show ?thesis using Some l t old [OF False] by (auto simp: relation_of_def)
    qed
  qed
qed

lemma drop_relation_world:
  assumes ok: "cat_ok cur (w_cat w0)" and fresh: "ts_tables (w_store w0) = Map.empty" and db: "ts_database (w_store w0) = Some d"
    and dr: "DropRelationByName env later nm w0 = (Ok i, w1)"
  obtains db tb b' where "entries (cat_dir (w_cat w0)) d = Some db" and "entries (db_dir db) i = Some tb"
    and "DropEntryLocked (env (ts_txn (w_store w0))) (tbl_base tb) = Ok b'"
    and "entries (cat_dir (w_cat w1)) = (entries (cat_dir (w_cat w0)))(d \<mapsto> db\<lparr>db_dir := put_entry i (tb\<lparr>tbl_base := b'\<rparr>) (db_dir db)\<rparr>)"
    and "\<exists>e. ts_tables (w_store w1) = [i \<mapsto> (newTxnTable e)\<lparr>tt_dropEntry := True\<rparr>] \<and> e = tbl_db tb"
    and "ts_createEntry (w_store w1) = ts_createEntry (w_store w0)" and "ts_dropEntry (w_store w1) = ts_dropEntry (w_store w0)"
proof -
  let ?t = "ts_txn (w_store w0)"
  obtain db where e: "entries (cat_dir (w_cat w0)) d = Some db"
    using dr db by (auto simp: DropRelationByName_def act_bind_def store_db_def split: option.splits)
  have id: "be_ID (db_base db) = d" using ok e by (simp add: cat_ok_def dir_ok_def)
  obtain k tb b' where k: "DB_txnGetNodeByNameLocked env later nm ?t db = Some k" "entries (db_dir db) k = Some tb" "DropEntryLocked (env ?t) (tbl_base tb) = Ok b'"
    using dr db e by (auto simp: DropRelationByName_def act_bind_def store_db_def DropTableEntry_def Let_def split: res.splits option.splits)
  have ids: "be_ID (tbl_base tb) = k" using ok e k(2) by (simp add: cat_ok_def dir_ok_def)
  have b': "be_ID b' = k" using k(3) ids drop_ID by metis
  show ?thesis
    by (rule that [OF e, of tb b']) (use dr db e k b' id fresh in \<open>auto simp: DropRelationByName_def DropTableEntry_def act_bind_def store_db_def getOrSetTable_def
        SetDropEntry_def GetTableEntryByID_def put_db_def put_entry_def upd_table_def upd_checker_def upd_map_def fun_eq_iff Let_def split: if_splits option.splits\<close>)
qed

text \<open>
  C2. A transaction drops a committed table and commits.  When the first phase of the commit succeeds the second one does, and from then on
  the transactions that have started after the commit timestamp no longer find the table: a lookup that used to return it now reports "not found",
  and no older version of the name comes up.  All other lookups, by the transactions that have started
  before or of other tables, give what they gave before the drop.
\<close>

theorem dropped_table_hidden:
  fixes w0 :: "('ty, 'a, 'vec, 'b, 'v, 'd) world"
  assumes ok: "cat_ok cur (w_cat w0)"
    and fresh: "ts_tables (w_store w0) = Map.empty" "ts_createEntry (w_store w0) = None" "ts_dropEntry (w_store w0) = None"
    and db: "ts_database (w_store w0) = Some d" and t: "ts_txn (w_store w0) = t" "txn_ID (env t) = t" "StartTS (env t) < CommitTS (env t)"
    and tb: "table_at d i (w_cat w0) = Some tb" "tbl_db tb = d" "be_Txn (tbl_base tb) = None" "CreateAt (tbl_base tb) \<noteq> 0"
    and dr: "DropRelationByName env later nm0 w0 = (Ok i, w1)" and pc: "Store_PrepareCommit L D env later order [i] js w1 = (Ok (), w2)"
  shows "\<exists>w3. Store_ApplyCommit [i] w2 = (Ok (), w3)
    \<and> (\<forall>env' later' nm s. ts_database s = Some d \<longrightarrow>
         fst (GetRelationByName env' later' nm (w3\<lparr>w_store := s\<rparr>))
         = (if fst (GetRelationByName env' later' nm (w0\<lparr>w_store := s\<rparr>)) = Ok i \<and> CommitTS (env t) < StartTS (env' (ts_txn s)) then Err ErrNotFound
            else fst (GetRelationByName env' later' nm (w0\<lparr>w_store := s\<rparr>))))"
proof -
  obtain db tb0 b' where c: "entries (cat_dir (w_cat w0)) d = Some db" "entries (db_dir db) i = Some tb0" "DropEntryLocked (env t) (tbl_base tb0) = Ok b'"
      "entries (cat_dir (w_cat w1)) = (entries (cat_dir (w_cat w0)))(d \<mapsto> db\<lparr>db_dir := put_entry i (tb0\<lparr>tbl_base := b'\<rparr>) (db_dir db)\<rparr>)"
      "ts_tables (w_store w1) = [i \<mapsto> (newTxnTable (tbl_db tb0))\<lparr>tt_dropEntry := True\<rparr>]" "ts_createEntry (w_store w1) = None" "ts_dropEntry (w_store w1) = None"
    using drop_relation_world [OF ok fresh(1) db dr] t(1) fresh(2,3) by metis
  have tb0: "tb0 = tb" using c(1,2) tb(1) by (simp add: table_at_def)
  have b': "b' = (tbl_base tb)\<lparr>PrevCommit := Some (CurrOp (tbl_base tb)), be_Txn := Some t, CurrOp := OpSoftDelete\<rparr>" "DeleteAt (tbl_base tb) = 0"
      "CreateAt (tbl_base tb) \<le> StartTS (env t)"
    using c(3) tb(3) t(2) by (auto simp: tb0 DropEntryLocked_def HasDropped_def not_less split: if_splits)
  have ne: "CreateAt (tbl_base tb) \<noteq> CommitTS (env t)" "CommitTS (env t) \<noteq> 0" using b'(3) t(3) by auto
  let ?db1 = "db\<lparr>db_dir := put_entry i (tb0\<lparr>tbl_base := b'\<rparr>) (db_dir db)\<rparr>"
  have e1: "entries (cat_dir (w_cat w1)) d = Some ?db1" "entries (db_dir ?db1) i = Some (tb0\<lparr>tbl_base := b'\<rparr>)" using c(4) by (simp_all add: put_entry_def)
  obtain w3 db3 tb3 where w3: "Store_ApplyCommit [i] w2 = (Ok (), w3)" "entries (cat_dir (w_cat w3)) d = Some db3" "nameNodes (db_dir db3) = nameNodes (db_dir db)"
      "\<And>k. k \<noteq> i \<Longrightarrow> map_option tbl_base (entries (db_dir db3) k) = map_option tbl_base (entries (db_dir db) k)"
      "entries (db_dir db3) i = Some tb3" "tbl_base tb3 = ApplyCommit (PrepareCommit env b')"
    using one_table_commit [OF e1 c(5) _ _ c(6,7) _ _ pc] tb(2,4) ne
    by (auto simp: table_paths_def newTxnTable_def tb0 b' CreateAndDropInSameTxn_def PrepareCommit_def put_entry_def)
  have b3: "be_Txn (tbl_base tb3) = None" "DeleteAt (tbl_base tb3) = CommitTS (env t)" "CreateAt (tbl_base tb3) = CreateAt (tbl_base tb)"
      "be_ID (tbl_base tb3) = be_ID (tbl_base tb)"
    using tb(4) by (simp_all add: w3(6) b'(1) ApplyCommit_def PrepareCommit_def Let_def)
  have okd: "\<exists>hi. dir_ok tbl_base tbl_name hi (db_dir db)" using ok c(1) unfolding cat_ok_def by blast
  have ids: "\<forall>k \<in> set ids. \<exists>t. entries (db_dir db) k = Some t \<and> be_ID (tbl_base t) = k" if "nameNodes (db_dir db) nm = Some ids" for nm ids
    using okd that unfolding dir_ok_def by blast
  have "fst (GetRelationByName env' later' nm (w3\<lparr>w_store := s\<rparr>))
      = (if fst (GetRelationByName env' later' nm (w0\<lparr>w_store := s\<rparr>)) = Ok i \<and> CommitTS (env t) < StartTS (env' (ts_txn s)) then Err ErrNotFound
         else fst (GetRelationByName env' later' nm (w0\<lparr>w_store := s\<rparr>)))" if "ts_database s = Some d" for env' later' nm s
    unfolding GetRelationByName_of [OF that w3(2)] GetRelationByName_of [OF that c(1)] w3(3)
    using relation_of_dropped [OF w3(4) c(2) [unfolded tb0] w3(5) tb(3) b'(2) b3(1,2) ne(2) b3(3,4) ids]
    by (cases "nameNodes (db_dir db) nm") auto
  then show ?thesis using w3(1) by blast
qed

definition demo_dropper :: "(unit, IdAlloctor, u8, u32 list, u8, bytes list) world" where
  "demo_dropper =
     (let tb = \<lparr>tbl_base = (new_base 1 None)\<lparr>CreateAt := 2\<rparr>, tbl_db = 1, tbl_schema = demo_schema, tbl_entries = Map.empty, tbl_link = []\<rparr>;
          d = \<lparr>db_base = new_base 1 None, db_name = ''db'', db_dir = \<lparr>entries = [1 \<mapsto> tb], nameNodes = [''t'' \<mapsto> [1]], link = [1]\<rparr>\<rparr>
      in demo_before\<lparr>w_cat := \<lparr>cat_alloc = \<lparr>dbAlloc = \<lparr>alloc_id = 1\<rparr>, tblAlloc = \<lparr>alloc_id = 1\<rparr>, segAlloc = \<lparr>alloc_id = 0\<rparr>, blkAlloc = \<lparr>alloc_id = 0\<rparr>\<rparr>,
             cat_dir = \<lparr>entries = [1 \<mapsto> d], nameNodes = [''db'' \<mapsto> [1]], link = [1]\<rparr>\<rparr>\<rparr>)"

lemmas drop_eval = DropRelationByName_def act_bind_def store_db_def DropTableEntry_def DB_txnGetNodeByNameLocked_def TxnGetTableNodeLocked_def visit_step_def
  table_visit_def dir_pay_def visit_defs CreateBefore_def CreateAfter_def DeleteBefore_def DropEntryLocked_def getOrSetTable_def SetDropEntry_def newStore_def
  empty_dir_def put_db_def put_entry_def upd_table_def upd_checker_def GetTableEntryByID_def newTxnTable_def new_base_def
  readDBVar_def readSymbol_def newWarChecker_def Let_def

lemma demo_drop_table:
  "DropRelationByName demo_commit (\<lambda>_. TxnStateActive) ''t'' demo_dropper =
     (Ok 1, let tb = \<lparr>tbl_base = (new_base 1 (Some 7))\<lparr>CreateAt := 2, PrevCommit := Some OpCreate, CurrOp := OpSoftDelete\<rparr>, tbl_db = 1, tbl_schema = demo_schema,
              tbl_entries = Map.empty, tbl_link = []\<rparr>;
          d = \<lparr>db_base = new_base 1 None, db_name = ''db'', db_dir = \<lparr>entries = [1 \<mapsto> tb], nameNodes = [''t'' \<mapsto> [1]], link = [1]\<rparr>\<rparr>
      in demo_before\<lparr>w_cat := \<lparr>cat_alloc = \<lparr>dbAlloc = \<lparr>alloc_id = 1\<rparr>, tblAlloc = \<lparr>alloc_id = 1\<rparr>, segAlloc = \<lparr>alloc_id = 0\<rparr>, blkAlloc = \<lparr>alloc_id = 0\<rparr>\<rparr>,
             cat_dir = \<lparr>entries = [1 \<mapsto> d], nameNodes = [''db'' \<mapsto> [1]], link = [1]\<rparr>\<rparr>,
           w_store := (newStore False False 7)\<lparr>ts_tables := [1 \<mapsto> (newTxnTable 1)\<lparr>tt_dropEntry := True\<rparr>], ts_database := Some 1,
             ts_warChecker := Some (1, \<lparr>wc_txn = 7, symTable = [EncodeDB 1]\<rparr>)\<rparr>\<rparr>)"
  by (simp add: demo_dropper_def demo_before_def demo_commit_def drop_eval upd_map_def fun_eq_iff)

lemma demo_drop_prepare:
  "fst (Store_PrepareCommit demo_log demo_driver demo_commit (\<lambda>_. TxnStateActive) id [1] [1] (snd (DropRelationByName demo_commit (\<lambda>_. TxnStateActive) ''t'' demo_dropper))) = Ok ()"
  unfolding demo_drop_table snd_conv Let_def
  by (simp add: prepare_eval)

theorem dropped_table_hidden_witness:
  "\<exists>w1 w2 w3. DropRelationByName demo_commit (\<lambda>_. TxnStateActive) ''t'' demo_dropper = (Ok 1, w1)
     \<and> Store_PrepareCommit demo_log demo_driver demo_commit (\<lambda>_. TxnStateActive) id [1] [1] w1 = (Ok (), w2)
     \<and> Store_ApplyCommit [1] w2 = (Ok (), w3)
     \<and> fst (GetRelationByName demo_env (\<lambda>_. TxnStateActive) ''t'' (w3\<lparr>w_store := (newStore False False 20)\<lparr>ts_database := Some 1\<rparr>\<rparr>)) = Err ErrNotFound
     \<and> fst (GetRelationByName demo_env (\<lambda>_. TxnStateActive) ''t'' (w3\<lparr>w_store := (newStore False False 4)\<lparr>ts_database := Some 1\<rparr>\<rparr>)) = Ok 1"
proof -
  let ?w1 = "snd (DropRelationByName demo_commit (\<lambda>_. TxnStateActive) ''t'' demo_dropper)"
  define tb :: "unit TableEntry" where
    "tb = \<lparr>tbl_base = (new_base 1 None)\<lparr>CreateAt := 2\<rparr>, tbl_db = 1, tbl_schema = demo_schema, tbl_entries = Map.empty, tbl_link = []\<rparr>"
  obtain w2 where w2: "Store_PrepareCommit demo_log demo_driver demo_commit (\<lambda>_. TxnStateActive) id [1] [1] ?w1 = (Ok (), w2)"
    using demo_drop_prepare by (metis prod.collapse)
  have dr: "DropRelationByName demo_commit (\<lambda>_. TxnStateActive) ''t'' demo_dropper = (Ok 1, ?w1)" by (simp add: demo_drop_table)
  have ok: "cat_ok Get (w_cat demo_dropper)"
    by (auto simp: demo_dropper_def demo_before_def cat_ok_def dir_ok_def new_base_def Get_def Let_def tbl_name_def demo_schema_def split: if_splits)
  have f: "ts_tables (w_store demo_dropper) = Map.empty" "ts_createEntry (w_store demo_dropper) = None" "ts_dropEntry (w_store demo_dropper) = None"
      "ts_database (w_store demo_dropper) = Some 1" "ts_txn (w_store demo_dropper) = 7" "txn_ID (demo_commit 7) = 7" "StartTS (demo_commit 7) < CommitTS (demo_commit 7)"
      "table_at 1 1 (w_cat demo_dropper) = Some tb" "tbl_db tb = 1" "be_Txn (tbl_base tb) = None" "CreateAt (tbl_base tb) \<noteq> 0"
    by (simp_all add: demo_dropper_def demo_before_def newStore_def demo_commit_def Let_def table_at_def tb_def new_base_def)
  have before: "fst (GetRelationByName demo_env (\<lambda>_. TxnStateActive) ''t'' (demo_dropper\<lparr>w_store := (newStore False False k)\<lparr>ts_database := Some 1\<rparr>\<rparr>)) = Ok 1"
    if "2 \<le> k" for k
    using that by (simp add: GetRelationByName_def demo_dropper_def GetTableEntry_def drop_eval demo_env_def NewTxnCtx_def)
  obtain w3 where w3: "Store_ApplyCommit [1] w2 = (Ok (), w3)"
      "\<And>nm s. ts_database s = Some 1 \<Longrightarrow> fst (GetRelationByName demo_env (\<lambda>_. TxnStateActive) nm (w3\<lparr>w_store := s\<rparr>))
         = (if fst (GetRelationByName demo_env (\<lambda>_. TxnStateActive) nm (demo_dropper\<lparr>w_store := s\<rparr>)) = Ok 1 \<and> CommitTS (demo_commit 7) < StartTS (demo_env (ts_txn s))
            then Err ErrNotFound else fst (GetRelationByName demo_env (\<lambda>_. TxnStateActive) nm (demo_dropper\<lparr>w_store := s\<rparr>)))"
    using dropped_table_hidden [OF ok f dr w2] by blast
  have "CommitTS (demo_commit 7) = 9" "StartTS (demo_env k) = k" for k by (simp_all add: demo_commit_def demo_env_def NewTxnCtx_def)
  then show ?thesis using dr w2 w3(1) w3(2) [of "(newStore False False 20)\<lparr>ts_database := Some 1\<rparr>" "''t''"]
      w3(2) [of "(newStore False False 4)\<lparr>ts_database := Some 1\<rparr>" "''t''"] before [of 20] before [of 4]
    by (intro exI [of _ ?w1] exI [of _ w2] exI [of _ w3]) simp
qed

end
