(* ===== verification/Session.thy ===== *)
theory Session
  imports Txn
begin

text \<open>
  The client side of the transaction manager: the calls of \<^verbatim>\<open>pkg/taedb/db.go\<close> that start, commit and roll back a transaction, and
  \<open>Commit\<close>, \<open>Rollback\<close> and \<open>WaitDone\<close> of \<^verbatim>\<open>pkg/txn/txnbase/txn.go\<close> behind them.
\<close>

section \<open>Commit and rollback as calls\<close>

definition Mgr_Init :: "(u64 \<Rightarrow> 'a \<Rightarrow> 'a) \<Rightarrow> u64 \<Rightarrow> u64 \<Rightarrow> ('s, 'a) TxnManager \<Rightarrow> ('s, 'a) TxnManager" where
  "Mgr_Init setStart prevTxnId prevTs m = m\<lparr>IdAlloc := setStart prevTxnId (IdAlloc m), TsAlloc := setStart prevTs (TsAlloc m)\<rparr>"

definition Mgr_GetTxn :: "u64 \<Rightarrow> ('s, 'a) TxnManager \<Rightarrow> 's Txn option" where
  "Mgr_GetTxn i m = (if i \<in> Active m then tm_txns m i else None)"

text \<open>
  The call enqueues its request, waits until both handlers have processed it, removes the transaction from the active ones and returns the error
  of the transaction.  Here the handlers take the request up at once, behind what they have already taken.
\<close>

definition Txn_end :: "'s TxnStoreOps \<Rightarrow> ('a \<Rightarrow> u64 \<times> 'a) \<Rightarrow> OpType \<Rightarrow> u64 \<Rightarrow> ('s, 'a) TxnManager \<Rightarrow> (go_error option \<times> ('s, 'a) TxnManager) res" where
  "Txn_end so al opt i m =
     (let q = \<lparr>op_Txn = i, op_Op = opt\<rparr>
      in res_bind (onPreparing so al q ((OnOpTxn q m)\<lparr>received := received m\<rparr>)) (\<lambda>m2.
         res_bind (onCommit so (last (checkpoint m2)) (m2\<lparr>checkpoint := butlast (checkpoint m2)\<rparr>)) (\<lambda>m3.
         case tm_txns m3 i of
           None \<Rightarrow> Panic
         | Some t \<Rightarrow> Ok (tx_Err t, DeleteTxn i m3))))"

definition Txn_Commit :: "'s TxnStoreOps \<Rightarrow> ('a \<Rightarrow> u64 \<times> 'a) \<Rightarrow> u64 \<Rightarrow> ('s, 'a) TxnManager \<Rightarrow> (go_error option \<times> ('s, 'a) TxnManager) res" where
  "Txn_Commit so al = Txn_end so al OpCommit"

definition Txn_Rollback :: "'s TxnStoreOps \<Rightarrow> ('a \<Rightarrow> u64 \<times> 'a) \<Rightarrow> u64 \<Rightarrow> ('s, 'a) TxnManager \<Rightarrow> (go_error option \<times> ('s, 'a) TxnManager) res" where
  "Txn_Rollback so al = Txn_end so al OpRollback"

section \<open>The engine\<close>

definition tae_GetTxn :: "u64 \<Rightarrow> ('s, 'a) TxnManager \<Rightarrow> 's Txn res" where
  "tae_GetTxn ctx m = (case Mgr_GetTxn ctx m of None \<Rightarrow> Err ErrTxnNotFound | Some t \<Rightarrow> Ok t)"

definition tae_StartTxn :: "'s TxnStoreOps \<Rightarrow> ('a \<Rightarrow> u64 \<times> 'a) \<Rightarrow> ('s, 'a) TxnManager \<Rightarrow> u64 \<times> ('s, 'a) TxnManager" where
  "tae_StartTxn so al m = StartTxn so al [] m"

definition tae_CommitTxn :: "'s TxnStoreOps \<Rightarrow> ('a \<Rightarrow> u64 \<times> 'a) \<Rightarrow> u64 \<Rightarrow> ('s, 'a) TxnManager \<Rightarrow> (go_error option \<times> ('s, 'a) TxnManager) res" where
  "tae_CommitTxn so al ctx m =
     (case tae_GetTxn ctx m of
        Err e \<Rightarrow> Ok (Some e, m)
      | Panic \<Rightarrow> Panic
      | Ok t \<Rightarrow> Txn_Commit so al (txn_ID (tx_Ctx t)) m)"

definition tae_RollbackTxn :: "'s TxnStoreOps \<Rightarrow> ('a \<Rightarrow> u64 \<times> 'a) \<Rightarrow> u64 \<Rightarrow> ('s, 'a) TxnManager \<Rightarrow> (go_error option \<times> ('s, 'a) TxnManager) res" where
  "tae_RollbackTxn so al ctx m =
     (case tae_GetTxn ctx m of
        Err e \<Rightarrow> Ok (Some e, m)
      | Panic \<Rightarrow> Panic
      | Ok t \<Rightarrow> Txn_Rollback so al (txn_ID (tx_Ctx t)) m)"

section \<open>A call is a run of the manager\<close>

lemma Txn_end_run:
  fixes m :: "('s, 'a) TxnManager"
  assumes al: "id_source al cur" and inv: "tm_inv cur m" and ts: "unat (cur (TsAlloc m)) < 2 ^ 64 - 2"
    and t: "tm_txns m i = Some t" "tx_Asked t = None"
    and so: "\<And>c s. fst (so_ApplyCommit so c s) \<in> {None, Some TxnRollbacked}" "\<And>c s. fst (so_ApplyRollback so c s) = None" "\<And>s. fst (so_Close so s) = None"
  shows "\<exists>m' t'. Txn_end so al opt i m = Ok (tx_Err t', m') \<and> (txn_step so al cur)\<^sup>*\<^sup>* m m' \<and> i \<notin> Active m' \<and> tm_txns m' i = Some t'
    \<and> received m' = received m \<and> checkpoint m' = checkpoint m \<and> tx_Asked t' = Some opt \<and> unat (CommitTS (tx_Ctx t')) = Suc (unat (cur (TsAlloc m)))"
proof -
  define q where "q = \<lparr>op_Txn = i, op_Op = opt\<rparr>"
  define m1 where "m1 = OnOpTxn q m"
  have s1: "txn_step so al cur m m1" unfolding m1_def by (rule txn_step.ask) (use t in \<open>simp_all add: q_def\<close>)
  have inv1: "tm_inv cur m1" using txn_step_inv [OF s1 al inv] .
  have m1: "tm_txns m1 i = Some (t\<lparr>tx_Wait := tx_Wait t + 1, tx_Asked := Some opt\<rparr>)" "received m1 = received m @ [q]" "TsAlloc m1 = TsAlloc m"
      "m1\<lparr>received := received m\<rparr> = (OnOpTxn q m)\<lparr>received := received m\<rparr>"
    using t by (simp_all add: m1_def OnOpTxn_def q_def)
  obtain ts' ta where a: "al (TsAlloc m) = (ts', ta)" by force
  note n = alloc_next [OF al a ts]
  have ph: "phase_received opt (t\<lparr>tx_Wait := tx_Wait t + 1, tx_Asked := Some opt\<rparr>)" "txn_ok (unat (cur (TsAlloc m))) (t\<lparr>tx_Wait := tx_Wait t + 1, tx_Asked := Some opt\<rparr>)"
    using inv1 m1 by (auto simp: tm_inv_def q_def)
  obtain opt' t2 where p: "prepare_txn so opt ts' (t\<lparr>tx_Wait := tx_Wait t + 1, tx_Asked := Some opt\<rparr>) = Ok (opt', t2)" "phase_prepared opt' t2"
      "tx_Asked t2 = Some opt" "CommitTS (tx_Ctx t2) = ts'"
    using prepare_txn_ok [OF ph, of ts' so] n by auto
  define m2 where "m2 = m1\<lparr>received := received m, TsAlloc := ta, tm_txns := (tm_txns m1)(i \<mapsto> t2), checkpoint := checkpoint m1 @ [q\<lparr>op_Op := opt'\<rparr>]\<rparr>"
  have e2: "onPreparing so al q (m1\<lparr>received := received m\<rparr>) = Ok m2"
    using m1(1-3) a p(1) by (simp add: onPreparing_def q_def m2_def)
  have s2: "txn_step so al cur m1 m2"
    by (rule txn_step.prepare [where xs = "received m" and ys = "[]" and opx = q]) (use ts m1 e2 in simp_all)
  obtain t3 where t3: "commit_txn so opt' t2 = Ok t3" using commit_txn_no_panic [OF p(2) so] by blast
  define m3 where "m3 = m2\<lparr>checkpoint := checkpoint m1, tm_txns := (tm_txns m2)(i \<mapsto> t3)\<rparr>"
  have e3: "onCommit so (q\<lparr>op_Op := opt'\<rparr>) (m2\<lparr>checkpoint := checkpoint m1\<rparr>) = Ok m3"
    using t3 by (simp add: onCommit_def q_def m2_def m3_def)
  have s3: "txn_step so al cur m2 m3"
    by (rule txn_step.commit [where xs = "checkpoint m1" and ys = "[]" and opx = "q\<lparr>op_Op := opt'\<rparr>"]) (use e3 in \<open>simp_all add: m2_def\<close>)
  note c = commit_txn_ok [OF p(2) t3]
  have qs: "received m3 = received m" "checkpoint m3 = checkpoint m" using t by (simp_all add: m3_def m2_def m1_def OnOpTxn_def q_def)
  have i3: "tm_txns m3 i = Some t3" by (simp add: m3_def)
  have s4: "txn_step so al cur m3 (DeleteTxn i m3)" by (rule txn_step.finish [OF i3]) (use c p(3) in \<open>auto simp: phase_out_def\<close>)
  have "Txn_end so al opt i m = Ok (tx_Err t3, DeleteTxn i m3)"
    using e2 e3 i3 m1(4) by (simp add: Txn_end_def Let_def q_def [symmetric] m2_def)
  moreover have "(txn_step so al cur)\<^sup>*\<^sup>* m (DeleteTxn i m3)" using s1 s2 s3 s4 by (auto intro: rtranclp.rtrancl_into_rtrancl)
  ultimately show ?thesis using c p(3,4) n i3 qs by (intro exI [of _ "DeleteTxn i m3"] exI [of _ t3]) (simp add: DeleteTxn_def)
qed

lemma ended:
  assumes "tm_inv cur m" and "tm_txns m i = Some t" and "tx_Asked t = Some opt" and "i \<notin> op_Txn ` set (received m @ checkpoint m)"
  shows "(opt = OpCommit \<and> State (tx_Ctx t) = TxnStateCommitted \<and> tx_Err t = None) \<or> State (tx_Ctx t) = TxnStateRollbacked"
  using assms unfolding tm_inv_def phase_out_def by fastforce

lemma idle_not_queued: "tm_inv cur m \<Longrightarrow> tm_txns m i = Some t \<Longrightarrow> tx_Asked t = None \<Longrightarrow> i \<notin> op_Txn ` set (received m @ checkpoint m)"
  unfolding tm_inv_def phase_received_def phase_prepared_def by fastforce

text \<open>The answer of a call: the error of the transaction, its final state, a timestamp above all earlier ones, and no such transaction from then on.\<close>

definition call_ends :: "'s TxnStoreOps \<Rightarrow> ('a \<Rightarrow> u64 \<times> 'a) \<Rightarrow> u64 \<Rightarrow> ('s, 'a) TxnManager \<Rightarrow> 's Txn \<Rightarrow> ('s, 'a) TxnManager \<Rightarrow> bool" where
  "call_ends so al i m t' m' \<longleftrightarrow>
     tm_txns m' i = Some t' \<and> (\<forall>j u. tm_txns m j = Some u \<longrightarrow> (\<forall>s \<in> stamps u. s < CommitTS (tx_Ctx t')))
     \<and> tae_CommitTxn so al i m' = Ok (Some ErrTxnNotFound, m') \<and> tae_RollbackTxn so al i m' = Ok (Some ErrTxnNotFound, m')"

lemma Txn_end_ends:
  assumes al: "id_source al cur" and inv: "tm_inv cur m" and ts: "unat (cur (TsAlloc m)) < 2 ^ 64 - 2"
    and t: "tm_txns m i = Some t" "tx_Asked t = None"
    and so: "\<And>c s. fst (so_ApplyCommit so c s) \<in> {None, Some TxnRollbacked}" "\<And>c s. fst (so_ApplyRollback so c s) = None" "\<And>s. fst (so_Close so s) = None"
  shows "\<exists>m' t'. Txn_end so al opt i m = Ok (tx_Err t', m') \<and> (txn_step so al cur)\<^sup>*\<^sup>* m m' \<and> call_ends so al i m t' m'
    \<and> ((opt = OpCommit \<and> State (tx_Ctx t') = TxnStateCommitted \<and> tx_Err t' = None) \<or> State (tx_Ctx t') = TxnStateRollbacked)"
proof -
  obtain m' t' where r: "Txn_end so al opt i m = Ok (tx_Err t', m')" "(txn_step so al cur)\<^sup>*\<^sup>* m m'" "i \<notin> Active m'" "tm_txns m' i = Some t'"
      "received m' = received m" "checkpoint m' = checkpoint m" "tx_Asked t' = Some opt" "unat (CommitTS (tx_Ctx t')) = Suc (unat (cur (TsAlloc m)))"
    using Txn_end_run [OF assms] by blast
  have "s < CommitTS (tx_Ctx t')" if "tm_txns m j = Some u" "s \<in> stamps u" for j u s
    using inv that stamps_le r(8) by (fastforce simp: tm_inv_def word_less_nat_alt)
  moreover have "(opt = OpCommit \<and> State (tx_Ctx t') = TxnStateCommitted \<and> tx_Err t' = None) \<or> State (tx_Ctx t') = TxnStateRollbacked"
    using ended [OF txn_run_inv [OF r(2) al inv] r(4,7)] idle_not_queued [OF inv t] r(5,6) by simp
  ultimately show ?thesis using r
    by (intro exI [of _ m'] exI [of _ t']) (simp add: call_ends_def tae_CommitTxn_def tae_RollbackTxn_def tae_GetTxn_def Mgr_GetTxn_def)
qed



end
