(* ===== verification/Engine.thy ===== *)
theory Engine
  imports Publish Session
begin

text \<open>
  The manager and the store together: the phases of a store that \<^verbatim>\<open>pkg/txn/txnbase/txnmgr.go\<close> calls on behalf of a
  transaction are those of \<^verbatim>\<open>pkg/txn/txnimpl/store.go\<close>.  The remaining phases of the store, the last one of a rollback and
  \<open>Close\<close>, are modelled here.
\<close>

section \<open>The last phase of a rollback, and closing\<close>

definition Base_ApplyRollback :: "BaseEntry \<Rightarrow> BaseEntry" where
  "Base_ApplyRollback be = be"

definition Table_ApplyRollback :: "u64 \<Rightarrow> (('ty, 'a, 'vec, 'b, 'v, 'd) world, unit) act" where
  "Table_ApplyRollback i w =
     (case ts_tables (w_store w) i of
        None \<Rightarrow> (Panic, w)
      | Some tbl \<Rightarrow> (Ok (), if tt_createEntry tbl \<or> tt_dropEntry tbl then w_cat_update (base_upd Base_ApplyRollback (PTbl (tt_db tbl) i)) w else w))"

definition Store_ApplyRollback :: "u64 list \<Rightarrow> (('ty, 'a, 'vec, 'b, 'v, 'd) world, unit) act" where
  "Store_ApplyRollback is =
     act_bind (\<lambda>w. (Ok (), w\<lparr>w_cat := fold (base_upd Base_ApplyRollback)
        (opt_path (case ts_createEntry (w_store w) of None \<Rightarrow> ts_dropEntry (w_store w) | Some i \<Rightarrow> Some i)) (w_cat w)\<rparr>)) (\<lambda>_.
       for_each Table_ApplyRollback is)"

text \<open>
  A closed node is not written to the log any more; \<open>nc\<close> is what closing the node in the buffer manager answers.  The first error ends
  the loop and leaves the table as it is, except for the closed nodes.
\<close>

fun close_nodes :: "(('vec, 'b) insertNode \<Rightarrow> go_error option) \<Rightarrow> ('vec, 'b) insertNode list \<Rightarrow> go_error option \<times> ('vec, 'b) insertNode list" where
  "close_nodes nc [] = (None, [])"
| "close_nodes nc (n # ns) =
     (let n' = ToTransient n
      in case nc n' of
           Some e \<Rightarrow> (Some e, n' # ns)
         | None \<Rightarrow> (case close_nodes nc ns of (e, ns') \<Rightarrow> (e, n' # ns')))"

definition Table_Close :: "(('vec, 'b) insertNode \<Rightarrow> go_error option) \<Rightarrow> ('vec, 'b, 'v, 'ty) tableTxn \<Rightarrow> go_error option \<times> ('vec, 'b, 'v, 'ty) tableTxn" where
  "Table_Close nc tbl =
     (case close_nodes nc (tt_inodes tbl) of
        (Some e, ns) \<Rightarrow> (Some e, tbl\<lparr>tt_inodes := ns\<rparr>)
      | (None, _) \<Rightarrow> (None, tbl\<lparr>tt_inodes := [], tt_appendable := None, tt_index := NewSimpleTableIndex, tt_csegs := [], tt_cblks := [],
                               tt_updateNodes := [], tt_logs := []\<rparr>))"

fun close_tables :: "(('vec, 'b) insertNode \<Rightarrow> go_error option) \<Rightarrow> ('vec, 'b, 'v, 'ty) tableTxn list \<Rightarrow> go_error option" where
  "close_tables nc [] = None"
| "close_tables nc (t # ts) = (case Table_Close nc t of (Some e, _) \<Rightarrow> Some e | (None, _) \<Rightarrow> close_tables nc ts)"

text \<open>The fields of the store become nil: maps and lists are empty, and the command manager has no driver and no commands.\<close>

definition Store_Close :: "(('vec, 'b) insertNode \<Rightarrow> go_error option) \<Rightarrow> u64 list \<Rightarrow> ('ty, 'a, 'vec, 'b, 'v, 'd) world \<Rightarrow> go_error option \<times> ('ty, 'a, 'vec, 'b, 'v, 'd) world" where
  "Store_Close nc is w =
     (close_tables nc (map (\<lambda>i. the (ts_tables (w_store w) i)) is),
      w\<lparr>w_store := (w_store w)\<lparr>ts_tables := Map.empty, ts_createEntry := None, ts_database := None, ts_dropEntry := None,
                               ts_cmdMgr := newCommandManager False, ts_logs := [], ts_warChecker := None\<rparr>\<rparr>)"

lemma close_nodes_all: "\<forall>n \<in> set ns. nc (ToTransient n) = None \<Longrightarrow> close_nodes nc ns = (None, map ToTransient ns)"
  by (induction ns) simp_all

lemma close_tables_all: "\<forall>n. nc n = None \<Longrightarrow> close_tables nc ts = None"
  by (induction ts) (simp_all add: Table_Close_def close_nodes_all)

section \<open>A store with phases under a manager\<close>

text \<open>
  What the manager relies on: a phase of the store answers nil when it succeeds and its error when it fails.  A phase that panics ends the
  program, so nothing is said about it.
\<close>

locale phased_store =
  fixes so :: "'s TxnStoreOps" and pre prep app undo :: "TxnCtx \<Rightarrow> ('s, unit) act"
  assumes pre_ok: "pre c s = (Ok (), s') \<Longrightarrow> so_PreCommit so c s = (None, s')"
    and prep_ok: "prep c s = (Ok (), s') \<Longrightarrow> so_PrepareCommit so c s = (None, s')"
    and prep_err: "prep c s = (Err e, s') \<Longrightarrow> so_PrepareCommit so c s = (Some e, s')"
    and app_ok: "app c s = (Ok (), s') \<Longrightarrow> so_ApplyCommit so c s = (None, s')"
    and undo_ok: "undo c s = (Ok (), s') \<Longrightarrow> so_PrepareRollback so c s = (None, s')"
    and rolled_back: "fst (so_ApplyRollback so c s) = None"
begin

abbreviation committing :: "u64 \<Rightarrow> TxnCtx \<Rightarrow> TxnCtx" where
  "committing ts c \<equiv> c\<lparr>CommitTS := ts, State := TxnStateCommitting\<rparr>"

lemma commit_call:
  assumes "tm_txns m i = Some t" and "al (TsAlloc m) = (ts, ta)" and "StartTS (tx_Ctx t) < ts" and "CommitTS (tx_Ctx t) = UncommitTS"
    and "tx_PrepareCommitFn t = None" and "pre (tx_Ctx t) (tx_Store t) = (Ok (), s0)"
    and "prep (committing ts (tx_Ctx t)) s0 = (Ok (), s1)" and "app (committing ts (tx_Ctx t)) s1 = (Ok (), s2)" and "so_Close so s2 = (None, s3)"
  shows "\<exists>m' t'. Txn_end so al OpCommit i m = Ok (None, m') \<and> tm_txns m' i = Some t' \<and> i \<notin> Active m'
    \<and> tx_Ctx t' = (tx_Ctx t)\<lparr>CommitTS := ts, State := TxnStateCommitted\<rparr> \<and> tx_Store t' = s3
    \<and> (\<forall>j. j \<noteq> i \<longrightarrow> tm_txns m' j = tm_txns m j)"
  using assms pre_ok [OF assms(6)] prep_ok [OF assms(7)] app_ok [OF assms(8)]
  by (simp add: Txn_end_def Let_def onPreparing_def OnOpTxn_def prepare_txn_def onPreCommit_def Txn_PreCommit_def
      ToCommittingLocked_def onPreparCommit_def Txn_PrepareCommit_def onCommit_def commit_txn_def Txn_ApplyCommit_def Txn_close_def
      Txn_Done_def ToCommittedLocked_def DeleteTxn_def not_le)

lemma conflict_call:
  assumes "tm_txns m i = Some t" and "al (TsAlloc m) = (ts, ta)" and "StartTS (tx_Ctx t) < ts" and "CommitTS (tx_Ctx t) = UncommitTS"
    and "tx_PrepareCommitFn t = None" and "pre (tx_Ctx t) (tx_Store t) = (Ok (), s0)"
    and "prep (committing ts (tx_Ctx t)) s0 = (Err e, s1)" and "undo ((tx_Ctx t)\<lparr>CommitTS := ts, State := TxnStateRollbacking\<rparr>) s1 = (Ok (), s2)"
    and "\<And>s. fst (so_Close so s) = None"
  shows "\<exists>m' t'. Txn_end so al OpCommit i m = Ok (None, m') \<and> tm_txns m' i = Some t' \<and> i \<notin> Active m'
    \<and> tx_Ctx t' = (tx_Ctx t)\<lparr>CommitTS := ts, State := TxnStateRollbacked\<rparr>
    \<and> (\<forall>j. j \<noteq> i \<longrightarrow> tm_txns m' j = tm_txns m j)"
proof -
  obtain s3 where s3: "so_ApplyRollback so ((tx_Ctx t)\<lparr>CommitTS := ts, State := TxnStateRollbacking\<rparr>) s2 = (None, s3)"
    using rolled_back by (metis prod.collapse)
  obtain s4 where s4: "so_Close so s3 = (None, s4)" using assms(9) by (metis prod.collapse)
  show ?thesis
    using assms pre_ok [OF assms(6)] prep_err [OF assms(7)] undo_ok [OF assms(8)] s3 s4
    by (simp add: Txn_end_def Let_def onPreparing_def OnOpTxn_def prepare_txn_def onPreCommit_def Txn_PreCommit_def
      ToCommittingLocked_def ToRollbackingLocked_def onPreparCommit_def Txn_PrepareCommit_def onPreparRollback_def Txn_PrepareRollback_def
      onCommit_def commit_txn_def Txn_ApplyRollback_def Txn_close_def Txn_Done_def ToRollbackedLocked_def DeleteTxn_def not_le)
qed

end

section \<open>The store of the engine\<close>

text \<open>
  The contexts that the catalog sees: the transaction's own one and those of the others.  \<open>tabs\<close> gives the tables of a store in the order of
  the iteration over the map.
\<close>

definition with_ctx :: "txn_env \<Rightarrow> TxnCtx \<Rightarrow> txn_env" where
  "with_ctx env c = env(txn_ID c := c)"

definition reported :: "unit res \<times> 'w \<Rightarrow> go_error option \<times> 'w" where
  "reported r = (case r of (Err e, w) \<Rightarrow> (Some e, w) | (_, w) \<Rightarrow> (None, w))"

record ('ty, 'a, 'vec, 'b, 'v, 'n, 'd) engine =
  en_fuel :: nat
  en_cols :: "('vec, 'v, 'n) col_ops"
  en_alloc :: "'a \<Rightarrow> u64 \<times> 'a"
  en_log :: "('v, 'b, 'n, 'ty, 'vec list, 'vec) log_ops"
  en_driver :: "'d driver"
  en_env :: txn_env
  en_later :: "u64 \<Rightarrow> TxnStates"
  en_order :: "bytes list \<Rightarrow> bytes list"
  en_tabs :: "('vec, 'b, 'v, 'ty) txnStore \<Rightarrow> u64 list"
  en_close :: "('vec, 'b) insertNode \<Rightarrow> go_error option"

definition engine_pre :: "('ty, 'a, 'vec, 'b, 'v, 'n, 'd) engine \<Rightarrow> TxnCtx \<Rightarrow> (('ty, 'a, 'vec, 'b, 'v, 'd) world, unit) act" where
  "engine_pre E c w =
     (case Store_PreCommit (en_fuel E) (en_cols E) (en_alloc E) (with_ctx (en_env E) c) (en_tabs E (w_store w)) w of None \<Rightarrow> (Panic, w) | Some r \<Rightarrow> r)"

definition engine_prepare :: "('ty, 'a, 'vec, 'b, 'v, 'n, 'd) engine \<Rightarrow> TxnCtx \<Rightarrow> (('ty, 'a, 'vec, 'b, 'v, 'd) world, unit) act" where
  "engine_prepare E c w =
     Store_PrepareCommit (en_log E) (en_driver E) (with_ctx (en_env E) c) (en_later E) (en_order E) (en_tabs E (w_store w)) (en_tabs E (w_store w)) w"

definition engine_apply :: "('ty, 'a, 'vec, 'b, 'v, 'n, 'd) engine \<Rightarrow> (('ty, 'a, 'vec, 'b, 'v, 'd) world, unit) act" where
  "engine_apply E w = Store_ApplyCommit (en_tabs E (w_store w)) w"

definition engine_undo :: "('ty, 'a, 'vec, 'b, 'v, 'n, 'd) engine \<Rightarrow> (('ty, 'a, 'vec, 'b, 'v, 'd) world, unit) act" where
  "engine_undo E w = Store_PrepareRollback (en_tabs E (w_store w)) w"

definition txnimpl_ops :: "('ty, 'a, 'vec, 'b, 'v, 'n, 'd) engine \<Rightarrow> ('ty, 'a, 'vec, 'b, 'v, 'd) world \<Rightarrow> ('ty, 'a, 'vec, 'b, 'v, 'd) world TxnStoreOps" where
  "txnimpl_ops E w0 =
     \<lparr>so_new = w0, so_BindTxn = (\<lambda>c w. w\<lparr>w_store := (w_store w)\<lparr>ts_txn := txn_ID c\<rparr>\<rparr>),
      so_PreCommit = (\<lambda>c w. reported (engine_pre E c w)), so_PrepareCommit = (\<lambda>c w. reported (engine_prepare E c w)),
      so_PrepareRollback = (\<lambda>c w. reported (engine_undo E w)), so_ApplyCommit = (\<lambda>c w. reported (engine_apply E w)),
      so_ApplyRollback = (\<lambda>c w. reported (Store_ApplyRollback (en_tabs E (w_store w)) w)), so_Close = (\<lambda>w. Store_Close (en_close E) (en_tabs E (w_store w)) w)\<rparr>"

lemma for_each_ApplyRollback: "fst (for_each Table_ApplyRollback is w) \<noteq> Err e"
  by (induction "is" arbitrary: w) (auto simp: act_bind_def Table_ApplyRollback_def split: option.splits)

lemma ApplyRollback_reports: "fst (reported (Store_ApplyRollback is w)) = None"
proof -
  obtain w' where "Store_ApplyRollback is w = for_each Table_ApplyRollback is w'" by (auto simp: Store_ApplyRollback_def act_bind_def)
  then show ?thesis using for_each_ApplyRollback [of "is" w']
    by (cases "for_each Table_ApplyRollback is w'") (auto simp: reported_def split: res.splits)
qed

interpretation impl: phased_store "txnimpl_ops E w0" "engine_pre E" "engine_prepare E" "\<lambda>_. engine_apply E" "\<lambda>_. engine_undo E" for E w0
  by unfold_locales (simp_all add: txnimpl_ops_def reported_def ApplyRollback_reports [unfolded reported_def])

text \<open>The order of iteration is one of the tables of the store.\<close>

definition tabs_ok :: "('ty, 'a, 'vec, 'b, 'v, 'n, 'd) engine \<Rightarrow> bool" where
  "tabs_ok E \<longleftrightarrow> (\<forall>s. finite (dom (ts_tables s)) \<longrightarrow> distinct (en_tabs E s) \<and> set (en_tabs E s) = dom (ts_tables s))"

lemma prepare_keeps_tables:
  assumes "tables_there w is" and "Store_PrepareCommit L D env later order is js w = (Ok (), w1)"
  shows "dom (ts_tables (w_store w1)) = dom (ts_tables (w_store w))"
proof -
  obtain c where "same_meta (w\<lparr>w_cat := c\<rparr>) w1" using Store_PrepareCommit_cases [OF assms(1), of L D env later order js] assms(2) by auto
  then have "map_option tbl_meta (ts_tables (w_store w1) i) = map_option tbl_meta (ts_tables (w_store w) i)" for i unfolding same_meta_def by simp
  then have "(ts_tables (w_store w1) i = None) = (ts_tables (w_store w) i = None)" for i by (metis map_option_is_None)
  then show ?thesis by (auto simp: dom_def)
qed

lemma created_stamp: "created_by t b \<Longrightarrow> CreateAt (ApplyCommit (PrepareCommit env b)) = CommitTS (env t)"
  by (auto simp: created_by_def ApplyCommit_def PrepareCommit_def Let_def)

lemma Store_Close_cat: "\<forall>n. nc n = None \<Longrightarrow> \<exists>s. Store_Close nc is w = (None, w\<lparr>w_store := s\<rparr>)"
  unfolding Store_Close_def using close_tables_all [of nc] by blast

text \<open>
  A transaction that is about to be committed: it is active in the manager, whose next timestamp is \<open>ts\<close>, and its rows have been moved
  into blocks, with \<open>w\<close> as result.
\<close>

definition commit_ready ::
  "('ty, 'a, 'vec, 'b, 'v, 'n, 'd) engine \<Rightarrow> ('x \<Rightarrow> u64 \<times> 'x) \<Rightarrow> (('ty, 'a, 'vec, 'b, 'v, 'd) world, 'x) TxnManager
     \<Rightarrow> u64 \<Rightarrow> ('ty, 'a, 'vec, 'b, 'v, 'd) world Txn \<Rightarrow> u64 \<Rightarrow> ('ty, 'a, 'vec, 'b, 'v, 'd) world \<Rightarrow> bool" where
  "commit_ready E al m i t ts w \<longleftrightarrow>
     i \<in> Active m \<and> tm_txns m i = Some t \<and> txn_ID (tx_Ctx t) = i \<and> fst (al (TsAlloc m)) = ts \<and> StartTS (tx_Ctx t) < ts
     \<and> CommitTS (tx_Ctx t) = UncommitTS \<and> tx_PrepareCommitFn t = None
     \<and> engine_pre E (tx_Ctx t) (tx_Store t) = (Ok (), w) \<and> finite (dom (ts_tables (w_store w))) \<and> tables_there w (en_tabs E (w_store w))"

abbreviation stamped :: "u64 \<Rightarrow> 's Txn \<Rightarrow> TxnCtx" where
  "stamped ts t \<equiv> (tx_Ctx t)\<lparr>CommitTS := ts, State := TxnStateCommitting\<rparr>"

lemma commit_ready_call: "commit_ready E al m i t ts w \<Longrightarrow> tae_CommitTxn so al i m = Txn_end so al OpCommit i m"
  by (simp add: commit_ready_def tae_CommitTxn_def tae_GetTxn_def Mgr_GetTxn_def Txn_Commit_def)

lemma commit_ready_tabs:
  "tabs_ok E \<Longrightarrow> commit_ready E al m i t ts w \<Longrightarrow> distinct (en_tabs E (w_store w)) \<and> set (en_tabs E (w_store w)) = dom (ts_tables (w_store w))"
  by (simp add: tabs_ok_def commit_ready_def)

lemma engine_passes:
  fixes E :: "('ty, 'a, 'vec, 'b, 'v, 'n, 'd) engine" and m :: "(('ty, 'a, 'vec, 'b, 'v, 'd) world, 'x) TxnManager"
  assumes "tabs_ok E" and "\<forall>n. en_close E n = None" and ready: "commit_ready E al m i t ts w" and prep: "engine_prepare E (stamped ts t) w = (Ok (), w1)"
  shows "\<exists>m' t'. tae_CommitTxn (txnimpl_ops E w0) al i m = Ok (None, m') \<and> tm_txns m' i = Some t'
    \<and> tx_Ctx t' = (tx_Ctx t)\<lparr>CommitTS := ts, State := TxnStateCommitted\<rparr> \<and> (\<forall>j. j \<noteq> i \<longrightarrow> tm_txns m' j = tm_txns m j)
    \<and> (\<forall>p. p \<notin> prepared w (en_tabs E (w_store w)) \<longrightarrow> base_at p (w_cat (tx_Store t')) = base_at p (w_cat w))
    \<and> (\<forall>p b. p \<in> live_paths (with_ctx (en_env E) (stamped ts t)) w (en_tabs E (w_store w)) \<and> base_at p (w_cat w) = Some b \<longrightarrow>
         base_at p (w_cat (tx_Store t')) = Some (ApplyCommit (PrepareCommit (with_ctx (en_env E) (stamped ts t)) b)))"
proof -
  let ?is = "en_tabs E (w_store w)" and ?so = "txnimpl_ops E w0"
  note tabs = commit_ready_tabs [OF assms(1) ready, THEN conjunct1] commit_ready_tabs [OF assms(1) ready, THEN conjunct2]
  obtain ta where r: "tm_txns m i = Some t" "al (TsAlloc m) = (ts, ta)" "StartTS (tx_Ctx t) < ts" "CommitTS (tx_Ctx t) = UncommitTS"
      "tx_PrepareCommitFn t = None" "engine_pre E (tx_Ctx t) (tx_Store t) = (Ok (), w)" "finite (dom (ts_tables (w_store w)))" "tables_there w ?is"
    using ready by (cases "al (TsAlloc m)") (auto simp: commit_ready_def)
  have p: "Store_PrepareCommit (en_log E) (en_driver E) (with_ctx (en_env E) (stamped ts t)) (en_later E) (en_order E) ?is ?is w = (Ok (), w1)"
    using prep by (simp add: engine_prepare_def)
  have tabs': "distinct (en_tabs E (w_store w1))" "set (en_tabs E (w_store w1)) = set ?is"
    using assms(1) r(7) tabs(2) prepare_keeps_tables [OF r(8) p] by (auto simp: tabs_ok_def)
  from commit_cases [where env = "with_ctx (en_env E) (stamped ts t)", OF r(8) tabs(2) tabs', of "en_log E" "en_driver E" "en_later E" "en_order E" ?is] obtain w2 where
    w2: "Store_ApplyCommit (en_tabs E (w_store w1)) w1 = (Ok (), w2)" "\<forall>p. p \<notin> prepared w ?is \<longrightarrow> base_at p (w_cat w2) = base_at p (w_cat w)"
      "\<forall>p b. p \<in> live_paths (with_ctx (en_env E) (stamped ts t)) w ?is \<and> base_at p (w_cat w) = Some b \<longrightarrow>
         base_at p (w_cat w2) = Some (ApplyCommit (PrepareCommit (with_ctx (en_env E) (stamped ts t)) b))"
    unfolding p by auto
  obtain s where "so_Close ?so w2 = (None, w2\<lparr>w_store := s\<rparr>)" using Store_Close_cat [OF assms(2)] by (fastforce simp: txnimpl_ops_def)
  moreover have "engine_apply E w1 = (Ok (), w2)" using w2(1) by (simp add: engine_apply_def)
  ultimately obtain m' t' where mt: "Txn_end ?so al OpCommit i m = Ok (None, m')" "tm_txns m' i = Some t'" "tx_Ctx t' = (tx_Ctx t)\<lparr>CommitTS := ts, State := TxnStateCommitted\<rparr>"
      "tx_Store t' = w2\<lparr>w_store := s\<rparr>" "\<forall>j. j \<noteq> i \<longrightarrow> tm_txns m' j = tm_txns m j"
    using impl.commit_call [where m = m and al = al and E = E and t = t, OF r(1-6) prep] by blast
  then show ?thesis unfolding commit_ready_call [OF ready]
    using w2(2,3) by (intro exI [of _ m'] exI [of _ t']) (simp del: base_at.simps)
qed

lemma engine_refuses:
  assumes "tabs_ok E" and "\<forall>n. en_close E n = None" and ready: "commit_ready E al m i t ts w" and prep: "engine_prepare E (stamped ts t) w = (Err e, w1)"
  shows "w1 = w" and "engine_undo E w = (Ok (), w2) \<Longrightarrow>
    \<exists>m' t'. tae_CommitTxn (txnimpl_ops E w0) al i m = Ok (None, m') \<and> tm_txns m' i = Some t' \<and> State (tx_Ctx t') = TxnStateRollbacked"
proof -
  note tabs = commit_ready_tabs [OF assms(1) ready, THEN conjunct1] commit_ready_tabs [OF assms(1) ready, THEN conjunct2]
  obtain ta where r: "tm_txns m i = Some t" "al (TsAlloc m) = (ts, ta)" "StartTS (tx_Ctx t) < ts" "CommitTS (tx_Ctx t) = UncommitTS"
      "tx_PrepareCommitFn t = None" "engine_pre E (tx_Ctx t) (tx_Store t) = (Ok (), w)" "tables_there w (en_tabs E (w_store w))"
    using ready by (cases "al (TsAlloc m)") (auto simp: commit_ready_def)
  show w1: "w1 = w"
    using commit_cases [where env = "with_ctx (en_env E) (stamped ts t)", OF r(7) tabs(2) tabs(1) refl, of "en_log E" "en_driver E" "en_later E" "en_order E"
        "en_tabs E (w_store w)"] prep by (simp add: engine_prepare_def)
  have cl: "fst (so_Close (txnimpl_ops E w0) s) = None" for s using assms(2) by (simp add: txnimpl_ops_def Store_Close_def close_tables_all)
  assume undo: "engine_undo E w = (Ok (), w2)"
  obtain m' t' where "Txn_end (txnimpl_ops E w0) al OpCommit i m = Ok (None, m')" "tm_txns m' i = Some t'"
      "tx_Ctx t' = (tx_Ctx t)\<lparr>CommitTS := ts, State := TxnStateRollbacked\<rparr>"
    using impl.conflict_call [where m = m and al = al and E = E and t = t and ?w0.0 = w0, OF r(1-6) prep [unfolded w1] undo cl] by blast
  then show "\<exists>m' t'. tae_CommitTxn (txnimpl_ops E w0) al i m = Ok (None, m') \<and> tm_txns m' i = Some t' \<and> State (tx_Ctx t') = TxnStateRollbacked"
    unfolding commit_ready_call [OF ready] by (intro exI [of _ m'] exI [of _ t']) simp
qed


text \<open>The transaction that has created a database and a table, as the only one of a manager.\<close>

definition demo_engine :: "(unit, IdAlloctor, u8, u32 list, u8, unit, bytes list) engine" where
  "demo_engine =
     \<lparr>en_fuel = 0, en_cols = \<lparr>co_New = (\<lambda>_ _. 0), co_AppendVector = (\<lambda>v _ _. Ok (v, 0)), co_Length = (\<lambda>_. 0), co_GetValue = (\<lambda>_ _. Panic),
        co_Window = (\<lambda>_ _ _. \<lparr>Typ_Oid = Fix T_int8, vec_Col = CFix T_int8 [], vec_Np = None\<rparr>), co_Oid = (\<lambda>_. Fix T_int8), co_cap = (\<lambda>_. 0), co_rows = (\<lambda>_. [])\<rparr>,
      en_alloc = Alloc, en_log = demo_log, en_driver = demo_driver, en_env = demo_commit, en_later = (\<lambda>_. TxnStateActive), en_order = id,
      en_tabs = (\<lambda>s. sorted_list_of_set (dom (ts_tables s))), en_close = (\<lambda>_. None)\<rparr>"

definition demo_manager :: "((unit, IdAlloctor, u8, u32 list, u8, bytes list) world, IdAlloctor) TxnManager" where
  "demo_manager = (NewTxnManager \<lparr>alloc_id = 8\<rparr>)\<lparr>tm_txns := [7 \<mapsto> NewTxn demo_world 7 3 []], Active := {7}\<rparr>"

lemma demo_engine_ready: "commit_ready demo_engine Alloc demo_manager 7 (NewTxn demo_world 7 3 []) 9 demo_world"
proof -
  have "dom (ts_tables (w_store demo_world)) = {1}" by (simp add: demo_world_base)
  then have tabs: "en_tabs demo_engine (w_store demo_world) = [1]" by (simp add: demo_engine_def)
  have "tables_there demo_world [1]" using demo_world_base by (simp add: tables_there_def newTxnTable_def del: base_at.simps)
  moreover have "engine_pre demo_engine (NewTxnCtx 7 3 []) demo_world = (Ok (), demo_world)"
    unfolding engine_pre_def tabs by (simp add: Table_PreCommit_def demo_world_base newTxnTable_def)
  ultimately show ?thesis unfolding commit_ready_def tabs
    by (simp add: demo_manager_def NewTxnManager_def NewTxn_def NewTxnCtx_def Alloc_def demo_world_base)
qed


end
