(* ===== verification/Versions.thy ===== *)
theory Versions
  imports Prelude
begin

text \<open>
  The links between the versions of an object (\<^verbatim>\<open>pkg/common/mvcc.go\<close>): every version knows the previous and the next one, pins
  its object when it gets a predecessor and unpins the object of its successor when it becomes stale.
\<close>

section \<open>Versions\<close>

text \<open>
  A version holds pointers to interface values; the outer \<open>None\<close> is the nil pointer, the inner one the nil interface.  A version is
  referred to by its address, and \<open>mv_GetObject\<close> is the object that its callback returns; a callback that is nil is \<open>None\<close> or \<open>False\<close>.
\<close>

record 'o BaseMvcc =
  PrevVer :: "nat option option"
  NextVer :: "nat option option"
  mv_Pin :: bool
  mv_Unpin :: bool
  mv_GetObject :: "'o option"

record 'o versions =
  vs_ver :: "nat \<rightharpoonup> 'o BaseMvcc"
  vs_pins :: "'o \<Rightarrow> int"

definition on_ver :: "nat \<Rightarrow> ('o BaseMvcc \<Rightarrow> 'o versions res) \<Rightarrow> 'o versions \<Rightarrow> 'o versions res" where
  "on_ver a f h = (case vs_ver h a of None \<Rightarrow> Panic | Some v \<Rightarrow> f v)"

definition put_ver :: "nat \<Rightarrow> 'o BaseMvcc \<Rightarrow> 'o versions \<Rightarrow> 'o versions" where
  "put_ver a v h = h\<lparr>vs_ver := (vs_ver h)(a \<mapsto> v)\<rparr>"

definition GetPrevVersion :: "'o BaseMvcc \<Rightarrow> nat option" where
  "GetPrevVersion v = (case PrevVer v of None \<Rightarrow> None | Some x \<Rightarrow> x)"

definition GetNextVersion :: "'o BaseMvcc \<Rightarrow> nat option" where
  "GetNextVersion v = (case NextVer v of None \<Rightarrow> None | Some x \<Rightarrow> x)"

definition SetNextVersion :: "nat \<Rightarrow> nat option \<Rightarrow> 'o versions \<Rightarrow> 'o versions res" where
  "SetNextVersion a nx h = on_ver a (\<lambda>v. Ok (put_ver a (v\<lparr>NextVer := Some nx\<rparr>) h)) h"

text \<open>The object is pinned by a callback, which panics when it is nil.\<close>

definition count_pin :: "'o \<Rightarrow> int \<Rightarrow> 'o versions \<Rightarrow> 'o versions" where
  "count_pin ob k h = h\<lparr>vs_pins := (vs_pins h)(ob := vs_pins h ob + k)\<rparr>"

definition SetPrevVersion :: "nat \<Rightarrow> nat option \<Rightarrow> 'o versions \<Rightarrow> 'o versions res" where
  "SetPrevVersion a pv h =
     on_ver a (\<lambda>v.
       let h1 = put_ver a (v\<lparr>PrevVer := Some pv\<rparr>) h
       in case pv of
            None \<Rightarrow> Ok h1
          | Some p \<Rightarrow>
              (case mv_GetObject v of
                 Some ob \<Rightarrow> if mv_Pin v then SetNextVersion p (Some a) (count_pin ob 1 h1) else Panic
               | None \<Rightarrow> Panic)) h"

definition OnVersionStale :: "nat \<Rightarrow> 'o versions \<Rightarrow> 'o versions res" where
  "OnVersionStale a h =
     on_ver a (\<lambda>v.
       case GetNextVersion v of
         None \<Rightarrow> Ok h
       | Some n \<Rightarrow>
           res_bind (SetPrevVersion n None h) (\<lambda>h1.
             if \<not> mv_Unpin v then Ok h1
             else on_ver n (\<lambda>nv. case mv_GetObject nv of None \<Rightarrow> Panic | Some ob \<Rightarrow> Ok (count_pin ob (- 1) h1)) h1)) h"

section \<open>A version is pinned while there is an older one\<close>

text \<open>
  A line of versions, oldest first: neighbours are linked both ways, the ends have no further neighbour, and the object of a version
  is pinned once if the version has a predecessor, and not at all otherwise.
\<close>

abbreviation obj :: "'o versions \<Rightarrow> nat \<Rightarrow> 'o" where
  "obj h a \<equiv> the (mv_GetObject (the (vs_ver h a)))"

fun chain :: "'o versions \<Rightarrow> nat option \<Rightarrow> nat list \<Rightarrow> bool" where
  "chain h pv [] \<longleftrightarrow> True"
| "chain h pv (a # as) \<longleftrightarrow>
     GetPrevVersion (the (vs_ver h a)) = pv
     \<and> GetNextVersion (the (vs_ver h a)) = (case as of [] \<Rightarrow> None | b # _ \<Rightarrow> Some b)
     \<and> vs_pins h (obj h a) = (if pv = None then 0 else 1)
     \<and> chain h (Some a) as"

text \<open>Every version has its callbacks and an object of its own.\<close>

definition usable :: "'o versions \<Rightarrow> nat list \<Rightarrow> bool" where
  "usable h as \<longleftrightarrow>
     distinct as \<and> inj_on (obj h) (set as)
     \<and> (\<forall>a \<in> set as. \<exists>v ob. vs_ver h a = Some v \<and> mv_GetObject v = Some ob \<and> mv_Pin v \<and> mv_Unpin v)"

definition line :: "nat list \<Rightarrow> 'o versions \<Rightarrow> bool" where
  "line as h \<longleftrightarrow> usable h as \<and> chain h None as"

text \<open>What is not touched stays linked.\<close>

lemma chain_frame:
  "(\<And>a. a \<in> set as \<Longrightarrow> vs_ver h' a = vs_ver h a \<and> vs_pins h' (obj h a) = vs_pins h (obj h a)) \<Longrightarrow> chain h' pv as = chain h pv as"
  by (induction as arbitrary: pv) auto

lemma usable_same:
  assumes "usable h as" and "\<And>a. a \<in> set as \<Longrightarrow> \<exists>p n. vs_ver h' a = map_option (\<lambda>v. v\<lparr>PrevVer := p v, NextVer := n v\<rparr>) (vs_ver h a)"
  shows "usable h' as"
proof -
  have each: "obj h' a = obj h a \<and> (\<exists>v ob. vs_ver h' a = Some v \<and> mv_GetObject v = Some ob \<and> mv_Pin v \<and> mv_Unpin v)" if a: "a \<in> set as" for a
  proof -
    obtain v ob where "vs_ver h a = Some v" "mv_GetObject v = Some ob" "mv_Pin v" "mv_Unpin v" using assms(1) a unfolding usable_def by blast
    moreover obtain p n where "vs_ver h' a = map_option (\<lambda>v. v\<lparr>PrevVer := p v, NextVer := n v\<rparr>) (vs_ver h a)" using assms(2) [OF a] by blast
    ultimately show ?thesis by simp
  qed
  have "inj_on (obj h') (set as) = inj_on (obj h) (set as)" by (rule inj_on_cong) (use each in blast)
  then show ?thesis using assms(1) each unfolding usable_def by blast
qed

text \<open>Linking a new version to the newest one extends the line.\<close>

lemma chain_snoc:
  assumes "chain h pv (as @ [l])" and "\<And>a. a \<in> set as \<Longrightarrow> vs_ver h' a = vs_ver h a \<and> vs_pins h' (obj h a) = vs_pins h (obj h a)"
    and "GetPrevVersion (the (vs_ver h' l)) = GetPrevVersion (the (vs_ver h l))" and "GetNextVersion (the (vs_ver h' l)) = Some b"
    and "vs_pins h' (obj h' l) = vs_pins h (obj h l)" and "chain h' (Some l) [b]"
  shows "chain h' pv (as @ [l, b])"
  using assms(1,2)
proof (induction as arbitrary: pv)
  case Nil
  then show ?case using assms(3-6) by simp
next
  case (Cons a as)
  then have "chain h' (Some a) (as @ [l, b])" by simp
  moreover have "(case as @ [l, b] of [] \<Rightarrow> None | c # _ \<Rightarrow> Some c) = (case as @ [l] of [] \<Rightarrow> None | c # _ \<Rightarrow> Some c)" by (cases as) simp_all
  ultimately show ?case using Cons.prems by simp
qed

lemma SetPrevVersion_line:
  assumes "line (as @ [l]) h" and "chain h None [b]" and "usable h (as @ [l, b])"
  shows "\<exists>h'. SetPrevVersion b (Some l) h = Ok h' \<and> line (as @ [l, b]) h'"
proof -
  obtain v ob u ou where v: "vs_ver h b = Some v" "mv_GetObject v = Some ob" "mv_Pin v" and u: "vs_ver h l = Some u" "mv_GetObject u = Some ou"
    and ne: "l \<noteq> b" "ou \<noteq> ob"
    using assms(3) by (auto simp: usable_def)
  have out: "a \<noteq> l" "a \<noteq> b" "obj h a \<noteq> ob" if "a \<in> set as" for a using assms(3) that v by (auto simp: usable_def)
  define h' where "h' = put_ver l (u\<lparr>NextVer := Some (Some b)\<rparr>) (count_pin ob 1 (put_ver b (v\<lparr>PrevVer := Some (Some l)\<rparr>) h))"
  have "SetPrevVersion b (Some l) h = Ok h'"
    using v u ne by (simp add: SetPrevVersion_def SetNextVersion_def on_ver_def put_ver_def count_pin_def Let_def h'_def)
  moreover have ver: "vs_ver h' a = (if a = b then Some (v\<lparr>PrevVer := Some (Some l)\<rparr>) else if a = l then Some (u\<lparr>NextVer := Some (Some b)\<rparr>) else vs_ver h a)"
    and pins: "vs_pins h' x = (if x = ob then vs_pins h x + 1 else vs_pins h x)" for a x
    using ne by (simp_all add: h'_def put_ver_def count_pin_def)
  have "usable h' (as @ [l, b])"
  proof (rule usable_same [OF assms(3)])
    fix a
    have "vs_ver h' a = map_option (\<lambda>w. w\<lparr>PrevVer := (if a = b then Some (Some l) else PrevVer w), NextVer := (if a = l then Some (Some b) else NextVer w)\<rparr>) (vs_ver h a)"
      using v u ne by (cases "vs_ver h a") (auto simp: ver)
    then show "\<exists>p n. vs_ver h' a = map_option (\<lambda>v. v\<lparr>PrevVer := p v, NextVer := n v\<rparr>) (vs_ver h a)"
      by (intro exI [of _ "\<lambda>w. if a = b then Some (Some l) else PrevVer w"] exI [of _ "\<lambda>w. if a = l then Some (Some b) else NextVer w"])
  qed
  moreover have "chain h' None (as @ [l, b])"
  proof (rule chain_snoc)
    show "chain h None (as @ [l])" using assms(1) by (simp add: line_def)
    show "chain h' (Some l) [b]" using assms(2) v by (simp add: ver pins GetPrevVersion_def GetNextVersion_def)
  qed (use v u ne out in \<open>simp_all add: ver pins GetPrevVersion_def GetNextVersion_def\<close>)
  ultimately show ?thesis by (auto simp: line_def)
qed

text \<open>When the oldest version becomes stale, the next one is the oldest: it has no predecessor and its object is no longer pinned.\<close>

lemma OnVersionStale_line:
  assumes "line (a # b # as) h"
  shows "\<exists>h'. OnVersionStale a h = Ok h' \<and> line (b # as) h'"
proof -
  have us: "usable h (a # b # as)" and ch: "chain h None (a # b # as)" using assms by (simp_all add: line_def)
  obtain u v ob where u: "vs_ver h a = Some u" "mv_Unpin u" "GetNextVersion u = Some b" and v: "vs_ver h b = Some v" "mv_GetObject v = Some ob"
    using us ch by (auto simp: usable_def)
  have out: "c \<noteq> b" "obj h c \<noteq> ob" if "c \<in> set as" for c using us that v by (auto simp: usable_def)
  define h' where "h' = count_pin ob (- 1) (put_ver b (v\<lparr>PrevVer := Some None\<rparr>) h)"
  have "OnVersionStale a h = Ok h'"
    using u v by (simp add: OnVersionStale_def SetPrevVersion_def on_ver_def put_ver_def count_pin_def h'_def)
  moreover have ver: "vs_ver h' c = (if c = b then Some (v\<lparr>PrevVer := Some None\<rparr>) else vs_ver h c)"
    and pins: "vs_pins h' x = (if x = ob then vs_pins h x - 1 else vs_pins h x)" for c x
    by (simp_all add: h'_def put_ver_def count_pin_def)
  have "usable h (b # as)" using us by (auto simp: usable_def)
  then have "usable h' (b # as)"
  proof (rule usable_same)
    fix c
    have "vs_ver h' c = map_option (\<lambda>w. w\<lparr>PrevVer := (if c = b then Some None else PrevVer w), NextVer := NextVer w\<rparr>) (vs_ver h c)"
      using v by (cases "vs_ver h c") (auto simp: ver)
    then show "\<exists>p n. vs_ver h' c = map_option (\<lambda>v. v\<lparr>PrevVer := p v, NextVer := n v\<rparr>) (vs_ver h c)"
      by (intro exI [of _ "\<lambda>w. if c = b then Some None else PrevVer w"] exI [of _ NextVer])
  qed
  moreover have "chain h' (Some b) as = chain h (Some b) as" by (rule chain_frame) (use out in \<open>simp add: ver pins\<close>)
  then have "chain h' None (b # as)" using ch v by (simp add: ver pins GetPrevVersion_def GetNextVersion_def)
  ultimately show ?thesis by (auto simp: line_def)
qed

end
