(* ===== verification/Spec2Isabelle.thy ===== *)
theory Spec2Isabelle
  imports Buffer InsertInfo ColBlock Handles BlockFile Paths Mocks CmdText TableLog Engine Versions
begin

text \<open>
  Verification of the transactional analytic engine (TAE): a storage engine with snapshot-isolated transactions over a catalog of databases,
  tables, segments and blocks, written in Go under \<^verbatim>\<open>src/pkg\<close>.

  \<^bold>\<open>The program.\<close>  A session (\<^verbatim>\<open>taedb\<close>) asks the transaction manager (\<^verbatim>\<open>txn/txnbase\<close>) for a transaction, which gets a start
  timestamp and a store (\<^verbatim>\<open>txn/txnimpl\<close>).  Through the store the transaction creates and drops databases and tables in the shared catalog
  (\<^verbatim>\<open>catalog\<close>), inserts rows into local nodes and deletes or updates rows.  Catalog entries carry the timestamps of their creation and deletion
  and the transaction that is writing them; readers decide from these what they see.  A commit runs through the phases \<open>PreCommit\<close> (local rows go
  into the blocks of \<^verbatim>\<open>tables\<close>), \<open>PrepareCommit\<close> (conflict check, timestamps on the entries, log record) and \<open>ApplyCommit\<close> (release of the
  entries); a rollback takes created entries out again.  Below these are linked lists, identifiers, encodings and a memory pool (\<^verbatim>\<open>common\<close>), a buffer
  manager with eviction (\<^verbatim>\<open>buffer\<close>), updates of blocks (\<^verbatim>\<open>updates\<close>), block files (\<^verbatim>\<open>dataio\<close>) and column blocks (\<^verbatim>\<open>layout\<close>).

  \<^bold>\<open>Conventions.\<close>  Machine integers are words of the width in the source.  A call returns \<open>Ok\<close>, \<open>Err\<close> with an error
  variable, or \<open>Panic\<close> (\<open>Prelude\<close>); \<open>catalog.ErrNotFound\<close> and \<open>txnbase.ErrNotFound\<close> share one constructor.  Structures are records, pointers
  that are shared are addresses in a heap or identifiers of entries, and the state is passed explicitly.  Locks are not modelled: every operation
  is one atomic step, and the interleaving of transactions is that of these steps.  Packages of other repositories (vectors, batches, bitmaps, type
  encodings, the log store, the second buffer manager that \<^verbatim>\<open>txnimpl\<close> and \<^verbatim>\<open>tables\<close> use, the eviction queue) are arguments: records of operations with named laws, each
  instantiated by a concrete function in the witnesses.  The order in which Go iterates over a map is an argument as well.

  \<^bold>\<open>Theories.\<close>
  \<^item> \<open>Prelude\<close>: results, errors, big-endian integers, the contract \<open>codec\<close> of encodings.
  \<^item> \<open>Common_Base\<close>, \<open>IDs\<close>, \<open>Paths\<close>: reference counts, allocators (contract \<open>id_source\<close>), ranges, in-place deletion
    (\<^verbatim>\<open>refs.go\<close>, \<^verbatim>\<open>seqnum.go\<close>, \<^verbatim>\<open>range.go\<close>, \<^verbatim>\<open>hack.go\<close>); identifiers, names of files and their parsers, string encoding
    (\<^verbatim>\<open>id.go\<close>, \<^verbatim>\<open>filenames.go\<close>, \<^verbatim>\<open>marshal.go\<close>).
  \<^item> \<open>DLink\<close>, \<open>SLink\<close>, \<open>Versions\<close>: the sorted doubly linked list over a heap, refined to lists (contract \<open>payload_order\<close>, met by
    catalog entries and update nodes), singly linked lists and version lists of names, links between versions (\<^verbatim>\<open>dlnode.go\<close>, \<^verbatim>\<open>linklist.go\<close>, \<^verbatim>\<open>mvcc.go\<close>).
  \<^item> \<open>Mempool\<close>, \<open>Buffer\<close>: page pool and buffer manager (\<^verbatim>\<open>mempool.go\<close>, \<^verbatim>\<open>pkg/buffer\<close>); both are instances of the contract \<open>budget\<close>.
    Shown: exact accounting, limits, termination of eviction, the invariant of all reachable states.
  \<^item> \<open>Entry\<close>, \<open>Schema\<close>, \<open>Catalog\<close>, \<open>Printing\<close>: versioned entries and name lookup (\<^verbatim>\<open>base.go\<close>, \<^verbatim>\<open>node.go\<close>), schemas, the
    catalog tree (contract \<open>versioned\<close>, met by databases and tables), its dump.  Shown: visibility is that of a snapshot, the invariant of the catalog, isolation of
    uncommitted creations, round trips, completeness of the dump.
  \<^item> \<open>Txn\<close>, \<open>Session\<close>: contexts, the state machine of transactions, the manager with its two handlers as a step relation, the calls of a
    session (\<^verbatim>\<open>txnctx.go\<close>, \<^verbatim>\<open>txn.go\<close>, \<^verbatim>\<open>txnmgr.go\<close>, \<^verbatim>\<open>state.go\<close>, \<^verbatim>\<open>db.go\<close>).  Shown: timestamps are unique and ordered, no handler panics, every call ends.
  \<^item> \<open>Vectors\<close>, \<open>ColUpdates\<close>, \<open>Updates\<close>: keys, column vectors and batches, updates of columns and blocks, the update chain
    (\<^verbatim>\<open>helper.go\<close>, \<^verbatim>\<open>kv.go\<close>, \<^verbatim>\<open>pkg/updates\<close>).
  \<^item> \<open>Commands\<close>, \<open>CmdText\<close>: every command of the log, its encoding, decoding and text, the command collector.
  \<^item> \<open>LocalIndex\<close>, \<open>InsertNode\<close>, \<open>LocalTable\<close>, \<open>TableLog\<close>: the local rows of a transaction, their primary-key index (contract \<open>table_index\<close>), the
    nodes that hold them, unloading and loading, the commit command of a table (\<^verbatim>\<open>index.go\<close>, \<^verbatim>\<open>node.go\<close>, \<^verbatim>\<open>table.go\<close>).
  \<^item> \<open>InsertInfo\<close>, \<open>ColBlock\<close>, \<open>DataTables\<close>, \<open>BlockFile\<close>: rows visible to a snapshot, column blocks, appendable blocks and how inserted rows get into
    them, block files (contracts \<open>block_file\<close> and \<open>node_file\<close>).
  \<^item> \<open>WarChecker\<close>, \<open>TxnStore\<close>, \<open>PreCommit\<close>, \<open>Handles\<close>, \<open>Mocks\<close>: the conflict check, the store with all phases, moving rows into blocks at commit, handles and
    iterators, the mock store of the catalog tests and its agreement with the real one.
  \<^item> \<open>Publish\<close>, \<open>Engine\<close>: properties over all layers.  A table that is created and committed is found exactly by the transactions that start at the
    commit timestamp or later; a dropped one is hidden exactly from those that start after it; \<open>CommitTxn\<close> of the session, through the manager and the store
    (contract \<open>phased_store\<close>), stamps what the transaction created with the timestamp of the manager, or rolls back.

  \<^bold>\<open>Bounds and fuel.\<close>  Loops over linked lists are partial functions shown to return on every well-formed list.  \<open>LocalTable\<close> and \<open>DataTables\<close> use fuel
  for their append loops; the theorems give an amount that suffices, from the number of rows and the capacities of nodes, blocks and segments.  Decoding of
  commands uses fuel for the nesting depth, which bounds it.  Runs of the manager stop short of exhausting the 64-bit timestamps, whose largest value stands for
  "not committed"; allocators are assumed not to wrap around where a fresh identifier is needed.  Sizes that the code truncates (16-bit lengths, 32-bit quotas)
  appear as hypotheses, and the lemmas beside them show what happens beyond.

  \<^bold>\<open>Behaviour that differs from the intention\<close> is proved as it is, among others: a transaction that the conflict check refuses is reported as committed
  (theories \<open>Txn\<close> and \<open>Engine\<close>); rows that do not fit into one block are appended from the start of the node again (\<open>DataTables\<close>);
  preparing the commit of an update that is not the newest loses the newer ones (\<open>PrepareCommit_loses_newer\<close>); \<open>Unmarshal\<close> does not undo
  \<open>Marshal\<close> (\<open>unmarshal_reads_type\<close>).

  \<^bold>\<open>Not modelled.\<close>  Waiting, wake-up and parallel execution (locks, condition variables, queues as threads); logging of progress and accessors; files on disk
  (\<^verbatim>\<open>common/file.go\<close> has stubs only); the template of \<^verbatim>\<open>common/iterator\<close>, whose work is in callbacks that nobody supplies; \<^verbatim>\<open>buffer/fnode.go\<close>, which is commented out; stub handles
  (\<^verbatim>\<open>txnbase/handle.go\<close>) and test transactions (\<^verbatim>\<open>tables/mock.go\<close>, \<^verbatim>\<open>txnimpl/mock.go\<close>); the design sketches \<^verbatim>\<open>pkg/0_6\<close> and \<^verbatim>\<open>tae_v0_6\<close>, which are interfaces without code; the
  sample programs under \<^verbatim>\<open>cmd\<close>.
\<close>

end
